(* ===== verification/GoPrelude.thy ===== *)
theory GoPrelude
  imports Main "HOL-Library.AList" "HOL-Library.Multiset"
begin

text \<open>
  What the Go language and its standard library contribute to the scheduler's code, and the
  generic lemmas the components share:
  \<^item> maps (\<open>map[K]V\<close>) as association lists with distinct keys;
  \<^item> the order of a \<open>range\<close> over a map, which the language leaves open, as a permutation
    chosen by an explicit argument;
  \<^item> the 64-bit wrap-around and saturation of \<open>time.Duration\<close> arithmetic.
\<close>

named_theorems gomap_simps "reading a map after an update"
named_theorems sum_vals_simps "how an update changes a sum over a map's values"

section \<open>Maps\<close>

text \<open>
  A Go map is an association list whose keys are distinct (\<open>gwf\<close>). The position of an
  entry carries no meaning: every \<open>range\<close> goes through \<open>range_order\<close> below, and the folds
  that do not (sums of integers, existence tests) are proved independent of the order.
\<close>

type_synonym ('k, 'v) gomap = "('k \<times> 'v) list"

abbreviation gwf :: "('k, 'v) gomap \<Rightarrow> bool" where
  "gwf m \<equiv> distinct (map fst m)"

definition gget :: "('k, 'v) gomap \<Rightarrow> 'k \<Rightarrow> 'v option" where
  "gget m k = map_of m k"

abbreviation gput :: "'k \<Rightarrow> 'v \<Rightarrow> ('k, 'v) gomap \<Rightarrow> ('k, 'v) gomap" where
  "gput \<equiv> AList.update"

abbreviation gdel :: "'k \<Rightarrow> ('k, 'v) gomap \<Rightarrow> ('k, 'v) gomap" where
  "gdel \<equiv> AList.delete"

text \<open>\<open>m[k]\<close> without the second result: the element type's zero value for a missing key.\<close>

definition gget_or :: "'v \<Rightarrow> ('k, 'v) gomap \<Rightarrow> 'k \<Rightarrow> 'v" where
  "gget_or z m k = (case gget m k of None \<Rightarrow> z | Some v \<Rightarrow> v)"

lemma gget_Nil [simp]: "gget [] k = None"
  by (simp add: gget_def)

lemma gget_Cons [simp]: "gget ((k', v) # m) k = (if k = k' then Some v else gget m k)"
  by (simp add: gget_def)

lemma gget_append: "gget (m @ m') k = (case gget m k of None \<Rightarrow> gget m' k | Some v \<Rightarrow> Some v)"
  by (induction m) auto

lemma gget_map [simp]: "gget (map (\<lambda>(k, v). (k, g v)) m) k = map_option g (gget m k)"
  by (induction m) auto

lemma gwf_map: "gwf (map (\<lambda>(k, v). (k, g v)) m) = gwf m"
proof -
  have "map fst (map (\<lambda>(k, v). (k, g v)) m) = map fst m" by (induction m) auto
  then show ?thesis by (simp only:)
qed

lemma gget_gput [simp, gomap_simps]: "gget (gput k v m) k' = (if k' = k then Some v else gget m k')"
  by (simp add: gget_def update_conv')

lemma gget_gdel [simp, gomap_simps]: "gget (gdel k m) k' = (if k' = k then None else gget m k')"
  by (simp add: gget_def delete_conv')

lemma gwf_gput [simp]: "gwf m \<Longrightarrow> gwf (gput k v m)"
  by (rule distinct_update)

lemma gwf_gdel [simp]: "gwf m \<Longrightarrow> gwf (gdel k m)"
  by (rule distinct_delete)

lemma gget_or_gput [simp, gomap_simps]:
  "gget_or z (gput k v m) k' = (if k' = k then v else gget_or z m k')"
  by (simp add: gget_or_def)

lemma gget_or_Nil [simp]: "gget_or z [] k = z"
  by (simp add: gget_or_def)

lemma gget_mem: "gget m k = Some v \<Longrightarrow> (k, v) \<in> set m"
  unfolding gget_def by (rule map_of_SomeD)

lemma gget_iff_mem: "gwf m \<Longrightarrow> gget m k = Some v \<longleftrightarrow> (k, v) \<in> set m"
  unfolding gget_def by (rule map_of_eq_Some_iff)

lemma mem_gget: "gwf m \<Longrightarrow> (k, v) \<in> set m \<Longrightarrow> gget m k = Some v"
  by (simp add: gget_iff_mem)

lemma gget_None_keys: "gget m k = None \<longleftrightarrow> k \<notin> fst ` set m"
  unfolding gget_def by (simp add: map_of_eq_None_iff)

lemma gput_fresh: "gget m k = None \<Longrightarrow> gput k v m = m @ [(k, v)]"
  by (induction m) (auto split: if_splits)

lemma gdel_fresh: "gget m k = None \<Longrightarrow> gdel k m = m"
  by (simp add: gget_None_keys delete_id)

lemma set_gput_subset: "set (gput k v m) \<subseteq> insert (k, v) (set m)"
  by (induction m) auto

lemma set_gdel_subset: "set (gdel k m) \<subseteq> set m"
  by (induction m) auto

lemma length_gput: "length (gput k v m) = (if gget m k = None then Suc (length m) else length m)"
  by (induction m) auto

text \<open>Building a map from some entries of another one.\<close>

fun gmap_some :: "('k \<Rightarrow> 'v \<Rightarrow> 'w option) \<Rightarrow> ('k, 'v) gomap \<Rightarrow> ('k, 'w) gomap" where
  "gmap_some f [] = []"
| "gmap_some f ((k, v) # m) =
     (case f k v of None \<Rightarrow> gmap_some f m | Some w \<Rightarrow> (k, w) # gmap_some f m)"

lemma keys_gmap_some: "fst ` set (gmap_some f m) \<subseteq> fst ` set m"
  by (induction f m rule: gmap_some.induct) (auto split: option.splits)

lemma gget_gmap_some:
  "gwf m \<Longrightarrow> gget (gmap_some f m) k = (case gget m k of None \<Rightarrow> None | Some v \<Rightarrow> f k v)"
proof (induction f m rule: gmap_some.induct)
  case (2 f k0 v m)
  have "gget (gmap_some f m) k0 = None"
    using 2(3) keys_gmap_some [of f m] by (auto simp: gget_None_keys)
  then show ?case using 2 by (cases "f k0 v") auto
qed simp

lemma gwf_gmap_some: "gwf m \<Longrightarrow> gwf (gmap_some f m)"
proof (induction f m rule: gmap_some.induct)
  case (2 f k v m)
  then show ?case using keys_gmap_some [of f m] by (auto split: option.split)
qed simp

section \<open>Sums and counts over the values of a map\<close>

definition sum_vals :: "('v \<Rightarrow> int) \<Rightarrow> ('k, 'v) gomap \<Rightarrow> int" where
  "sum_vals f m = sum_list (map (\<lambda>(k, v). f v) m)"

definition count_vals :: "('v \<Rightarrow> bool) \<Rightarrow> ('k, 'v) gomap \<Rightarrow> int" where
  "count_vals P m = sum_vals (\<lambda>v. if P v then 1 else 0) m"

lemma sum_vals_Nil [simp]: "sum_vals f [] = 0"
  by (simp add: sum_vals_def)

lemma sum_vals_Cons [simp]: "sum_vals f ((k, v) # m) = f v + sum_vals f m"
  by (simp add: sum_vals_def)

lemma sum_vals_append [simp]: "sum_vals f (m @ m') = sum_vals f m + sum_vals f m'"
  by (simp add: sum_vals_def)

lemma sum_vals_gput [sum_vals_simps]:
  "gwf m \<Longrightarrow> sum_vals f (gput k v m) =
     sum_vals f m + f v - (case gget m k of None \<Rightarrow> 0 | Some w \<Rightarrow> f w)"
proof (induction m)
  case Nil
  then show ?case by simp
next
  case (Cons p m)
  obtain k0 v0 where p: "p = (k0, v0)" by (cases p)
  show ?case
  proof (cases "k0 = k")
    case True
    then show ?thesis using p by simp
  next
    case False
    then show ?thesis using Cons p by simp
  qed
qed

lemma sum_vals_gdel [sum_vals_simps]:
  "gwf m \<Longrightarrow> sum_vals f (gdel k m) =
     sum_vals f m - (case gget m k of None \<Rightarrow> 0 | Some w \<Rightarrow> f w)"
proof (induction m)
  case Nil
  then show ?case by simp
next
  case (Cons p m)
  obtain k0 v0 where p: "p = (k0, v0)" by (cases p)
  show ?case
  proof (cases "k0 = k")
    case True
    then have "gget m k = None" using Cons.prems p by (auto simp: gget_None_keys image_iff)
    then have "gdel k (p # m) = m" using True p by (simp add: gdel_fresh)
    then show ?thesis using True p by simp
  next
    case False
    then show ?thesis using Cons p by simp
  qed
qed

lemma sum_vals_nonneg: "(\<And>k v. (k, v) \<in> set m \<Longrightarrow> 0 \<le> f v) \<Longrightarrow> 0 \<le> sum_vals f m"
  unfolding sum_vals_def by (rule sum_list_nonneg) auto

lemma sum_vals_mono:
  "(\<And>k v. (k, v) \<in> set m \<Longrightarrow> f v \<le> g v) \<Longrightarrow> sum_vals f m \<le> sum_vals g m"
  unfolding sum_vals_def by (rule sum_list_mono) auto

lemma sum_vals_cong:
  "(\<And>k v. (k, v) \<in> set m \<Longrightarrow> f v = g v) \<Longrightarrow> sum_vals f m = sum_vals g m"
  unfolding sum_vals_def by (rule arg_cong [where f = sum_list]) auto

lemma sum_vals_add: "sum_vals (\<lambda>v. f v + g v) m = sum_vals f m + sum_vals g m"
  by (induction m) auto

lemma sum_vals_member_le:
  assumes "\<And>k v. (k, v) \<in> set m \<Longrightarrow> 0 \<le> f v" and "(k, v) \<in> set m"
  shows "f v \<le> sum_vals f m"
  using assms
proof (induction m)
  case Nil
  then show ?case by simp
next
  case (Cons p m)
  obtain k0 v0 where p: "p = (k0, v0)" by (cases p)
  have rest: "0 \<le> sum_vals f m" using Cons.prems(1) by (intro sum_vals_nonneg) auto
  have first: "0 \<le> f v0" using Cons.prems(1) p by auto
  show ?case
  proof (cases "(k, v) = p")
    case True
    then show ?thesis using p rest by simp
  next
    case False
    then have "f v \<le> sum_vals f m" using Cons by auto
    then show ?thesis using p first by simp
  qed
qed

text \<open>A sum of integers does not depend on the order in which the entries are visited.\<close>

lemma sum_vals_perm: "mset m = mset m' \<Longrightarrow> sum_vals f m = sum_vals f m'"
proof -
  assume "mset m = mset m'"
  then have "mset (map (\<lambda>(k, v). f v) m) = mset (map (\<lambda>(k, v). f v) m')" by simp
  then show ?thesis unfolding sum_vals_def by (metis sum_mset_sum_list)
qed

lemma count_vals_nonneg: "0 \<le> count_vals P m"
  by (simp add: count_vals_def sum_vals_nonneg)

section \<open>The order of a range over a map\<close>

text \<open>
  Go visits the entries of a map in an unspecified order, a new one for every \<open>range\<close>
  statement that runs. \<open>shuffle cs xs\<close> is the order in which the choices \<open>cs\<close> pick the
  entries \<open>xs\<close>; every order arises from some choices (\<open>shuffle_complete\<close>) and every
  choice list gives an order (\<open>mset_shuffle\<close>), so a theorem for all choices is a theorem
  for all executions. A value of type \<open>orders\<close> gives each \<open>range\<close> of a call its own choices: \<open>od []\<close> for
  the first one and \<open>sub od k\<close> for what runs under index \<open>k\<close>.
\<close>

type_synonym orders = "nat list \<Rightarrow> nat list"

definition sub :: "orders \<Rightarrow> nat \<Rightarrow> orders" where
  "sub od k = (\<lambda>p. od (k # p))"

function shuffle :: "nat list \<Rightarrow> 'a list \<Rightarrow> 'a list" where
  "shuffle cs [] = []"
| "shuffle [] (x # xs) = x # xs"
| "shuffle (c # cs) (x # xs) =
     (x # xs) ! (c mod length (x # xs)) #
     shuffle cs (take (c mod length (x # xs)) (x # xs) @ drop (Suc (c mod length (x # xs))) (x # xs))"
  by pat_completeness auto
termination
  by (relation "measure (\<lambda>(cs, xs). length xs)") auto

abbreviation range_order :: "orders \<Rightarrow> 'a list \<Rightarrow> 'a list" where
  "range_order od xs \<equiv> shuffle (od []) xs"

lemma mset_take_nth_drop: "i < length xs \<Longrightarrow> add_mset (xs ! i) (mset (take i xs @ drop (Suc i) xs)) = mset xs"
proof -
  assume "i < length xs"
  then have "xs = take i xs @ xs ! i # drop (Suc i) xs" by (rule id_take_nth_drop)
  then have "mset xs = mset (take i xs @ xs ! i # drop (Suc i) xs)" by simp
  then show ?thesis by simp
qed

lemma mset_shuffle [simp]: "mset (shuffle cs xs) = mset xs"
proof (induction cs xs rule: shuffle.induct)
  case (3 c cs x xs)
  have "c mod length (x # xs) < length (x # xs)" by simp
  from mset_take_nth_drop [OF this] show ?case by (simp only: shuffle.simps mset.simps "3.IH")
qed auto

lemma shuffle_single [simp]: "shuffle cs [x] = [x]"
  by (cases cs) simp_all

lemma set_shuffle [simp]: "set (shuffle cs xs) = set xs"
  by (rule mset_eq_setD [OF mset_shuffle])

lemma length_shuffle [simp]: "length (shuffle cs xs) = length xs"
  by (rule mset_eq_length [OF mset_shuffle])

lemma distinct_shuffle [simp]: "distinct (shuffle cs xs) = distinct xs"
  by (rule mset_eq_imp_distinct_iff [OF mset_shuffle])

lemma gwf_shuffle [simp]: "gwf (shuffle cs m) = gwf m"
proof -
  have "mset (map fst (shuffle cs m)) = mset (map fst m)" by simp
  then show ?thesis by (rule mset_eq_imp_distinct_iff)
qed

lemma sum_vals_shuffle [simp]: "sum_vals f (shuffle cs m) = sum_vals f m"
  by (rule sum_vals_perm) simp

lemma shuffle_complete: "mset ys = mset xs \<Longrightarrow> \<exists>cs. shuffle cs xs = ys"
proof (induction ys arbitrary: xs)
  case Nil
  then show ?case by (auto intro: exI [of _ "[]"])
next
  case (Cons y ys)
  then have "y \<in> set xs" by (metis list.set_intros(1) mset_eq_setD)
  then obtain i where i: "i < length xs" "xs ! i = y" by (auto simp: in_set_conv_nth)
  let ?r = "take i xs @ drop (Suc i) xs"
  have "add_mset y (mset ys) = add_mset y (mset ?r)"
    using Cons.prems mset_take_nth_drop [OF i(1)] i(2) by simp
  then have "mset ys = mset ?r" by (metis add_mset_remove_trivial)
  then obtain cs where cs: "shuffle cs ?r = ys" using Cons.IH by blast
  obtain z zs where zs: "xs = z # zs" using i(1) by (cases xs) auto
  have m: "i mod length (z # zs) = i" using i(1) zs by simp
  have "shuffle (i # cs) xs = xs ! i # shuffle cs ?r"
    unfolding zs shuffle.simps(3) m ..
  then show ?case using cs i(2) by blast
qed

section \<open>Durations and instants\<close>

text \<open>
  \<open>time.Duration\<close> is an \<open>int64\<close> count of nanoseconds: products wrap around
  (\<open>wrap64\<close>), and \<open>Time.Sub\<close> saturates (\<open>clamp64\<close>). An instant is the number of
  nanoseconds since Go's zero time, so \<open>IsZero\<close> is equality with 0.
\<close>

type_synonym duration = int
type_synonym time = int

definition max_int64 :: int where "max_int64 = 9223372036854775807"
definition min_int64 :: int where "min_int64 = - 9223372036854775808"

definition wrap64 :: "int \<Rightarrow> int" where
  "wrap64 n = (n + 9223372036854775808) mod 18446744073709551616 - 9223372036854775808"

definition clamp64 :: "int \<Rightarrow> int" where
  "clamp64 n = max min_int64 (min max_int64 n)"

definition seconds :: "int \<Rightarrow> duration" where
  "seconds n = wrap64 (n * 1000000000)"

definition time_sub :: "time \<Rightarrow> time \<Rightarrow> duration" where
  "time_sub t u = clamp64 (t - u)"

definition is_zero_time :: "time \<Rightarrow> bool" where
  "is_zero_time t \<longleftrightarrow> t = 0"

lemma wrap64_id: "min_int64 \<le> n \<Longrightarrow> n \<le> max_int64 \<Longrightarrow> wrap64 n = n"
  by (simp add: wrap64_def min_int64_def max_int64_def)

lemma wrap64_range: "min_int64 \<le> wrap64 n \<and> wrap64 n \<le> max_int64"
proof -
  have "0 \<le> (n + 9223372036854775808) mod 18446744073709551616"
    and "(n + 9223372036854775808) mod 18446744073709551616 < 18446744073709551616" by simp_all
  then show ?thesis unfolding wrap64_def min_int64_def max_int64_def by linarith
qed

text \<open>Up to about 292 years a number of seconds is the duration it looks like.\<close>

lemma seconds_exact: "\<bar>n\<bar> \<le> 9223372036 \<Longrightarrow> seconds n = n * 1000000000"
  unfolding seconds_def by (rule wrap64_id) (auto simp: min_int64_def max_int64_def)

lemma time_sub_less_iff: "min_int64 < d \<Longrightarrow> d \<le> max_int64 \<Longrightarrow> time_sub t u < d \<longleftrightarrow> t - u < d"
  by (auto simp: time_sub_def clamp64_def)

lemma time_sub_ge_iff: "min_int64 < d \<Longrightarrow> d \<le> max_int64 \<Longrightarrow> d \<le> time_sub t u \<longleftrightarrow> d \<le> t - u"
  by (auto simp: time_sub_def clamp64_def)

section \<open>Integer helpers\<close>

text \<open>The decimal form \<open>%d\<close> prints.\<close>

fun digits :: "nat \<Rightarrow> string" where
  "digits n = (if n < 10 then [char_of (48 + n)] else digits (n div 10) @ [char_of (48 + n mod 10)])"

declare digits.simps [simp del]

definition fmt_d :: "int \<Rightarrow> string" where
  "fmt_d n = (if n < 0 then CHR ''-'' # digits (nat (- n)) else digits (nat n))"

lemma length_filter_sum: "int (length (filter P xs)) = sum_list (map (\<lambda>x. if P x then 1 else 0) xs)"
  by (induction xs) auto

lemma sum_list_filter_mono:
  "(\<And>x. x \<in> set xs \<Longrightarrow> (0::int) \<le> f x) \<Longrightarrow> sum_list (map f (filter P xs)) \<le> sum_list (map f xs)"
  by (induction xs) (auto intro: add_increasing)

section \<open>The last element with a property\<close>

definition latest :: "('a \<Rightarrow> bool) \<Rightarrow> 'a list \<Rightarrow> 'a option" where
  "latest P xs = find P (rev xs)"

lemma latest_Nil [simp]: "latest P [] = None"
  by (simp add: latest_def)

lemma latest_append: "latest P (xs @ ys) = (case latest P ys of None \<Rightarrow> latest P xs | Some e \<Rightarrow> Some e)"
proof -
  have "find P (us @ vs) = (case find P us of None \<Rightarrow> find P vs | Some e \<Rightarrow> Some e)" for us vs
    by (induction us) auto
  then show ?thesis by (simp add: latest_def split: option.split)
qed

lemma latest_snoc: "latest P (xs @ [e]) = (if P e then Some e else latest P xs)"
  by (simp add: latest_append) (simp add: latest_def)

lemma latest_None: "latest P xs = None \<longleftrightarrow> (\<forall>e \<in> set xs. \<not> P e)"
  by (auto simp: latest_def find_None_iff)

lemma latest_Some: "latest P xs = Some e \<Longrightarrow> P e \<and> e \<in> set xs"
  by (auto simp: latest_def find_Some_iff) (metis length_rev nth_mem set_rev)

text \<open>Where at most one element has the property, the order does not matter.\<close>

lemma latest_unique:
  assumes "e \<in> set xs" and "P e" and "\<And>e'. e' \<in> set xs \<Longrightarrow> P e' \<Longrightarrow> e' = e"
  shows "latest P xs = Some e"
proof (cases "latest P xs")
  case None
  then show ?thesis using assms(1,2) unfolding latest_None by blast
next
  case (Some e')
  then have "e' = e" using latest_Some [OF Some] by (intro assms(3)) simp_all
  then show ?thesis using Some by simp
qed

lemma latest_cong: "(\<And>e. e \<in> set xs \<Longrightarrow> P e = Q e) \<Longrightarrow> latest P xs = latest Q xs"
  unfolding latest_def by (rule find_cong) auto

end
