(* ===== verification/GoSort.thy ===== *)
theory GoSort
  imports GoPrelude "HOL-Library.List_Lexorder" "HOL-Library.Char_ord"
begin

text \<open>
  \<open>sort.SliceStable\<close> and \<open>sort.Slice\<close> with the comparison function the caller passes,
  and what the engines rely on: when the comparison is a strict weak order on the elements
  present, the result is a permutation in which no element is less than an earlier one.
  Strings compare by bytes, the lexicographic order of \<open>HOL-Library.List_Lexorder\<close>.
\<close>

section \<open>The two sorting functions\<close>

fun insert_by :: "('a \<Rightarrow> 'a \<Rightarrow> bool) \<Rightarrow> 'a \<Rightarrow> 'a list \<Rightarrow> 'a list" where
  "insert_by lt x [] = [x]"
| "insert_by lt x (y # ys) = (if lt y x then y # insert_by lt x ys else x # y # ys)"

definition slice_stable :: "('a \<Rightarrow> 'a \<Rightarrow> bool) \<Rightarrow> 'a list \<Rightarrow> 'a list" where
  "slice_stable lt xs = foldr (insert_by lt) xs []"

text \<open>
  \<open>sort.Slice\<close> may leave elements the comparison does not separate in any order: a stable
  sort of some permutation of the slice, which the choices in \<open>orders\<close> select.
\<close>

definition sort_slice :: "orders \<Rightarrow> ('a \<Rightarrow> 'a \<Rightarrow> bool) \<Rightarrow> 'a list \<Rightarrow> 'a list" where
  "sort_slice od lt xs = slice_stable lt (range_order od xs)"

lemma slice_stable_Nil [simp]: "slice_stable lt [] = []"
  by (simp add: slice_stable_def)

lemma slice_stable_Cons [simp]: "slice_stable lt (x # xs) = insert_by lt x (slice_stable lt xs)"
  by (simp add: slice_stable_def)

lemma mset_insert_by [simp]: "mset (insert_by lt x xs) = add_mset x (mset xs)"
  by (induction xs) auto

lemma mset_slice_stable [simp]: "mset (slice_stable lt xs) = mset xs"
  by (induction xs) auto

lemma mset_sort_slice [simp]: "mset (sort_slice od lt xs) = mset xs"
  by (simp add: sort_slice_def)

lemma set_insert_by [simp]: "set (insert_by lt x xs) = insert x (set xs)"
  by (induction xs) auto

lemma set_slice_stable [simp]: "set (slice_stable lt xs) = set xs"
  by (induction xs) auto

lemma set_sort_slice [simp]: "set (sort_slice od lt xs) = set xs"
  by (simp add: sort_slice_def)

lemma length_slice_stable [simp]: "length (slice_stable lt xs) = length xs"
  by (rule mset_eq_length) simp

lemma length_sort_slice [simp]: "length (sort_slice od lt xs) = length xs"
  by (rule mset_eq_length) simp

lemma distinct_sort_slice [simp]: "distinct (sort_slice od lt xs) = distinct xs"
  by (rule mset_eq_imp_distinct_iff) simp

lemma distinct_slice_stable [simp]: "distinct (slice_stable lt xs) = distinct xs"
  by (rule mset_eq_imp_distinct_iff) simp

section \<open>The contract of a comparison function\<close>

text \<open>
  \<open>ok\<close> marks the elements the comparison orders: a comparison of floating-point keys is an
  order only where no key is NaN.
\<close>

locale comparison =
  fixes lt :: "'a \<Rightarrow> 'a \<Rightarrow> bool" and ok :: "'a \<Rightarrow> bool"
  assumes lt_asym: "ok x \<Longrightarrow> ok y \<Longrightarrow> lt x y \<Longrightarrow> \<not> lt y x"
    and lt_cotrans: "ok x \<Longrightarrow> ok y \<Longrightarrow> ok z \<Longrightarrow> lt x z \<Longrightarrow> lt x y \<or> lt y z"
begin

abbreviation in_order :: "'a list \<Rightarrow> bool" where
  "in_order xs \<equiv> sorted_wrt (\<lambda>x y. \<not> lt y x) xs"

lemma not_lt_trans:
  "ok x \<Longrightarrow> ok y \<Longrightarrow> ok z \<Longrightarrow> \<not> lt y x \<Longrightarrow> \<not> lt z y \<Longrightarrow> \<not> lt z x"
  using lt_cotrans by blast

lemma insert_by_in_order:
  assumes "ok x" and "\<And>y. y \<in> set xs \<Longrightarrow> ok y" and "in_order xs"
  shows "in_order (insert_by lt x xs)"
  using assms
proof (induction xs)
  case Nil
  then show ?case by simp
next
  case (Cons y ys)
  show ?case
  proof (cases "lt y x")
    case True
    then have "\<not> lt x y" using Cons.prems lt_asym by simp
    then show ?thesis using Cons True by auto
  next
    case False
    then have "\<not> lt z x" if "z \<in> set ys" for z
      using Cons.prems that not_lt_trans [of x y z] by auto
    then show ?thesis using Cons False by auto
  qed
qed

lemma slice_stable_in_order:
  "(\<And>y. y \<in> set xs \<Longrightarrow> ok y) \<Longrightarrow> in_order (slice_stable lt xs)"
  by (induction xs) (auto intro: insert_by_in_order)

lemma sort_slice_in_order:
  "(\<And>y. y \<in> set xs \<Longrightarrow> ok y) \<Longrightarrow> in_order (sort_slice od lt xs)"
  unfolding sort_slice_def by (rule slice_stable_in_order) simp

text \<open>Taking a prefix of the sorted slice takes a least part of it.\<close>

lemma prefix_least:
  assumes "\<And>y. y \<in> set xs \<Longrightarrow> ok y"
    and "x \<in> set (take n (sort_slice od lt xs))" and "y \<in> set (drop n (sort_slice od lt xs))"
  shows "\<not> lt y x"
proof -
  have "in_order (take n (sort_slice od lt xs) @ drop n (sort_slice od lt xs))"
    using sort_slice_in_order [OF assms(1)] by simp
  then show ?thesis using assms(2,3) by (simp only: sorted_wrt_append) blast
qed

lemma sort_slice_head_least:
  assumes "\<And>y. y \<in> set xs \<Longrightarrow> ok y" and "i < j" and "j < length xs"
  shows "\<not> lt (sort_slice od lt xs ! j) (sort_slice od lt xs ! i)"
  using sort_slice_in_order [OF assms(1), of xs od] assms(2,3) by (simp add: sorted_wrt_iff_nth_less)

end

text \<open>
  A comparison that separates elements with different identifiers leaves one sorted order
  only: the result does not depend on the order of the input, nor on the sorting function.
\<close>

locale total_comparison = comparison lt ok
  for lt :: "'a \<Rightarrow> 'a \<Rightarrow> bool" and ok :: "'a \<Rightarrow> bool" +
  fixes ident :: "'a \<Rightarrow> 'b"
  assumes lt_total: "ok x \<Longrightarrow> ok y \<Longrightarrow> ident x \<noteq> ident y \<Longrightarrow> lt x y \<or> lt y x"
begin

lemma in_order_unique:
  assumes "in_order xs" and "in_order ys" and "mset xs = mset ys"
    and "\<And>x. x \<in> set xs \<Longrightarrow> ok x" and "distinct (map ident xs)"
  shows "xs = ys"
  using assms
proof (induction xs arbitrary: ys)
  case Nil
  then show ?case by simp
next
  case (Cons x xs)
  obtain y zs where ys: "ys = y # zs" using Cons.prems(3) by (cases ys) auto
  have sets: "set (x # xs) = set ys" by (rule mset_eq_setD [OF Cons.prems(3)])
  have "x = y"
  proof (rule ccontr)
    assume ne: "x \<noteq> y"
    have x: "x \<in> set zs" and y: "y \<in> set xs" using sets ys ne by auto
    have ids: "ident x \<noteq> ident y" using Cons.prems(5) y by auto
    have "\<not> lt x y" using Cons.prems(2) ys x by simp
    moreover have "\<not> lt y x" using Cons.prems(1) y by simp
    ultimately show False using lt_total [OF _ _ ids] Cons.prems(4) y by auto
  qed
  moreover have "xs = zs"
    by (rule Cons.IH) (use Cons.prems ys \<open>x = y\<close> in auto)
  ultimately show ?case using ys by simp
qed

lemma slice_stable_determined:
  assumes "mset xs = mset ys" and "\<And>x. x \<in> set xs \<Longrightarrow> ok x" and "distinct (map ident xs)"
  shows "slice_stable lt xs = slice_stable lt ys"
proof (rule in_order_unique)
  have "set ys = set xs" by (rule mset_eq_setD [OF assms(1) [symmetric]])
  then show "in_order (slice_stable lt xs)" and "in_order (slice_stable lt ys)"
    using assms(2) by (auto intro: slice_stable_in_order)
  have "mset (map ident (slice_stable lt xs)) = mset (map ident xs)" by simp
  then show "distinct (map ident (slice_stable lt xs))"
    using assms(3) by (metis mset_eq_imp_distinct_iff)
qed (use assms in simp_all)

lemma sort_slice_determined:
  assumes "mset xs = mset ys" and "\<And>x. x \<in> set xs \<Longrightarrow> ok x" and "distinct (map ident xs)"
  shows "sort_slice od lt xs = sort_slice od' lt ys"
proof -
  have "set (shuffle (od []) xs) = set xs" by simp
  moreover have "mset (map ident (shuffle (od []) xs)) = mset (map ident xs)" by simp
  then have "distinct (map ident (shuffle (od []) xs))"
    using assms(3) by (metis mset_eq_imp_distinct_iff)
  ultimately show ?thesis
    unfolding sort_slice_def by (intro slice_stable_determined) (use assms in simp_all)
qed

end

text \<open>
  The ways the engines build comparisons: by one key, and by a first key with a second
  comparison for ties. Both keep the contract.
\<close>

definition by_key :: "('a \<Rightarrow> 'b::linorder) \<Rightarrow> 'a \<Rightarrow> 'a \<Rightarrow> bool" where
  "by_key f x y \<longleftrightarrow> f x < f y"

lemma comparison_by_key: "comparison (by_key f) (\<lambda>_. True)"
  by unfold_locales (auto simp: by_key_def)

lemma total_comparison_by_key: "total_comparison (by_key f) (\<lambda>_. True) f"
  by unfold_locales (auto simp: by_key_def)

lemma comparison_lex:
  assumes "comparison lt ok"
  shows "comparison (\<lambda>x y. if f x \<noteq> (f y :: 'b::linorder) then f x < f y else lt x y) ok"
proof (unfold_locales, goal_cases)
  case (1 x y)
  then show ?case
    using comparison.lt_asym [OF assms, of x y] by (auto split: if_split_asm)
next
  case (2 x y z)
  show ?case
  proof (cases "f x = f y \<and> f y = f z")
    case True
    then show ?thesis using 2 comparison.lt_cotrans [OF assms, of x y z] by simp
  next
    case False
    then show ?thesis using 2(4) by (auto split: if_split_asm)
  qed
qed

lemma total_comparison_lex:
  assumes "total_comparison lt ok ident"
  shows "total_comparison (\<lambda>x y. if f x \<noteq> (f y :: 'b::linorder) then f x < f y else lt x y) ok ident"
  unfolding total_comparison_def total_comparison_axioms_def
proof (intro conjI allI impI)
  have c: "comparison lt ok" using assms by (simp add: total_comparison_def)
  show "comparison (\<lambda>x y. if f x \<noteq> f y then f x < f y else lt x y) ok" by (rule comparison_lex [OF c])
  fix x y assume "ok x" "ok y" "ident x \<noteq> ident y"
  then have "lt x y \<or> lt y x" by (rule total_comparison.lt_total [OF assms])
  then show "(if f x \<noteq> f y then f x < f y else lt x y) \<or> (if f y \<noteq> f x then f y < f x else lt y x)"
    by auto
qed

end
