(* ===== verification/GoFloat.thy ===== *)
theory GoFloat
  imports GoSort "HOL-Library.Log_Nat"
begin

text \<open>
  Go's \<open>float64\<close>: IEEE 754 binary64 with round-to-nearest-even, as the engines use it.
  A finite value is the rational it stands for; every operation computes the exact rational
  result and rounds it to 53 significant bits (\<open>round64\<close>), so \<open>0.85\<close>, \<open>1.0/3\<close> and
  \<open>1.0 - free/total\<close> are the values the machine has, not the ideal ones. The sign of zero
  is not kept: the code never divides by a computed zero whose sign could matter.
  Locale \<open>rounding\<close> states the laws of a rounding function that the engines' bounds rest
  on; its interpretation at the end of the section proves them for \<open>rnd64\<close>.
\<close>

section \<open>Rounding\<close>

definition ilog2 :: "rat \<Rightarrow> int" where
  "ilog2 x = (case quotient_of x of (n, d) \<Rightarrow>
     let k = bitlen n - bitlen d in if 2 powi k \<le> x then k else k - 1)"

definition round_half_even :: "rat \<Rightarrow> int" where
  "round_half_even x = (let f = \<lfloor>x\<rfloor>; r = x - of_int f in
     if r < 1/2 then f else if 1/2 < r then f + 1 else if even f then f else f + 1)"

text \<open>The exponent of the unit in the last place; subnormal numbers share the least one.\<close>

definition ulp_exp :: "rat \<Rightarrow> int" where
  "ulp_exp x = max (ilog2 x) (- 1022) - 52"

definition rnd_pos :: "rat \<Rightarrow> rat" where
  "rnd_pos x = (if x = 0 then 0 else
     of_int (round_half_even (x / 2 powi (ulp_exp x))) * 2 powi (ulp_exp x))"

definition rnd64 :: "rat \<Rightarrow> rat" where
  "rnd64 x = (if x < 0 then - rnd_pos (- x) else rnd_pos x)"

lemma ilog2_bounds:
  assumes "0 < x"
  shows "2 powi (ilog2 x) \<le> x \<and> x < 2 powi (ilog2 x + 1)"
proof -
  obtain n d where q: "quotient_of x = (n, d)" by (cases "quotient_of x")
  then have d: "0 < d" and x: "x = of_int n / of_int d"
    using quotient_of_denom_pos quotient_of_div by blast+
  then have n: "0 < n" using assms by (simp add: zero_less_divide_iff)
  have bl: "0 < bitlen n" "0 < bitlen d" using n d bitlen_nonneg [of n] bitlen_nonneg [of d] bitlen_eq_zero_iff [of n] bitlen_eq_zero_iff [of d]
    by linarith+
  have "2 ^ nat (bitlen n - 1) \<le> n \<and> n < 2 ^ nat (bitlen n)" using bitlen_bounds [OF n] .
  then have "(of_int (2 ^ nat (bitlen n - 1)) :: rat) \<le> of_int n \<and>
      (of_int n :: rat) < of_int (2 ^ nat (bitlen n))"
    by (simp only: of_int_le_iff of_int_less_iff)
  then have n': "(2::rat) powi (bitlen n - 1) \<le> of_int n" "of_int n < (2::rat) powi (bitlen n)"
    using bl by (simp_all add: power_int_def)
  have "2 ^ nat (bitlen d - 1) \<le> d \<and> d < 2 ^ nat (bitlen d)" using bitlen_bounds [OF d] .
  then have "(of_int (2 ^ nat (bitlen d - 1)) :: rat) \<le> of_int d \<and>
      (of_int d :: rat) < of_int (2 ^ nat (bitlen d))"
    by (simp only: of_int_le_iff of_int_less_iff)
  then have d': "(2::rat) powi (bitlen d - 1) \<le> of_int d" "of_int d < (2::rat) powi (bitlen d)"
    using bl by (simp_all add: power_int_def)
  let ?k = "bitlen n - bitlen d"
  have dpos: "(0::rat) < of_int d" using d by simp
  have "(2::rat) powi (?k - 1) * of_int d \<le> 2 powi (?k - 1) * 2 powi (bitlen d)"
    using d'(2) by (intro mult_left_mono) auto
  also have "\<dots> = 2 powi (bitlen n - 1)" by (simp flip: power_int_add)
  also have "\<dots> \<le> of_int n" by (rule n'(1))
  finally have lo: "2 powi (?k - 1) \<le> x" using dpos by (simp add: x le_divide_eq)
  have "of_int n < (2::rat) powi (bitlen n)" by (rule n'(2))
  also have "\<dots> = 2 powi (?k + 1) * 2 powi (bitlen d - 1)" by (simp flip: power_int_add)
  also have "\<dots> \<le> 2 powi (?k + 1) * of_int d" using d'(1) by (intro mult_left_mono) auto
  finally have hi: "x < 2 powi (?k + 1)" using dpos by (simp add: x divide_less_eq)
  show ?thesis using lo hi by (simp add: ilog2_def q Let_def)
qed

lemma ilog2_mono:
  assumes "0 < x" and "x \<le> y"
  shows "ilog2 x \<le> ilog2 y"
proof (rule ccontr)
  assume "\<not> ilog2 x \<le> ilog2 y"
  then have "(2::rat) powi (ilog2 y + 1) \<le> 2 powi (ilog2 x)"
    by (intro power_int_increasing) auto
  then show False using ilog2_bounds [OF assms(1)] ilog2_bounds [of y] assms by linarith
qed

lemma round_half_even_int [simp]: "round_half_even (of_int n) = n"
  by (simp add: round_half_even_def)

lemma round_half_even_floor:
  "\<lfloor>x\<rfloor> \<le> round_half_even x \<and> round_half_even x \<le> \<lfloor>x\<rfloor> + 1"
  by (simp add: round_half_even_def Let_def)

lemma round_half_even_mono:
  assumes "x \<le> y"
  shows "round_half_even x \<le> round_half_even y"
proof (cases "\<lfloor>x\<rfloor> = \<lfloor>y\<rfloor>")
  case True
  then show ?thesis using assms by (auto simp: round_half_even_def Let_def)
next
  case False
  then have "\<lfloor>x\<rfloor> + 1 \<le> \<lfloor>y\<rfloor>" using floor_mono [OF assms] by linarith
  then show ?thesis using round_half_even_floor [of x] round_half_even_floor [of y] by linarith
qed

lemma rnd_pos_nonneg: "0 \<le> x \<Longrightarrow> 0 \<le> rnd_pos x"
proof -
  assume "0 \<le> x"
  then have "0 \<le> x / 2 powi (ulp_exp x)" by simp
  then have "0 \<le> round_half_even (x / 2 powi (ulp_exp x))"
    using round_half_even_mono [of 0] round_half_even_int [of 0] by fastforce
  then show ?thesis by (simp add: rnd_pos_def)
qed

text \<open>A number with at most 53 significant bits is not changed.\<close>

lemma rnd_pos_scaled:
  assumes "0 < x" and "x = of_int m * 2 powi k" and "ulp_exp x \<le> k"
  shows "rnd_pos x = x"
proof -
  let ?n = "nat (k - ulp_exp x)"
  have "x / 2 powi (ulp_exp x) = of_int m * 2 powi (k - ulp_exp x)"
    by (simp add: assms(2) power_int_diff flip: assms(2))
  also have "\<dots> = of_int (m * 2 ^ ?n)" using assms(3) by (simp add: power_int_def)
  finally have eq: "x / 2 powi (ulp_exp x) = of_int (m * 2 ^ ?n)" .
  have "rnd_pos x = (x / 2 powi (ulp_exp x)) * 2 powi (ulp_exp x)"
    unfolding rnd_pos_def eq round_half_even_int using assms(1) by simp
  then show ?thesis by simp
qed

lemma ulp_exp_le:
  assumes "0 < x" and "x < 2 powi (k + 53)" and "- 1074 \<le> k"
  shows "ulp_exp x \<le> k"
proof -
  have "(2::rat) powi (ilog2 x) < 2 powi (k + 53)" using ilog2_bounds [OF assms(1)] assms(2) by linarith
  moreover have "(2::rat) powi (k + 53) \<le> 2 powi (ilog2 x)" if "k + 53 \<le> ilog2 x"
    using that by (intro power_int_increasing) auto
  ultimately have "ilog2 x < k + 53" by (meson leD leI)
  then show ?thesis using assms(3) by (simp add: ulp_exp_def)
qed

lemma rnd_pos_dyadic:
  assumes "0 < m" and "m < 2 ^ 53" and "- 1074 \<le> k"
  shows "rnd_pos (of_int m * 2 powi k) = of_int m * 2 powi k"
proof (rule rnd_pos_scaled [OF _ refl ulp_exp_le])
  have "(of_int m :: rat) < of_int (2 ^ 53)" using assms(2) by (simp only: of_int_less_iff)
  then have "(of_int m :: rat) * 2 powi k < 2 powi 53 * 2 powi k" by simp
  also have "\<dots> = 2 powi (k + 53)" using power_int_add [of "2::rat" k 53] by simp
  finally show "(of_int m :: rat) * 2 powi k < 2 powi (k + 53)" .
qed (use assms in auto)

lemma rnd_pos_int:
  assumes "0 \<le> n" and "n \<le> 2 ^ 53"
  shows "rnd_pos (of_int n) = of_int n"
proof -
  consider "n = 0" | "0 < n" "n < 2 ^ 53" | "n = 2 ^ 53" using assms by linarith
  then show ?thesis
  proof cases
    case 1
    then show ?thesis by (simp add: rnd_pos_def)
  next
    case 2
    then show ?thesis using rnd_pos_dyadic [of n 0] by simp
  next
    case 3
    then show ?thesis using rnd_pos_dyadic [of 1 53] by simp
  qed
qed

text \<open>Rounding keeps the order, within a binade and across binades.\<close>

lemma rnd_pos_mono:
  assumes "0 \<le> x" and "x \<le> y"
  shows "rnd_pos x \<le> rnd_pos y"
proof (cases "x = 0")
  case True
  then show ?thesis using rnd_pos_nonneg [of y] assms by (simp add: rnd_pos_def)
next
  case False
  then have x: "0 < x" and y: "0 < y" using assms by simp_all
  have le: "ulp_exp x \<le> ulp_exp y" using ilog2_mono [OF x assms(2)] by (simp add: ulp_exp_def)
  show ?thesis
  proof (cases "ulp_exp x = ulp_exp y")
    case True
    have "x / 2 powi (ulp_exp y) \<le> y / 2 powi (ulp_exp y)"
      using assms(2) by (intro divide_right_mono) auto
    from round_half_even_mono [OF this] show ?thesis using x y True by (simp add: rnd_pos_def)
  next
    case False
    let ?a = "ulp_exp x" and ?b = "ulp_exp y"
    have lt: "?a + 1 \<le> ?b" using le False by simp
    have b: "?b = ilog2 y - 52" using lt by (auto simp: ulp_exp_def)
    have "x < 2 powi (?a + 53)"
    proof -
      have "(2::rat) powi (ilog2 x + 1) \<le> 2 powi (?a + 53)"
        by (intro power_int_increasing) (auto simp: ulp_exp_def)
      then show ?thesis using ilog2_bounds [OF x] by linarith
    qed
    then have "x / 2 powi ?a \<le> of_int (2 ^ 53)"
      using power_int_add [of "2::rat" ?a 53] by (simp add: divide_le_eq)
    from round_half_even_mono [OF this] have "round_half_even (x / 2 powi ?a) \<le> 2 ^ 53"
      by (simp only: round_half_even_int)
    then have "(of_int (round_half_even (x / 2 powi ?a)) :: rat) \<le> of_int (2 ^ 53)"
      by (simp only: of_int_le_iff)
    then have "rnd_pos x \<le> 2 ^ 53 * 2 powi ?a" using x by (simp add: rnd_pos_def)
    also have "\<dots> = 2 powi (?a + 53)" using power_int_add [of "2::rat" ?a 53] by simp
    also have "\<dots> \<le> 2 powi (?b + 52)" using lt by (intro power_int_increasing) auto
    also have "\<dots> = of_int (2 ^ 52) * 2 powi ?b" using power_int_add [of "2::rat" ?b 52] by simp
    also have "\<dots> \<le> rnd_pos y"
    proof -
      have "2 powi (?b + 52) \<le> y" using ilog2_bounds [OF y] by (simp add: b)
      then have "of_int (2 ^ 52) \<le> y / 2 powi ?b"
        using power_int_add [of "2::rat" ?b 52] by (simp add: le_divide_eq)
      from round_half_even_mono [OF this] have "2 ^ 52 \<le> round_half_even (y / 2 powi ?b)"
        by (simp only: round_half_even_int)
      then have "(of_int (2 ^ 52) :: rat) \<le> of_int (round_half_even (y / 2 powi ?b))"
        by (simp only: of_int_le_iff)
      then show ?thesis using y by (simp add: rnd_pos_def)
    qed
    finally show ?thesis .
  qed
qed

section \<open>The laws of rounding\<close>

locale rounding =
  fixes rnd :: "rat \<Rightarrow> rat"
  assumes rnd_mono: "x \<le> y \<Longrightarrow> rnd x \<le> rnd y"
    and rnd_int: "\<bar>n\<bar> \<le> 2 ^ 53 \<Longrightarrow> rnd (of_int n) = of_int n"
begin

lemma rnd_0: "rnd 0 = 0"
  using rnd_int [of 0] by simp

lemma rnd_1: "rnd 1 = 1"
  using rnd_int [of 1] by simp

lemma rnd_ge_int: "\<bar>n\<bar> \<le> 2 ^ 53 \<Longrightarrow> of_int n \<le> x \<Longrightarrow> of_int n \<le> rnd x"
  using rnd_mono [of "of_int n" x] by (simp add: rnd_int)

lemma rnd_le_int: "\<bar>n\<bar> \<le> 2 ^ 53 \<Longrightarrow> x \<le> of_int n \<Longrightarrow> rnd x \<le> of_int n"
  using rnd_mono [of x "of_int n"] by (simp add: rnd_int)

lemma rnd_nonneg: "0 \<le> x \<Longrightarrow> 0 \<le> rnd x"
  using rnd_mono [of 0 x] by (simp add: rnd_0)

lemma rnd_ge_1: "1 \<le> x \<Longrightarrow> 1 \<le> rnd x"
  using rnd_mono [of 1 x] by (simp add: rnd_1)

lemma rnd_unit: "0 \<le> x \<Longrightarrow> x \<le> 1 \<Longrightarrow> 0 \<le> rnd x \<and> rnd x \<le> 1"
  using rnd_nonneg rnd_mono [of x 1] by (simp add: rnd_1)

text \<open>One minus a rounded quotient of the unit interval stays in it.\<close>

lemma rnd_complement: "0 \<le> x \<Longrightarrow> x \<le> 1 \<Longrightarrow> 0 \<le> rnd (1 - rnd x) \<and> rnd (1 - rnd x) \<le> 1"
  using rnd_unit [of x] rnd_unit [of "1 - rnd x"] by simp

end

interpretation rnd64: rounding rnd64
proof (unfold_locales, goal_cases)
  case (1 x y)
  then show ?case
    using rnd_pos_mono [of x y] rnd_pos_mono [of "- y" "- x"] rnd_pos_nonneg [of "- x"]
      rnd_pos_nonneg [of y]
    by (auto simp: rnd64_def)
next
  case (2 n)
  then show ?case using rnd_pos_int [of n] rnd_pos_int [of "- n"] by (auto simp: rnd64_def)
qed

section \<open>The type and its operations\<close>

datatype f64 = Fin rat | PInf | NInf | NaN

text \<open>
  A rational to the nearest \<open>float64\<close>. Values that round to \<open>2^1024\<close> or more overflow to
  an infinity; below the last binade the test on the significand is not needed.
\<close>

definition round64 :: "rat \<Rightarrow> f64" where
  "round64 x =
     (let e = ilog2 \<bar>x\<bar> in
      if x = 0 \<or> e < 1023
        \<or> (e = 1023 \<and> round_half_even (\<bar>x\<bar> / 2 powi 971) < 9007199254740992)
      then Fin (rnd64 x) else if 0 < x then PInf else NInf)"

abbreviation f_zero :: f64 where "f_zero \<equiv> Fin 0"
abbreviation f_one :: f64 where "f_one \<equiv> Fin 1"

definition f_of_int :: "int \<Rightarrow> f64" where
  "f_of_int n = round64 (of_int n)"

fun f_neg :: "f64 \<Rightarrow> f64" where
  "f_neg (Fin x) = Fin (- x)"
| "f_neg PInf = NInf"
| "f_neg NInf = PInf"
| "f_neg NaN = NaN"

fun f_add :: "f64 \<Rightarrow> f64 \<Rightarrow> f64" where
  "f_add (Fin x) (Fin y) = round64 (x + y)"
| "f_add NaN b = NaN"
| "f_add a NaN = NaN"
| "f_add PInf NInf = NaN"
| "f_add NInf PInf = NaN"
| "f_add PInf b = PInf"
| "f_add NInf b = NInf"
| "f_add a PInf = PInf"
| "f_add a NInf = NInf"

definition f_sub :: "f64 \<Rightarrow> f64 \<Rightarrow> f64" where
  "f_sub a b = f_add a (f_neg b)"

definition inf_of_sign :: "rat \<Rightarrow> f64" where
  "inf_of_sign s = (if s = 0 then NaN else if 0 < s then PInf else NInf)"

fun f_sgn :: "f64 \<Rightarrow> rat" where
  "f_sgn (Fin x) = sgn x"
| "f_sgn PInf = 1"
| "f_sgn NInf = - 1"
| "f_sgn NaN = 0"

fun f_mul :: "f64 \<Rightarrow> f64 \<Rightarrow> f64" where
  "f_mul (Fin x) (Fin y) = round64 (x * y)"
| "f_mul a b = inf_of_sign (f_sgn a * f_sgn b)"

text \<open>A division by zero gives an infinity or NaN, it does not panic.\<close>

fun f_div :: "f64 \<Rightarrow> f64 \<Rightarrow> f64" where
  "f_div (Fin x) (Fin y) = (if y = 0 then inf_of_sign (sgn x) else round64 (x / y))"
| "f_div NaN b = NaN"
| "f_div a NaN = NaN"
| "f_div (Fin x) b = Fin 0"
| "f_div a (Fin y) = (if y < 0 then f_neg a else a)"
| "f_div a b = NaN"

fun f_abs :: "f64 \<Rightarrow> f64" where
  "f_abs (Fin x) = Fin \<bar>x\<bar>"
| "f_abs NaN = NaN"
| "f_abs b = PInf"

fun f_lt :: "f64 \<Rightarrow> f64 \<Rightarrow> bool" where
  "f_lt (Fin x) (Fin y) = (x < y)"
| "f_lt NaN b = False"
| "f_lt a NaN = False"
| "f_lt a NInf = False"
| "f_lt NInf b = True"
| "f_lt PInf b = False"
| "f_lt a PInf = True"

abbreviation f_gt :: "f64 \<Rightarrow> f64 \<Rightarrow> bool" where
  "f_gt a b \<equiv> f_lt b a"

definition f_eq :: "f64 \<Rightarrow> f64 \<Rightarrow> bool" where
  "f_eq a b \<longleftrightarrow> a = b \<and> a \<noteq> NaN"

text \<open>\<open>math.Max\<close>, \<open>math.Min\<close>: an infinity wins over NaN.\<close>

definition f_max :: "f64 \<Rightarrow> f64 \<Rightarrow> f64" where
  "f_max a b = (if a = PInf \<or> b = PInf then PInf
     else if a = NaN \<or> b = NaN then NaN else if f_gt a b then a else b)"

definition f_min :: "f64 \<Rightarrow> f64 \<Rightarrow> f64" where
  "f_min a b = (if a = NInf \<or> b = NInf then NInf
     else if a = NaN \<or> b = NaN then NaN else if f_lt a b then a else b)"

fun f_ceil :: "f64 \<Rightarrow> f64" where
  "f_ceil (Fin x) = Fin (of_int \<lceil>x\<rceil>)"
| "f_ceil b = b"

text \<open>
  The conversion \<open>int(f)\<close> truncates towards zero. What it gives for NaN and for values out
  of range is implementation-defined; the model has the value of amd64, the least integer.
\<close>

fun f_to_int :: "f64 \<Rightarrow> int" where
  "f_to_int (Fin x) =
     (let n = (if 0 \<le> x then \<lfloor>x\<rfloor> else \<lceil>x\<rceil>)
      in if min_int64 \<le> n \<and> n \<le> max_int64 then n else min_int64)"
| "f_to_int b = min_int64"

section \<open>Facts about the operations\<close>

lemma ilog2_less:
  assumes "0 < x" and "x < 2 powi k"
  shows "ilog2 x < k"
proof (rule ccontr)
  assume "\<not> ilog2 x < k"
  then have "(2::rat) powi k \<le> 2 powi (ilog2 x)" by (intro power_int_increasing) auto
  then show False using ilog2_bounds [OF assms(1)] assms(2) by linarith
qed

lemma round64_Fin: "\<bar>x\<bar> < 2 powi 1023 \<Longrightarrow> round64 x = Fin (rnd64 x)"
  using ilog2_less [of "\<bar>x\<bar>" 1023] by (cases "x = 0") (simp_all add: round64_def Let_def)

lemma small_powi: "\<bar>x\<bar> \<le> 2 ^ 64 \<Longrightarrow> \<bar>x\<bar> < (2::rat) powi 1023"
proof -
  assume "\<bar>x\<bar> \<le> 2 ^ 64"
  also have "(2::rat) ^ 64 = 2 powi 64" by simp
  also have "\<dots> < 2 powi 1023" by (rule power_int_strict_increasing) simp_all
  finally show ?thesis .
qed

lemma round64_small: "\<bar>x\<bar> \<le> 2 ^ 64 \<Longrightarrow> round64 x = Fin (rnd64 x)"
  by (rule round64_Fin [OF small_powi])

lemma round64_int: "\<bar>n\<bar> \<le> 2 ^ 53 \<Longrightarrow> round64 (of_int n) = Fin (of_int n)"
proof -
  assume n: "\<bar>n\<bar> \<le> 2 ^ 53"
  then have "\<bar>of_int n :: rat\<bar> \<le> of_int (2 ^ 53)" by (simp only: of_int_abs [symmetric] of_int_le_iff)
  then show ?thesis using round64_small [of "of_int n"] rnd64.rnd_int [OF n] by simp
qed

lemma f_of_int_exact: "\<bar>n\<bar> \<le> 2 ^ 53 \<Longrightarrow> f_of_int n = Fin (of_int n)"
  unfolding f_of_int_def by (rule round64_int)

lemma f_of_int_numeral [simp]:
  "f_of_int 0 = Fin 0" "f_of_int 1 = Fin 1"
  using f_of_int_exact [of 0] f_of_int_exact [of 1] by simp_all

text \<open>A quotient of two counts, the first at most the second, is in the unit interval.\<close>

lemma f_ratio:
  assumes "0 \<le> a" and "a \<le> b" and "0 < b" and "b \<le> 2 ^ 53"
  shows "f_div (f_of_int a) (f_of_int b) = Fin (rnd64 (of_int a / of_int b))
    \<and> 0 \<le> (of_int a :: rat) / of_int b \<and> (of_int a :: rat) / of_int b \<le> 1"
proof -
  have unit: "0 \<le> (of_int a :: rat) / of_int b \<and> (of_int a :: rat) / of_int b \<le> 1"
    using assms by (simp add: divide_le_eq)
  then have "\<bar>(of_int a :: rat) / of_int b\<bar> \<le> 1" by (simp only: abs_of_nonneg)
  then have "\<bar>(of_int a :: rat) / of_int b\<bar> \<le> 2 ^ 64" by (rule order_trans) simp
  from round64_small [OF this] show ?thesis
    using unit assms by (simp add: f_of_int_exact)
qed

lemma f_complement_ratio:
  assumes "0 \<le> a" and "a \<le> b" and "0 < b" and "b \<le> 2 ^ 53"
  obtains q where "f_sub f_one (f_div (f_of_int a) (f_of_int b)) = Fin q" and "0 \<le> q" and "q \<le> 1"
proof -
  let ?x = "(of_int a :: rat) / of_int b"
  have r: "f_div (f_of_int a) (f_of_int b) = Fin (rnd64 ?x)" and u: "0 \<le> ?x" "?x \<le> 1"
    using f_ratio [OF assms] by auto
  have c: "0 \<le> rnd64 ?x \<and> rnd64 ?x \<le> 1" by (rule rnd64.rnd_unit [OF u])
  then have "\<bar>1 - rnd64 ?x\<bar> \<le> 2 ^ 64" by simp
  from round64_small [OF this]
  have "f_sub f_one (f_div (f_of_int a) (f_of_int b)) = Fin (rnd64 (1 - rnd64 ?x))"
    by (simp add: r f_sub_def)
  with rnd64.rnd_complement [OF u] that show ?thesis by blast
qed

lemma f_lt_irrefl [simp]: "\<not> f_lt a a"
  by (cases a) auto

lemma f_lt_asym: "f_lt a b \<Longrightarrow> \<not> f_lt b a"
  by (cases a; cases b) auto

lemma f_lt_cotrans: "f_lt a c \<Longrightarrow> b \<noteq> NaN \<Longrightarrow> f_lt a b \<or> f_lt b c"
  by (cases a; cases b; cases c) auto

lemma f_lt_total: "a \<noteq> NaN \<Longrightarrow> b \<noteq> NaN \<Longrightarrow> f_lt a b \<or> a = b \<or> f_lt b a"
  by (cases a; cases b) auto

lemma f_lt_trans: "f_lt a b \<Longrightarrow> f_lt b c \<Longrightarrow> f_lt a c"
  by (cases a; cases b; cases c) auto

lemma f_to_int_int: "min_int64 \<le> n \<Longrightarrow> n \<le> max_int64 \<Longrightarrow> f_to_int (Fin (of_int n)) = n"
  by simp

text \<open>Scaling a count by a factor of at least one and rounding up does not lose any of it.\<close>

lemma ceil_product_ge:
  assumes "0 \<le> n" and "n \<le> 2 ^ 53" and "0 \<le> m" and "m \<le> 2 ^ 53"
    and nq: "of_int m \<le> of_int n * q" and "of_int n * q \<le> 2 ^ 62"
  shows "m \<le> f_to_int (f_ceil (f_mul (f_of_int n) (Fin q)))"
proof -
  have n: "f_of_int n = Fin (of_int n)" using assms(1,2) by (simp add: f_of_int_exact)
  have pos: "0 \<le> (of_int n :: rat) * q"
    by (rule order_trans [OF _ nq]) (use assms(3) in simp)
  then have "\<bar>(of_int n :: rat) * q\<bar> \<le> 2 ^ 64" using assms(6) by simp
  from round64_small [OF this] have prod: "f_mul (f_of_int n) (Fin q) = Fin (rnd64 (of_int n * q))"
    by (simp add: n)
  have lo: "of_int m \<le> rnd64 (of_int n * q)"
    using rnd64.rnd_ge_int [OF _ nq] assms(3,4) by simp
  have "rnd64 (of_int n * q) \<le> rnd64 (2 ^ 62)" by (rule rnd64.rnd_mono [OF assms(6)])
  also have "\<dots> = 2 ^ 62" using rnd_pos_dyadic [of 1 62] by (simp add: rnd64_def)
  finally have hi: "\<lceil>rnd64 (of_int n * q)\<rceil> \<le> 2 ^ 62" by (simp add: ceiling_le_iff)
  have le: "m \<le> \<lceil>rnd64 (of_int n * q)\<rceil>" using lo by (simp add: le_ceiling_iff)
  have "f_to_int (Fin (of_int \<lceil>rnd64 (of_int n * q)\<rceil>)) = \<lceil>rnd64 (of_int n * q)\<rceil>"
  proof (rule f_to_int_int)
    show "min_int64 \<le> \<lceil>rnd64 (of_int n * q)\<rceil>"
      using le assms(3) unfolding min_int64_def by linarith
    show "\<lceil>rnd64 (of_int n * q)\<rceil> \<le> max_int64"
      by (rule order_trans [OF hi]) (simp add: max_int64_def)
  qed
  with le show ?thesis by (simp only: prod f_ceil.simps)
qed

section \<open>Sorting by a \<open>float64\<close> key, the greatest first\<close>

definition by_key_desc :: "('a \<Rightarrow> f64) \<Rightarrow> ('a \<Rightarrow> 'a \<Rightarrow> bool) \<Rightarrow> 'a \<Rightarrow> 'a \<Rightarrow> bool" where
  "by_key_desc key lt x y = (if \<not> f_eq (key x) (key y) then f_gt (key x) (key y) else lt x y)"

lemma comparison_by_key_desc:
  assumes "comparison lt ok" and "\<And>x. ok x \<Longrightarrow> key x \<noteq> NaN"
  shows "comparison (by_key_desc key lt) ok"
proof (unfold_locales, goal_cases)
  case (1 x y)
  then show ?case
    using comparison.lt_asym [OF assms(1) 1(1,2)] assms(2) f_lt_asym [of "key y" "key x"]
    by (auto simp: by_key_desc_def f_eq_def split: if_split_asm)
next
  case (2 x y z)
  note n = assms(2) [OF 2(1)] assms(2) [OF 2(2)] assms(2) [OF 2(3)]
  show ?case
  proof (cases "key x = key y \<and> key y = key z")
    case True
    then show ?thesis
      using 2 comparison.lt_cotrans [OF assms(1), of x y z] n by (simp add: by_key_desc_def f_eq_def)
  next
    case False
    then show ?thesis
      using 2(4) n f_lt_cotrans [of "key z" "key x" "key y"] f_lt_total [of "key x" "key y"]
        f_lt_total [of "key y" "key z"]
      by (auto simp: by_key_desc_def f_eq_def split: if_split_asm)
  qed
qed

lemma total_comparison_by_key_desc:
  assumes "total_comparison lt ok ident" and "\<And>x. ok x \<Longrightarrow> key x \<noteq> NaN"
  shows "total_comparison (by_key_desc key lt) ok ident"
  unfolding total_comparison_def total_comparison_axioms_def
proof (intro conjI allI impI)
  have "comparison lt ok" using assms(1) by (simp add: total_comparison_def)
  then show "comparison (by_key_desc key lt) ok" by (rule comparison_by_key_desc) (rule assms(2))
  fix x y assume ok: "ok x" "ok y" "ident x \<noteq> ident y"
  then show "by_key_desc key lt x y \<or> by_key_desc key lt y x"
    using total_comparison.lt_total [OF assms(1) ok] f_lt_total [of "key x" "key y"]
      assms(2) [OF ok(1)] assms(2) [OF ok(2)]
    by (auto simp: by_key_desc_def f_eq_def)
qed

text \<open>A first comparison, and a second one where the first does not separate.\<close>

lemma comparison_then:
  assumes "comparison l1 ok" and "comparison l2 ok"
    and eq: "\<And>x y. ok x \<Longrightarrow> ok y \<Longrightarrow> eq x y \<longleftrightarrow> \<not> l1 x y \<and> \<not> l1 y x"
  shows "comparison (\<lambda>x y. if \<not> eq x y then l1 x y else l2 x y) ok"
proof (unfold_locales, goal_cases)
  case (1 x y)
  then show ?case
    using comparison.lt_asym [OF assms(1) 1(1,2)] comparison.lt_asym [OF assms(2) 1(1,2)]
      eq [OF 1(1,2)] eq [OF 1(2,1)] by (auto split: if_split_asm)
next
  case (2 x y z)
  note E = eq [OF 2(1,2)] eq [OF 2(2,3)] eq [OF 2(1,3)]
  note c1 = comparison.lt_cotrans [OF assms(1)]
  have "l1 x z \<Longrightarrow> l1 x y \<or> l1 y z" by (rule c1 [OF 2(1-3)])
  moreover have "l1 x y \<Longrightarrow> l1 x z \<or> l1 z y" by (rule c1 [OF 2(1,3,2)])
  moreover have "l1 y x \<Longrightarrow> l1 y z \<or> l1 z x" by (rule c1 [OF 2(2,3,1)])
  moreover have "l1 z y \<Longrightarrow> l1 z x \<or> l1 x y" by (rule c1 [OF 2(3,1,2)])
  moreover have "l1 y z \<Longrightarrow> l1 y x \<or> l1 x z" by (rule c1 [OF 2(2,1,3)])
  moreover have "l2 x z \<Longrightarrow> l2 x y \<or> l2 y z" by (rule comparison.lt_cotrans [OF assms(2) 2(1-3)])
  ultimately show ?case using 2(4) E by (auto split: if_split_asm)
qed

lemma comparison_f64_key: "comparison (\<lambda>x y. f_lt (key x) (key y)) (\<lambda>x. key x \<noteq> NaN)"
  by unfold_locales (auto dest: f_lt_asym f_lt_cotrans)

end
