(* ===== verification/Model.thy ===== *)
theory Model
  imports GoPrelude GoSort GoFloat
begin

text \<open>
  The shared domain types of \<open>pkg/model\<close>: one \<^theory_text>\<open>record\<close> per struct, one
  \<^theory_text>\<open>datatype\<close> per string enumeration. A field keeps the source's name behind a
  prefix for its struct, since records of one theory share a name space. Identifiers are
  strings; the identifiers' aliases are the source's. GPU and replica counts are \<open>int\<close>
  values far inside the 64-bit range and are not wrapped; durations and instants are
  (theory \<open>GoPrelude\<close>).
\<close>

section \<open>Identifiers and enumerations\<close>

type_synonym ClusterID = string
type_synonym NodeID = string
type_synonym AppID = string
type_synonym ReplicaID = string
type_synonym ModelID = string
type_synonym ReservationID = string
type_synonym OperationID = string

datatype NodeStatus = NodeStatusReady | NodeStatusCordoned | NodeStatusDraining | NodeStatusDown

datatype ReplicaStatus =
  ReplicaStatusPending | ReplicaStatusRunning | ReplicaStatusDraining | ReplicaStatusTerminated

definition AllReplicaStatuses :: "ReplicaStatus list" where
  "AllReplicaStatuses =
     [ReplicaStatusPending, ReplicaStatusRunning, ReplicaStatusDraining, ReplicaStatusTerminated]"

datatype CacheTier = CacheTierGPUMemory | CacheTierLocalNVMe | CacheTierClusterStorage

text \<open>The empty rule is the zero value an application built in code has.\<close>

datatype FailureDomainRule = FailureDomainSpreadClusters | FailureDomainNone | FailureDomainUnset

datatype ReservationStatus =
  ReservationStatusActive | ReservationStatusFulfilled | ReservationStatusExpired

section \<open>Clusters, nodes, applications, replicas\<close>

record Node =
  nd_NodeID :: NodeID
  nd_ClusterID :: ClusterID
  nd_TotalGPUs :: int
  nd_AllocatedGPUs :: int
  nd_FreeGPUs :: int
  nd_Pods :: "ReplicaID list"
  nd_CachedModels :: "(ModelID, unit) gomap"
  nd_Status :: NodeStatus

record Cluster =
  cl_ClusterID :: ClusterID
  cl_Nodes :: "(NodeID, Node) gomap"
  cl_FragmentationScore :: f64

record SLA =
  sla_AppID :: AppID
  sla_MaxP99TTFTMs :: int
  sla_MaxP99TPS :: int

record Application =
  ap_AppID :: AppID
  ap_ModelID :: ModelID
  ap_GPUsPerReplica :: int
  ap_Priority :: int
  ap_MinReplicas :: int
  ap_FailureDomainRule :: FailureDomainRule
  ap_SLA :: SLA

record Replica =
  rp_ReplicaID :: ReplicaID
  rp_AppID :: AppID
  rp_ClusterID :: ClusterID
  rp_NodeID :: NodeID
  rp_GPUs :: int
  rp_Status :: ReplicaStatus
  rp_CreatedAt :: time

record CacheLocation =
  loc_ModelID :: ModelID
  loc_ClusterID :: ClusterID
  loc_NodeID :: NodeID
  loc_Tier :: CacheTier
  loc_CachedAt :: time

record PerformanceProfile =
  pp_AppID :: AppID
  pp_TPSPerReplica :: f64
  pp_TTFTP99Ms :: f64
  pp_ColdStartSeconds :: f64
  pp_WarmStartSeconds :: f64

record VLLMMetrics =
  vm_AppID :: AppID
  vm_AggregatedFrom :: int
  vm_AvgWaitingQueueDepth :: f64
  vm_MaxWaitingQueueDepth :: f64
  vm_AvgRunningQueueDepth :: f64
  vm_AvgBatchUtilization :: f64
  vm_AvgKVCacheUtilization :: f64
  vm_MaxKVCacheUtilization :: f64
  vm_TotalTokensPerSecond :: f64
  vm_AvgTimeToFirstTokenMs :: f64
  vm_P99TimeToFirstTokenMs :: f64
  vm_MeasuredAt :: time

record GPUReservation =
  rs_ReservationID :: ReservationID
  rs_ClusterID :: ClusterID
  rs_NodeID :: NodeID
  rs_GPUs :: int
  rs_ForAppID :: AppID
  rs_CreatedAt :: time
  rs_TTLSeconds :: int
  rs_Status :: ReservationStatus

record ScalingHistory =
  sh_AppID :: AppID
  sh_LastScaleUpAt :: time
  sh_LastScaleDownAt :: time
  sh_ConsecutiveScaleDownSignals :: int

section \<open>Decisions, plans, results\<close>

record SchedulingConstraints =
  sc_RequiredGPUs :: int
  sc_PreferredNodes :: "NodeID list"
  sc_RequiredNodeLabels :: "(string, string) gomap"
  sc_PreferredNodeLabels :: "(string, string) gomap"
  sc_CacheAffinityModel :: ModelID

record ScaleUpDecision =
  su_AppID :: AppID
  su_ClusterID :: ClusterID
  su_ReservationID :: ReservationID
  su_SchedulingConstraints :: SchedulingConstraints

record ScaleDownDecision =
  sd_AppID :: AppID
  sd_ReplicaID :: ReplicaID

record PreemptionDecision =
  pd_VictimReplicaID :: ReplicaID
  pd_VictimAppID :: AppID
  pd_NodeID :: NodeID
  pd_ClusterID :: ClusterID
  pd_GracePeriodSeconds :: int
  pd_Reason :: string

record PlacementDecisions =
  pl_ScaleUps :: "ScaleUpDecision list"
  pl_ScaleDowns :: "ScaleDownDecision list"
  pl_Preemptions :: "PreemptionDecision list"
  pl_Reservations :: "GPUReservation list"

record PreemptionPlan =
  pn_Victims :: "PreemptionDecision list"
  pn_TargetCluster :: ClusterID
  pn_Constraints :: SchedulingConstraints

record MigrateDecision =
  mg_AppID :: AppID
  mg_SourceReplicaID :: ReplicaID
  mg_TargetClusterID :: ClusterID
  mg_SchedulingConstraints :: SchedulingConstraints

datatype OperationType = OperationPreempt | OperationScaleDown | OperationScaleUp | OperationMigrate

text \<open>
  The field \<open>Payload any\<close> of an operation: the decision types the code stores in it, and
  any other value.
\<close>

datatype Payload =
  PayloadScaleUp ScaleUpDecision
| PayloadScaleDown ScaleDownDecision
| PayloadPreempt PreemptionDecision
| PayloadOther

record Operation =
  op_ID :: OperationID
  op_Type :: OperationType
  op_Payload :: Payload
  op_DependsOn :: "OperationID list"

type_synonym ExecutionPlan = "Operation list"

section \<open>Cluster events\<close>

datatype ClusterEventKind =
  ClusterEventNodeDown | ClusterEventNodeUp | ClusterEventPodTerminated | ClusterEventPodRunning

record ClusterEvent =
  ce_Kind :: ClusterEventKind
  ce_ClusterID :: ClusterID
  ce_NodeID :: NodeID
  ce_ReplicaID :: ReplicaID
  ce_AppID :: AppID
  ce_GPUs :: int
  ce_TotalGPUs :: int
  ce_Timestamp :: time

section \<open>Zero values\<close>

definition zero_SLA :: SLA where
  "zero_SLA = \<lparr>sla_AppID = '''', sla_MaxP99TTFTMs = 0, sla_MaxP99TPS = 0\<rparr>"

definition zero_Application :: Application where
  "zero_Application = \<lparr>ap_AppID = '''', ap_ModelID = '''', ap_GPUsPerReplica = 0, ap_Priority = 0,
     ap_MinReplicas = 0, ap_FailureDomainRule = FailureDomainUnset, ap_SLA = zero_SLA\<rparr>"

definition zero_ScalingHistory :: ScalingHistory where
  "zero_ScalingHistory = \<lparr>sh_AppID = '''', sh_LastScaleUpAt = 0, sh_LastScaleDownAt = 0,
     sh_ConsecutiveScaleDownSignals = 0\<rparr>"

definition zero_SchedulingConstraints :: SchedulingConstraints where
  "zero_SchedulingConstraints = \<lparr>sc_RequiredGPUs = 0, sc_PreferredNodes = [],
     sc_RequiredNodeLabels = [], sc_PreferredNodeLabels = [], sc_CacheAffinityModel = ''''\<rparr>"

definition zero_PlacementDecisions :: PlacementDecisions where
  "zero_PlacementDecisions =
     \<lparr>pl_ScaleUps = [], pl_ScaleDowns = [], pl_Preemptions = [], pl_Reservations = []\<rparr>"

section \<open>Facts about status values\<close>

text \<open>A replica that counts towards its application: running or pending.\<close>

definition active_replica :: "Replica \<Rightarrow> bool" where
  "active_replica r \<longleftrightarrow> rp_Status r = ReplicaStatusRunning \<or> rp_Status r = ReplicaStatusPending"

lemma set_AllReplicaStatuses: "set AllReplicaStatuses = UNIV"
proof -
  have "s \<in> set AllReplicaStatuses" for s by (cases s) (simp_all add: AllReplicaStatuses_def)
  then show ?thesis by blast
qed

end
