(* ===== verification/WorldState.thy ===== *)
theory WorldState
  imports Model
begin

text \<open>
  \<open>internal/worldstate/worldstate.go\<close>: the in-memory state of the scheduler and its
  mutators. Every exported method takes the write lock for its whole body, so a method is an
  atomic step: a function from the state to the next state. The Prometheus gauges the
  methods keep are fields of the record, so that what they count can be stated. The node maps
  are values here; the code shares no node map between two clusters.
\<close>

section \<open>State\<close>

record WorldState =
  ws_clusters :: "(ClusterID, Cluster) gomap"
  ws_applications :: "(AppID, Application) gomap"
  ws_replicas :: "(ReplicaID, Replica) gomap"
  ws_cacheLocations :: "(ModelID, CacheLocation list) gomap"
  ws_performanceProfiles :: "(AppID, PerformanceProfile) gomap"
  ws_vllmMetrics :: "(AppID, VLLMMetrics) gomap"
  ws_reservations :: "(ReservationID, GPUReservation) gomap"
  ws_scalingHistory :: "(AppID, ScalingHistory) gomap"
  ws_clustersGauge :: int
  ws_replicasGaugeVec :: "ReplicaStatus \<Rightarrow> int"
  ws_reservationsGauge :: int

definition New :: WorldState where
  "New = \<lparr>ws_clusters = [], ws_applications = [], ws_replicas = [], ws_cacheLocations = [],
     ws_performanceProfiles = [], ws_vllmMetrics = [], ws_reservations = [],
     ws_scalingHistory = [], ws_clustersGauge = 0, ws_replicasGaugeVec = (\<lambda>_. 0),
     ws_reservationsGauge = 0\<rparr>"

datatype ws_error =
  ReservationExists ReservationID
| ReservationNotFound ReservationID
| ReservationNotActive ReservationID ReservationStatus

section \<open>Helpers\<close>

text \<open>\<open>1.0 - totalFree/totalCapacity\<close> in \<open>float64\<close>; the two sums are integers.\<close>

definition computeFragmentation :: "(NodeID, Node) gomap \<Rightarrow> f64" where
  "computeFragmentation nodes =
     (let totalCapacity = sum_vals nd_TotalGPUs nodes; totalFree = sum_vals nd_FreeGPUs nodes
      in if totalCapacity = 0 then f_zero
         else f_sub f_one (f_div (f_of_int totalFree) (f_of_int totalCapacity)))"

fun removeFromSlice :: "ReplicaID list \<Rightarrow> ReplicaID \<Rightarrow> ReplicaID list" where
  "removeFromSlice [] val = []"
| "removeFromSlice (v # s) val = (if v = val then s else v # removeFromSlice s val)"

definition restoreNodeGPUs :: "Replica \<Rightarrow> WorldState \<Rightarrow> WorldState" where
  "restoreNodeGPUs r ws =
     (case gget (ws_clusters ws) (rp_ClusterID r) of
        None \<Rightarrow> ws
      | Some c \<Rightarrow>
          (case gget (cl_Nodes c) (rp_NodeID r) of
             None \<Rightarrow> ws
           | Some n \<Rightarrow>
               let n' = n\<lparr>nd_AllocatedGPUs := nd_AllocatedGPUs n - rp_GPUs r,
                          nd_FreeGPUs := nd_FreeGPUs n + rp_GPUs r,
                          nd_Pods := removeFromSlice (nd_Pods n) (rp_ReplicaID r)\<rparr>;
                   c' = c\<lparr>cl_Nodes := gput (rp_NodeID r) n' (cl_Nodes c)\<rparr>
               in ws\<lparr>ws_clusters := gput (rp_ClusterID r) c' (ws_clusters ws)\<rparr>))"

definition allocateNodeGPUs :: "Replica \<Rightarrow> WorldState \<Rightarrow> WorldState" where
  "allocateNodeGPUs r ws =
     (case gget (ws_clusters ws) (rp_ClusterID r) of
        None \<Rightarrow> ws
      | Some c \<Rightarrow>
          (case gget (cl_Nodes c) (rp_NodeID r) of
             None \<Rightarrow> ws
           | Some n \<Rightarrow>
               let n' = n\<lparr>nd_AllocatedGPUs := nd_AllocatedGPUs n + rp_GPUs r,
                          nd_FreeGPUs := nd_FreeGPUs n - rp_GPUs r,
                          nd_Pods := nd_Pods n @ [rp_ReplicaID r]\<rparr>;
                   c' = c\<lparr>cl_Nodes := gput (rp_NodeID r) n' (cl_Nodes c)\<rparr>
               in ws\<lparr>ws_clusters := gput (rp_ClusterID r) c' (ws_clusters ws)\<rparr>))"

text \<open>The three-line block \<open>if c, ok := ws.clusters[id]; ok { ... }\<close> of the replica methods.\<close>

definition refreshFragmentation :: "ClusterID \<Rightarrow> WorldState \<Rightarrow> WorldState" where
  "refreshFragmentation cid ws =
     (case gget (ws_clusters ws) cid of
        None \<Rightarrow> ws
      | Some c \<Rightarrow> ws\<lparr>ws_clusters :=
          gput cid (c\<lparr>cl_FragmentationScore := computeFragmentation (cl_Nodes c)\<rparr>) (ws_clusters ws)\<rparr>)"

section \<open>Clusters, nodes, applications, profiles\<close>

definition UpsertCluster :: "Cluster \<Rightarrow> WorldState \<Rightarrow> WorldState" where
  "UpsertCluster c ws =
     (let cs = gput (cl_ClusterID c) c (ws_clusters ws)
      in ws\<lparr>ws_clusters := cs, ws_clustersGauge := int (length cs)\<rparr>)"

definition UpsertNode :: "Node \<Rightarrow> WorldState \<Rightarrow> WorldState" where
  "UpsertNode n ws =
     (let c = (case gget (ws_clusters ws) (nd_ClusterID n) of
                 None \<Rightarrow> \<lparr>cl_ClusterID = nd_ClusterID n, cl_Nodes = [], cl_FragmentationScore = f_zero\<rparr>
               | Some c \<Rightarrow> c);
          nodes = gput (nd_NodeID n) n (cl_Nodes c);
          c' = c\<lparr>cl_Nodes := nodes, cl_FragmentationScore := computeFragmentation nodes\<rparr>;
          cs = gput (nd_ClusterID n) c' (ws_clusters ws)
      in ws\<lparr>ws_clusters := cs, ws_clustersGauge := int (length cs)\<rparr>)"

definition RemoveNode :: "ClusterID \<Rightarrow> NodeID \<Rightarrow> WorldState \<Rightarrow> WorldState" where
  "RemoveNode cid nid ws =
     (case gget (ws_clusters ws) cid of
        None \<Rightarrow> ws
      | Some c \<Rightarrow>
          let nodes = gdel nid (cl_Nodes c);
              c' = c\<lparr>cl_Nodes := nodes, cl_FragmentationScore := computeFragmentation nodes\<rparr>
          in ws\<lparr>ws_clusters := gput cid c' (ws_clusters ws)\<rparr>)"

definition UpsertApplication :: "Application \<Rightarrow> WorldState \<Rightarrow> WorldState" where
  "UpsertApplication app ws =
     ws\<lparr>ws_applications := gput (ap_AppID app) app (ws_applications ws)\<rparr>"

definition UpsertPerformanceProfile :: "PerformanceProfile \<Rightarrow> WorldState \<Rightarrow> WorldState" where
  "UpsertPerformanceProfile p ws =
     ws\<lparr>ws_performanceProfiles := gput (pp_AppID p) p (ws_performanceProfiles ws)\<rparr>"

definition UpdateVLLMMetrics :: "VLLMMetrics \<Rightarrow> WorldState \<Rightarrow> WorldState" where
  "UpdateVLLMMetrics m ws = ws\<lparr>ws_vllmMetrics := gput (vm_AppID m) m (ws_vllmMetrics ws)\<rparr>"

definition UpdateCacheLocations :: "ModelID \<Rightarrow> CacheLocation list \<Rightarrow> WorldState \<Rightarrow> WorldState" where
  "UpdateCacheLocations mid locs ws =
     ws\<lparr>ws_cacheLocations := gput mid locs (ws_cacheLocations ws)\<rparr>"

section \<open>Replicas\<close>

definition gauge_add :: "ReplicaStatus \<Rightarrow> int \<Rightarrow> WorldState \<Rightarrow> WorldState" where
  "gauge_add s d ws = ws\<lparr>ws_replicasGaugeVec := (ws_replicasGaugeVec ws)(s := ws_replicasGaugeVec ws s + d)\<rparr>"

text \<open>Did the replica change its place? The code writes the test twice.\<close>

definition same_place :: "Replica \<Rightarrow> Replica \<Rightarrow> bool" where
  "same_place old r \<longleftrightarrow> rp_NodeID old = rp_NodeID r \<and> rp_ClusterID old = rp_ClusterID r"

definition UpsertReplica :: "Replica \<Rightarrow> WorldState \<Rightarrow> WorldState" where
  "UpsertReplica r ws =
     (case gget (ws_replicas ws) (rp_ReplicaID r) of
        None \<Rightarrow>
          (let ws1 = allocateNodeGPUs r ws;
               ws2 = ws1\<lparr>ws_replicas := gput (rp_ReplicaID r) r (ws_replicas ws1)\<rparr>;
               ws3 = gauge_add (rp_Status r) 1 ws2
           in refreshFragmentation (rp_ClusterID r) ws3)
      | Some old \<Rightarrow>
          (let ws1 = (if same_place old r then ws else restoreNodeGPUs old ws);
               ws2 = gauge_add (rp_Status old) (- 1) ws1;
               ws3 = (if same_place old r then ws2 else allocateNodeGPUs r ws2);
               ws4 = ws3\<lparr>ws_replicas := gput (rp_ReplicaID r) r (ws_replicas ws3)\<rparr>;
               ws5 = gauge_add (rp_Status r) 1 ws4;
               ws6 = refreshFragmentation (rp_ClusterID r) ws5
           in if rp_ClusterID old \<noteq> rp_ClusterID r
              then refreshFragmentation (rp_ClusterID old) ws6 else ws6))"

definition DeleteReplica :: "ReplicaID \<Rightarrow> WorldState \<Rightarrow> WorldState" where
  "DeleteReplica rid ws =
     (case gget (ws_replicas ws) rid of
        None \<Rightarrow> ws
      | Some r \<Rightarrow>
          (let ws1 = restoreNodeGPUs r ws;
               ws2 = ws1\<lparr>ws_replicas := gdel rid (ws_replicas ws1)\<rparr>;
               ws3 = gauge_add (rp_Status r) (- 1) ws2
           in refreshFragmentation (rp_ClusterID r) ws3))"

section \<open>Reservations\<close>

definition CreateReservation :: "GPUReservation \<Rightarrow> WorldState \<Rightarrow> ws_error + WorldState" where
  "CreateReservation r ws =
     (case gget (ws_reservations ws) (rs_ReservationID r) of
        Some _ \<Rightarrow> Inl (ReservationExists (rs_ReservationID r))
      | None \<Rightarrow>
          Inr (ws\<lparr>ws_reservations := gput (rs_ReservationID r) r (ws_reservations ws),
                  ws_reservationsGauge :=
                    ws_reservationsGauge ws + (if rs_Status r = ReservationStatusActive then 1 else 0)\<rparr>))"

text \<open>\<open>FulfillReservation\<close> and \<open>ExpireReservation\<close> differ in the status they write.\<close>

definition closeReservation ::
  "ReservationStatus \<Rightarrow> ReservationID \<Rightarrow> WorldState \<Rightarrow> ws_error + WorldState" where
  "closeReservation status rid ws =
     (case gget (ws_reservations ws) rid of
        None \<Rightarrow> Inl (ReservationNotFound rid)
      | Some r \<Rightarrow>
          if rs_Status r \<noteq> ReservationStatusActive then Inl (ReservationNotActive rid (rs_Status r))
          else Inr (ws\<lparr>ws_reservations := gput rid (r\<lparr>rs_Status := status\<rparr>) (ws_reservations ws),
                       ws_reservationsGauge := ws_reservationsGauge ws - 1\<rparr>))"

definition FulfillReservation :: "ReservationID \<Rightarrow> WorldState \<Rightarrow> ws_error + WorldState" where
  "FulfillReservation = closeReservation ReservationStatusFulfilled"

definition ExpireReservation :: "ReservationID \<Rightarrow> WorldState \<Rightarrow> ws_error + WorldState" where
  "ExpireReservation = closeReservation ReservationStatusExpired"

definition stale :: "time \<Rightarrow> GPUReservation \<Rightarrow> bool" where
  "stale now r \<longleftrightarrow> rs_Status r = ReservationStatusActive \<and>
     seconds (rs_TTLSeconds r) \<le> time_sub now (rs_CreatedAt r)"

definition ExpireStaleReservations :: "time \<Rightarrow> WorldState \<Rightarrow> int \<times> WorldState" where
  "ExpireStaleReservations now ws =
     (let expired = count_vals (stale now) (ws_reservations ws)
      in (expired,
          ws\<lparr>ws_reservations :=
               map (\<lambda>(rid, r). (rid, if stale now r then r\<lparr>rs_Status := ReservationStatusExpired\<rparr> else r))
                 (ws_reservations ws),
             ws_reservationsGauge := ws_reservationsGauge ws - expired\<rparr>))"

section \<open>Scaling history\<close>

definition RecordScaleEvent :: "AppID \<Rightarrow> string \<Rightarrow> time \<Rightarrow> WorldState \<Rightarrow> WorldState" where
  "RecordScaleEvent appID direction atTime ws =
     (let h = (gget_or zero_ScalingHistory (ws_scalingHistory ws) appID)\<lparr>sh_AppID := appID\<rparr>;
          h' = (if direction = ''up''
                then h\<lparr>sh_LastScaleUpAt := atTime, sh_ConsecutiveScaleDownSignals := 0\<rparr>
                else if direction = ''down''
                then h\<lparr>sh_LastScaleDownAt := atTime,
                       sh_ConsecutiveScaleDownSignals := sh_ConsecutiveScaleDownSignals h + 1\<rparr>
                else h)
      in ws\<lparr>ws_scalingHistory := gput appID h' (ws_scalingHistory ws)\<rparr>)"

definition IncrementScaleDownSignal :: "AppID \<Rightarrow> WorldState \<Rightarrow> WorldState" where
  "IncrementScaleDownSignal appID ws =
     (let h = gget_or zero_ScalingHistory (ws_scalingHistory ws) appID
      in ws\<lparr>ws_scalingHistory :=
           gput appID (h\<lparr>sh_AppID := appID,
               sh_ConsecutiveScaleDownSignals := sh_ConsecutiveScaleDownSignals h + 1\<rparr>)
             (ws_scalingHistory ws)\<rparr>)"

section \<open>Capacity queries\<close>

definition AvailableGPUs :: "ClusterID \<Rightarrow> WorldState \<Rightarrow> int" where
  "AvailableGPUs cid ws =
     (case gget (ws_clusters ws) cid of
        None \<Rightarrow> 0
      | Some c \<Rightarrow>
          let free = sum_vals (\<lambda>n. if nd_Status n = NodeStatusReady then nd_FreeGPUs n else 0) (cl_Nodes c);
              reserved = sum_vals (\<lambda>r. if rs_ClusterID r = cid \<and> rs_Status r = ReservationStatusActive
                                       then rs_GPUs r else 0) (ws_reservations ws);
              result = free - reserved
          in if result < 0 then 0 else result)"

text \<open>The map \<open>nodeReserved\<close> holds, per node, the sum over its node-scoped active reservations.\<close>

definition nodeReserved :: "ClusterID \<Rightarrow> NodeID \<Rightarrow> WorldState \<Rightarrow> int" where
  "nodeReserved cid nid ws =
     sum_vals (\<lambda>r. if rs_ClusterID r = cid \<and> rs_Status r = ReservationStatusActive
                      \<and> rs_NodeID r \<noteq> '''' \<and> rs_NodeID r = nid then rs_GPUs r else 0)
       (ws_reservations ws)"

definition HasContiguousGPUs :: "ClusterID \<Rightarrow> int \<Rightarrow> WorldState \<Rightarrow> bool" where
  "HasContiguousGPUs cid needed ws =
     (case gget (ws_clusters ws) cid of
        None \<Rightarrow> False
      | Some c \<Rightarrow>
          list_ex (\<lambda>(_, n). nd_Status n = NodeStatusReady
                       \<and> needed \<le> nd_FreeGPUs n - nodeReserved cid (nd_NodeID n) ws) (cl_Nodes c))"

section \<open>Looking a node up\<close>

text \<open>
  The abstraction the accounting lemmas use: the node a cluster and a node identifier name.
  Every mutator's effect is stated on it once.
\<close>

definition node_at :: "WorldState \<Rightarrow> ClusterID \<Rightarrow> NodeID \<Rightarrow> Node option" where
  "node_at ws cid nid =
     (case gget (ws_clusters ws) cid of None \<Rightarrow> None | Some c \<Rightarrow> gget (cl_Nodes c) nid)"

definition release :: "Replica \<Rightarrow> Node \<Rightarrow> Node" where
  "release r n = n\<lparr>nd_AllocatedGPUs := nd_AllocatedGPUs n - rp_GPUs r,
                   nd_FreeGPUs := nd_FreeGPUs n + rp_GPUs r,
                   nd_Pods := removeFromSlice (nd_Pods n) (rp_ReplicaID r)\<rparr>"

definition occupy :: "Replica \<Rightarrow> Node \<Rightarrow> Node" where
  "occupy r n = n\<lparr>nd_AllocatedGPUs := nd_AllocatedGPUs n + rp_GPUs r,
                  nd_FreeGPUs := nd_FreeGPUs n - rp_GPUs r,
                  nd_Pods := nd_Pods n @ [rp_ReplicaID r]\<rparr>"

definition located :: "Replica \<Rightarrow> ClusterID \<Rightarrow> NodeID \<Rightarrow> bool" where
  "located r cid nid \<longleftrightarrow> rp_ClusterID r = cid \<and> rp_NodeID r = nid"

lemma same_place_located: "same_place old r \<Longrightarrow> located old cid nid = located r cid nid"
  by (auto simp: same_place_def located_def)

lemma not_same_place_located: "\<not> same_place old r \<Longrightarrow> located old cid nid \<Longrightarrow> \<not> located r cid nid"
  by (auto simp: same_place_def located_def)

named_theorems node_at_simps "what a mutator does to the nodes"

lemma node_at_restore [node_at_simps]:
  "node_at (restoreNodeGPUs r ws) cid nid =
     (if located r cid nid then map_option (release r) (node_at ws cid nid) else node_at ws cid nid)"
  by (auto simp: node_at_def restoreNodeGPUs_def release_def located_def Let_def split: option.splits)

lemma node_at_allocate [node_at_simps]:
  "node_at (allocateNodeGPUs r ws) cid nid =
     (if located r cid nid then map_option (occupy r) (node_at ws cid nid) else node_at ws cid nid)"
  by (auto simp: node_at_def allocateNodeGPUs_def occupy_def located_def Let_def split: option.splits)

lemma node_at_refresh [node_at_simps]: "node_at (refreshFragmentation c ws) cid nid = node_at ws cid nid"
  by (auto simp: node_at_def refreshFragmentation_def split: option.splits)

lemma node_at_frame [node_at_simps]:
  "node_at (gauge_add s d ws) cid nid = node_at ws cid nid"
  "node_at (ws\<lparr>ws_replicas := x\<rparr>) cid nid = node_at ws cid nid"
  by (simp_all add: node_at_def gauge_add_def)

lemma node_at_UpsertNode [node_at_simps]:
  "node_at (UpsertNode n ws) cid nid =
     (if cid = nd_ClusterID n \<and> nid = nd_NodeID n then Some n else node_at ws cid nid)"
  by (auto simp: node_at_def UpsertNode_def Let_def split: option.splits)

lemma node_at_RemoveNode [node_at_simps]:
  "node_at (RemoveNode c m ws) cid nid = (if cid = c \<and> nid = m then None else node_at ws cid nid)"
  by (auto simp: node_at_def RemoveNode_def Let_def split: option.splits)

lemma node_at_UpsertCluster [node_at_simps]:
  "node_at (UpsertCluster c ws) cid nid =
     (if cid = cl_ClusterID c then gget (cl_Nodes c) nid else node_at ws cid nid)"
  by (auto simp: node_at_def UpsertCluster_def Let_def)

text \<open>Removing and placing a replica, seen from one node.\<close>

lemma node_at_UpsertReplica:
  "node_at (UpsertReplica r ws) cid nid =
     (case gget (ws_replicas ws) (rp_ReplicaID r) of
        None \<Rightarrow> if located r cid nid then map_option (occupy r) (node_at ws cid nid) else node_at ws cid nid
      | Some old \<Rightarrow>
          if same_place old r then node_at ws cid nid
          else if located old cid nid then map_option (release old) (node_at ws cid nid)
          else if located r cid nid then map_option (occupy r) (node_at ws cid nid)
          else node_at ws cid nid)"
  by (auto simp: UpsertReplica_def Let_def node_at_simps not_same_place_located split: option.split)

lemma node_at_DeleteReplica:
  "node_at (DeleteReplica rid ws) cid nid =
     (case gget (ws_replicas ws) rid of
        None \<Rightarrow> node_at ws cid nid
      | Some r \<Rightarrow> if located r cid nid then map_option (release r) (node_at ws cid nid)
                  else node_at ws cid nid)"
  by (auto simp: DeleteReplica_def Let_def node_at_simps split: option.split)

section \<open>Frames: what a mutator leaves alone\<close>

lemma restore_frame [simp]:
  "ws_applications (restoreNodeGPUs r ws) = ws_applications ws"
  "ws_replicas (restoreNodeGPUs r ws) = ws_replicas ws"
  "ws_cacheLocations (restoreNodeGPUs r ws) = ws_cacheLocations ws"
  "ws_performanceProfiles (restoreNodeGPUs r ws) = ws_performanceProfiles ws"
  "ws_vllmMetrics (restoreNodeGPUs r ws) = ws_vllmMetrics ws"
  "ws_reservations (restoreNodeGPUs r ws) = ws_reservations ws"
  "ws_scalingHistory (restoreNodeGPUs r ws) = ws_scalingHistory ws"
  "ws_clustersGauge (restoreNodeGPUs r ws) = ws_clustersGauge ws"
  "ws_replicasGaugeVec (restoreNodeGPUs r ws) = ws_replicasGaugeVec ws"
  "ws_reservationsGauge (restoreNodeGPUs r ws) = ws_reservationsGauge ws"
  by (simp_all add: restoreNodeGPUs_def Let_def split: option.split)

lemma allocate_frame [simp]:
  "ws_applications (allocateNodeGPUs r ws) = ws_applications ws"
  "ws_replicas (allocateNodeGPUs r ws) = ws_replicas ws"
  "ws_cacheLocations (allocateNodeGPUs r ws) = ws_cacheLocations ws"
  "ws_performanceProfiles (allocateNodeGPUs r ws) = ws_performanceProfiles ws"
  "ws_vllmMetrics (allocateNodeGPUs r ws) = ws_vllmMetrics ws"
  "ws_reservations (allocateNodeGPUs r ws) = ws_reservations ws"
  "ws_scalingHistory (allocateNodeGPUs r ws) = ws_scalingHistory ws"
  "ws_clustersGauge (allocateNodeGPUs r ws) = ws_clustersGauge ws"
  "ws_replicasGaugeVec (allocateNodeGPUs r ws) = ws_replicasGaugeVec ws"
  "ws_reservationsGauge (allocateNodeGPUs r ws) = ws_reservationsGauge ws"
  by (simp_all add: allocateNodeGPUs_def Let_def split: option.split)

lemma refresh_frame [simp]:
  "ws_applications (refreshFragmentation c ws) = ws_applications ws"
  "ws_replicas (refreshFragmentation c ws) = ws_replicas ws"
  "ws_cacheLocations (refreshFragmentation c ws) = ws_cacheLocations ws"
  "ws_performanceProfiles (refreshFragmentation c ws) = ws_performanceProfiles ws"
  "ws_vllmMetrics (refreshFragmentation c ws) = ws_vllmMetrics ws"
  "ws_reservations (refreshFragmentation c ws) = ws_reservations ws"
  "ws_scalingHistory (refreshFragmentation c ws) = ws_scalingHistory ws"
  "ws_clustersGauge (refreshFragmentation c ws) = ws_clustersGauge ws"
  "ws_replicasGaugeVec (refreshFragmentation c ws) = ws_replicasGaugeVec ws"
  "ws_reservationsGauge (refreshFragmentation c ws) = ws_reservationsGauge ws"
  by (simp_all add: refreshFragmentation_def Let_def split: option.split)

lemma gauge_add_frame [simp]:
  "ws_clusters (gauge_add s d ws) = ws_clusters ws"
  "ws_applications (gauge_add s d ws) = ws_applications ws"
  "ws_replicas (gauge_add s d ws) = ws_replicas ws"
  "ws_cacheLocations (gauge_add s d ws) = ws_cacheLocations ws"
  "ws_performanceProfiles (gauge_add s d ws) = ws_performanceProfiles ws"
  "ws_vllmMetrics (gauge_add s d ws) = ws_vllmMetrics ws"
  "ws_reservations (gauge_add s d ws) = ws_reservations ws"
  "ws_scalingHistory (gauge_add s d ws) = ws_scalingHistory ws"
  "ws_clustersGauge (gauge_add s d ws) = ws_clustersGauge ws"
  "ws_reservationsGauge (gauge_add s d ws) = ws_reservationsGauge ws"
  "ws_replicasGaugeVec (gauge_add s d ws) t =
     ws_replicasGaugeVec ws t + (if t = s then d else 0)"
  by (simp_all add: gauge_add_def)

lemma UpsertReplica_frame [simp]:
  "ws_applications (UpsertReplica r ws) = ws_applications ws"
  "ws_cacheLocations (UpsertReplica r ws) = ws_cacheLocations ws"
  "ws_performanceProfiles (UpsertReplica r ws) = ws_performanceProfiles ws"
  "ws_vllmMetrics (UpsertReplica r ws) = ws_vllmMetrics ws"
  "ws_reservations (UpsertReplica r ws) = ws_reservations ws"
  "ws_scalingHistory (UpsertReplica r ws) = ws_scalingHistory ws"
  "ws_clustersGauge (UpsertReplica r ws) = ws_clustersGauge ws"
  "ws_reservationsGauge (UpsertReplica r ws) = ws_reservationsGauge ws"
  by (simp_all add: UpsertReplica_def Let_def split: option.split)

lemma DeleteReplica_frame [simp]:
  "ws_applications (DeleteReplica rid ws) = ws_applications ws"
  "ws_cacheLocations (DeleteReplica rid ws) = ws_cacheLocations ws"
  "ws_performanceProfiles (DeleteReplica rid ws) = ws_performanceProfiles ws"
  "ws_vllmMetrics (DeleteReplica rid ws) = ws_vllmMetrics ws"
  "ws_reservations (DeleteReplica rid ws) = ws_reservations ws"
  "ws_scalingHistory (DeleteReplica rid ws) = ws_scalingHistory ws"
  "ws_clustersGauge (DeleteReplica rid ws) = ws_clustersGauge ws"
  "ws_reservationsGauge (DeleteReplica rid ws) = ws_reservationsGauge ws"
  by (simp_all add: DeleteReplica_def Let_def split: option.split)

lemma ws_replicas_UpsertReplica [simp]:
  "ws_replicas (UpsertReplica r ws) = gput (rp_ReplicaID r) r (ws_replicas ws)"
  by (simp add: UpsertReplica_def Let_def split: option.split)

lemma ws_replicas_DeleteReplica [simp]: "ws_replicas (DeleteReplica rid ws) = gdel rid (ws_replicas ws)"
  by (simp add: DeleteReplica_def Let_def gdel_fresh split: option.split)

lemma ws_replicasGauge_UpsertReplica:
  "ws_replicasGaugeVec (UpsertReplica r ws) s =
     ws_replicasGaugeVec ws s + (if s = rp_Status r then 1 else 0)
     - (case gget (ws_replicas ws) (rp_ReplicaID r) of None \<Rightarrow> 0
        | Some old \<Rightarrow> if rp_Status old = s then 1 else 0)"
  by (simp add: UpsertReplica_def Let_def split: option.split)

lemma ws_replicasGauge_DeleteReplica:
  "ws_replicasGaugeVec (DeleteReplica rid ws) s =
     ws_replicasGaugeVec ws s
     - (case gget (ws_replicas ws) rid of None \<Rightarrow> 0 | Some old \<Rightarrow> if rp_Status old = s then 1 else 0)"
  by (simp add: DeleteReplica_def Let_def split: option.split)

lemma UpsertNode_frame [simp]:
  "ws_replicas (UpsertNode n ws) = ws_replicas ws"
  "ws_reservations (UpsertNode n ws) = ws_reservations ws"
  "ws_replicasGaugeVec (UpsertNode n ws) = ws_replicasGaugeVec ws"
  "ws_reservationsGauge (UpsertNode n ws) = ws_reservationsGauge ws"
  by (simp_all add: UpsertNode_def Let_def)

lemma RemoveNode_frame [simp]:
  "ws_replicas (RemoveNode c n ws) = ws_replicas ws"
  "ws_reservations (RemoveNode c n ws) = ws_reservations ws"
  "ws_replicasGaugeVec (RemoveNode c n ws) = ws_replicasGaugeVec ws"
  "ws_reservationsGauge (RemoveNode c n ws) = ws_reservationsGauge ws"
  "ws_clustersGauge (RemoveNode c n ws) = ws_clustersGauge ws"
  by (simp_all add: RemoveNode_def Let_def split: option.split)

section \<open>All mutators as one step\<close>

text \<open>
  The exported mutators, so that an invariant is stated once: a call, and the state it leaves.
  A reservation method that returns an error leaves the state as it was.
\<close>

datatype ws_call =
  CallUpsertCluster Cluster
| CallUpsertNode Node
| CallRemoveNode ClusterID NodeID
| CallUpsertApplication Application
| CallUpsertPerformanceProfile PerformanceProfile
| CallUpsertReplica Replica
| CallDeleteReplica ReplicaID
| CallUpdateVLLMMetrics VLLMMetrics
| CallUpdateCacheLocations ModelID "CacheLocation list"
| CallCreateReservation GPUReservation
| CallFulfillReservation ReservationID
| CallExpireReservation ReservationID
| CallRecordScaleEvent AppID string time
| CallIncrementScaleDownSignal AppID
| CallExpireStaleReservations time

definition keep_on_error :: "WorldState \<Rightarrow> ws_error + WorldState \<Rightarrow> WorldState" where
  "keep_on_error ws res = (case res of Inl _ \<Rightarrow> ws | Inr ws' \<Rightarrow> ws')"

fun ws_step :: "ws_call \<Rightarrow> WorldState \<Rightarrow> WorldState" where
  "ws_step (CallUpsertCluster c) ws = UpsertCluster c ws"
| "ws_step (CallUpsertNode n) ws = UpsertNode n ws"
| "ws_step (CallRemoveNode c n) ws = RemoveNode c n ws"
| "ws_step (CallUpsertApplication a) ws = UpsertApplication a ws"
| "ws_step (CallUpsertPerformanceProfile p) ws = UpsertPerformanceProfile p ws"
| "ws_step (CallUpsertReplica r) ws = UpsertReplica r ws"
| "ws_step (CallDeleteReplica i) ws = DeleteReplica i ws"
| "ws_step (CallUpdateVLLMMetrics m) ws = UpdateVLLMMetrics m ws"
| "ws_step (CallUpdateCacheLocations m l) ws = UpdateCacheLocations m l ws"
| "ws_step (CallCreateReservation r) ws = keep_on_error ws (CreateReservation r ws)"
| "ws_step (CallFulfillReservation i) ws = keep_on_error ws (FulfillReservation i ws)"
| "ws_step (CallExpireReservation i) ws = keep_on_error ws (ExpireReservation i ws)"
| "ws_step (CallRecordScaleEvent a d t) ws = RecordScaleEvent a d t ws"
| "ws_step (CallIncrementScaleDownSignal a) ws = IncrementScaleDownSignal a ws"
| "ws_step (CallExpireStaleReservations t) ws = snd (ExpireStaleReservations t ws)"

definition ws_run :: "ws_call list \<Rightarrow> WorldState \<Rightarrow> WorldState" where
  "ws_run calls ws = fold ws_step calls ws"

end
