(* ===== verification/Reservations.thy ===== *)
theory Reservations
  imports WorldStateInv
begin

text \<open>
  GPU reservations of the world state: the life cycle active, then fulfilled or expired; the
  sweep \<open>ExpireStaleReservations\<close>; and what a reservation does to \<open>AvailableGPUs\<close>. The
  locale states the contract the executor's client interface \<open>ReservationManager\<close> relies on.
\<close>

section \<open>The contract of a reservation store\<close>

text \<open>
  \<open>Fulfill\<close> and \<open>Expire\<close> succeed exactly on an active reservation, write its final status,
  and touch no other reservation.
\<close>

locale reservation_store =
  fixes status :: "'s \<Rightarrow> ReservationID \<Rightarrow> ReservationStatus option"
    and fulfill :: "ReservationID \<Rightarrow> 's \<Rightarrow> 'e + 's"
    and expire_one :: "ReservationID \<Rightarrow> 's \<Rightarrow> 'e + 's"
  assumes fulfill_ok: "(\<exists>s'. fulfill i s = Inr s') \<longleftrightarrow> status s i = Some ReservationStatusActive"
    and expire_ok: "(\<exists>s'. expire_one i s = Inr s') \<longleftrightarrow> status s i = Some ReservationStatusActive"
    and fulfill_status: "fulfill i s = Inr s' \<Longrightarrow>
      status s' j = (if j = i then Some ReservationStatusFulfilled else status s j)"
    and expire_status: "expire_one i s = Inr s' \<Longrightarrow>
      status s' j = (if j = i then Some ReservationStatusExpired else status s j)"
begin

lemma closed_once:
  assumes "fulfill i s = Inr s' \<or> expire_one i s = Inr s'"
  shows "\<nexists>s''. fulfill i s' = Inr s''" and "\<nexists>s''. expire_one i s' = Inr s''"
proof -
  have "status s' i \<noteq> Some ReservationStatusActive"
    using assms fulfill_status [of i s s' i] expire_status [of i s s' i] by auto
  then show "\<nexists>s''. fulfill i s' = Inr s''" and "\<nexists>s''. expire_one i s' = Inr s''"
    by (simp_all only: fulfill_ok expire_ok not_False_eq_True simp_thms)
qed

lemma unknown_fails: "status s i = None \<Longrightarrow> \<exists>e. fulfill i s = Inl e"
  by (metis fulfill_ok not_None_eq old.sum.exhaust option.distinct(1))

lemma others_kept:
  "fulfill i s = Inr s' \<or> expire_one i s = Inr s' \<Longrightarrow> j \<noteq> i \<Longrightarrow> status s' j = status s j"
  using fulfill_status expire_status by metis

end

definition reservation_status :: "WorldState \<Rightarrow> ReservationID \<Rightarrow> ReservationStatus option" where
  "reservation_status ws rid = map_option rs_Status (gget (ws_reservations ws) rid)"

lemma closeReservation_Inr:
  "closeReservation st rid ws = Inr ws' \<longleftrightarrow>
     (\<exists>r. gget (ws_reservations ws) rid = Some r \<and> rs_Status r = ReservationStatusActive
        \<and> ws' = ws\<lparr>ws_reservations := gput rid (r\<lparr>rs_Status := st\<rparr>) (ws_reservations ws),
                    ws_reservationsGauge := ws_reservationsGauge ws - 1\<rparr>)"
  by (auto simp: closeReservation_def split: option.splits if_splits)

lemma closeReservation_ok:
  "(\<exists>ws'. closeReservation st rid ws = Inr ws')
     \<longleftrightarrow> reservation_status ws rid = Some ReservationStatusActive"
  by (auto simp: closeReservation_Inr reservation_status_def)

lemma closeReservation_status:
  "closeReservation st rid ws = Inr ws' \<Longrightarrow>
     reservation_status ws' j = (if j = rid then Some st else reservation_status ws j)"
  by (auto simp: closeReservation_Inr reservation_status_def)

interpretation store: reservation_store reservation_status FulfillReservation ExpireReservation
  by unfold_locales
    (simp_all add: FulfillReservation_def ExpireReservation_def closeReservation_ok closeReservation_status)

section \<open>Closed reservations stay closed\<close>

lemma expire_closed: "rs_Status r \<noteq> ReservationStatusActive \<Longrightarrow> expire now r = r"
  by (simp add: expire_def stale_def)

definition same_terms :: "GPUReservation \<Rightarrow> GPUReservation \<Rightarrow> bool" where
  "same_terms r r' \<longleftrightarrow> (\<exists>st. r' = r\<lparr>rs_Status := st\<rparr>)"

lemma same_terms_refl: "same_terms r r"
  unfolding same_terms_def by (rule exI [of _ "rs_Status r"]) simp

lemma same_terms_expire: "same_terms r (expire now r)"
  unfolding expire_def same_terms_def
  by (cases "stale now r") (auto intro: exI [of _ "rs_Status r"])

lemma reservations_other_calls [simp]:
  "ws_reservations (UpsertCluster c ws) = ws_reservations ws"
  "ws_reservations (UpsertApplication a ws) = ws_reservations ws"
  "ws_reservations (UpsertPerformanceProfile p ws) = ws_reservations ws"
  "ws_reservations (UpdateVLLMMetrics m ws) = ws_reservations ws"
  "ws_reservations (UpdateCacheLocations mid locs ws) = ws_reservations ws"
  "ws_reservations (RecordScaleEvent appID dir t ws) = ws_reservations ws"
  "ws_reservations (IncrementScaleDownSignal appID ws) = ws_reservations ws"
  by (simp_all add: UpsertCluster_def UpsertApplication_def UpsertPerformanceProfile_def
      UpdateVLLMMetrics_def UpdateCacheLocations_def RecordScaleEvent_def IncrementScaleDownSignal_def
      Let_def)

text \<open>What one call can do to a reservation that exists.\<close>

lemma ws_step_reservation:
  assumes "gget (ws_reservations ws) rid = Some r"
  shows "\<exists>r'. gget (ws_reservations (ws_step c ws)) rid = Some r' \<and> same_terms r r'
    \<and> (rs_Status r \<noteq> ReservationStatusActive \<longrightarrow> r' = r)"
proof -
  have close: "\<exists>r'. gget (ws_reservations (keep_on_error ws (closeReservation st i ws))) rid = Some r'
      \<and> same_terms r r' \<and> (rs_Status r \<noteq> ReservationStatusActive \<longrightarrow> r' = r)" for st i
    using assms same_terms_refl [of r]
    by (auto simp: closeReservation_def keep_on_error_def same_terms_def split: option.split)
  show ?thesis
  proof (cases c)
    case (CallCreateReservation x)
    then show ?thesis using assms same_terms_refl [of r]
      by (auto simp: CreateReservation_def keep_on_error_def split: option.split)
  next
    case (CallExpireStaleReservations now)
    then show ?thesis using assms
      by (simp add: gget_expire_stale same_terms_expire expire_closed)
  qed (use assms close in \<open>simp_all add: same_terms_refl FulfillReservation_def ExpireReservation_def\<close>)
qed

lemma same_terms_trans: "same_terms r s \<Longrightarrow> same_terms s t \<Longrightarrow> same_terms r t"
  by (auto simp: same_terms_def)

lemma ws_run_reservation:
  "gget (ws_reservations ws) rid = Some r \<Longrightarrow>
     \<exists>r'. gget (ws_reservations (ws_run calls ws)) rid = Some r' \<and> same_terms r r'
       \<and> (rs_Status r \<noteq> ReservationStatusActive \<longrightarrow> r' = r)"
proof (induction calls arbitrary: ws r)
  case Nil
  then show ?case by (simp add: ws_run_def same_terms_refl)
next
  case (Cons c calls)
  from ws_step_reservation [OF Cons.prems] obtain r1
    where r1: "gget (ws_reservations (ws_step c ws)) rid = Some r1" "same_terms r r1"
      "rs_Status r \<noteq> ReservationStatusActive \<Longrightarrow> r1 = r" by blast
  from Cons.IH [OF r1(1)] obtain r2
    where r2: "gget (ws_reservations (ws_run calls (ws_step c ws))) rid = Some r2" "same_terms r1 r2"
      "rs_Status r1 \<noteq> ReservationStatusActive \<Longrightarrow> r2 = r1" by blast
  have run: "ws_run (c # calls) ws = ws_run calls (ws_step c ws)" by (simp add: ws_run_def)
  have keep: "r2 = r" if s: "rs_Status r \<noteq> ReservationStatusActive"
  proof -
    have "r1 = r" by (rule r1(3) [OF s])
    then show ?thesis using r2(3) s by simp
  qed
  show ?case unfolding run using r2(1) same_terms_trans [OF r1(2) r2(2)] keep by blast
qed

section \<open>Reservations and capacity\<close>

definition reserved_on :: "ClusterID \<Rightarrow> WorldState \<Rightarrow> int" where
  "reserved_on cid ws = sum_vals (\<lambda>r. if rs_ClusterID r = cid \<and> rs_Status r = ReservationStatusActive
     then rs_GPUs r else 0) (ws_reservations ws)"

definition free_on :: "ClusterID \<Rightarrow> WorldState \<Rightarrow> int" where
  "free_on cid ws = (case gget (ws_clusters ws) cid of None \<Rightarrow> 0 | Some c \<Rightarrow>
     sum_vals (\<lambda>n. if nd_Status n = NodeStatusReady then nd_FreeGPUs n else 0) (cl_Nodes c))"

lemma AvailableGPUs_alt:
  "AvailableGPUs cid ws = (if gget (ws_clusters ws) cid = None then 0
     else max 0 (free_on cid ws - reserved_on cid ws))"
  by (simp add: AvailableGPUs_def free_on_def reserved_on_def Let_def max_def split: option.split)

lemma create_reserved:
  assumes "gwf (ws_reservations ws)" and "CreateReservation r ws = Inr ws'"
    and "rs_Status r = ReservationStatusActive"
  shows "reserved_on cid ws' = reserved_on cid ws + (if rs_ClusterID r = cid then rs_GPUs r else 0)"
    and "free_on cid ws' = free_on cid ws" and "ws_clusters ws' = ws_clusters ws"
    and "gget (ws_reservations ws') (rs_ReservationID r) = Some r" and "gwf (ws_reservations ws')"
  using assms by (auto simp: CreateReservation_def reserved_on_def free_on_def sum_vals_gput
      split: option.splits)

lemma close_reserved:
  assumes "gwf (ws_reservations ws)" and "gget (ws_reservations ws) rid = Some r"
    and "closeReservation st rid ws = Inr ws'" and "st \<noteq> ReservationStatusActive"
  shows "reserved_on cid ws' = reserved_on cid ws - (if rs_ClusterID r = cid then rs_GPUs r else 0)"
    and "free_on cid ws' = free_on cid ws" and "ws_clusters ws' = ws_clusters ws"
  using assms by (auto simp: closeReservation_Inr reserved_on_def free_on_def sum_vals_gput)

lemma not_stale_expire: "\<not> stale now (expire now r)"
  by (cases "stale now r") (simp_all add: expire_def, simp add: stale_def)

lemma after_sweep:
  "gget (ws_reservations (snd (ExpireStaleReservations now ws))) rid = Some r' \<Longrightarrow> \<not> stale now r'"
  by (auto simp: gget_expire_stale not_stale_expire)

lemma no_stale_count: "\<forall>p \<in> set m. \<not> stale now (snd p) \<Longrightarrow> count_vals (stale now) m = 0"
proof (induction m)
  case (Cons p m)
  then show ?case by (cases p) (simp add: count_vals_def)
qed (simp add: count_vals_def)

section \<open>Properties\<close>

text \<open>C6: A reservation, once created, is never removed and keeps its cluster, node, GPU count,
  application, creation time and TTL under every sequence of mutators; once it is fulfilled or
  expired nothing changes it again, and fulfilling or expiring it is an error.\<close>

theorem closed_reservation_is_final:
  assumes "gget (ws_reservations ws) rid = Some r"
  shows "\<exists>r'. gget (ws_reservations (ws_run calls ws)) rid = Some r'
    \<and> r' = r\<lparr>rs_Status := rs_Status r'\<rparr>
    \<and> (rs_Status r \<noteq> ReservationStatusActive \<longrightarrow> r' = r
        \<and> FulfillReservation rid (ws_run calls ws) = Inl (ReservationNotActive rid (rs_Status r))
        \<and> ExpireReservation rid (ws_run calls ws) = Inl (ReservationNotActive rid (rs_Status r)))"
proof -
  from ws_run_reservation [OF assms] obtain r'
    where r': "gget (ws_reservations (ws_run calls ws)) rid = Some r'" "same_terms r r'"
      "rs_Status r \<noteq> ReservationStatusActive \<longrightarrow> r' = r" by blast
  have terms: "r' = r\<lparr>rs_Status := rs_Status r'\<rparr>" using r'(2) by (auto simp: same_terms_def)
  have final: "r' = r
      \<and> FulfillReservation rid (ws_run calls ws) = Inl (ReservationNotActive rid (rs_Status r))
      \<and> ExpireReservation rid (ws_run calls ws) = Inl (ReservationNotActive rid (rs_Status r))"
    if "rs_Status r \<noteq> ReservationStatusActive"
    using that r'(1,3) by (simp add: FulfillReservation_def ExpireReservation_def closeReservation_def)
  show ?thesis using r'(1) terms final by (intro exI [of _ r']) blast
qed

definition closed_state :: WorldState where
  "closed_state = ws_run [CallCreateReservation sample_reservation, CallFulfillReservation ''v1''] New"

lemma closed_reservation_is_final_witness:
  "\<exists>r'. gget (ws_reservations (ws_run [CallExpireStaleReservations 1000000000000] closed_state)) ''v1'' = Some r'
     \<and> rs_Status r' = ReservationStatusFulfilled"
proof -
  let ?r = "sample_reservation\<lparr>rs_Status := ReservationStatusFulfilled\<rparr>"
  have r: "gget (ws_reservations closed_state) ''v1'' = Some ?r"
    by (simp add: closed_state_def ws_run_def sample_reservation_def New_def CreateReservation_def
        FulfillReservation_def closeReservation_def keep_on_error_def)
  from closed_reservation_is_final [OF r, of "[CallExpireStaleReservations 1000000000000]"]
  show ?thesis by auto
qed

text \<open>A sweep at time \<open>now\<close> expires exactly the active reservations whose age has reached
  their TTL and leaves every other one as it is; it returns how many it expired, the gauge falls
  by that number, and a second sweep at the same time finds nothing.\<close>

theorem expire_stale_sweeps_exactly:
  assumes "wf_reservations ws" and "ws' = snd (ExpireStaleReservations now ws)"
  shows "(\<forall>rid r. gget (ws_reservations ws) rid = Some r \<longrightarrow>
      gget (ws_reservations ws') rid = Some
        (if rs_Status r = ReservationStatusActive
            \<and> seconds (rs_TTLSeconds r) \<le> time_sub now (rs_CreatedAt r)
         then r\<lparr>rs_Status := ReservationStatusExpired\<rparr> else r))
    \<and> fst (ExpireStaleReservations now ws) = count_vals (stale now) (ws_reservations ws)
    \<and> ws_reservationsGauge ws' = ws_reservationsGauge ws - fst (ExpireStaleReservations now ws)
    \<and> fst (ExpireStaleReservations now ws') = 0"
proof (intro conjI)
  show "\<forall>rid r. gget (ws_reservations ws) rid = Some r \<longrightarrow>
      gget (ws_reservations ws') rid = Some
        (if rs_Status r = ReservationStatusActive
            \<and> seconds (rs_TTLSeconds r) \<le> time_sub now (rs_CreatedAt r)
         then r\<lparr>rs_Status := ReservationStatusExpired\<rparr> else r)"
    by (auto simp: assms(2) gget_expire_stale expire_def stale_def)
  show "fst (ExpireStaleReservations now ws) = count_vals (stale now) (ws_reservations ws)"
    and "ws_reservationsGauge ws' = ws_reservationsGauge ws - fst (ExpireStaleReservations now ws)"
    by (simp_all add: ExpireStaleReservations_def Let_def assms(2))
  have "gwf (ws_reservations ws')"
    using wf_reservations_expire_stale [OF assms(1), of now]
    by (simp add: wf_reservations_def keyed_def assms(2))
  then have "count_vals (stale now) (ws_reservations ws') = 0"
    using after_sweep by (intro no_stale_count) (auto simp: gget_iff_mem [symmetric] assms(2))
  then show "fst (ExpireStaleReservations now ws') = 0"
    by (simp add: ExpireStaleReservations_def Let_def)
qed

definition reserved_state :: WorldState where
  "reserved_state = ws_run [CallCreateReservation sample_reservation] New"

lemma expire_stale_sweeps_exactly_witness:
  "fst (ExpireStaleReservations 60000000005 (snd (ExpireStaleReservations 60000000005 reserved_state))) = 0
     \<and> gget (ws_reservations (snd (ExpireStaleReservations 60000000005 reserved_state))) ''v1''
         = Some (sample_reservation\<lparr>rs_Status := ReservationStatusExpired\<rparr>)"
proof -
  have wf: "wf_reservations reserved_state"
    using ws_step_wf [OF ws_wf_New, of "CallCreateReservation sample_reservation"]
    by (simp add: reserved_state_def ws_run_def wf_call_def ws_wf_def)
  have g: "gget (ws_reservations reserved_state) ''v1'' = Some sample_reservation"
    by (simp add: reserved_state_def ws_run_def sample_reservation_def New_def CreateReservation_def
        keep_on_error_def)
  note T = expire_stale_sweeps_exactly [OF wf, of _ 60000000005, OF refl]
  from T g have "gget (ws_reservations (snd (ExpireStaleReservations 60000000005 reserved_state))) ''v1''
      = Some (if rs_Status sample_reservation = ReservationStatusActive
            \<and> seconds (rs_TTLSeconds sample_reservation) \<le> time_sub 60000000005 (rs_CreatedAt sample_reservation)
         then sample_reservation\<lparr>rs_Status := ReservationStatusExpired\<rparr> else sample_reservation)"
    by blast
  moreover have "seconds 60 \<le> time_sub 60000000005 5" by code_simp
  ultimately show ?thesis using T by (simp add: sample_reservation_def)
qed

text \<open>C4: Reserving \<open>g\<close> GPUs that are available lowers the cluster's \<open>AvailableGPUs\<close> by
  exactly \<open>g\<close> and no other cluster's; fulfilling or expiring the reservation gives the
  cluster back exactly what it had.\<close>

theorem reservation_holds_and_returns_capacity:
  assumes "wf_reservations ws" and "CreateReservation r ws = Inr ws1"
    and "rs_Status r = ReservationStatusActive" and "0 \<le> rs_GPUs r"
    and "rs_GPUs r \<le> AvailableGPUs (rs_ClusterID r) ws" and "0 < AvailableGPUs (rs_ClusterID r) ws"
    and "FulfillReservation (rs_ReservationID r) ws1 = Inr ws2
      \<or> ExpireReservation (rs_ReservationID r) ws1 = Inr ws2"
  shows "AvailableGPUs (rs_ClusterID r) ws1 = AvailableGPUs (rs_ClusterID r) ws - rs_GPUs r
    \<and> (\<forall>cid. cid \<noteq> rs_ClusterID r \<longrightarrow> AvailableGPUs cid ws1 = AvailableGPUs cid ws)
    \<and> (\<forall>cid. AvailableGPUs cid ws2 = AvailableGPUs cid ws)"
proof -
  have wf: "gwf (ws_reservations ws)" using assms(1) by (simp add: wf_reservations_def keyed_def)
  note A = create_reserved [OF wf assms(2,3)]
  obtain st where st: "closeReservation st (rs_ReservationID r) ws1 = Inr ws2" "st \<noteq> ReservationStatusActive"
    using assms(7) by (auto simp: FulfillReservation_def ExpireReservation_def)
  note B = close_reserved [OF A(5,4) st]
  show ?thesis
  proof (intro conjI allI impI)
    show "AvailableGPUs (rs_ClusterID r) ws1 = AvailableGPUs (rs_ClusterID r) ws - rs_GPUs r"
      using assms(4-6) A(1-3) by (auto simp: AvailableGPUs_alt split: if_splits)
    show "AvailableGPUs cid ws1 = AvailableGPUs cid ws" if "cid \<noteq> rs_ClusterID r" for cid
      using that A(1) [of cid] A(2) [of cid] A(3) by (simp add: AvailableGPUs_alt)
    show "AvailableGPUs cid ws2 = AvailableGPUs cid ws" for cid
      using A(1) [of cid] A(2) [of cid] A(3) B(1) [of cid] B(2) [of cid] B(3) by (simp add: AvailableGPUs_alt)
  qed
qed

definition one_node_state :: WorldState where
  "one_node_state = ws_run [CallUpsertNode sample_node] New"

lemmas one_node_defs = one_node_state_def ws_run_def sample_node_def New_def UpsertNode_def Let_def

lemma reservation_holds_and_returns_capacity_witness:
  "\<exists>ws1. CreateReservation sample_reservation one_node_state = Inr ws1 \<and> AvailableGPUs ''c1'' ws1 = 6"
proof -
  have avail: "AvailableGPUs ''c1'' one_node_state = 8"
    by (simp add: AvailableGPUs_def one_node_defs)
  have wf: "wf_reservations one_node_state"
    by (simp add: one_node_defs wf_reservations_def count_vals_def)
  obtain ws1 where ws1: "CreateReservation sample_reservation one_node_state = Inr ws1"
    by (simp add: CreateReservation_def one_node_defs)
  have "reservation_status ws1 ''v1'' = Some ReservationStatusActive"
    using ws1 by (auto simp: CreateReservation_def one_node_defs sample_reservation_def
        reservation_status_def)
  then obtain ws2 where ws2: "FulfillReservation ''v1'' ws1 = Inr ws2"
    using store.fulfill_ok by blast
  have "AvailableGPUs (rs_ClusterID sample_reservation) ws1
      = AvailableGPUs (rs_ClusterID sample_reservation) one_node_state - rs_GPUs sample_reservation"
    by (rule conjunct1 [OF reservation_holds_and_returns_capacity [OF wf ws1, where ?ws2.0 = ws2]])
      (use ws2 avail in \<open>simp_all add: sample_reservation_def\<close>)
  then show ?thesis using ws1 avail by (simp add: sample_reservation_def)
qed

end
