(* ===== verification/Snapshot.thy ===== *)
theory Snapshot
  imports WorldStateInv
begin

text \<open>
  \<open>internal/worldstate/snapshot.go\<close>, the method \<open>WorldState.Snapshot\<close>, and
  \<open>internal/engine/engineutil/replicas.go\<close>: the deep copy every engine works on, with its
  index from applications to replicas, and the two lookups the engines share. The order of the
  replicas in an index entry is the order of a \<open>range\<close> over a map, hence the argument \<open>od\<close>.
\<close>

record WorldStateSnapshot =
  sn_Clusters :: "(ClusterID, Cluster) gomap"
  sn_Applications :: "(AppID, Application) gomap"
  sn_Replicas :: "(ReplicaID, Replica) gomap"
  sn_ReplicasByApp :: "(AppID, Replica list) gomap option"
  sn_CacheLocations :: "(ModelID, CacheLocation list) gomap"
  sn_PerformanceProfiles :: "(AppID, PerformanceProfile) gomap"
  sn_VLLMMetrics :: "(AppID, VLLMMetrics) gomap"
  sn_Reservations :: "(ReservationID, GPUReservation) gomap"
  sn_ScalingHistory :: "(AppID, ScalingHistory) gomap"
  sn_TakenAt :: time

section \<open>Copying\<close>

definition index_replica :: "Replica \<Rightarrow> (AppID, Replica list) gomap \<Rightarrow> (AppID, Replica list) gomap" where
  "index_replica r idx = gput (rp_AppID r) (gget_or [] idx (rp_AppID r) @ [r]) idx"

definition buildReplicasByApp ::
  "orders \<Rightarrow> (ReplicaID, Replica) gomap \<Rightarrow> (AppID, Replica list) gomap" where
  "buildReplicasByApp od replicas = fold (\<lambda>(_, r). index_replica r) (range_order od replicas) []"

definition copyNode :: "Node \<Rightarrow> Node" where
  "copyNode n = n\<lparr>nd_Pods := nd_Pods n, nd_CachedModels := nd_CachedModels n\<rparr>"

definition copyNodes :: "(NodeID, Node) gomap \<Rightarrow> (NodeID, Node) gomap" where
  "copyNodes src = map (\<lambda>(nid, n). (nid, copyNode n)) src"

definition copyCluster :: "Cluster \<Rightarrow> Cluster" where
  "copyCluster c = c\<lparr>cl_Nodes := copyNodes (cl_Nodes c)\<rparr>"

definition copyClusters :: "(ClusterID, Cluster) gomap \<Rightarrow> (ClusterID, Cluster) gomap" where
  "copyClusters src = map (\<lambda>(cid, c). (cid, copyCluster c)) src"

definition copyCacheLocations ::
  "(ModelID, CacheLocation list) gomap \<Rightarrow> (ModelID, CacheLocation list) gomap" where
  "copyCacheLocations src = map (\<lambda>(mid, locs). (mid, locs)) src"

definition Snapshot :: "orders \<Rightarrow> time \<Rightarrow> WorldState \<Rightarrow> WorldStateSnapshot" where
  "Snapshot od now ws =
     (let snap = \<lparr>sn_Clusters = copyClusters (ws_clusters ws),
                  sn_Applications = ws_applications ws,
                  sn_Replicas = ws_replicas ws,
                  sn_ReplicasByApp = None,
                  sn_CacheLocations = copyCacheLocations (ws_cacheLocations ws),
                  sn_PerformanceProfiles = ws_performanceProfiles ws,
                  sn_VLLMMetrics = ws_vllmMetrics ws,
                  sn_Reservations = ws_reservations ws,
                  sn_ScalingHistory = ws_scalingHistory ws,
                  sn_TakenAt = now\<rparr>
      in snap\<lparr>sn_ReplicasByApp := Some (buildReplicasByApp od (sn_Replicas snap))\<rparr>)"

section \<open>Lookups the engines share\<close>

text \<open>
  A snapshot built without an index is scanned. The scan is a \<open>range\<close> over a map as well; its
  callers here only count, so the stored order stands for every order.
\<close>

definition ReplicasForApp :: "WorldStateSnapshot \<Rightarrow> AppID \<Rightarrow> Replica list" where
  "ReplicasForApp snap appID =
     (case sn_ReplicasByApp snap of
        Some idx \<Rightarrow> gget_or [] idx appID
      | None \<Rightarrow> filter (\<lambda>r. rp_AppID r = appID) (map snd (sn_Replicas snap)))"

definition CountActiveReplicas :: "WorldStateSnapshot \<Rightarrow> AppID \<Rightarrow> int" where
  "CountActiveReplicas snap appID = int (length (filter active_replica (ReplicasForApp snap appID)))"

section \<open>The index lists each application's replicas\<close>

definition app_replicas :: "WorldStateSnapshot \<Rightarrow> AppID \<Rightarrow> Replica list" where
  "app_replicas snap appID = filter (\<lambda>r. rp_AppID r = appID) (map snd (sn_Replicas snap))"

lemma gget_or_index_replica:
  "gget_or [] (index_replica r idx) a = gget_or [] idx a @ (if rp_AppID r = a then [r] else [])"
  by (simp add: index_replica_def)

lemma gget_or_fold_index:
  "gget_or [] (fold (\<lambda>(_, r). index_replica r) m idx) a
     = gget_or [] idx a @ filter (\<lambda>r. rp_AppID r = a) (map snd m)"
proof (induction m arbitrary: idx)
  case (Cons p m)
  then show ?case by (cases p) (simp add: gget_or_index_replica)
qed simp

lemma gget_or_build:
  "gget_or [] (buildReplicasByApp od replicas) a
     = filter (\<lambda>r. rp_AppID r = a) (map snd (range_order od replicas))"
  by (simp add: buildReplicasByApp_def gget_or_fold_index)

text \<open>What the engines' lemmas ask of a snapshot; every \<open>Snapshot\<close> has it.\<close>

definition snap_ok :: "WorldStateSnapshot \<Rightarrow> bool" where
  "snap_ok snap \<longleftrightarrow> keyed cl_ClusterID (sn_Clusters snap)
     \<and> (\<forall>cid c. gget (sn_Clusters snap) cid = Some c \<longrightarrow> wf_cluster c)
     \<and> keyed ap_AppID (sn_Applications snap) \<and> keyed rp_ReplicaID (sn_Replicas snap)
     \<and> keyed vm_AppID (sn_VLLMMetrics snap)
     \<and> (\<forall>a. mset (ReplicasForApp snap a) = mset (app_replicas snap a))"

lemma copyNode_id [simp]: "copyNode n = n"
  by (simp add: copyNode_def)

lemma copyNodes_id [simp]: "copyNodes m = m"
  by (induction m) (auto simp: copyNodes_def)

lemma copyCluster_id [simp]: "copyCluster c = c"
  by (simp add: copyCluster_def)

lemma copyClusters_id [simp]: "copyClusters m = m"
  by (induction m) (auto simp: copyClusters_def)

lemma copyCacheLocations_id [simp]: "copyCacheLocations m = m"
  by (induction m) (auto simp: copyCacheLocations_def)

lemma Snapshot_fields [simp]:
  "sn_Clusters (Snapshot od now ws) = ws_clusters ws"
  "sn_Applications (Snapshot od now ws) = ws_applications ws"
  "sn_Replicas (Snapshot od now ws) = ws_replicas ws"
  "sn_CacheLocations (Snapshot od now ws) = ws_cacheLocations ws"
  "sn_PerformanceProfiles (Snapshot od now ws) = ws_performanceProfiles ws"
  "sn_VLLMMetrics (Snapshot od now ws) = ws_vllmMetrics ws"
  "sn_Reservations (Snapshot od now ws) = ws_reservations ws"
  "sn_ScalingHistory (Snapshot od now ws) = ws_scalingHistory ws"
  "sn_TakenAt (Snapshot od now ws) = now"
  "sn_ReplicasByApp (Snapshot od now ws) = Some (buildReplicasByApp od (ws_replicas ws))"
  by (simp_all add: Snapshot_def Let_def)

lemma ReplicasForApp_Snapshot:
  "ReplicasForApp (Snapshot od now ws) a
     = filter (\<lambda>r. rp_AppID r = a) (map snd (range_order od (ws_replicas ws)))"
  by (simp add: ReplicasForApp_def gget_or_build)

lemma mset_ReplicasForApp_Snapshot:
  "mset (ReplicasForApp (Snapshot od now ws) a) = mset (app_replicas (Snapshot od now ws) a)"
proof -
  have "mset (map snd (range_order od (ws_replicas ws))) = mset (map snd (ws_replicas ws))" by simp
  then show ?thesis by (simp only: ReplicasForApp_Snapshot app_replicas_def Snapshot_fields mset_filter)
qed

lemma snap_ok_Snapshot: "ws_wf ws \<Longrightarrow> snap_ok (Snapshot od now ws)"
  unfolding snap_ok_def using mset_ReplicasForApp_Snapshot
  by (simp add: ws_wf_def wf_clusters_def wf_tables_def wf_replicas_def)

lemma snap_ok_replicas: "snap_ok snap \<Longrightarrow> mset (ReplicasForApp snap a) = mset (app_replicas snap a)"
  by (simp add: snap_ok_def)

lemma snap_ok_set:
  assumes "snap_ok snap"
  shows "r \<in> set (ReplicasForApp snap a)
    \<longleftrightarrow> rp_AppID r = a \<and> gget (sn_Replicas snap) (rp_ReplicaID r) = Some r"
proof -
  have k: "keyed rp_ReplicaID (sn_Replicas snap)" using assms by (simp add: snap_ok_def)
  have "set (ReplicasForApp snap a) = set (app_replicas snap a)"
    by (rule mset_eq_setD [OF snap_ok_replicas [OF assms]])
  moreover have "r \<in> set (app_replicas snap a) \<longleftrightarrow> rp_AppID r = a \<and> (\<exists>i. gget (sn_Replicas snap) i = Some r)"
    by (force simp: app_replicas_def gget_iff_mem [OF keyed_gwf [OF k]])
  ultimately show ?thesis using keyedD [OF k] by auto
qed

lemma snap_ok_length_filter:
  assumes "snap_ok snap"
  shows "length (filter P (ReplicasForApp snap a)) = length (filter P (app_replicas snap a))"
proof -
  have "mset (filter P (ReplicasForApp snap a)) = mset (filter P (app_replicas snap a))"
    by (simp add: snap_ok_replicas [OF assms])
  then show ?thesis by (rule mset_eq_length)
qed

lemma length_filter_map_snd:
  "int (length (filter P (filter Q (map snd m)))) = count_vals (\<lambda>r. Q r \<and> P r) m"
proof (induction m)
  case (Cons p m)
  then show ?case by (cases p) (simp add: count_vals_def)
qed (simp add: count_vals_def)

lemma distinct_ids_map_snd: "keyed f m \<Longrightarrow> distinct (map f (map snd m))"
proof (induction m)
  case (Cons p m)
  obtain k v where p: "p = (k, v)" by (cases p)
  have fresh: "k \<notin> fst ` set m" and gm: "gwf m" using Cons.prems p by (auto simp: keyed_def)
  have all: "f w = j" if "(j, w) \<in> set (p # m)" for j w
    using Cons.prems mem_gget [OF keyed_gwf [OF Cons.prems] that] by (simp add: keyed_def)
  then have "keyed f m" using gm by (auto simp: keyed_def gget_iff_mem)
  moreover have "f v \<notin> f ` snd ` set m"
    using all [of k v] all fresh p by (auto simp: image_iff) force
  ultimately show ?case using Cons.IH p by auto
qed simp

lemma snap_ok_distinct_ids:
  assumes "snap_ok snap"
  shows "distinct (map rp_ReplicaID (ReplicasForApp snap a))"
proof -
  have "distinct (map rp_ReplicaID (map snd (sn_Replicas snap)))"
    using assms by (intro distinct_ids_map_snd) (simp add: snap_ok_def)
  then have "distinct (map rp_ReplicaID (app_replicas snap a))"
    unfolding app_replicas_def by (simp add: distinct_map_filter del: map_map)
  moreover have "mset (map rp_ReplicaID (ReplicasForApp snap a)) = mset (map rp_ReplicaID (app_replicas snap a))"
    by (simp add: snap_ok_replicas [OF assms])
  ultimately show ?thesis by (metis mset_eq_imp_distinct_iff)
qed

section \<open>Properties\<close>

text \<open>A snapshot is the state at one instant, whatever order the map iterations take: every
  table is the state's, and the index gives for each application a permutation of exactly its
  replicas, so that the number of active replicas the engines count is the number of running or
  pending replicas of the application in the world state.\<close>

theorem snapshot_is_faithful:
  assumes "ws_wf ws" and "snap = Snapshot od now ws"
  shows "sn_Clusters snap = ws_clusters ws \<and> sn_Reservations snap = ws_reservations ws
    \<and> sn_Replicas snap = ws_replicas ws \<and> sn_TakenAt snap = now
    \<and> mset (ReplicasForApp snap a) = mset (filter (\<lambda>r. rp_AppID r = a) (map snd (ws_replicas ws)))
    \<and> distinct (map rp_ReplicaID (ReplicasForApp snap a))
    \<and> CountActiveReplicas snap a = count_vals (\<lambda>r. rp_AppID r = a \<and> active_replica r) (ws_replicas ws)"
proof -
  have ok: "snap_ok snap" unfolding assms(2) by (rule snap_ok_Snapshot [OF assms(1)])
  have app: "app_replicas snap a = filter (\<lambda>r. rp_AppID r = a) (map snd (ws_replicas ws))"
    by (simp add: app_replicas_def assms(2))
  have "CountActiveReplicas snap a = count_vals (\<lambda>r. rp_AppID r = a \<and> active_replica r) (ws_replicas ws)"
    unfolding CountActiveReplicas_def snap_ok_length_filter [OF ok] app by (rule length_filter_map_snd)
  then show ?thesis
    using snap_ok_replicas [OF ok, of a] snap_ok_distinct_ids [OF ok, of a]
    by (simp add: app) (simp add: assms(2))
qed

lemma snapshot_is_faithful_witness:
  "CountActiveReplicas (Snapshot (\<lambda>_. [3, 1]) 77 (ws_run sample_calls New)) ''a'' = 1"
proof -
  have wf: "ws_wf (ws_run sample_calls New)"
    by (rule wf_inv.run) (simp add: sample_calls_def wf_call_def)
  have r: "ws_replicas (ws_run sample_calls New) = [(''r1'', sample_replica)]"
    by (simp add: sample_calls_def ws_run_def CreateReservation_def keep_on_error_def New_def
        sample_replica_def split: option.split)
  show ?thesis
    using snapshot_is_faithful [OF wf refl, of "\<lambda>_. [3, 1]" 77 "''a''"]
    by (simp add: r sample_replica_def count_vals_def active_replica_def)
qed

end
