(* ===== verification/Scaling.thy ===== *)
theory Scaling
  imports Snapshot
begin

text \<open>
  \<open>internal/engine/scaling\<close>: the scaling engine's configuration and its four steps, from the
  raw target of one application's metrics to the decision of a whole cycle. Metrics are
  \<open>float64\<close> values (theory \<open>GoFloat\<close>), replica counts integers; the engine's own gauges and
  counters, which it only writes, are left out.
\<close>

section \<open>Configuration and decisions\<close>

record ScalingConfig =
  sg_QueueHighWatermark :: f64
  sg_QueueTarget :: f64
  sg_QueueLowWatermark :: f64
  sg_KVCacheHighWatermark :: f64
  sg_KVCacheTarget :: f64
  sg_KVCacheLowWatermark :: f64
  sg_BatchLowWatermark :: f64
  sg_MaxScaleDownPerCycle :: int
  sg_MaxScaleUpPerCycle :: int
  sg_ScaleUpCooldown :: duration
  sg_ScaleDownCooldown :: duration
  sg_StabilizationCycles :: int

definition DefaultScalingConfig :: ScalingConfig where
  "DefaultScalingConfig =
     \<lparr>sg_QueueHighWatermark = Fin 10, sg_QueueTarget = Fin 5, sg_QueueLowWatermark = Fin 1,
      sg_KVCacheHighWatermark = round64 (85 / 100), sg_KVCacheTarget = round64 (70 / 100),
      sg_KVCacheLowWatermark = round64 (40 / 100), sg_BatchLowWatermark = round64 (30 / 100),
      sg_MaxScaleDownPerCycle = 2, sg_MaxScaleUpPerCycle = 10,
      sg_ScaleUpCooldown = 1000000000, sg_ScaleDownCooldown = 3000000000,
      sg_StabilizationCycles = 3\<rparr>"

datatype ScaleDirection = ScaleDirectionUp | ScaleDirectionDown | ScaleDirectionUnchanged

datatype ScaleSignal =
  ScaleSignalQueue | ScaleSignalKVCache | ScaleSignalSLA | ScaleSignalEfficiency | ScaleSignalNone

record ScalingDecision =
  sl_AppID :: AppID
  sl_CurrentCount :: int
  sl_RunningCount :: int
  sl_PendingCount :: int
  sl_TargetCount :: int
  sl_Direction :: ScaleDirection
  sl_Signal :: ScaleSignal
  sl_SLABreach :: bool
  sl_ScaleActionApproved :: bool
  sl_ActionAt :: time
  sl_ScaleDownSignalObserved :: bool

section \<open>Helpers\<close>

definition ceilInt :: "f64 \<Rightarrow> int" where
  "ceilInt f = f_to_int (f_ceil f)"

definition maxInt :: "int \<Rightarrow> int \<Rightarrow> int" where
  "maxInt a b = (if b < a then a else b)"

definition minInt :: "int \<Rightarrow> int \<Rightarrow> int" where
  "minInt a b = (if a < b then a else b)"

definition isSLABreach :: "Application \<Rightarrow> VLLMMetrics \<Rightarrow> bool" where
  "isSLABreach app metrics =
     (if sla_MaxP99TTFTMs (ap_SLA app) = 0 then False
      else f_gt (vm_P99TimeToFirstTokenMs metrics) (f_of_int (sla_MaxP99TTFTMs (ap_SLA app))))"

definition countReplicasByStatus :: "AppID \<Rightarrow> WorldStateSnapshot \<Rightarrow> ReplicaStatus \<Rightarrow> int" where
  "countReplicasByStatus appID snap status =
     int (length (filter (\<lambda>r. rp_Status r = status) (ReplicasForApp snap appID)))"

section \<open>The raw target of one application\<close>

text \<open>
  The four required counts of \<open>computeTargetReplicas\<close>, then the function. A scale-up from zero
  replicas asks for one, whatever the factor.
\<close>

definition scaled :: "int \<Rightarrow> f64 \<Rightarrow> int" where
  "scaled currentCount factor =
     (let bootstrap = (currentCount = 0);
          multiplierCount = (if bootstrap then f_one else f_of_int currentCount)
      in if bootstrap then 1 else ceilInt (f_mul multiplierCount factor))"

definition requiredForQueue :: "ScalingConfig \<Rightarrow> VLLMMetrics \<Rightarrow> int \<Rightarrow> int" where
  "requiredForQueue cfg metrics currentCount =
     (if f_gt (vm_AvgWaitingQueueDepth metrics) (sg_QueueHighWatermark cfg)
         \<and> f_gt (sg_QueueTarget cfg) f_zero
      then scaled currentCount (f_div (vm_AvgWaitingQueueDepth metrics) (sg_QueueTarget cfg))
      else currentCount)"

definition requiredForCache :: "ScalingConfig \<Rightarrow> VLLMMetrics \<Rightarrow> int \<Rightarrow> int" where
  "requiredForCache cfg metrics currentCount =
     (if f_gt (vm_MaxKVCacheUtilization metrics) (sg_KVCacheHighWatermark cfg)
      then scaled currentCount (f_div (vm_MaxKVCacheUtilization metrics) (sg_KVCacheTarget cfg))
      else currentCount)"

definition requiredForSLA :: "Application \<Rightarrow> VLLMMetrics \<Rightarrow> int \<Rightarrow> int" where
  "requiredForSLA app metrics currentCount =
     (let sla = sla_MaxP99TTFTMs (ap_SLA app)
      in if 0 < sla \<and> f_gt (vm_P99TimeToFirstTokenMs metrics) (f_of_int sla)
         then scaled currentCount (f_div (vm_P99TimeToFirstTokenMs metrics) (f_of_int sla))
         else currentCount)"

definition desiredForEfficiency :: "ScalingConfig \<Rightarrow> Application \<Rightarrow> VLLMMetrics \<Rightarrow> int \<Rightarrow> int" where
  "desiredForEfficiency cfg app metrics currentCount =
     (if f_lt (vm_AvgWaitingQueueDepth metrics) (sg_QueueLowWatermark cfg)
         \<and> f_lt (vm_AvgBatchUtilization metrics) (sg_BatchLowWatermark cfg)
         \<and> f_lt (vm_AvgKVCacheUtilization metrics) (sg_KVCacheLowWatermark cfg)
         \<and> ap_MinReplicas app < currentCount
      then (let utilization = f_max (vm_AvgBatchUtilization metrics)
                  (f_max (vm_AvgKVCacheUtilization metrics)
                     (f_div (vm_AvgWaitingQueueDepth metrics) (sg_QueueTarget cfg)))
            in maxInt (ceilInt (f_mul (f_of_int currentCount) utilization)) (ap_MinReplicas app))
      else currentCount)"

text \<open>The last lines of \<open>computeTargetReplicas\<close>: the floor and the two caps per cycle.\<close>

definition dampen :: "ScalingConfig \<Rightarrow> Application \<Rightarrow> int \<Rightarrow> int \<Rightarrow> int" where
  "dampen cfg app currentCount target0 =
     (let target1 = maxInt target0 (ap_MinReplicas app);
          target2 = (if target1 < currentCount
                     then maxInt target1 (currentCount - sg_MaxScaleDownPerCycle cfg) else target1)
      in if currentCount < target2
         then minInt target2 (currentCount + sg_MaxScaleUpPerCycle cfg) else target2)"

definition computeTargetReplicas ::
  "ScalingConfig \<Rightarrow> Application \<Rightarrow> VLLMMetrics \<Rightarrow> int \<Rightarrow> int \<times> ScaleSignal" where
  "computeTargetReplicas cfg app metrics currentCount =
     (let forQueue = requiredForQueue cfg metrics currentCount;
          forCache = requiredForCache cfg metrics currentCount;
          forSLA = requiredForSLA app metrics currentCount;
          scaleUpTarget = maxInt forQueue (maxInt forCache forSLA)
      in if currentCount < scaleUpTarget
         then (dampen cfg app currentCount scaleUpTarget,
               if scaleUpTarget = forQueue then ScaleSignalQueue
               else if scaleUpTarget = forCache then ScaleSignalKVCache
               else ScaleSignalSLA)
         else (let target = desiredForEfficiency cfg app metrics currentCount
               in (dampen cfg app currentCount target,
                   if target < currentCount then ScaleSignalEfficiency else ScaleSignalNone)))"

section \<open>In-flight awareness\<close>

definition stalePendingCount :: "PerformanceProfile \<Rightarrow> Application \<Rightarrow> WorldStateSnapshot \<Rightarrow> int" where
  "stalePendingCount profile app snap =
     (let expectedStartup = seconds (f_to_int (f_mul (pp_ColdStartSeconds profile) (Fin 2)))
      in int (length (filter
           (\<lambda>r. rp_Status r = ReplicaStatusPending \<and> \<not> is_zero_time (rp_CreatedAt r)
                \<and> expectedStartup < time_sub (sn_TakenAt snap) (rp_CreatedAt r))
           (ReplicasForApp snap (ap_AppID app)))))"

text \<open>What the stale-pending override adds: nothing unless a breached application has stuck replicas.\<close>

definition stalePendingOverride :: "Application \<Rightarrow> WorldStateSnapshot \<Rightarrow> int" where
  "stalePendingOverride app snap =
     (case gget (sn_PerformanceProfiles snap) (ap_AppID app) of
        None \<Rightarrow> 0
      | Some profile \<Rightarrow>
          if f_gt (pp_ColdStartSeconds profile) f_zero
          then (let stalePending = stalePendingCount profile app snap
                in if 0 < stalePending
                   then (case gget (sn_VLLMMetrics snap) (ap_AppID app) of
                           None \<Rightarrow> 0
                         | Some metrics \<Rightarrow> if isSLABreach app metrics then stalePending else 0)
                   else 0)
          else 0)"

definition computeEffectiveTarget :: "Application \<Rightarrow> int \<Rightarrow> WorldStateSnapshot \<Rightarrow> int" where
  "computeEffectiveTarget app rawTarget snap =
     (let running = countReplicasByStatus (ap_AppID app) snap ReplicaStatusRunning;
          pending = countReplicasByStatus (ap_AppID app) snap ReplicaStatusPending;
          additionalNeeded = maxInt 0 (rawTarget - running - pending) + stalePendingOverride app snap
      in running + pending + additionalNeeded)"

section \<open>Cooldowns and stabilisation\<close>

definition applyStabilityControls ::
  "ScalingConfig \<Rightarrow> AppID \<Rightarrow> Application \<Rightarrow> int \<Rightarrow> int \<Rightarrow> WorldStateSnapshot \<Rightarrow> ScalingDecision" where
  "applyStabilityControls cfg appID app target current snap =
     (let history = gget_or zero_ScalingHistory (sn_ScalingHistory snap) appID;
          now = sn_TakenAt snap;
          slaBreach = (case gget (sn_VLLMMetrics snap) appID of
                         None \<Rightarrow> False | Some metrics \<Rightarrow> isSLABreach app metrics);
          decision = \<lparr>sl_AppID = appID, sl_CurrentCount = current, sl_RunningCount = 0,
            sl_PendingCount = 0, sl_TargetCount = target, sl_Direction = ScaleDirectionUnchanged,
            sl_Signal = ScaleSignalNone, sl_SLABreach = slaBreach, sl_ScaleActionApproved = False,
            sl_ActionAt = 0, sl_ScaleDownSignalObserved = False\<rparr>
      in if current < target then
           (let d = decision\<lparr>sl_Direction := ScaleDirectionUp, sl_Signal := ScaleSignalNone\<rparr>
            in if \<not> slaBreach \<and> \<not> is_zero_time (sh_LastScaleUpAt history)
                  \<and> time_sub now (sh_LastScaleUpAt history) < sg_ScaleUpCooldown cfg
               then d\<lparr>sl_TargetCount := current, sl_Direction := ScaleDirectionUnchanged\<rparr>
               else d\<lparr>sl_ScaleActionApproved := True, sl_ActionAt := now\<rparr>)
         else if target < current then
           (let d = decision\<lparr>sl_Direction := ScaleDirectionDown, sl_Signal := ScaleSignalEfficiency\<rparr>
            in if \<not> is_zero_time (sh_LastScaleDownAt history)
                  \<and> time_sub now (sh_LastScaleDownAt history) < sg_ScaleDownCooldown cfg
               then d\<lparr>sl_TargetCount := current, sl_Direction := ScaleDirectionUnchanged\<rparr>
               else
                 (let d' = d\<lparr>sl_ScaleDownSignalObserved := True\<rparr>
                  in if slaBreach then d'\<lparr>sl_ScaleActionApproved := True, sl_ActionAt := now\<rparr>
                     else if sh_ConsecutiveScaleDownSignals history + 1 < sg_StabilizationCycles cfg
                     then d'\<lparr>sl_TargetCount := current, sl_Direction := ScaleDirectionUnchanged\<rparr>
                     else d'\<lparr>sl_ScaleActionApproved := True, sl_ActionAt := now\<rparr>))
         else decision\<lparr>sl_Direction := ScaleDirectionUnchanged, sl_Signal := ScaleSignalNone\<rparr>)"

section \<open>One cycle\<close>

definition decideApp :: "ScalingConfig \<Rightarrow> WorldStateSnapshot \<Rightarrow> AppID \<Rightarrow> Application \<Rightarrow> VLLMMetrics
    \<Rightarrow> ScalingDecision" where
  "decideApp cfg snap appID app metrics =
     (let running = countReplicasByStatus appID snap ReplicaStatusRunning;
          pending = countReplicasByStatus appID snap ReplicaStatusPending;
          currentCount = running + pending;
          (rawTarget, signal) = computeTargetReplicas cfg app metrics currentCount;
          effectiveTarget = computeEffectiveTarget app rawTarget snap;
          decision = applyStabilityControls cfg appID app effectiveTarget currentCount snap
      in decision\<lparr>sl_RunningCount := running, sl_PendingCount := pending, sl_Signal := signal\<rparr>)"

text \<open>The result is a map with one entry per application that has metrics: no order matters.\<close>

definition ComputeTargets :: "ScalingConfig \<Rightarrow> WorldStateSnapshot \<Rightarrow> (AppID, ScalingDecision) gomap" where
  "ComputeTargets cfg snap =
     gmap_some (\<lambda>appID app. map_option (decideApp cfg snap appID app) (gget (sn_VLLMMetrics snap) appID))
       (sn_Applications snap)"

section \<open>Lemmas\<close>

lemma maxInt_max [simp]: "maxInt a b = max a b"
  by (simp add: maxInt_def max_def)

lemma minInt_min [simp]: "minInt a b = min a b"
  by (simp add: minInt_def min_def)

lemma countReplicasByStatus_nonneg [simp]: "0 \<le> countReplicasByStatus a snap st"
  by (simp add: countReplicasByStatus_def)

lemma stalePendingCount_nonneg [simp]: "0 \<le> stalePendingCount p app snap"
  by (simp add: stalePendingCount_def Let_def)

text \<open>A stale replica is a pending one.\<close>

lemma length_filter_sub: "(\<And>x. P x \<Longrightarrow> Q x) \<Longrightarrow> length (filter P xs) \<le> length (filter Q xs)"
  by (induction xs) (auto simp: le_SucI)

lemma stalePendingCount_le:
  "stalePendingCount p app snap \<le> countReplicasByStatus (ap_AppID app) snap ReplicaStatusPending"
  unfolding stalePendingCount_def countReplicasByStatus_def Let_def
  by (intro of_nat_mono length_filter_sub) blast

definition current_count :: "WorldStateSnapshot \<Rightarrow> AppID \<Rightarrow> int" where
  "current_count snap a = countReplicasByStatus a snap ReplicaStatusRunning
     + countReplicasByStatus a snap ReplicaStatusPending"

lemma stalePendingOverride_bounds:
  "0 \<le> stalePendingOverride app snap"
  "stalePendingOverride app snap \<le> countReplicasByStatus (ap_AppID app) snap ReplicaStatusPending"
  using stalePendingCount_le
  by (simp_all add: stalePendingOverride_def Let_def split: option.split)

lemma effective_target_eq:
  "computeEffectiveTarget app raw snap
     = max (current_count snap (ap_AppID app)) raw + stalePendingOverride app snap"
  by (simp add: computeEffectiveTarget_def Let_def current_count_def max_def)

text \<open>Every branch of the stability controls.\<close>

lemma stability_fields [simp]:
  "sl_AppID (applyStabilityControls cfg a app t c snap) = a"
  "sl_CurrentCount (applyStabilityControls cfg a app t c snap) = c"
  by (simp_all add: applyStabilityControls_def Let_def)

lemma stability_up:
  assumes "c \<le> t"
  shows "sl_Direction (applyStabilityControls cfg a app t c snap) \<noteq> ScaleDirectionDown"
    and "\<not> sl_ScaleDownSignalObserved (applyStabilityControls cfg a app t c snap)"
    and "sl_TargetCount (applyStabilityControls cfg a app t c snap) \<in> {c, t}"
  using assms by (simp_all add: applyStabilityControls_def Let_def)

lemma stability_approved:
  "sl_ScaleActionApproved (applyStabilityControls cfg a app t c snap)
     \<longleftrightarrow> sl_TargetCount (applyStabilityControls cfg a app t c snap) \<noteq> c"
  by (simp add: applyStabilityControls_def Let_def)

lemma gget_ComputeTargets:
  "gwf (sn_Applications snap) \<Longrightarrow> gget (ComputeTargets cfg snap) a =
    (case gget (sn_Applications snap) a of None \<Rightarrow> None
     | Some app \<Rightarrow> map_option (decideApp cfg snap a app) (gget (sn_VLLMMetrics snap) a))"
  by (simp add: ComputeTargets_def gget_gmap_some split: option.split)

lemma dampen_bounds:
  assumes "0 \<le> sg_MaxScaleDownPerCycle cfg" and "0 \<le> sg_MaxScaleUpPerCycle cfg"
  shows "c - sg_MaxScaleDownPerCycle cfg \<le> dampen cfg app c t"
    and "dampen cfg app c t \<le> c + sg_MaxScaleUpPerCycle cfg"
    and "min (ap_MinReplicas app) (c + sg_MaxScaleUpPerCycle cfg) \<le> dampen cfg app c t"
  unfolding dampen_def Let_def maxInt_max minInt_min using assms by (simp_all add: max_def min_def)

lemma dampen_grows:
  assumes "0 \<le> sg_MaxScaleUpPerCycle cfg" and "c \<le> k" and "k \<le> t"
  shows "min k (c + sg_MaxScaleUpPerCycle cfg) \<le> dampen cfg app c t"
  unfolding dampen_def Let_def maxInt_max minInt_min using assms by (simp add: max_def min_def)

lemma raw_target_dampened: "\<exists>t. fst (computeTargetReplicas cfg app metrics c) = dampen cfg app c t"
  unfolding computeTargetReplicas_def Let_def by auto

lemma raw_target_queue:
  "c < requiredForQueue cfg metrics c \<Longrightarrow>
     \<exists>t. requiredForQueue cfg metrics c \<le> t \<and> fst (computeTargetReplicas cfg app metrics c) = dampen cfg app c t"
  unfolding computeTargetReplicas_def Let_def maxInt_max
  by (rule exI [of _ "max (requiredForQueue cfg metrics c)
        (max (requiredForCache cfg metrics c) (requiredForSLA app metrics c))"]) (simp add: less_max_iff_disj)

lemma queue_factor:
  assumes "10 < q" and "q \<le> 2 ^ 30"
  obtains y where "f_div (Fin q) (Fin 5) = Fin y" and "2 \<le> y" and "y \<le> 2 ^ 30"
proof -
  have "\<bar>q / 5\<bar> \<le> 2 ^ 64" using assms by simp
  from round64_small [OF this] have d: "f_div (Fin q) (Fin 5) = Fin (rnd64 (q / 5))" by simp
  have "2 \<le> rnd64 (q / 5)" using rnd64.rnd_ge_int [of 2 "q / 5"] assms(1) by simp
  moreover have "rnd64 (q / 5) \<le> 2 ^ 30" using rnd64.rnd_le_int [of "2 ^ 30" "q / 5"] assms by simp
  ultimately show ?thesis using that d by blast
qed

lemma queue_requires_double:
  assumes "0 < c" and "c \<le> 2 ^ 30" and "vm_AvgWaitingQueueDepth metrics = Fin q"
    and "10 < q" and "q \<le> 2 ^ 30"
  shows "2 * c \<le> requiredForQueue DefaultScalingConfig metrics c"
proof -
  obtain y where y: "f_div (Fin q) (Fin 5) = Fin y" "2 \<le> y" "y \<le> 2 ^ 30"
    by (rule queue_factor [OF assms(4,5)])
  have "(of_int c :: rat) * y \<le> of_int (2 ^ 30) * 2 ^ 30"
  proof (rule mult_mono)
    show "(of_int c :: rat) \<le> of_int (2 ^ 30)" unfolding of_int_le_iff by (rule assms(2))
    show "0 \<le> y" using y(2) by simp
  qed (use y(3) in simp_all)
  then have hi: "(of_int c :: rat) * y \<le> 2 ^ 62" by simp
  have "(of_int c :: rat) * 2 \<le> of_int c * y" using assms(1) y(2) by (intro mult_left_mono) auto
  then have lo: "of_int (2 * c) \<le> of_int c * y" by simp
  have "2 * c \<le> f_to_int (f_ceil (f_mul (f_of_int c) (Fin y)))"
    by (rule ceil_product_ge [OF _ _ _ _ lo hi]) (use assms(1,2) in simp_all)
  then show ?thesis
    using assms(1,3,4) y(1)
    by (simp add: requiredForQueue_def DefaultScalingConfig_def scaled_def Let_def ceilInt_def)
qed

lemma queue_doubles:
  assumes "0 < current" and "current \<le> 2 ^ 30"
    and "vm_AvgWaitingQueueDepth metrics = Fin q" and "10 < q" and "q \<le> 2 ^ 30"
  shows "min (2 * current) (current + 10)
    \<le> fst (computeTargetReplicas DefaultScalingConfig app metrics current)"
proof -
  have cap: "sg_MaxScaleUpPerCycle DefaultScalingConfig = 10" by (simp add: DefaultScalingConfig_def)
  note double = queue_requires_double [OF assms]
  have "current < requiredForQueue DefaultScalingConfig metrics current" using double assms(1) by linarith
  from raw_target_queue [OF this, of app] obtain t
    where t: "requiredForQueue DefaultScalingConfig metrics current \<le> t"
      "fst (computeTargetReplicas DefaultScalingConfig app metrics current)
         = dampen DefaultScalingConfig app current t" by blast
  have "2 * current \<le> t" using double t(1) by linarith
  from dampen_grows [OF _ _ this, where cfg = DefaultScalingConfig and c = current and app = app] show ?thesis
    using cap t(2) assms(1) by simp
qed

section \<open>Properties\<close>

text \<open>C7: The raw target of an application moves by at most \<open>MaxScaleDownPerCycle\<close> down and
  \<open>MaxScaleUpPerCycle\<close> up in a cycle, whatever the metrics are (NaN and infinities included),
  and never falls below \<open>MinReplicas\<close> unless the scale-up cap itself forbids reaching it.\<close>

theorem raw_target_is_dampened:
  assumes "0 \<le> sg_MaxScaleDownPerCycle cfg" and "0 \<le> sg_MaxScaleUpPerCycle cfg"
    and "t = fst (computeTargetReplicas cfg app metrics current)"
  shows "current - sg_MaxScaleDownPerCycle cfg \<le> t \<and> t \<le> current + sg_MaxScaleUpPerCycle cfg
    \<and> min (ap_MinReplicas app) (current + sg_MaxScaleUpPerCycle cfg) \<le> t"
  using raw_target_dampened [of cfg app metrics current] dampen_bounds [OF assms(1,2), where c = current and app = app]
  by (auto simp: assms(3))

definition sample_metrics :: VLLMMetrics where
  "sample_metrics = \<lparr>vm_AppID = ''a'', vm_AggregatedFrom = 1, vm_AvgWaitingQueueDepth = Fin 40,
     vm_MaxWaitingQueueDepth = Fin 40, vm_AvgRunningQueueDepth = Fin 1, vm_AvgBatchUtilization = Fin 0,
     vm_AvgKVCacheUtilization = NaN, vm_MaxKVCacheUtilization = PInf,
     vm_TotalTokensPerSecond = Fin 1, vm_AvgTimeToFirstTokenMs = Fin 1,
     vm_P99TimeToFirstTokenMs = Fin 1, vm_MeasuredAt = 0\<rparr>"

definition sample_app :: Application where
  "sample_app = \<lparr>ap_AppID = ''a'', ap_ModelID = ''m'', ap_GPUsPerReplica = 2, ap_Priority = 1,
     ap_MinReplicas = 1, ap_FailureDomainRule = FailureDomainNone,
     ap_SLA = \<lparr>sla_AppID = ''a'', sla_MaxP99TTFTMs = 500, sla_MaxP99TPS = 0\<rparr>\<rparr>"

lemma raw_target_is_dampened_witness:
  "3 - 2 \<le> fst (computeTargetReplicas DefaultScalingConfig sample_app sample_metrics 3)
     \<and> fst (computeTargetReplicas DefaultScalingConfig sample_app sample_metrics 3) \<le> 13"
  using raw_target_is_dampened [OF _ _ refl, where cfg = DefaultScalingConfig and app = sample_app
    and metrics = sample_metrics and current = 3]
  by (simp add: DefaultScalingConfig_def)

text \<open>C8: With the default configuration, an average waiting queue above the high watermark at
  least doubles a running application, up to the ten replicas a cycle may add, whatever the
  other metrics say: the \<open>float64\<close> rounding never loses a replica. So from ten replicas on, every
  such cycle asks for exactly ten more.\<close>

theorem queue_pressure_doubles_replicas:
  assumes "0 < current" and "current \<le> 2 ^ 30"
    and "vm_AvgWaitingQueueDepth metrics = Fin q" and "10 < q" and "q \<le> 2 ^ 30"
    and "t = fst (computeTargetReplicas DefaultScalingConfig app metrics current)"
  shows "min (2 * current) (current + 10) \<le> t \<and> t \<le> current + 10 \<and> (10 \<le> current \<longrightarrow> t = current + 10)"
proof -
  have "t \<le> current + 10"
    using raw_target_dampened [of DefaultScalingConfig app metrics current]
      dampen_bounds(2) [where cfg = DefaultScalingConfig and c = current and app = app] assms(6)
    by (auto simp: DefaultScalingConfig_def)
  moreover have "min (2 * current) (current + 10) \<le> t"
    unfolding assms(6) by (rule queue_doubles [OF assms(1-5)])
  ultimately show ?thesis by auto
qed

lemma queue_pressure_doubles_replicas_witness:
  "6 \<le> fst (computeTargetReplicas DefaultScalingConfig sample_app sample_metrics 3)
     \<and> fst (computeTargetReplicas DefaultScalingConfig sample_app sample_metrics 3) \<le> 13"
  using queue_pressure_doubles_replicas [OF _ _ _ _ _ refl, of 3 sample_metrics 40 sample_app]
  by (simp add: sample_metrics_def)

text \<open>An action is approved exactly when the target survives the controls: a scale-up
  outside its cooldown or under an SLA breach; a scale-down outside its cooldown that is under
  an SLA breach or has been signalled \<open>StabilizationCycles\<close> times, this cycle included. In
  every other case the decision's target is the current count.\<close>

theorem stability_controls_approve_exactly:
  "let d = applyStabilityControls cfg appID app target current snap;
       h = gget_or zero_ScalingHistory (sn_ScalingHistory snap) appID;
       breach = (case gget (sn_VLLMMetrics snap) appID of None \<Rightarrow> False | Some m \<Rightarrow> isSLABreach app m)
   in (sl_ScaleActionApproved d \<longleftrightarrow>
        current < target \<and> (breach \<or> sh_LastScaleUpAt h = 0
          \<or> sg_ScaleUpCooldown cfg \<le> time_sub (sn_TakenAt snap) (sh_LastScaleUpAt h))
        \<or> target < current \<and> (sh_LastScaleDownAt h = 0
          \<or> sg_ScaleDownCooldown cfg \<le> time_sub (sn_TakenAt snap) (sh_LastScaleDownAt h))
          \<and> (breach \<or> sg_StabilizationCycles cfg \<le> sh_ConsecutiveScaleDownSignals h + 1))
      \<and> sl_TargetCount d = (if sl_ScaleActionApproved d then target else current)
      \<and> sl_ActionAt d = (if sl_ScaleActionApproved d then sn_TakenAt snap else 0)
      \<and> (sl_Direction d = ScaleDirectionUp \<longleftrightarrow> current < sl_TargetCount d)
      \<and> (sl_Direction d = ScaleDirectionDown \<longleftrightarrow> sl_TargetCount d < current)"
  by (auto simp: applyStabilityControls_def Let_def is_zero_time_def)

text \<open>C3: What the engine decides can never be a scale-down, although its configuration, its
  stability controls and the control loop provide for one: since the effective target counts
  every running and pending replica again, the target of an application is at least its
  current count, the direction is never \<open>down\<close> and no scale-down signal is ever observed.
  Above, it is bounded by the scale-up cap and the stuck pending replicas it replaces.\<close>

theorem compute_targets_never_scales_down:
  assumes "snap_ok snap" and "0 \<le> sg_MaxScaleUpPerCycle cfg" and "0 \<le> sg_MaxScaleDownPerCycle cfg"
    and "gget (ComputeTargets cfg snap) a = Some d"
  shows "sl_CurrentCount d = sl_RunningCount d + sl_PendingCount d
    \<and> sl_CurrentCount d \<le> sl_TargetCount d
    \<and> sl_TargetCount d \<le> sl_CurrentCount d + sg_MaxScaleUpPerCycle cfg + sl_PendingCount d
    \<and> sl_Direction d \<noteq> ScaleDirectionDown \<and> \<not> sl_ScaleDownSignalObserved d"
proof -
  have keyed: "keyed ap_AppID (sn_Applications snap)" using assms(1) by (simp add: snap_ok_def)
  obtain app metrics where app: "gget (sn_Applications snap) a = Some app"
    and d: "d = decideApp cfg snap a app metrics"
    using assms(4) by (auto simp: gget_ComputeTargets [OF keyed_gwf [OF keyed]] split: option.splits)
  have a: "ap_AppID app = a" by (rule keyedD [OF keyed app])
  let ?c = "current_count snap a"
  let ?raw = "fst (computeTargetReplicas cfg app metrics ?c)"
  let ?eff = "computeEffectiveTarget app ?raw snap"
  let ?s = "applyStabilityControls cfg a app ?eff ?c snap"
  have eff: "?eff = max ?c ?raw + stalePendingOverride app snap" by (simp add: effective_target_eq a)
  have ge: "?c \<le> ?eff" using eff stalePendingOverride_bounds(1) [of app snap] by simp
  have raw: "?raw \<le> ?c + sg_MaxScaleUpPerCycle cfg"
    using raw_target_dampened [of cfg app metrics ?c] dampen_bounds(2) [OF assms(3,2), where c = ?c and app = app]
    by auto
  have le: "?eff \<le> ?c + sg_MaxScaleUpPerCycle cfg + countReplicasByStatus a snap ReplicaStatusPending"
    using eff stalePendingOverride_bounds(2) [of app snap] raw assms(2) a by simp
  have fields: "sl_CurrentCount d = ?c" "sl_TargetCount d = sl_TargetCount ?s"
    "sl_Direction d = sl_Direction ?s" "sl_ScaleDownSignalObserved d = sl_ScaleDownSignalObserved ?s"
    "sl_RunningCount d = countReplicasByStatus a snap ReplicaStatusRunning"
    "sl_PendingCount d = countReplicasByStatus a snap ReplicaStatusPending"
    unfolding d decideApp_def current_count_def Let_def by (simp_all add: case_prod_beta)
  have t: "sl_TargetCount ?s = ?c \<or> sl_TargetCount ?s = ?eff" using stability_up(3) [OF ge] by blast
  show ?thesis
    unfolding fields using t ge le assms(2) stability_up(1,2) [OF ge, of cfg a app snap]
    by (auto simp: current_count_def)
qed

definition scaling_snapshot :: WorldStateSnapshot where
  "scaling_snapshot = Snapshot (\<lambda>_. []) 100
     (ws_run (sample_calls @ [CallUpsertApplication sample_app, CallUpdateVLLMMetrics sample_metrics]) New)"

lemma scaling_snapshot_ok: "snap_ok scaling_snapshot"
  unfolding scaling_snapshot_def
  by (rule snap_ok_Snapshot, rule wf_inv.run) (simp add: sample_calls_def wf_call_def)

lemma compute_targets_never_scales_down_witness:
  "\<exists>d. gget (ComputeTargets DefaultScalingConfig scaling_snapshot) ''a'' = Some d
     \<and> sl_CurrentCount d \<le> sl_TargetCount d"
proof -
  have keyed: "keyed ap_AppID (sn_Applications scaling_snapshot)"
    using scaling_snapshot_ok by (simp add: snap_ok_def)
  obtain d where d: "gget (ComputeTargets DefaultScalingConfig scaling_snapshot) ''a'' = Some d"
    by (simp add: gget_ComputeTargets [OF keyed_gwf [OF keyed]])
      (simp add: scaling_snapshot_def ws_run_def sample_calls_def UpsertApplication_def
        UpdateVLLMMetrics_def sample_app_def sample_metrics_def)
  show ?thesis
    using compute_targets_never_scales_down [OF scaling_snapshot_ok _ _ d] d
    by (auto simp: DefaultScalingConfig_def)
qed

end
