(* ===== verification/Preemption.thy ===== *)
theory Preemption
  imports Snapshot
begin

text \<open>
  \<open>internal/engine/preemption\<close>: the priority cascade. Candidates of priority 2, then of
  priority 1, are sorted and taken until the requester's GPUs are freed in one cluster. The
  locale \<open>preemption_finder\<close> is the contract of the interface \<open>preemptionFinder\<close> through
  which the placement engine calls it.
\<close>

section \<open>Configuration and candidates\<close>

record PreemptionConfig =
  pc_DefaultGracePeriodSeconds :: int

definition DefaultPreemptionConfig :: PreemptionConfig where
  "DefaultPreemptionConfig = \<lparr>pc_DefaultGracePeriodSeconds = 10\<rparr>"

record victimCandidate =
  vc_replica :: Replica
  vc_app :: Application

section \<open>Sorting the candidates\<close>

definition aboveMinOrder :: "WorldStateSnapshot \<Rightarrow> victimCandidate \<Rightarrow> int" where
  "aboveMinOrder snap c =
     (if ap_MinReplicas (vc_app c) < CountActiveReplicas snap (ap_AppID (vc_app c)) then 0 else 1)"

definition packingBenefit :: "int \<Rightarrow> int \<Rightarrow> f64" where
  "packingBenefit replicaGPUs gpusNeeded =
     (if replicaGPUs = gpusNeeded then f_one
      else f_div f_one (f_add f_one (f_abs (f_of_int (replicaGPUs - gpusNeeded)))))"

definition clusterGPUs :: "victimCandidate list \<Rightarrow> ClusterID \<Rightarrow> int" where
  "clusterGPUs candidates cid =
     sum_list (map (\<lambda>c. if rp_ClusterID (vc_replica c) = cid then rp_GPUs (vc_replica c) else 0) candidates)"

definition candidate_less ::
  "(ClusterID \<Rightarrow> int) \<Rightarrow> int \<Rightarrow> WorldStateSnapshot \<Rightarrow> victimCandidate \<Rightarrow> victimCandidate \<Rightarrow> bool" where
  "candidate_less cg gpusNeeded snap ci cj =
     (if aboveMinOrder snap ci \<noteq> aboveMinOrder snap cj then aboveMinOrder snap ci < aboveMinOrder snap cj
      else if cg (rp_ClusterID (vc_replica ci)) \<noteq> cg (rp_ClusterID (vc_replica cj))
      then cg (rp_ClusterID (vc_replica cj)) < cg (rp_ClusterID (vc_replica ci))
      else if rp_ClusterID (vc_replica ci) \<noteq> rp_ClusterID (vc_replica cj)
      then rp_ClusterID (vc_replica ci) < rp_ClusterID (vc_replica cj)
      else if \<not> f_eq (packingBenefit (rp_GPUs (vc_replica ci)) gpusNeeded)
                    (packingBenefit (rp_GPUs (vc_replica cj)) gpusNeeded)
      then f_gt (packingBenefit (rp_GPUs (vc_replica ci)) gpusNeeded)
                (packingBenefit (rp_GPUs (vc_replica cj)) gpusNeeded)
      else rp_ReplicaID (vc_replica ci) < rp_ReplicaID (vc_replica cj))"

definition sortCandidates :: "victimCandidate list \<Rightarrow> int \<Rightarrow> WorldStateSnapshot \<Rightarrow> victimCandidate list" where
  "sortCandidates candidates gpusNeeded snap =
     slice_stable (candidate_less (clusterGPUs candidates) gpusNeeded snap) candidates"

section \<open>Selecting victims\<close>

text \<open>
  The loop of \<open>selectVictims\<close>; its state is the count of GPUs freed, the target cluster
  (empty while none is pinned) and \<open>preemptingPerApp\<close>. The victims come out in order.
\<close>

definition victim_of :: "PreemptionConfig \<Rightarrow> victimCandidate \<Rightarrow> PreemptionDecision" where
  "victim_of cfg c =
     \<lparr>pd_VictimReplicaID = rp_ReplicaID (vc_replica c), pd_VictimAppID = ap_AppID (vc_app c),
      pd_NodeID = rp_NodeID (vc_replica c), pd_ClusterID = rp_ClusterID (vc_replica c),
      pd_GracePeriodSeconds = pc_DefaultGracePeriodSeconds cfg,
      pd_Reason = ''preempted for higher-priority app '' @ '''' @ '' (P'' @ fmt_d (ap_Priority (vc_app c)) @ '')''\<rparr>"

fun select_loop :: "WorldStateSnapshot \<Rightarrow> int \<Rightarrow> victimCandidate list \<Rightarrow> int \<Rightarrow> ClusterID
    \<Rightarrow> (AppID, int) gomap \<Rightarrow> victimCandidate list \<times> int \<times> ClusterID" where
  "select_loop snap required [] freed target cnt = ([], freed, target)"
| "select_loop snap required (c # cs) freed target cnt =
     (if required \<le> freed then ([], freed, target)
      else if target \<noteq> '''' \<and> rp_ClusterID (vc_replica c) \<noteq> target
      then select_loop snap required cs freed target cnt
      else if CountActiveReplicas snap (ap_AppID (vc_app c)) - gget_or 0 cnt (ap_AppID (vc_app c))
                \<le> ap_MinReplicas (vc_app c)
      then select_loop snap required cs freed target cnt
      else
        (let target' = (if target = '''' then rp_ClusterID (vc_replica c) else target);
             a = ap_AppID (vc_app c);
             (vs, freed', target'') = select_loop snap required cs (freed + rp_GPUs (vc_replica c)) target'
               (gput a (gget_or 0 cnt a + 1) cnt)
         in (c # vs, freed', target'')))"

definition selectVictims :: "PreemptionConfig \<Rightarrow> victimCandidate list \<Rightarrow> int \<Rightarrow> WorldStateSnapshot
    \<Rightarrow> ClusterID \<Rightarrow> PreemptionDecision list \<times> int \<times> ClusterID" where
  "selectVictims cfg candidates requiredGPUs snap preferCluster =
     (let (vs, freed, target) = select_loop snap requiredGPUs candidates 0 preferCluster []
      in (map (victim_of cfg) vs, freed, target))"

section \<open>The cascade\<close>

text \<open>The active replicas of the applications of priority \<open>p\<close>, in the order of the two ranges.\<close>

definition candidates_of :: "orders \<Rightarrow> Application \<Rightarrow> WorldStateSnapshot \<Rightarrow> int \<Rightarrow> victimCandidate list" where
  "candidates_of od app snap p =
     concat (map (\<lambda>(victimAppID, victimApp).
         if victimAppID = ap_AppID app \<or> ap_Priority victimApp \<le> ap_Priority app
            \<or> ap_Priority victimApp \<noteq> p then []
         else map (\<lambda>r. \<lparr>vc_replica = r, vc_app = victimApp\<rparr>)
                (filter active_replica (ReplicasForApp snap victimAppID)))
       (range_order od (sn_Applications snap)))"

definition FindPreemptionOpportunity ::
  "PreemptionConfig \<Rightarrow> orders \<Rightarrow> Application \<Rightarrow> WorldStateSnapshot \<Rightarrow> PreemptionPlan option" where
  "FindPreemptionOpportunity cfg od app snap =
     (if ap_Priority app = 2 then None
      else
        (let gpusNeeded = ap_GPUsPerReplica app;
             p2Candidates = sortCandidates (candidates_of od app snap 2) gpusNeeded snap;
             p1Candidates = sortCandidates (candidates_of od app snap 1) gpusNeeded snap;
             (victims, freed, targetCluster) = selectVictims cfg p2Candidates gpusNeeded snap '''';
             (victims', freed', targetCluster') =
               (if freed < gpusNeeded \<and> ap_Priority app = 0
                then (let (p1Victims, p1Freed, tc) =
                            selectVictims cfg p1Candidates (gpusNeeded - freed) snap targetCluster
                      in (victims @ p1Victims, freed + p1Freed,
                          if targetCluster = '''' then tc else targetCluster))
                else (victims, freed, targetCluster))
         in if freed' < gpusNeeded then None
            else Some \<lparr>pn_Victims = victims', pn_TargetCluster = targetCluster',
                       pn_Constraints = zero_SchedulingConstraints\<lparr>sc_RequiredGPUs := gpusNeeded,
                                          sc_CacheAffinityModel := ap_ModelID app\<rparr>\<rparr>))"

section \<open>The sort does not depend on the order of the candidates\<close>

lemma f_add_one_abs: "a \<noteq> NaN \<Longrightarrow> f_add f_one (f_abs a) \<noteq> NaN \<and> f_add f_one (f_abs a) \<noteq> NInf"
proof -
  have pos: "0 < 1 + \<bar>x\<bar>" for x :: rat by (rule add_pos_nonneg) simp_all
  have "round64 (1 + \<bar>x\<bar>) \<noteq> NInf" for x :: rat using pos [of x] by (simp add: round64_def Let_def)
  then show "a \<noteq> NaN \<Longrightarrow> ?thesis" by (cases a) (auto simp: round64_def Let_def)
qed

lemma packingBenefit_not_NaN: "packingBenefit g n \<noteq> NaN"
proof -
  have "f_of_int (g - n) \<noteq> NaN" by (simp add: f_of_int_def round64_def Let_def)
  note d = f_add_one_abs [OF this]
  have "f_div f_one b \<noteq> NaN" if "b \<noteq> NaN" for b
    using that by (cases b) (auto simp: round64_def inf_of_sign_def Let_def)
  then show ?thesis using d by (simp add: packingBenefit_def)
qed

definition candidate_id :: "victimCandidate \<Rightarrow> ReplicaID" where
  "candidate_id c = rp_ReplicaID (vc_replica c)"

interpretation candidates: total_comparison "candidate_less cg n snap" "\<lambda>_. True" candidate_id
  for cg n snap
proof -
  let ?rid = "by_key candidate_id"
  let ?pb = "by_key_desc (\<lambda>c. packingBenefit (rp_GPUs (vc_replica c)) n) ?rid"
  have "total_comparison ?pb (\<lambda>_. True) candidate_id"
    by (rule total_comparison_by_key_desc [OF total_comparison_by_key packingBenefit_not_NaN])
  from total_comparison_lex [OF this, of "\<lambda>c. rp_ClusterID (vc_replica c)"]
  have 1: "total_comparison (\<lambda>x y. if rp_ClusterID (vc_replica x) \<noteq> rp_ClusterID (vc_replica y)
      then rp_ClusterID (vc_replica x) < rp_ClusterID (vc_replica y) else ?pb x y) (\<lambda>_. True) candidate_id" .
  from total_comparison_lex [OF total_comparison_lex [OF 1, of "\<lambda>c. - cg (rp_ClusterID (vc_replica c))"],
      of "aboveMinOrder snap"]
  show "total_comparison (candidate_less cg n snap) (\<lambda>_. True) candidate_id"
    by (simp add: candidate_less_def [abs_def] by_key_desc_def [abs_def] by_key_def [abs_def]
        candidate_id_def [abs_def] cong: if_cong)
qed

section \<open>The candidates\<close>

text \<open>The candidates one application contributes.\<close>

definition app_candidates :: "Application \<Rightarrow> WorldStateSnapshot \<Rightarrow> int \<Rightarrow> AppID \<times> Application
    \<Rightarrow> victimCandidate list" where
  "app_candidates app snap p = (\<lambda>(victimAppID, victimApp).
     if victimAppID = ap_AppID app \<or> ap_Priority victimApp \<le> ap_Priority app
        \<or> ap_Priority victimApp \<noteq> p then []
     else map (\<lambda>r. \<lparr>vc_replica = r, vc_app = victimApp\<rparr>)
            (filter active_replica (ReplicasForApp snap victimAppID)))"

lemma candidates_of_alt:
  "candidates_of od app snap p = concat (map (app_candidates app snap p) (range_order od (sn_Applications snap)))"
  by (simp add: candidates_of_def app_candidates_def)

lemma mem_app_candidates:
  "c \<in> set (app_candidates app snap p (a, A)) \<longleftrightarrow> a \<noteq> ap_AppID app
     \<and> ap_Priority app < ap_Priority A \<and> ap_Priority A = p \<and> A = vc_app c
     \<and> active_replica (vc_replica c) \<and> vc_replica c \<in> set (ReplicasForApp snap a)"
  by (cases c) (auto simp: app_candidates_def)

lemma mem_candidates_of:
  assumes "snap_ok snap"
  shows "c \<in> set (candidates_of od app snap p) \<longleftrightarrow>
    gget (sn_Applications snap) (ap_AppID (vc_app c)) = Some (vc_app c)
    \<and> ap_AppID (vc_app c) \<noteq> ap_AppID app \<and> ap_Priority app < ap_Priority (vc_app c)
    \<and> ap_Priority (vc_app c) = p \<and> active_replica (vc_replica c)
    \<and> rp_AppID (vc_replica c) = ap_AppID (vc_app c)
    \<and> gget (sn_Replicas snap) (rp_ReplicaID (vc_replica c)) = Some (vc_replica c)"
proof -
  have k: "keyed ap_AppID (sn_Applications snap)" using assms by (simp add: snap_ok_def)
  have "c \<in> set (candidates_of od app snap p) \<longleftrightarrow>
    (\<exists>a A. (a, A) \<in> set (sn_Applications snap) \<and> c \<in> set (app_candidates app snap p (a, A)))"
    by (auto simp: candidates_of_alt)
  also have "\<dots> \<longleftrightarrow> (\<exists>a A. gget (sn_Applications snap) a = Some A \<and> c \<in> set (app_candidates app snap p (a, A)))"
    by (simp only: gget_iff_mem [OF keyed_gwf [OF k]])
  also have "\<dots> \<longleftrightarrow> (\<exists>a A. gget (sn_Applications snap) a = Some A \<and> a \<noteq> ap_AppID app
       \<and> ap_Priority app < ap_Priority A \<and> ap_Priority A = p \<and> A = vc_app c
       \<and> active_replica (vc_replica c) \<and> vc_replica c \<in> set (ReplicasForApp snap a))"
    by (simp only: mem_app_candidates)
  also have "\<dots> \<longleftrightarrow> (\<exists>a. gget (sn_Applications snap) a = Some (vc_app c) \<and> a = ap_AppID (vc_app c) \<and> a \<noteq> ap_AppID app
       \<and> ap_Priority app < ap_Priority (vc_app c) \<and> ap_Priority (vc_app c) = p
       \<and> active_replica (vc_replica c) \<and> vc_replica c \<in> set (ReplicasForApp snap a))"
    using keyedD [OF k] by blast
  finally show ?thesis by (auto simp: snap_ok_set [OF assms])
qed

lemma candidates_same_app:
  assumes "snap_ok snap" and "c \<in> set (candidates_of od app snap p)" and "d \<in> set (candidates_of od app snap p)"
    and "ap_AppID (vc_app c) = ap_AppID (vc_app d)"
  shows "vc_app c = vc_app d"
  using assms(2-4) unfolding mem_candidates_of [OF assms(1)] by (metis option.inject)

lemma candidates_inj:
  assumes "snap_ok snap" and c: "c \<in> set (candidates_of od app snap p)"
    and d: "d \<in> set (candidates_of od app snap q)" and id: "candidate_id c = candidate_id d"
  shows "c = d"
proof -
  note C = c [unfolded mem_candidates_of [OF assms(1)]] and D = d [unfolded mem_candidates_of [OF assms(1)]]
  have r: "vc_replica c = vc_replica d"
    using C D id unfolding candidate_id_def by (metis option.inject)
  then have "ap_AppID (vc_app c) = ap_AppID (vc_app d)" using C D by metis
  then have "vc_app c = vc_app d" using C D by (metis option.inject)
  with r show ?thesis by (cases c, cases d) simp
qed

lemma distinct_map_concat:
  assumes "distinct xs" and "\<And>x. x \<in> set xs \<Longrightarrow> distinct (map h (f x))"
    and "\<And>x y u v. x \<in> set xs \<Longrightarrow> y \<in> set xs \<Longrightarrow> u \<in> set (f x) \<Longrightarrow> v \<in> set (f y) \<Longrightarrow> h u = h v \<Longrightarrow> x = y"
  shows "distinct (map h (concat (map f xs)))"
  using assms
proof (induction xs)
  case Nil
  then show ?case by simp
next
  case (Cons x xs)
  have "distinct (map h (concat (map f xs)))" by (rule Cons.IH) (use Cons.prems in auto)
  moreover have "h u \<noteq> h v" if "u \<in> set (f x)" "v \<in> set (f y)" "y \<in> set xs" for u v y
    using Cons.prems(3) [of x y u v] Cons.prems(1) that by auto
  ultimately show ?case using Cons.prems(2) [of x] by auto
qed

lemma distinct_candidates:
  assumes "snap_ok snap"
  shows "distinct (map candidate_id (candidates_of od app snap p))"
  unfolding candidates_of_alt
proof (rule distinct_map_concat)
  have k: "keyed ap_AppID (sn_Applications snap)" using assms by (simp add: snap_ok_def)
  then show "distinct (range_order od (sn_Applications snap))"
    by (simp add: keyed_def distinct_map)
  show "distinct (map candidate_id (app_candidates app snap p x))" for x
    using snap_ok_distinct_ids [OF assms, of "fst x"]
    by (cases x) (auto simp: app_candidates_def candidate_id_def comp_def distinct_map_filter)
  fix x y u v
  assume x: "x \<in> set (range_order od (sn_Applications snap))"
    and y: "y \<in> set (range_order od (sn_Applications snap))"
    and u: "u \<in> set (app_candidates app snap p x)" and v: "v \<in> set (app_candidates app snap p y)"
    and id: "candidate_id u = candidate_id v"
  obtain a A b B where ab: "x = (a, A)" "y = (b, B)" by (cases x, cases y)
  have "vc_replica u \<in> set (ReplicasForApp snap a)" "vc_replica v \<in> set (ReplicasForApp snap b)"
    using u v ab by (auto simp: app_candidates_def split: if_splits)
  then have "a = b"
    using id unfolding snap_ok_set [OF assms] candidate_id_def by (metis option.inject)
  moreover have "gget (sn_Applications snap) a = Some A" "gget (sn_Applications snap) b = Some B"
    using x y ab k by (simp_all add: mem_gget keyed_gwf)
  ultimately show "x = y" using ab by simp
qed

lemma set_sortCandidates [simp]: "set (sortCandidates cs n snap) = set cs"
  by (simp add: sortCandidates_def)

lemma distinct_sortCandidates:
  "distinct (map candidate_id cs) \<Longrightarrow> distinct (map candidate_id (sortCandidates cs n snap))"
  unfolding sortCandidates_def
  by (metis mset_eq_imp_distinct_iff mset_map mset_slice_stable)

section \<open>The selection loop\<close>

abbreviation vc_gpus :: "victimCandidate \<Rightarrow> int" where
  "vc_gpus c \<equiv> rp_GPUs (vc_replica c)"

abbreviation of_app :: "AppID \<Rightarrow> victimCandidate list \<Rightarrow> int" where
  "of_app a vs \<equiv> int (length (filter (\<lambda>c. ap_AppID (vc_app c) = a) vs))"

lemma select_loop_Cons:
  assumes "select_loop snap n (c # cs) freed target cnt = (vs, freed', target')"
  obtains (stop) "n \<le> freed" "vs = []" "freed' = freed" "target' = target"
  | (skip) "select_loop snap n cs freed target cnt = (vs, freed', target')"
  | (take_it) ws where "freed < n" "vs = c # ws"
      "target = '''' \<or> rp_ClusterID (vc_replica c) = target"
      "ap_MinReplicas (vc_app c)
         < CountActiveReplicas snap (ap_AppID (vc_app c)) - gget_or 0 cnt (ap_AppID (vc_app c))"
      "select_loop snap n cs (freed + vc_gpus c) (rp_ClusterID (vc_replica c))
         (gput (ap_AppID (vc_app c)) (gget_or 0 cnt (ap_AppID (vc_app c)) + 1) cnt) = (ws, freed', target')"
proof -
  let ?cnt = "gput (ap_AppID (vc_app c)) (gget_or 0 cnt (ap_AppID (vc_app c)) + 1) cnt"
  define X where "X = select_loop snap n cs (freed + vc_gpus c)
      (if target = '''' then rp_ClusterID (vc_replica c) else target) ?cnt"
  obtain ws f t where X: "X = (ws, f, t)" by (cases X rule: prod_cases3)
  note rest = X [unfolded X_def]
  consider "n \<le> freed" | "freed < n" "target \<noteq> '''' \<and> rp_ClusterID (vc_replica c) \<noteq> target"
    | "freed < n" "target = '''' \<or> rp_ClusterID (vc_replica c) = target"
      "\<not> ap_MinReplicas (vc_app c)
         < CountActiveReplicas snap (ap_AppID (vc_app c)) - gget_or 0 cnt (ap_AppID (vc_app c))"
    | "freed < n" "target = '''' \<or> rp_ClusterID (vc_replica c) = target"
      "ap_MinReplicas (vc_app c)
         < CountActiveReplicas snap (ap_AppID (vc_app c)) - gget_or 0 cnt (ap_AppID (vc_app c))"
    using not_less by blast
  then show ?thesis
  proof cases
    case 1
    show ?thesis by (rule stop) (use assms 1 in auto)
  next
    case 2
    show ?thesis by (rule skip) (use assms 2 in simp)
  next
    case 3
    then have "\<not> n \<le> freed" "\<not> (target \<noteq> '''' \<and> rp_ClusterID (vc_replica c) \<noteq> target)"
      "CountActiveReplicas snap (ap_AppID (vc_app c)) - gget_or 0 cnt (ap_AppID (vc_app c))
         \<le> ap_MinReplicas (vc_app c)" by auto
    then show ?thesis by (intro skip) (use assms in \<open>simp only: select_loop.simps if_False if_True simp_thms\<close>)
  next
    case 4
    have t: "(if target = '''' then rp_ClusterID (vc_replica c) else target) = rp_ClusterID (vc_replica c)"
      using 4(2) by auto
    have "\<not> n \<le> freed" "\<not> (target \<noteq> '''' \<and> rp_ClusterID (vc_replica c) \<noteq> target)"
      "\<not> CountActiveReplicas snap (ap_AppID (vc_app c)) - gget_or 0 cnt (ap_AppID (vc_app c))
         \<le> ap_MinReplicas (vc_app c)" using 4 by auto
    then have "(vs, freed', target') = (c # ws, f, t)"
      using assms rest by (simp only: select_loop.simps if_False simp_thms Let_def) simp
    then have "vs = c # ws" and eq: "f = freed'" "t = target'" by auto
    then show ?thesis using take_it [OF 4(1) _ 4(2,3), of ws] rest [unfolded t eq] by blast
  qed
qed

lemma select_loop_set:
  "select_loop snap n cs freed target cnt = (vs, freed', target') \<Longrightarrow> set vs \<subseteq> set cs"
proof (induction cs arbitrary: freed target cnt vs freed' target')
  case (Cons c cs)
  from Cons.prems show ?case by (cases rule: select_loop_Cons) (auto dest: Cons.IH)
qed simp

lemma select_loop_distinct:
  "select_loop snap n cs freed target cnt = (vs, freed', target') \<Longrightarrow> distinct (map candidate_id cs)
     \<Longrightarrow> distinct (map candidate_id vs)"
proof (induction cs arbitrary: freed target cnt vs freed' target')
  case (Cons c cs)
  from Cons.prems(1) show ?case
  proof (cases rule: select_loop_Cons)
    case (take_it ws)
    have "set ws \<subseteq> set cs" by (rule select_loop_set [OF take_it(5)])
    then show ?thesis using Cons.IH [OF take_it(5)] Cons.prems(2) take_it(2) by auto
  qed (use Cons in auto)
qed simp

lemma select_loop_freed:
  "select_loop snap n cs freed target cnt = (vs, freed', target')
     \<Longrightarrow> freed' = freed + sum_list (map vc_gpus vs)"
proof (induction cs arbitrary: freed target cnt vs freed' target')
  case (Cons c cs)
  from Cons.prems show ?case by (cases rule: select_loop_Cons) (auto dest: Cons.IH)
qed simp

lemma select_loop_target:
  "select_loop snap n cs freed target cnt = (vs, freed', target')
     \<Longrightarrow> (target \<noteq> '''' \<longrightarrow> target' = target)
       \<and> (\<forall>v \<in> set vs. rp_ClusterID (vc_replica v) = target' \<or> rp_ClusterID (vc_replica v) = '''')"
proof (induction cs arbitrary: freed target cnt vs freed' target')
  case (Cons c cs)
  from Cons.prems show ?case
  proof (cases rule: select_loop_Cons)
    case (take_it ws)
    then show ?thesis using Cons.IH [OF take_it(5)] by auto
  qed (use Cons.IH in auto)
qed simp

lemma select_loop_min:
  assumes "select_loop snap n cs freed target cnt = (vs, freed', target')"
    and "\<And>c d. c \<in> set cs \<Longrightarrow> d \<in> set cs \<Longrightarrow> ap_AppID (vc_app c) = ap_AppID (vc_app d) \<Longrightarrow> vc_app c = vc_app d"
    and "v \<in> set vs"
  shows "ap_MinReplicas (vc_app v) + of_app (ap_AppID (vc_app v)) vs
    \<le> CountActiveReplicas snap (ap_AppID (vc_app v)) - gget_or 0 cnt (ap_AppID (vc_app v))"
  using assms
proof (induction cs arbitrary: freed target cnt vs freed' target' v)
  case Nil
  then show ?case by simp
next
  case (Cons c cs)
  let ?a = "ap_AppID (vc_app c)"
  have same: "d \<in> set cs \<Longrightarrow> e \<in> set cs \<Longrightarrow> ap_AppID (vc_app d) = ap_AppID (vc_app e) \<Longrightarrow> vc_app d = vc_app e"
    for d e using Cons.prems(2) by simp
  from Cons.prems(1) show ?case
  proof (cases rule: select_loop_Cons)
    case stop
    then show ?thesis using Cons.prems(3) by simp
  next
    case skip
    show ?thesis by (rule Cons.IH [OF skip same Cons.prems(3)])
  next
    case (take_it ws)
    note vs = take_it(2) and rest = take_it(5)
    have IH: "ap_MinReplicas (vc_app w) + of_app (ap_AppID (vc_app w)) ws
        \<le> CountActiveReplicas snap (ap_AppID (vc_app w))
          - gget_or 0 (gput ?a (gget_or 0 cnt ?a + 1) cnt) (ap_AppID (vc_app w))" if "w \<in> set ws" for w
      by (rule Cons.IH [OF rest same that])
    have sub: "set ws \<subseteq> set cs" by (rule select_loop_set [OF rest])
    show ?thesis
    proof (cases "ap_AppID (vc_app v) = ?a")
      case True
      then have app: "vc_app v = vc_app c" using Cons.prems(2,3) vs sub by auto
      show ?thesis
      proof (cases "\<exists>w \<in> set ws. ap_AppID (vc_app w) = ?a")
        case True
        then obtain w where w: "w \<in> set ws" "ap_AppID (vc_app w) = ?a" by blast
        then have "vc_app w = vc_app c" using Cons.prems(2) sub by auto
        then show ?thesis using IH [OF w(1)] vs app by simp
      next
        case no: False
        then have "filter (\<lambda>c'. ap_AppID (vc_app c') = ?a) ws = []" by (simp add: filter_empty_conv)
        then show ?thesis using vs app take_it(4) by simp
      qed
    next
      case ne: False
      then have "v \<in> set ws" using Cons.prems(3) vs by auto
      then show ?thesis using IH [of v] vs ne by simp
    qed
  qed
qed

lemma select_loop_minimal:
  "select_loop snap n cs freed target cnt = (vs, freed', target') \<Longrightarrow> vs \<noteq> []
     \<Longrightarrow> freed + sum_list (map vc_gpus (butlast vs)) < n"
proof (induction cs arbitrary: freed target cnt vs freed' target')
  case (Cons c cs)
  from Cons.prems(1) show ?case
  proof (cases rule: select_loop_Cons)
    case (take_it ws)
    then show ?thesis using Cons.IH [OF take_it(5)] by auto
  qed (use Cons in auto)
qed simp

text \<open>A loop that ends without the GPUs it needs has been through all candidates: it left out only
  those of another cluster and those whose application it has brought to its minimum.\<close>

lemma select_loop_exhausted:
  assumes "select_loop snap n cs freed target cnt = (vs, freed', target')" and "freed' < n"
    and "c \<in> set cs" and "c \<notin> set vs"
  shows "target' \<noteq> '''' \<and> rp_ClusterID (vc_replica c) \<noteq> target'
    \<or> CountActiveReplicas snap (ap_AppID (vc_app c)) - gget_or 0 cnt (ap_AppID (vc_app c))
        - of_app (ap_AppID (vc_app c)) vs \<le> ap_MinReplicas (vc_app c)"
  using assms
proof (induction snap n cs freed target cnt arbitrary: vs freed' target' rule: select_loop.induct)
  case (2 snap n d cs freed target cnt)
  let ?a = "ap_AppID (vc_app d)"
  let ?t = "if target = '''' then rp_ClusterID (vc_replica d) else target"
  let ?n = "gput ?a (gget_or 0 cnt ?a + 1) cnt"
  consider (stop) "n \<le> freed" | (other) "freed < n" "target \<noteq> '''' \<and> rp_ClusterID (vc_replica d) \<noteq> target"
    | (min) "freed < n" "\<not> (target \<noteq> '''' \<and> rp_ClusterID (vc_replica d) \<noteq> target)"
      "CountActiveReplicas snap ?a - gget_or 0 cnt ?a \<le> ap_MinReplicas (vc_app d)"
    | (take_it) "freed < n" "\<not> (target \<noteq> '''' \<and> rp_ClusterID (vc_replica d) \<noteq> target)"
      "\<not> CountActiveReplicas snap ?a - gget_or 0 cnt ?a \<le> ap_MinReplicas (vc_app d)"
    by linarith
  then show ?case
  proof cases
    case stop
    then show ?thesis using 2 by simp
  next
    case other
    then have rest: "select_loop snap n cs freed target cnt = (vs, freed', target')" using "2.prems"(1) by simp
    then have "target' = target" using other select_loop_target by blast
    then show ?thesis using other "2.IH"(1) [OF _ _ rest "2.prems"(2) _ "2.prems"(4)] "2.prems"(3) by auto
  next
    case min
    then have rest: "select_loop snap n cs freed target cnt = (vs, freed', target')"
      using "2.prems"(1) by (simp only: select_loop.simps if_False if_True not_le [symmetric])
    show ?thesis
    proof (cases "c = d")
      case True
      then show ?thesis using min(3) by simp
    next
      case False
      then show ?thesis
        using "2.IH"(2) [OF _ min(2,3) rest "2.prems"(2) _ "2.prems"(4)] min(1) "2.prems"(3) by auto
    qed
  next
    case take_it
    obtain ws f t where X: "select_loop snap n cs (freed + vc_gpus d) ?t ?n = (ws, f, t)"
      by (cases "select_loop snap n cs (freed + vc_gpus d) ?t ?n" rule: prod_cases3)
    then have eq: "vs = d # ws" "f = freed'" "t = target'"
      using "2.prems"(1) take_it by (simp_all only: select_loop.simps Let_def if_False not_le [symmetric]) simp_all
    have "c \<in> set cs" "c \<notin> set ws" using "2.prems"(3,4) eq(1) by auto
    then show ?thesis
      using "2.IH"(3) [OF _ take_it(2,3) refl refl X [unfolded eq] "2.prems"(2)] take_it(1) eq(1)
      by (cases "ap_AppID (vc_app c) = ?a") auto
  qed
qed simp

lemma select_loop_cong:
  assumes "\<And>a. CountActiveReplicas snap a = CountActiveReplicas snap' a"
  shows "select_loop snap n cs freed target cnt = select_loop snap' n cs freed target cnt"
  by (induction cs arbitrary: freed target cnt) (simp_all add: assms)

section \<open>The plan\<close>

text \<open>What the client may assume of a victim, and the GPUs a list of victims gives back.\<close>

definition victim_ok :: "WorldStateSnapshot \<Rightarrow> Application \<Rightarrow> PreemptionDecision \<Rightarrow> bool" where
  "victim_ok snap app v \<longleftrightarrow> (\<exists>r va. gget (sn_Replicas snap) (pd_VictimReplicaID v) = Some r
     \<and> active_replica r \<and> rp_AppID r = pd_VictimAppID v
     \<and> pd_ClusterID v = rp_ClusterID r \<and> pd_NodeID v = rp_NodeID r
     \<and> gget (sn_Applications snap) (pd_VictimAppID v) = Some va
     \<and> ap_Priority app < ap_Priority va \<and> pd_VictimAppID v \<noteq> ap_AppID app)"

definition freed_gpus :: "WorldStateSnapshot \<Rightarrow> PreemptionDecision list \<Rightarrow> int" where
  "freed_gpus snap vs = sum_list (map (\<lambda>v. case gget (sn_Replicas snap) (pd_VictimReplicaID v) of
     None \<Rightarrow> 0 | Some r \<Rightarrow> rp_GPUs r) vs)"

definition victims_of_app :: "AppID \<Rightarrow> PreemptionDecision list \<Rightarrow> int" where
  "victims_of_app a vs = int (length (filter (\<lambda>v. pd_VictimAppID v = a) vs))"

lemma victims_of_app_map: "victims_of_app a (map (victim_of cfg) vs) = of_app a vs"
  by (induction vs) (simp_all add: victims_of_app_def victim_of_def)

lemma victim_of_candidate:
  assumes "snap_ok snap" and "c \<in> set (candidates_of od app snap p)"
  shows "victim_ok snap app (victim_of cfg c)"
  using assms(2) unfolding mem_candidates_of [OF assms(1)] victim_ok_def
  by (intro exI [of _ "vc_replica c"] exI [of _ "vc_app c"]) (simp add: victim_of_def)

lemma freed_of_candidates:
  assumes "snap_ok snap" and "set vs \<subseteq> set (candidates_of od app snap p)"
  shows "freed_gpus snap (map (victim_of cfg) vs) = sum_list (map vc_gpus vs)"
  using assms(2)
proof (induction vs)
  case (Cons c vs)
  have "c \<in> set (candidates_of od app snap p)" using Cons.prems by simp
  then have "gget (sn_Replicas snap) (rp_ReplicaID (vc_replica c)) = Some (vc_replica c)"
    by (simp add: mem_candidates_of [OF assms(1)])
  then show ?case using Cons by (simp add: freed_gpus_def victim_of_def)
qed (simp add: freed_gpus_def)

lemma freed_gpus_append: "freed_gpus snap (vs @ ws) = freed_gpus snap vs + freed_gpus snap ws"
  by (simp add: freed_gpus_def)

text \<open>The result of one pool, as the cascade uses it.\<close>

definition pool_ok :: "WorldStateSnapshot \<Rightarrow> Application \<Rightarrow> int \<Rightarrow> PreemptionDecision list \<Rightarrow> bool" where
  "pool_ok snap app p vs \<longleftrightarrow> distinct (map pd_VictimReplicaID vs)
     \<and> (\<forall>v \<in> set vs. victim_ok snap app v
          \<and> (\<exists>va. gget (sn_Applications snap) (pd_VictimAppID v) = Some va \<and> ap_Priority va = p
               \<and> ap_MinReplicas va + victims_of_app (pd_VictimAppID v) vs
                   \<le> CountActiveReplicas snap (pd_VictimAppID v)))"

text \<open>Of priority \<open>p\<close> nothing more can be taken in the cluster \<open>tgt\<close>: what is left of its active
  replicas there belongs to applications that are down to their minimum.\<close>

definition exhausted :: "WorldStateSnapshot \<Rightarrow> Application \<Rightarrow> int \<Rightarrow> ClusterID \<Rightarrow> PreemptionDecision list \<Rightarrow> bool" where
  "exhausted snap app p tgt vs \<longleftrightarrow> (\<forall>rid r va. gget (sn_Replicas snap) rid = Some r \<longrightarrow> active_replica r
     \<longrightarrow> rp_AppID r \<noteq> ap_AppID app \<longrightarrow> gget (sn_Applications snap) (rp_AppID r) = Some va
     \<longrightarrow> ap_Priority va = p \<longrightarrow> rp_ClusterID r = tgt \<longrightarrow> rid \<notin> pd_VictimReplicaID ` set vs
     \<longrightarrow> CountActiveReplicas snap (rp_AppID r) - victims_of_app (rp_AppID r) vs \<le> ap_MinReplicas va)"

lemma selectVictims_exhausted:
  assumes ok: "snap_ok snap" and p: "ap_Priority app < p"
    and sel: "selectVictims cfg (sortCandidates (candidates_of od app snap p) g snap) n snap pref = (vs, freed, tgt)"
    and few: "freed < n" and t: "tgt \<noteq> '''' \<Longrightarrow> tgt = tgt'"
  shows "exhausted snap app p tgt' vs"
  unfolding exhausted_def
proof (intro allI impI)
  fix rid r va
  assume r: "gget (sn_Replicas snap) rid = Some r" "active_replica r" "rp_AppID r \<noteq> ap_AppID app"
    and va: "gget (sn_Applications snap) (rp_AppID r) = Some va" "ap_Priority va = p"
    and at: "rp_ClusterID r = tgt'" and spared: "rid \<notin> pd_VictimReplicaID ` set vs"
  let ?c = "\<lparr>vc_replica = r, vc_app = va\<rparr>"
  obtain ws where ws: "select_loop snap n (sortCandidates (candidates_of od app snap p) g snap) 0 pref [] = (ws, freed, tgt)"
    and vs: "vs = map (victim_of cfg) ws"
    using sel by (auto simp: selectVictims_def split: prod.splits)
  have k: "rp_ReplicaID r = rid" "ap_AppID va = rp_AppID r"
    using ok keyedD [of rp_ReplicaID "sn_Replicas snap" rid r] keyedD [of ap_AppID "sn_Applications snap" _ va] r(1) va(1)
    by (auto simp: snap_ok_def)
  have "?c \<in> set (sortCandidates (candidates_of od app snap p) g snap)"
    using r va p k by (simp add: mem_candidates_of [OF ok])
  moreover have "?c \<notin> set ws" using spared k(1) by (force simp: vs victim_of_def)
  ultimately show "CountActiveReplicas snap (rp_AppID r) - victims_of_app (rp_AppID r) vs \<le> ap_MinReplicas va"
    using select_loop_exhausted [OF ws few] at t k(2) by (force simp: vs victims_of_app_map)
qed

lemma selectVictims_pool:
  assumes ok: "snap_ok snap"
    and sel: "selectVictims cfg (sortCandidates (candidates_of od app snap p) g snap) n snap pref = (vs, freed, tgt)"
  shows "pool_ok snap app p vs" and "freed = freed_gpus snap vs"
    and "pref \<noteq> '''' \<longrightarrow> tgt = pref"
    and "\<forall>v \<in> set vs. pd_ClusterID v = tgt \<or> pd_ClusterID v = ''''"
    and "vs \<noteq> [] \<longrightarrow> freed_gpus snap (butlast vs) < n"
proof -
  let ?cs = "sortCandidates (candidates_of od app snap p) g snap"
  obtain ws where ws: "select_loop snap n ?cs 0 pref [] = (ws, freed, tgt)" and vs: "vs = map (victim_of cfg) ws"
    using sel by (auto simp: selectVictims_def split: prod.splits)
  have sub: "set ws \<subseteq> set (candidates_of od app snap p)" using select_loop_set [OF ws] by simp
  have "distinct (map candidate_id ws)"
    by (rule select_loop_distinct [OF ws distinct_sortCandidates [OF distinct_candidates [OF ok]]])
  moreover have "map pd_VictimReplicaID vs = map candidate_id ws"
    by (simp add: vs victim_of_def candidate_id_def comp_def)
  ultimately have dist: "distinct (map pd_VictimReplicaID vs)" by simp
  have each: "victim_ok snap app (victim_of cfg w) \<and> (\<exists>va. gget (sn_Applications snap) (ap_AppID (vc_app w)) = Some va
      \<and> ap_Priority va = p \<and> ap_MinReplicas va + of_app (ap_AppID (vc_app w)) ws
        \<le> CountActiveReplicas snap (ap_AppID (vc_app w)))" if "w \<in> set ws" for w
  proof -
    have w: "w \<in> set (candidates_of od app snap p)" using that sub by blast
    have same: "x \<in> set ?cs \<Longrightarrow> y \<in> set ?cs \<Longrightarrow> ap_AppID (vc_app x) = ap_AppID (vc_app y) \<Longrightarrow> vc_app x = vc_app y"
      for x y unfolding set_sortCandidates by (rule candidates_same_app [OF ok])
    have "ap_MinReplicas (vc_app w) + of_app (ap_AppID (vc_app w)) ws
        \<le> CountActiveReplicas snap (ap_AppID (vc_app w)) - gget_or 0 [] (ap_AppID (vc_app w))"
      by (rule select_loop_min [OF ws _ that]) (rule same)
    then have "ap_MinReplicas (vc_app w) + of_app (ap_AppID (vc_app w)) ws
        \<le> CountActiveReplicas snap (ap_AppID (vc_app w))" by (simp only: gget_or_Nil diff_zero)
    with w [unfolded mem_candidates_of [OF ok]] victim_of_candidate [OF ok w, of cfg]
    show ?thesis by blast
  qed
  have app: "pd_VictimAppID (victim_of cfg w) = ap_AppID (vc_app w)" for w by (simp add: victim_of_def)
  show "pool_ok snap app p vs"
    unfolding pool_ok_def vs victims_of_app_map using dist each by (auto simp: vs app)
  show "freed = freed_gpus snap vs"
    unfolding vs freed_of_candidates [OF ok sub] using select_loop_freed [OF ws] by simp
  note t = select_loop_target [OF ws]
  then show "pref \<noteq> '''' \<longrightarrow> tgt = pref" by blast
  have "pd_ClusterID (victim_of cfg w) = rp_ClusterID (vc_replica w)" for w by (simp add: victim_of_def)
  then show "\<forall>v \<in> set vs. pd_ClusterID v = tgt \<or> pd_ClusterID v = ''''" using t by (auto simp: vs)
  have "set (butlast ws) \<subseteq> set (candidates_of od app snap p)" using sub in_set_butlastD by fast
  then show "vs \<noteq> [] \<longrightarrow> freed_gpus snap (butlast vs) < n"
    using select_loop_minimal [OF ws] freed_of_candidates [OF ok, of "butlast ws"]
    by (simp add: vs map_butlast [symmetric])
qed

text \<open>The whole plan: the victims of priority 2, then those of priority 1.\<close>

lemma find_plan:
  assumes ok: "snap_ok snap" and find: "FindPreemptionOpportunity cfg od app snap = Some plan"
  obtains v2 v1 where "pn_Victims plan = v2 @ v1" and "pool_ok snap app 2 v2" and "pool_ok snap app 1 v1"
    and "ap_GPUsPerReplica app \<le> freed_gpus snap (v2 @ v1)"
    and "v1 \<noteq> [] \<Longrightarrow> ap_Priority app = 0 \<and> freed_gpus snap v2 < ap_GPUsPerReplica app"
    and "v2 @ v1 \<noteq> [] \<Longrightarrow> freed_gpus snap (butlast (v2 @ v1)) < ap_GPUsPerReplica app"
    and "\<forall>v \<in> set (v2 @ v1). pd_ClusterID v = pn_TargetCluster plan \<or> pd_ClusterID v = ''''"
    and "v1 \<noteq> [] \<Longrightarrow> exhausted snap app 2 (pn_TargetCluster plan) v2"
proof -
  let ?g = "ap_GPUsPerReplica app"
  let ?c = "\<lambda>p. sortCandidates (candidates_of od app snap p) ?g snap"
  obtain v2 f2 t2 where s2: "selectVictims cfg (?c 2) ?g snap '''' = (v2, f2, t2)"
    by (cases "selectVictims cfg (?c 2) ?g snap ''''" rule: prod_cases3)
  note P2 = selectVictims_pool [OF ok s2]
  obtain v1 f1 t1 where s1: "selectVictims cfg (?c 1) (?g - f2) snap t2 = (v1, f1, t1)"
    by (cases "selectVictims cfg (?c 1) (?g - f2) snap t2" rule: prod_cases3)
  note P1 = selectVictims_pool [OF ok s1]
  have p: "ap_Priority app \<noteq> 2" using find by (auto simp: FindPreemptionOpportunity_def)
  have F: "FindPreemptionOpportunity cfg od app snap =
    (let (vs, f, t) = (if f2 < ?g \<and> ap_Priority app = 0 then (v2 @ v1, f2 + f1, if t2 = '''' then t1 else t2)
                       else (v2, f2, t2))
     in if f < ?g then None
        else Some \<lparr>pn_Victims = vs, pn_TargetCluster = t,
           pn_Constraints = zero_SchedulingConstraints\<lparr>sc_RequiredGPUs := ?g, sc_CacheAffinityModel := ap_ModelID app\<rparr>\<rparr>)"
    unfolding FindPreemptionOpportunity_def Let_def using p by (simp only: s2 s1 prod.case if_False)
  show ?thesis
  proof (cases "f2 < ?g \<and> ap_Priority app = 0")
    case True
    then have plan: "\<not> f2 + f1 < ?g" "pn_Victims plan = v2 @ v1"
      "pn_TargetCluster plan = (if t2 = '''' then t1 else t2)"
      using find unfolding F by (auto simp: Let_def split: if_splits)
    have tgt: "\<forall>v \<in> set (v2 @ v1). pd_ClusterID v = pn_TargetCluster plan \<or> pd_ClusterID v = ''''"
      using P2(4) P1(3,4) plan(3) by (cases "t2 = ''''") auto
    have last: "freed_gpus snap (butlast (v2 @ v1)) < ?g" if "v2 @ v1 \<noteq> []"
      using that P1(5) P2(2,5) True by (cases "v1 = []") (auto simp: butlast_append freed_gpus_append)
    have all: "exhausted snap app 2 (pn_TargetCluster plan) v2"
      by (rule selectVictims_exhausted [OF ok _ s2]) (use True plan(3) in auto)
    show ?thesis
      by (rule that [OF plan(2) P2(1) P1(1) _ _ last tgt all]) (use plan True P2(2) P1(2) in \<open>simp_all add: freed_gpus_append\<close>)
  next
    case False
    then have plan: "\<not> f2 < ?g" "pn_Victims plan = v2 @ []" "pn_TargetCluster plan = t2"
      using find unfolding F by (auto simp: Let_def split: if_splits)
    have "pool_ok snap app 1 []" by (simp add: pool_ok_def)
    then show ?thesis
      by (rule that [OF plan(2) P2(1)]) (use plan P2(2,4,5) in auto)
  qed
qed

section \<open>The contract the placement engine relies on\<close>

locale preemption_finder =
  fixes find :: "Application \<Rightarrow> WorldStateSnapshot \<Rightarrow> 'e + PreemptionPlan option"
  assumes finder_victims: "snap_ok snap \<Longrightarrow> find app snap = Inr (Some plan)
      \<Longrightarrow> v \<in> set (pn_Victims plan) \<Longrightarrow> victim_ok snap app v"
    and finder_distinct: "snap_ok snap \<Longrightarrow> find app snap = Inr (Some plan)
      \<Longrightarrow> distinct (map pd_VictimReplicaID (pn_Victims plan))"
    and finder_frees: "snap_ok snap \<Longrightarrow> find app snap = Inr (Some plan)
      \<Longrightarrow> ap_GPUsPerReplica app \<le> freed_gpus snap (pn_Victims plan)"
begin

lemma victim_exists:
  assumes "snap_ok snap" and "find app snap = Inr (Some plan)" and "v \<in> set (pn_Victims plan)"
  obtains r where "gget (sn_Replicas snap) (pd_VictimReplicaID v) = Some r" and "active_replica r"
    and "rp_AppID r = pd_VictimAppID v"
  using finder_victims [OF assms] by (auto simp: victim_ok_def)

lemma requester_spared:
  "snap_ok snap \<Longrightarrow> find app snap = Inr (Some plan) \<Longrightarrow> v \<in> set (pn_Victims plan)
     \<Longrightarrow> pd_VictimAppID v \<noteq> ap_AppID app"
  using finder_victims by (auto simp: victim_ok_def)

end

lemma victims_of_app_append: "victims_of_app a (vs @ ws) = victims_of_app a vs + victims_of_app a ws"
  by (simp add: victims_of_app_def)

lemma victims_of_app_pos: "v \<in> set vs \<Longrightarrow> 0 < victims_of_app (pd_VictimAppID v) vs"
  by (induction vs) (auto simp: victims_of_app_def)

lemma victims_of_app_0: "(\<And>v. v \<in> set vs \<Longrightarrow> pd_VictimAppID v \<noteq> a) \<Longrightarrow> victims_of_app a vs = 0"
  by (induction vs) (auto simp: victims_of_app_def)

text \<open>No application is in both pools, since a pool has one priority.\<close>

lemma pools_apart:
  assumes "pool_ok snap app 2 v2" and "pool_ok snap app 1 v1" and "u \<in> set v2" and "v \<in> set v1"
  shows "pd_VictimAppID u \<noteq> pd_VictimAppID v"
  using assms unfolding pool_ok_def by fastforce

lemma pool_victims: "pool_ok snap app p vs \<Longrightarrow> v \<in> set vs \<Longrightarrow> victim_ok snap app v"
  by (simp add: pool_ok_def)

lemma distinct_pools:
  assumes "pool_ok snap app 2 v2" and "pool_ok snap app 1 v1"
  shows "distinct (map pd_VictimReplicaID (v2 @ v1))"
proof -
  have "pd_VictimReplicaID u \<noteq> pd_VictimReplicaID v" if "u \<in> set v2" "v \<in> set v1" for u v
  proof
    assume eq: "pd_VictimReplicaID u = pd_VictimReplicaID v"
    have "pd_VictimAppID u = pd_VictimAppID v"
      using pool_victims [OF assms(1) that(1)] pool_victims [OF assms(2) that(2)] eq
      by (auto simp: victim_ok_def)
    then show False using pools_apart [OF assms that] by blast
  qed
  then have "set (map pd_VictimReplicaID v2) \<inter> set (map pd_VictimReplicaID v1) = {}" by auto
  then show ?thesis using assms unfolding map_append distinct_append pool_ok_def by blast
qed

lemma pools_min:
  assumes "pool_ok snap app 2 v2" and "pool_ok snap app 1 v1" and "v \<in> set (v2 @ v1)"
  obtains va where "gget (sn_Applications snap) (pd_VictimAppID v) = Some va"
    and "ap_MinReplicas va + victims_of_app (pd_VictimAppID v) (v2 @ v1)
      \<le> CountActiveReplicas snap (pd_VictimAppID v)"
proof (cases "v \<in> set v2")
  case True
  then have "victims_of_app (pd_VictimAppID v) v1 = 0"
    using pools_apart [OF assms(1,2) True] by (intro victims_of_app_0) metis
  then show ?thesis
    using that True assms(1) unfolding pool_ok_def victims_of_app_append by fastforce
next
  case False
  then have v: "v \<in> set v1" using assms(3) by simp
  then have "victims_of_app (pd_VictimAppID v) v2 = 0"
    using pools_apart [OF assms(1,2) _ v] by (intro victims_of_app_0) metis
  then show ?thesis
    using that v assms(2) unfolding pool_ok_def victims_of_app_append by fastforce
qed

interpretation cascade: preemption_finder "\<lambda>app snap. Inr (FindPreemptionOpportunity cfg od app snap)"
  for cfg od
proof (unfold_locales, goal_cases)
  case (1 snap app plan v)
  then have f: "FindPreemptionOpportunity cfg od app snap = Some plan" by simp
  from find_plan [OF 1(1) f] obtain v2 v1 where "pn_Victims plan = v2 @ v1" "pool_ok snap app 2 v2"
    "pool_ok snap app 1 v1" by metis
  then show ?case using 1(3) pool_victims by (metis Un_iff set_append)
next
  case (2 snap app plan)
  then have f: "FindPreemptionOpportunity cfg od app snap = Some plan" by simp
  from find_plan [OF 2(1) f] obtain v2 v1 where "pn_Victims plan = v2 @ v1" "pool_ok snap app 2 v2"
    "pool_ok snap app 1 v1" by metis
  then show ?case using distinct_pools by metis
next
  case (3 snap app plan)
  then have f: "FindPreemptionOpportunity cfg od app snap = Some plan" by simp
  from find_plan [OF 3(1) f] show ?case by metis
qed

section \<open>The result does not depend on the order of the ranges\<close>

lemma CountActiveReplicas_Snapshot:
  "CountActiveReplicas (Snapshot od now ws) a = CountActiveReplicas (Snapshot od' now ws) a"
proof -
  have "mset (filter active_replica (ReplicasForApp (Snapshot od now ws) a))
      = mset (filter active_replica (ReplicasForApp (Snapshot od' now ws) a))"
    by (simp only: mset_filter mset_ReplicasForApp_Snapshot) (simp add: app_replicas_def)
  then show ?thesis unfolding CountActiveReplicas_def by (metis mset_eq_length)
qed

lemma mset_candidates_of:
  "mset (candidates_of od1 app (Snapshot od now ws) p) = mset (candidates_of od2 app (Snapshot od' now ws) p)"
proof -
  have each: "mset (app_candidates app (Snapshot od now ws) p x) = mset (app_candidates app (Snapshot od' now ws) p x)" for x
  proof (cases x)
    case (Pair a A)
    have "mset (ReplicasForApp (Snapshot od now ws) a) = mset (ReplicasForApp (Snapshot od' now ws) a)"
      by (simp only: mset_ReplicasForApp_Snapshot) (simp add: app_replicas_def)
    then show ?thesis by (simp add: Pair app_candidates_def)
  qed
  have "mset (concat (map f (range_order od1 xs))) = mset (concat (map f' (range_order od2 xs)))"
    if "\<And>x. mset (f x) = mset (f' x)" for f f' :: "AppID \<times> Application \<Rightarrow> victimCandidate list" and xs
  proof -
    have c: "mset (concat (map g ys)) = \<Sum>\<^sub># (image_mset (\<lambda>y. mset (g y)) (mset ys))"
      for g :: "AppID \<times> Application \<Rightarrow> victimCandidate list" and ys by (induction ys) simp_all
    show ?thesis unfolding c by (simp add: that)
  qed
  then show ?thesis unfolding candidates_of_alt Snapshot_fields using each by blast
qed

lemma clusterGPUs_mset: "mset xs = mset ys \<Longrightarrow> clusterGPUs xs cid = clusterGPUs ys cid"
proof -
  assume "mset xs = mset ys"
  then have "mset (map (\<lambda>c. if rp_ClusterID (vc_replica c) = cid then rp_GPUs (vc_replica c) else 0) xs)
      = mset (map (\<lambda>c. if rp_ClusterID (vc_replica c) = cid then rp_GPUs (vc_replica c) else 0) ys)" by simp
  then show ?thesis by (simp only: clusterGPUs_def flip: sum_mset_sum_list)
qed

lemma sorted_candidates_determined:
  assumes "ws_wf ws"
  shows "sortCandidates (candidates_of od1 app (Snapshot od now ws) p) g (Snapshot od now ws)
    = sortCandidates (candidates_of od2 app (Snapshot od' now ws) p) g (Snapshot od' now ws)"
proof -
  let ?s = "Snapshot od now ws" and ?s' = "Snapshot od' now ws"
  let ?c = "candidates_of od1 app ?s p" and ?c' = "candidates_of od2 app ?s' p"
  have "candidate_less cg g ?s = candidate_less cg g ?s'" for cg
    unfolding candidate_less_def aboveMinOrder_def CountActiveReplicas_Snapshot [of od now ws _ od'] ..
  moreover have "clusterGPUs ?c = clusterGPUs ?c'"
    by (intro ext clusterGPUs_mset mset_candidates_of)
  moreover have "slice_stable (candidate_less (clusterGPUs ?c') g ?s') ?c
      = slice_stable (candidate_less (clusterGPUs ?c') g ?s') ?c'"
    by (rule candidates.slice_stable_determined [OF mset_candidates_of TrueI
          distinct_candidates [OF snap_ok_Snapshot [OF assms]]])
  ultimately show ?thesis by (simp add: sortCandidates_def)
qed

lemma selectVictims_Snapshot:
  "selectVictims cfg cs n (Snapshot od now ws) pref = selectVictims cfg cs n (Snapshot od' now ws) pref"
  unfolding selectVictims_def
  by (simp only: select_loop_cong [of "Snapshot od now ws" "Snapshot od' now ws", OF CountActiveReplicas_Snapshot])

section \<open>Properties\<close>

text \<open>C2: Every victim of a preemption plan is a running or pending replica of another application of
  strictly lower priority, no replica is evicted twice, all victims are in the target cluster
  (those with a cluster at all), and together they free at least the GPUs one replica of the
  requester needs.\<close>

theorem preemption_plan_is_sound:
  assumes "snap_ok snap" and "FindPreemptionOpportunity cfg od app snap = Some plan"
  shows "ap_GPUsPerReplica app \<le> freed_gpus snap (pn_Victims plan)
    \<and> distinct (map pd_VictimReplicaID (pn_Victims plan))
    \<and> (\<forall>v \<in> set (pn_Victims plan).
         victim_ok snap app v \<and> (pd_ClusterID v = pn_TargetCluster plan \<or> pd_ClusterID v = ''''))"
proof -
  have f: "(Inr (FindPreemptionOpportunity cfg od app snap) :: unit + _) = Inr (Some plan)" using assms(2) by simp
  have "\<forall>v \<in> set (pn_Victims plan). pd_ClusterID v = pn_TargetCluster plan \<or> pd_ClusterID v = ''''"
  proof -
    from find_plan [OF assms] obtain v2 v1 where "pn_Victims plan = v2 @ v1"
      "\<forall>v \<in> set (v2 @ v1). pd_ClusterID v = pn_TargetCluster plan \<or> pd_ClusterID v = ''''" by metis
    then show ?thesis by simp
  qed
  then show ?thesis
    using cascade.finder_frees [OF assms(1) f] cascade.finder_distinct [OF assms(1) f]
      cascade.finder_victims [OF assms(1) f] by blast
qed

text \<open>C9: Preemption keeps every application at its minimum: the active replicas of an application
  that loses replicas to a plan, less those it loses, are at least its \<open>MinReplicas\<close>.\<close>

theorem preemption_keeps_min_replicas:
  assumes "snap_ok snap" and "FindPreemptionOpportunity cfg od app snap = Some plan"
    and "v \<in> set (pn_Victims plan)"
  shows "\<exists>va. gget (sn_Applications snap) (pd_VictimAppID v) = Some va
    \<and> ap_MinReplicas va
        \<le> CountActiveReplicas snap (pd_VictimAppID v) - victims_of_app (pd_VictimAppID v) (pn_Victims plan)"
proof -
  from find_plan [OF assms(1,2)] obtain v2 v1 where p: "pn_Victims plan = v2 @ v1" "pool_ok snap app 2 v2"
    "pool_ok snap app 1 v1" by metis
  have v: "v \<in> set (v2 @ v1)" using assms(3) p(1) by simp
  obtain va where "gget (sn_Applications snap) (pd_VictimAppID v) = Some va"
    "ap_MinReplicas va + victims_of_app (pd_VictimAppID v) (v2 @ v1) \<le> CountActiveReplicas snap (pd_VictimAppID v)"
    by (rule pools_min [OF p(2,3) v])
  then show ?thesis by (intro exI [of _ va]) (simp add: p(1))
qed

text \<open>C10: The cascade takes no more than it needs. The victims of a plan are first victims of
  priority 2, then victims of priority 1, and without the last of them the plan would not free
  enough. Victims of priority 1 are taken only for a requester of priority 0 whose GPUs those of
  priority 2 do not cover, and only when priority 2 is exhausted: its active replicas that are
  left in the cluster are of applications down to their minimum. A requester of priority 2 never
  preempts.\<close>

theorem preemption_takes_no_superfluous_victim:
  assumes "snap_ok snap" and "FindPreemptionOpportunity cfg od app snap = Some plan"
  shows "ap_Priority app \<noteq> 2
    \<and> (\<exists>v2 v1. pn_Victims plan = v2 @ v1
        \<and> (\<forall>v \<in> set v2. \<exists>va. gget (sn_Applications snap) (pd_VictimAppID v) = Some va \<and> ap_Priority va = 2)
        \<and> (\<forall>v \<in> set v1. \<exists>va. gget (sn_Applications snap) (pd_VictimAppID v) = Some va \<and> ap_Priority va = 1)
        \<and> (v1 \<noteq> [] \<longrightarrow> ap_Priority app = 0 \<and> freed_gpus snap v2 < ap_GPUsPerReplica app
             \<and> exhausted snap app 2 (pn_TargetCluster plan) v2)
        \<and> (v2 @ v1 \<noteq> [] \<longrightarrow> freed_gpus snap (butlast (v2 @ v1)) < ap_GPUsPerReplica app))"
proof -
  have p: "ap_Priority app \<noteq> 2" using assms(2) by (auto simp: FindPreemptionOpportunity_def)
  from find_plan [OF assms] obtain v2 v1 where P: "pn_Victims plan = v2 @ v1" "pool_ok snap app 2 v2"
    "pool_ok snap app 1 v1"
    "v1 \<noteq> [] \<Longrightarrow> ap_Priority app = 0 \<and> freed_gpus snap v2 < ap_GPUsPerReplica app"
    "v2 @ v1 \<noteq> [] \<Longrightarrow> freed_gpus snap (butlast (v2 @ v1)) < ap_GPUsPerReplica app"
    "v1 \<noteq> [] \<Longrightarrow> exhausted snap app 2 (pn_TargetCluster plan) v2" by metis
  have "\<forall>v \<in> set v2. \<exists>va. gget (sn_Applications snap) (pd_VictimAppID v) = Some va \<and> ap_Priority va = 2"
    "\<forall>v \<in> set v1. \<exists>va. gget (sn_Applications snap) (pd_VictimAppID v) = Some va \<and> ap_Priority va = 1"
    using P(2,3) unfolding pool_ok_def by blast+
  with p P show ?thesis by blast
qed

text \<open>Preemption is deterministic: neither the order in which the snapshot indexed the replicas
  nor the order in which the engine ranges over the applications changes the plan.\<close>

theorem preemption_is_deterministic:
  assumes "ws_wf ws"
  shows "FindPreemptionOpportunity cfg od1 app (Snapshot od now ws)
    = FindPreemptionOpportunity cfg od2 app (Snapshot od' now ws)"
  unfolding FindPreemptionOpportunity_def
    sorted_candidates_determined [OF assms, of od1 app od now _ _ od2 od']
    selectVictims_Snapshot [of cfg _ _ od now ws _ od'] ..

text \<open>A concrete cascade: application \<open>b\<close> of priority 2 runs \<open>r1\<close> on four GPUs; \<open>a\<close>, of
  priority 0, needs two.\<close>

definition victim_app :: Application where
  "victim_app = \<lparr>ap_AppID = ''b'', ap_ModelID = ''m'', ap_GPUsPerReplica = 4, ap_Priority = 2,
     ap_MinReplicas = 0, ap_FailureDomainRule = FailureDomainNone, ap_SLA = zero_SLA\<rparr>"

definition requester_app :: Application where
  "requester_app = victim_app\<lparr>ap_AppID := ''a'', ap_GPUsPerReplica := 2, ap_Priority := 0\<rparr>"

definition cascade_state :: WorldState where
  "cascade_state = ws_run [CallUpsertApplication requester_app, CallUpsertApplication victim_app,
     CallUpsertReplica (sample_replica\<lparr>rp_AppID := ''b''\<rparr>)] New"

definition cascade_plan :: PreemptionPlan where
  "cascade_plan = \<lparr>pn_Victims = [\<lparr>pd_VictimReplicaID = ''r1'', pd_VictimAppID = ''b'', pd_NodeID = ''n1'',
      pd_ClusterID = ''c1'', pd_GracePeriodSeconds = 10,
      pd_Reason = ''preempted for higher-priority app  (P2)''\<rparr>],
     pn_TargetCluster = ''c1'',
     pn_Constraints = zero_SchedulingConstraints\<lparr>sc_RequiredGPUs := 2, sc_CacheAffinityModel := ''m''\<rparr>\<rparr>"

lemma cascade_state_wf: "ws_wf cascade_state"
  unfolding cascade_state_def by (rule wf_inv.run) (simp add: wf_call_def)

lemma cascade_plan_found:
  "FindPreemptionOpportunity DefaultPreemptionConfig (\<lambda>_. []) requester_app
     (Snapshot (\<lambda>_. []) 9 cascade_state) = Some cascade_plan"
  by code_simp

lemmas cascade_snap_ok = snap_ok_Snapshot [OF cascade_state_wf, of "\<lambda>_. []" 9]

lemma preemption_plan_is_sound_witness:
  "2 \<le> freed_gpus (Snapshot (\<lambda>_. []) 9 cascade_state) (pn_Victims cascade_plan)"
  using preemption_plan_is_sound [OF cascade_snap_ok cascade_plan_found]
  by (simp add: requester_app_def)

lemma preemption_keeps_min_replicas_witness:
  "\<exists>va. gget (sn_Applications (Snapshot (\<lambda>_. []) 9 cascade_state)) ''b'' = Some va
     \<and> ap_MinReplicas va \<le> CountActiveReplicas (Snapshot (\<lambda>_. []) 9 cascade_state) ''b''
         - victims_of_app ''b'' (pn_Victims cascade_plan)"
  using preemption_keeps_min_replicas [OF cascade_snap_ok cascade_plan_found, of "hd (pn_Victims cascade_plan)"]
  by (simp add: cascade_plan_def)

lemma preemption_takes_no_superfluous_victim_witness:
  "\<exists>v2 v1. pn_Victims cascade_plan = v2 @ v1
     \<and> (v2 @ v1 \<noteq> [] \<longrightarrow> freed_gpus (Snapshot (\<lambda>_. []) 9 cascade_state) (butlast (v2 @ v1)) < 2)"
  using preemption_takes_no_superfluous_victim [OF cascade_snap_ok cascade_plan_found]
  by (auto simp: requester_app_def)

lemma preemption_is_deterministic_witness:
  "FindPreemptionOpportunity DefaultPreemptionConfig (\<lambda>_. [1, 2]) requester_app (Snapshot (\<lambda>_. [5]) 9 cascade_state)
     = Some cascade_plan"
  using preemption_is_deterministic [OF cascade_state_wf, of DefaultPreemptionConfig "\<lambda>_. [1, 2]" requester_app
      "\<lambda>_. [5]" 9 "\<lambda>_. []" "\<lambda>_. []"] cascade_plan_found by simp

end
