(* ===== verification/Placement.thy ===== *)
theory Placement
  imports Scaling Preemption
begin

text \<open>
  \<open>internal/engine/placement\<close>: where the replicas of a cycle go. The definitions of
  \<open>scoring.go\<close> and \<open>engine.go\<close> and the facts about each function; theory \<open>PlacementCycle\<close> has the
  properties of the whole cycle. Ranges over maps that select (clusters, scaling decisions)
  take their order from \<open>od\<close>; those that add up or take a minimum do not need one. Histogram
  observations, spans, log lines and counters are left out.
\<close>

section \<open>Configuration\<close>

record PlacementConfig =
  pf_WeightCacheGPUMemory :: f64
  pf_WeightCacheLocalNVMe :: f64
  pf_WeightCacheClusterStorage :: f64
  pf_WeightFragmentation :: f64
  pf_WeightBalance :: f64
  pf_MaxGPUsPerNode :: int
  pf_ReservationTTLMultiplier :: int
  pf_DefaultReservationTTLSeconds :: int

definition DefaultPlacementConfig :: PlacementConfig where
  "DefaultPlacementConfig =
     \<lparr>pf_WeightCacheGPUMemory = Fin 1000, pf_WeightCacheLocalNVMe = Fin 500,
      pf_WeightCacheClusterStorage = Fin 100, pf_WeightFragmentation = Fin 50,
      pf_WeightBalance = Fin 30, pf_MaxGPUsPerNode = 8, pf_ReservationTTLMultiplier = 2,
      pf_DefaultReservationTTLSeconds = 300\<rparr>"

section \<open>Scores\<close>

definition cached_in :: "ClusterID \<Rightarrow> CacheTier \<Rightarrow> CacheLocation list \<Rightarrow> CacheLocation list" where
  "cached_in clusterID tier locations =
     filter (\<lambda>loc. loc_ClusterID loc = clusterID \<and> loc_Tier loc = tier) locations"

definition computeCacheScore ::
  "PlacementConfig \<Rightarrow> ModelID \<Rightarrow> ClusterID \<Rightarrow> WorldStateSnapshot \<Rightarrow> f64 \<times> NodeID list \<times> string" where
  "computeCacheScore cfg modelID clusterID snap =
     (let locations = gget_or [] (sn_CacheLocations snap) modelID;
          gpuMemoryNodes = map loc_NodeID (cached_in clusterID CacheTierGPUMemory locations);
          localNVMeNodes = map loc_NodeID (cached_in clusterID CacheTierLocalNVMe locations);
          clusterStorage = (cached_in clusterID CacheTierClusterStorage locations \<noteq> [])
      in if gpuMemoryNodes \<noteq> []
         then (pf_WeightCacheGPUMemory cfg, gpuMemoryNodes @ localNVMeNodes, ''GPU_MEMORY'')
         else if localNVMeNodes \<noteq> []
         then (pf_WeightCacheLocalNVMe cfg, localNVMeNodes, ''LOCAL_NVME'')
         else if clusterStorage then (pf_WeightCacheClusterStorage cfg, [], ''CLUSTER_STORAGE'')
         else (f_zero, [], ''REMOTE''))"

text \<open>The loop of \<open>computePackingScore\<close>: the least sufficient free count, \<open>-1\<close> for none.\<close>

definition best_fit_step :: "int \<Rightarrow> Node \<Rightarrow> int \<Rightarrow> int" where
  "best_fit_step gpusNeeded n bestFit =
     (if nd_Status n \<noteq> NodeStatusReady then bestFit
      else if nd_FreeGPUs n < gpusNeeded then bestFit
      else if bestFit < 0 \<or> nd_FreeGPUs n < bestFit then nd_FreeGPUs n else bestFit)"

definition computePackingScore :: "PlacementConfig \<Rightarrow> Cluster \<Rightarrow> int \<Rightarrow> f64" where
  "computePackingScore cfg cluster gpusNeeded =
     (let bestFit = fold (\<lambda>(_, n). best_fit_step gpusNeeded n) (cl_Nodes cluster) (- 1)
      in if bestFit < 0 then f_zero
         else (let waste = bestFit - gpusNeeded;
                   score = f_sub f_one (f_div (f_of_int waste) (f_of_int (pf_MaxGPUsPerNode cfg)))
               in f_max f_zero (f_min f_one score)))"

definition clusterGPUTotals :: "Cluster \<Rightarrow> int \<times> int" where
  "clusterGPUTotals cluster =
     (sum_vals (\<lambda>n. if nd_Status n = NodeStatusReady then nd_TotalGPUs n else 0) (cl_Nodes cluster),
      sum_vals (\<lambda>n. if nd_Status n = NodeStatusReady then nd_AllocatedGPUs n else 0) (cl_Nodes cluster))"

definition balanceScore :: "Cluster \<Rightarrow> f64" where
  "balanceScore cluster =
     (let (totalGPUs, allocatedGPUs) = clusterGPUTotals cluster
      in if 0 < totalGPUs then f_sub f_one (f_div (f_of_int allocatedGPUs) (f_of_int totalGPUs))
         else f_zero)"

definition totalScore :: "PlacementConfig \<Rightarrow> Application \<Rightarrow> WorldStateSnapshot \<Rightarrow> ClusterID \<Rightarrow> Cluster \<Rightarrow> f64" where
  "totalScore cfg app snap clusterID cluster =
     (let (cacheScore, _, _) = computeCacheScore cfg (ap_ModelID app) clusterID snap
      in f_add (f_add cacheScore
                 (f_mul (pf_WeightFragmentation cfg) (computePackingScore cfg cluster (ap_GPUsPerReplica app))))
               (f_mul (pf_WeightBalance cfg) (balanceScore cluster)))"

section \<open>Eligibility\<close>

definition hasFittingNode :: "Cluster \<Rightarrow> int \<Rightarrow> bool" where
  "hasFittingNode cluster gpusNeeded =
     list_ex (\<lambda>(_, n). nd_Status n = NodeStatusReady \<and> gpusNeeded \<le> nd_FreeGPUs n) (cl_Nodes cluster)"

definition clusterAvailableGPUs :: "ClusterID \<Rightarrow> WorldStateSnapshot \<Rightarrow> (ClusterID, int) gomap \<Rightarrow> int" where
  "clusterAvailableGPUs clusterID snap localReservations =
     (case gget (sn_Clusters snap) clusterID of
        None \<Rightarrow> 0
      | Some cluster \<Rightarrow>
          let free = sum_vals (\<lambda>n. if nd_Status n = NodeStatusReady then nd_FreeGPUs n else 0) (cl_Nodes cluster);
              free' = free - sum_vals (\<lambda>r. if rs_ClusterID r = clusterID \<and> rs_Status r = ReservationStatusActive
                                            then rs_GPUs r else 0) (sn_Reservations snap);
              free'' = free' - gget_or 0 localReservations clusterID
          in if free'' < 0 then 0 else free'')"

definition countActiveReplicas :: "AppID \<Rightarrow> WorldStateSnapshot \<Rightarrow> int" where
  "countActiveReplicas appID snap = CountActiveReplicas snap appID"

definition countAppReplicasInCluster :: "AppID \<Rightarrow> ClusterID \<Rightarrow> WorldStateSnapshot \<Rightarrow> int" where
  "countAppReplicasInCluster appID clusterID snap =
     int (length (filter (\<lambda>r. rp_ClusterID r = clusterID \<and> active_replica r) (ReplicasForApp snap appID)))"

definition computeReservationTTL :: "PlacementConfig \<Rightarrow> AppID \<Rightarrow> WorldStateSnapshot \<Rightarrow> int" where
  "computeReservationTTL cfg appID snap =
     (case gget (sn_PerformanceProfiles snap) appID of
        Some profile \<Rightarrow>
          if f_gt (pp_ColdStartSeconds profile) f_zero
          then pf_ReservationTTLMultiplier cfg * f_to_int (pp_ColdStartSeconds profile)
          else pf_DefaultReservationTTLSeconds cfg
      | None \<Rightarrow> pf_DefaultReservationTTLSeconds cfg)"

section \<open>The best cluster\<close>

definition eligibleClusters ::
  "orders \<Rightarrow> Application \<Rightarrow> WorldStateSnapshot \<Rightarrow> (ClusterID, int) gomap \<Rightarrow> ClusterID list" where
  "eligibleClusters od app snap localReservations =
     map fst (filter (\<lambda>(clusterID, cluster).
          hasFittingNode cluster (ap_GPUsPerReplica app)
          \<and> \<not> clusterAvailableGPUs clusterID snap localReservations < ap_GPUsPerReplica app)
       (range_order od (sn_Clusters snap)))"

definition spreadLimit :: "Application \<Rightarrow> WorldStateSnapshot \<Rightarrow> (ClusterID, int) gomap \<Rightarrow> nat \<Rightarrow> int" where
  "spreadLimit app snap localAppPlacement eligible =
     (if ap_FailureDomainRule app = FailureDomainSpreadClusters \<and> 0 < eligible
      then (let targetCount = CountActiveReplicas snap (ap_AppID app)
                  + sum_vals (\<lambda>n. n) localAppPlacement + 1
            in ceilInt (f_div (f_of_int targetCount) (f_of_int (int eligible))))
      else 0)"

definition within_spread ::
  "Application \<Rightarrow> WorldStateSnapshot \<Rightarrow> (ClusterID, int) gomap \<Rightarrow> int \<Rightarrow> ClusterID \<Rightarrow> bool" where
  "within_spread app snap localAppPlacement limit clusterID \<longleftrightarrow>
     \<not> (ap_FailureDomainRule app = FailureDomainSpreadClusters
        \<and> limit \<le> countAppReplicasInCluster (ap_AppID app) clusterID snap
                    + gget_or 0 localAppPlacement clusterID)"

text \<open>The selection loop keeps the first cluster whose score no later one exceeds.\<close>

fun best_by :: "('a \<Rightarrow> f64) \<Rightarrow> 'a list \<Rightarrow> 'a option \<Rightarrow> 'a option" where
  "best_by score [] best = best"
| "best_by score (x # xs) None = best_by score xs (Some x)"
| "best_by score (x # xs) (Some b) = best_by score xs (Some (if f_gt (score x) (score b) then x else b))"

definition zero_Cluster :: Cluster where
  "zero_Cluster = \<lparr>cl_ClusterID = '''', cl_Nodes = [], cl_FragmentationScore = f_zero\<rparr>"

definition cluster_score :: "PlacementConfig \<Rightarrow> Application \<Rightarrow> WorldStateSnapshot \<Rightarrow> ClusterID \<Rightarrow> f64" where
  "cluster_score cfg app snap clusterID =
     totalScore cfg app snap clusterID (gget_or zero_Cluster (sn_Clusters snap) clusterID)"

definition findBestCluster ::
  "PlacementConfig \<Rightarrow> orders \<Rightarrow> Application \<Rightarrow> WorldStateSnapshot \<Rightarrow> (ClusterID, int) gomap
     \<Rightarrow> (ClusterID, int) gomap \<Rightarrow> (ClusterID \<times> SchedulingConstraints) option" where
  "findBestCluster cfg od app snap localReservations localAppPlacement =
     (let eligible = eligibleClusters od app snap localReservations;
          limit = spreadLimit app snap localAppPlacement (length eligible)
      in case best_by (cluster_score cfg app snap)
                (filter (within_spread app snap localAppPlacement limit) eligible) None of
           None \<Rightarrow> None
         | Some clusterID \<Rightarrow>
             (let (_, preferredNodes, _) = computeCacheScore cfg (ap_ModelID app) clusterID snap
              in Some (clusterID, zero_SchedulingConstraints\<lparr>sc_RequiredGPUs := ap_GPUsPerReplica app,
                   sc_PreferredNodes := preferredNodes, sc_CacheAffinityModel := ap_ModelID app\<rparr>)))"

section \<open>Victims of a scale-down\<close>

record downCandidate =
  dc_replicaID :: ReplicaID
  dc_utilScore :: f64
  dc_cached :: bool
  dc_clusterCount :: int

definition down_candidate :: "AppID \<Rightarrow> WorldStateSnapshot \<Rightarrow> Replica \<Rightarrow> downCandidate" where
  "down_candidate appID snap r =
     (let app = gget_or zero_Application (sn_Applications snap) appID;
          utilScore = (case gget (sn_Clusters snap) (rp_ClusterID r) of None \<Rightarrow> f_zero
             | Some cluster \<Rightarrow> (case gget (cl_Nodes cluster) (rp_NodeID r) of None \<Rightarrow> f_zero
                 | Some node \<Rightarrow> if 0 < nd_TotalGPUs node
                     then f_sub f_one (f_div (f_of_int (nd_FreeGPUs node)) (f_of_int (nd_TotalGPUs node)))
                     else f_zero));
          cached = list_ex (\<lambda>loc. loc_ClusterID loc = rp_ClusterID r \<and> loc_NodeID loc = rp_NodeID r)
             (gget_or [] (sn_CacheLocations snap) (ap_ModelID app))
      in \<lparr>dc_replicaID = rp_ReplicaID r, dc_utilScore = utilScore, dc_cached = cached,
          dc_clusterCount = countAppReplicasInCluster appID (rp_ClusterID r) snap\<rparr>)"

definition down_less :: "downCandidate \<Rightarrow> downCandidate \<Rightarrow> bool" where
  "down_less a b =
     (if \<not> f_eq (dc_utilScore a) (dc_utilScore b) then f_lt (dc_utilScore a) (dc_utilScore b)
      else if dc_cached a \<noteq> dc_cached b then \<not> dc_cached a
      else dc_clusterCount b < dc_clusterCount a)"

definition down_candidates :: "AppID \<Rightarrow> WorldStateSnapshot \<Rightarrow> downCandidate list" where
  "down_candidates appID snap =
     map (down_candidate appID snap) (filter active_replica (ReplicasForApp snap appID))"

definition selectScaleDownVictims :: "orders \<Rightarrow> AppID \<Rightarrow> int \<Rightarrow> WorldStateSnapshot \<Rightarrow> ReplicaID list" where
  "selectScaleDownVictims od appID n snap =
     (let candidates = sort_slice od down_less (down_candidates appID snap);
          n' = (if int (length candidates) < n then int (length candidates) else n)
      in map dc_replicaID (take (nat n') candidates))"

section \<open>One replica, one application, one cycle\<close>

text \<open>
  The variables of \<open>ComputePlacement\<close>: the decisions so far, the GPUs and replicas this cycle
  has already placed per cluster, and the number of loop iterations, which numbers the
  orders. \<open>uid n\<close> is the \<open>n\<close>-th value \<open>uuid.New\<close> returns; \<open>finder\<close> is the
  \<open>preemptionFinder\<close>, which may be nil.
\<close>

record PlacementRun =
  pk_decisions :: PlacementDecisions
  pk_localReservations :: "(ClusterID, int) gomap"
  pk_localAppPlacement :: "(AppID, (ClusterID, int) gomap) gomap"
  pk_iterations :: nat

type_synonym 'e finder = "orders \<Rightarrow> Application \<Rightarrow> WorldStateSnapshot \<Rightarrow> 'e + PreemptionPlan option"

definition choose_place ::
  "PlacementConfig \<Rightarrow> 'e finder option \<Rightarrow> orders \<Rightarrow> Application \<Rightarrow> WorldStateSnapshot \<Rightarrow> (ClusterID, int) gomap
     \<Rightarrow> (ClusterID, int) gomap \<Rightarrow> (ClusterID \<times> SchedulingConstraints \<times> PreemptionDecision list) option" where
  "choose_place cfg finder od app snap localReservations localApp =
     (case findBestCluster cfg (sub od 0) app snap localReservations localApp of
        Some (clusterID, constraints) \<Rightarrow> Some (clusterID, constraints, [])
      | None \<Rightarrow>
          (case finder of
             None \<Rightarrow> None
           | Some f \<Rightarrow>
               (case f (sub od 1) app snap of
                  Inr (Some plan) \<Rightarrow> Some (pn_TargetCluster plan, pn_Constraints plan, pn_Victims plan)
                | Inr None \<Rightarrow> None
                | Inl err \<Rightarrow> None)))"

definition place_one ::
  "PlacementConfig \<Rightarrow> 'e finder option \<Rightarrow> (nat \<Rightarrow> string) \<Rightarrow> orders \<Rightarrow> WorldStateSnapshot \<Rightarrow> AppID
     \<Rightarrow> PlacementRun \<Rightarrow> PlacementRun" where
  "place_one cfg finder uid od snap appID st =
     (let app = gget_or zero_Application (sn_Applications snap) appID;
          localApp = gget_or [] (pk_localAppPlacement st) appID;
          st' = st\<lparr>pk_iterations := Suc (pk_iterations st)\<rparr>
      in case choose_place cfg finder (sub od (pk_iterations st)) app snap (pk_localReservations st) localApp of
           None \<Rightarrow> st'
         | Some (clusterID, constraints, victims) \<Rightarrow>
             (let d = pk_decisions st;
                  resID = uid (length (pl_Reservations d));
                  reservation = \<lparr>rs_ReservationID = resID, rs_ClusterID = clusterID, rs_NodeID = '''',
                    rs_GPUs = ap_GPUsPerReplica app, rs_ForAppID = appID, rs_CreatedAt = sn_TakenAt snap,
                    rs_TTLSeconds = computeReservationTTL cfg appID snap, rs_Status = ReservationStatusActive\<rparr>;
                  scaleUp = \<lparr>su_AppID = appID, su_ClusterID = clusterID, su_ReservationID = resID,
                    su_SchedulingConstraints = constraints\<rparr>
              in st'\<lparr>pk_decisions := d\<lparr>pl_Preemptions := pl_Preemptions d @ victims,
                        pl_Reservations := pl_Reservations d @ [reservation],
                        pl_ScaleUps := pl_ScaleUps d @ [scaleUp]\<rparr>,
                     pk_localReservations := gput clusterID
                        (gget_or 0 (pk_localReservations st) clusterID + ap_GPUsPerReplica app) (pk_localReservations st),
                     pk_localAppPlacement := gput appID
                        (gput clusterID (gget_or 0 localApp clusterID + 1) localApp) (pk_localAppPlacement st)\<rparr>))"

definition place_app ::
  "PlacementConfig \<Rightarrow> 'e finder option \<Rightarrow> (nat \<Rightarrow> string) \<Rightarrow> orders \<Rightarrow> WorldStateSnapshot \<Rightarrow> AppID \<times> int
     \<Rightarrow> PlacementRun \<Rightarrow> PlacementRun" where
  "place_app cfg finder uid od snap su st = (place_one cfg finder uid od snap (fst su) ^^ nat (snd su)) st"

definition appDeltas :: "orders \<Rightarrow> WorldStateSnapshot \<Rightarrow> (AppID, ScalingDecision) gomap \<Rightarrow> (AppID \<times> int) list" where
  "appDeltas od snap scalingDecisions =
     map (\<lambda>(appID, sd). (appID, sl_TargetCount sd - countActiveReplicas appID snap))
       (filter (\<lambda>(_, sd). sl_ScaleActionApproved sd) (range_order od scalingDecisions))"

definition priority_less :: "WorldStateSnapshot \<Rightarrow> AppID \<times> int \<Rightarrow> AppID \<times> int \<Rightarrow> bool" where
  "priority_less snap i j \<longleftrightarrow>
     ap_Priority (gget_or zero_Application (sn_Applications snap) (fst i))
       < ap_Priority (gget_or zero_Application (sn_Applications snap) (fst j))"

definition scale_down_decisions :: "orders \<Rightarrow> WorldStateSnapshot \<Rightarrow> AppID \<times> int \<Rightarrow> ScaleDownDecision list" where
  "scale_down_decisions od snap sd =
     map (\<lambda>victimID. \<lparr>sd_AppID = fst sd, sd_ReplicaID = victimID\<rparr>)
       (selectScaleDownVictims od (fst sd) (- snd sd) snap)"

definition start_run :: "orders \<Rightarrow> WorldStateSnapshot \<Rightarrow> (AppID \<times> int) list \<Rightarrow> PlacementRun" where
  "start_run od snap scaleDowns =
     \<lparr>pk_decisions = zero_PlacementDecisions\<lparr>pl_ScaleDowns :=
          concat (map (\<lambda>(i, sd). scale_down_decisions (sub od i) snap sd) (enumerate 0 scaleDowns))\<rparr>,
      pk_localReservations = [], pk_localAppPlacement = [], pk_iterations = 0\<rparr>"

definition sortedScaleUps :: "orders \<Rightarrow> WorldStateSnapshot \<Rightarrow> (AppID, ScalingDecision) gomap \<Rightarrow> (AppID \<times> int) list" where
  "sortedScaleUps od snap scalingDecisions =
     sort_slice (sub od 1) (priority_less snap)
       (filter (\<lambda>(_, delta). 0 < delta) (appDeltas od snap scalingDecisions))"

definition ComputePlacement ::
  "PlacementConfig \<Rightarrow> 'e finder option \<Rightarrow> (nat \<Rightarrow> string) \<Rightarrow> orders \<Rightarrow> WorldStateSnapshot
     \<Rightarrow> (AppID, ScalingDecision) gomap \<Rightarrow> PlacementDecisions" where
  "ComputePlacement cfg finder uid od snap scalingDecisions =
     (let scaleDowns = filter (\<lambda>(_, delta). delta < 0) (appDeltas od snap scalingDecisions);
          scaleUps = sortedScaleUps od snap scalingDecisions
      in pk_decisions (fold (place_app cfg finder uid (sub od 3) snap) scaleUps
           (start_run (sub od 2) snap scaleDowns)))"

section \<open>Facts about the functions\<close>

lemma best_by_mem: "best_by score xs b = Some x \<Longrightarrow> x \<in> set xs \<or> b = Some x"
  by (induction score xs b rule: best_by.induct) (auto split: if_splits)

lemma best_by_max:
  assumes "best_by score xs b = Some x" and "\<And>y. y \<in> set xs \<Longrightarrow> score y \<noteq> NaN"
    and "\<And>y. b = Some y \<Longrightarrow> score y \<noteq> NaN"
  shows "(\<forall>y \<in> set xs. \<not> f_gt (score y) (score x)) \<and> (\<forall>y. b = Some y \<longrightarrow> \<not> f_gt (score y) (score x))"
  using assms
proof (induction score xs b rule: best_by.induct)
  case (1 score best)
  then show ?case by simp
next
  case (2 score x0 xs)
  then show ?case by simp
next
  case (3 score x0 xs b0)
  let ?c = "if f_gt (score x0) (score b0) then x0 else b0"
  have IH: "(\<forall>y \<in> set xs. \<not> f_gt (score y) (score x)) \<and> \<not> f_gt (score ?c) (score x)"
    using "3.IH" "3.prems" by auto
  have n: "score x0 \<noteq> NaN" "score b0 \<noteq> NaN" using "3.prems"(2,3) by auto
  have "\<not> f_gt (score x0) (score x) \<and> \<not> f_gt (score b0) (score x)"
  proof (cases "f_gt (score x0) (score b0)")
    case True
    then show ?thesis using IH f_lt_trans [of "score x" "score b0" "score x0"] by auto
  next
    case False
    then show ?thesis
      using IH f_lt_cotrans [of "score x" "score x0" "score b0"] n by auto
  qed
  then show ?case using IH by auto
qed

lemma best_by_None: "best_by score xs b = None \<longleftrightarrow> xs = [] \<and> b = None"
  by (induction score xs b rule: best_by.induct) auto

lemma mem_eligible:
  assumes "gwf (sn_Clusters snap)"
  shows "cid \<in> set (eligibleClusters od app snap loc) \<longleftrightarrow>
    (\<exists>c. gget (sn_Clusters snap) cid = Some c \<and> hasFittingNode c (ap_GPUsPerReplica app)
       \<and> ap_GPUsPerReplica app \<le> clusterAvailableGPUs cid snap loc)"
  by (auto simp: eligibleClusters_def gget_iff_mem [OF assms] image_iff not_less)

lemma findBestCluster_Some:
  assumes "findBestCluster cfg od app snap loc local = Some (cid, cons)"
  shows "cid \<in> set (eligibleClusters od app snap loc)"
    and "within_spread app snap local (spreadLimit app snap local (length (eligibleClusters od app snap loc))) cid"
    and "sc_RequiredGPUs cons = ap_GPUsPerReplica app"
    and "best_by (cluster_score cfg app snap) (filter (within_spread app snap local
           (spreadLimit app snap local (length (eligibleClusters od app snap loc))))
           (eligibleClusters od app snap loc)) None = Some cid"
proof -
  show b: "best_by (cluster_score cfg app snap) (filter (within_spread app snap local
           (spreadLimit app snap local (length (eligibleClusters od app snap loc))))
           (eligibleClusters od app snap loc)) None = Some cid"
    and "sc_RequiredGPUs cons = ap_GPUsPerReplica app"
    using assms by (auto simp: findBestCluster_def Let_def split: option.splits prod.splits)
  from best_by_mem [OF b] show "cid \<in> set (eligibleClusters od app snap loc)"
    and "within_spread app snap local (spreadLimit app snap local (length (eligibleClusters od app snap loc))) cid"
    by auto
qed

text \<open>The rounded quotient never exceeds the exact ceiling.\<close>

lemma ceilInt_ratio_le:
  assumes "0 \<le> a" and "a \<le> 2 ^ 53" and "0 < b" and "b \<le> 2 ^ 53"
  shows "ceilInt (f_div (f_of_int a) (f_of_int b)) \<le> \<lceil>(of_int a :: rat) / of_int b\<rceil>"
proof -
  let ?q = "(of_int a :: rat) / of_int b"
  have q0: "0 \<le> ?q" using assms by simp
  have "?q \<le> of_int a / 1" using assms by (intro divide_left_mono) auto
  then have qa: "?q \<le> of_int a" by simp
  have "(of_int a :: rat) \<le> of_int (2 ^ 53)" using assms(2) by (simp only: of_int_le_iff)
  with qa have "?q \<le> of_int (2 ^ 53)" by (rule order_trans)
  then have k: "\<lceil>?q\<rceil> \<le> 2 ^ 53" by (simp only: ceiling_le_iff)
  have "- 1 < ?q" using q0 by linarith
  then have k0: "0 \<le> \<lceil>?q\<rceil>" by (simp only: zero_le_ceiling)
  have "rnd64 ?q \<le> of_int \<lceil>?q\<rceil>" by (rule rnd64.rnd_le_int) (use k k0 in auto)
  then have up: "\<lceil>rnd64 ?q\<rceil> \<le> \<lceil>?q\<rceil>" by (simp add: ceiling_le_iff)
  have "- 1 < rnd64 ?q" using rnd64.rnd_nonneg [OF q0] by linarith
  then have lo: "0 \<le> \<lceil>rnd64 ?q\<rceil>" by (simp only: zero_le_ceiling)
  have "(of_int a :: rat) \<le> of_int (2 ^ 53)" using assms(2) by (simp only: of_int_le_iff)
  then have "\<bar>?q\<bar> \<le> 2 ^ 64" using q0 qa by simp
  from round64_small [OF this]
  have d: "f_div (f_of_int a) (f_of_int b) = Fin (rnd64 ?q)" using assms by (simp add: f_of_int_exact)
  have "f_to_int (Fin (of_int \<lceil>rnd64 ?q\<rceil>)) = \<lceil>rnd64 ?q\<rceil>"
  proof (rule f_to_int_int)
    show "min_int64 \<le> \<lceil>rnd64 ?q\<rceil>" using lo unfolding min_int64_def by linarith
    have "\<lceil>rnd64 ?q\<rceil> \<le> 2 ^ 53" by (rule order_trans [OF up k])
    then show "\<lceil>rnd64 ?q\<rceil> \<le> max_int64" by (rule order_trans) (simp add: max_int64_def)
  qed
  then show ?thesis using up by (simp only: ceilInt_def d f_ceil.simps)
qed

lemma CountActiveReplicas_nonneg [simp]: "0 \<le> CountActiveReplicas snap a"
  by (simp add: CountActiveReplicas_def)

text \<open>Available GPUs before and during the cycle.\<close>

lemma clusterAvailableGPUs_local:
  "clusterAvailableGPUs cid snap loc \<le> max 0 (clusterAvailableGPUs cid snap [] - gget_or 0 loc cid)
    \<or> gget_or 0 loc cid < 0"
  by (auto simp: clusterAvailableGPUs_def Let_def split: option.splits)

section \<open>Sorting the victims of a scale-down\<close>

interpretation down: comparison down_less "\<lambda>c. dc_utilScore c \<noteq> NaN"
proof -
  let ?l2 = "\<lambda>a b :: downCandidate. if (if dc_cached a then 1 else 0 :: int) \<noteq> (if dc_cached b then 1 else 0)
    then (if dc_cached a then 1 else 0 :: int) < (if dc_cached b then 1 else 0)
    else by_key (\<lambda>c. - dc_clusterCount c) a b"
  have l2: "comparison ?l2 (\<lambda>c. dc_utilScore c \<noteq> NaN)"
    by (rule comparison_lex) (unfold_locales, auto simp: by_key_def)
  have "comparison (\<lambda>a b :: downCandidate. if \<not> f_eq (dc_utilScore a) (dc_utilScore b)
      then f_lt (dc_utilScore a) (dc_utilScore b) else ?l2 a b) (\<lambda>c. dc_utilScore c \<noteq> NaN)"
    by (rule comparison_then [OF comparison_f64_key l2])
      (use f_lt_total f_lt_irrefl in \<open>auto simp: f_eq_def\<close>)
  moreover have "down_less = (\<lambda>a b. if \<not> f_eq (dc_utilScore a) (dc_utilScore b)
      then f_lt (dc_utilScore a) (dc_utilScore b) else ?l2 a b)"
    by (intro ext) (auto simp: down_less_def by_key_def)
  ultimately show "comparison down_less (\<lambda>c. dc_utilScore c \<noteq> NaN)" by (simp only:)
qed

lemma round64_not_NaN [simp]: "round64 x \<noteq> NaN"
  by (simp add: round64_def Let_def)

lemma f_of_int_not_NaN [simp]: "f_of_int n \<noteq> NaN"
  by (simp add: f_of_int_def)

lemma f_sub_one_not_NaN: "a \<noteq> NaN \<Longrightarrow> f_sub f_one a \<noteq> NaN"
  by (cases a) (simp_all add: f_sub_def)

lemma f_div_count_not_NaN:
  assumes "0 < b" and "b \<le> 2 ^ 53"
  shows "f_div (f_of_int a) (f_of_int b) \<noteq> NaN"
proof -
  have b: "f_of_int b = Fin (of_int b)" using assms by (simp add: f_of_int_exact)
  have "f_of_int a \<noteq> NaN" by simp
  then show ?thesis using assms(1) by (cases "f_of_int a") (simp_all add: b)
qed

text \<open>A node with a plausible GPU count has a utilisation that is a number.\<close>

definition plausible_nodes :: "WorldStateSnapshot \<Rightarrow> bool" where
  "plausible_nodes snap \<longleftrightarrow> (\<forall>cid c nid n. gget (sn_Clusters snap) cid = Some c \<longrightarrow>
     gget (cl_Nodes c) nid = Some n \<longrightarrow> nd_TotalGPUs n \<le> 2 ^ 53)"

lemma down_candidate_ok: "plausible_nodes snap \<Longrightarrow> dc_utilScore (down_candidate a snap r) \<noteq> NaN"
  by (auto simp: down_candidate_def Let_def plausible_nodes_def f_sub_one_not_NaN f_div_count_not_NaN
      split: option.split)

lemma down_candidate_id [simp]: "dc_replicaID (down_candidate a snap r) = rp_ReplicaID r"
  by (simp add: down_candidate_def Let_def)

lemma scale_down_victims_spec:
  assumes "snap_ok snap" and "0 \<le> n"
  shows "distinct (selectScaleDownVictims od a n snap)"
    and "int (length (selectScaleDownVictims od a n snap)) = min n (CountActiveReplicas snap a)"
    and "set (selectScaleDownVictims od a n snap)
      \<subseteq> {rid. \<exists>r. gget (sn_Replicas snap) rid = Some r \<and> rp_AppID r = a \<and> active_replica r}"
proof -
  let ?cs = "sort_slice od down_less (down_candidates a snap)"
  have ids: "map dc_replicaID (down_candidates a snap)
      = map rp_ReplicaID (filter active_replica (ReplicasForApp snap a))"
    by (simp add: down_candidates_def comp_def)
  have "distinct (map rp_ReplicaID (filter active_replica (ReplicasForApp snap a)))"
    using snap_ok_distinct_ids [OF assms(1)] by (rule distinct_map_filter)
  moreover have "mset (map dc_replicaID ?cs) = mset (map dc_replicaID (down_candidates a snap))" by simp
  ultimately have "distinct (map dc_replicaID ?cs)" unfolding ids by (metis mset_eq_imp_distinct_iff)
  then show "distinct (selectScaleDownVictims od a n snap)"
    unfolding selectScaleDownVictims_def Let_def take_map [symmetric] by (rule distinct_take)
  have len: "int (length ?cs) = CountActiveReplicas snap a"
    by (simp add: down_candidates_def CountActiveReplicas_def)
  then show "int (length (selectScaleDownVictims od a n snap)) = min n (CountActiveReplicas snap a)"
    unfolding selectScaleDownVictims_def Let_def using assms(2) by auto
  have "set (selectScaleDownVictims od a n snap) \<subseteq> set (map dc_replicaID ?cs)"
    unfolding selectScaleDownVictims_def Let_def using set_take_subset by fastforce
  also have "\<dots> = set (map dc_replicaID (down_candidates a snap))" by simp
  also have "\<dots> \<subseteq> {rid. \<exists>r. gget (sn_Replicas snap) rid = Some r \<and> rp_AppID r = a \<and> active_replica r}"
    unfolding ids using snap_ok_set [OF assms(1)] by auto
  finally show "set (selectScaleDownVictims od a n snap)
      \<subseteq> {rid. \<exists>r. gget (sn_Replicas snap) rid = Some r \<and> rp_AppID r = a \<and> active_replica r}" .
qed

end
