(* ===== verification/PlacementCycle.thy ===== *)
theory PlacementCycle
  imports Placement
begin

text \<open>
  Properties of \<open>ComputePlacement\<close>: invariants of its loop (theory \<open>Placement\<close>) and what they
  give for a whole cycle.
\<close>

section \<open>Invariants of the loop\<close>

lemma funpow_inv: "(\<And>st. I st \<Longrightarrow> I (f st)) \<Longrightarrow> I st \<Longrightarrow> I ((f ^^ n) st)"
  by (induction n) auto

lemma placement_inv:
  assumes "\<And>a st. I st \<Longrightarrow> I (place_one cfg finder uid od snap a st)" and "I st"
  shows "I (fold (place_app cfg finder uid od snap) sus st)"
  using assms(2)
proof (induction sus arbitrary: st)
  case (Cons su sus)
  have "I (place_app cfg finder uid od snap su st)"
    unfolding place_app_def by (rule funpow_inv [where I = I]) (use assms(1) Cons.prems in auto)
  then show ?case using Cons.IH by simp
qed simp

text \<open>What one iteration adds, when it places its replica.\<close>

definition reservation_for ::
  "PlacementConfig \<Rightarrow> (nat \<Rightarrow> string) \<Rightarrow> WorldStateSnapshot \<Rightarrow> AppID \<Rightarrow> ClusterID \<Rightarrow> nat \<Rightarrow> GPUReservation" where
  "reservation_for cfg uid snap appID cid k =
     \<lparr>rs_ReservationID = uid k, rs_ClusterID = cid, rs_NodeID = '''',
      rs_GPUs = ap_GPUsPerReplica (gget_or zero_Application (sn_Applications snap) appID),
      rs_ForAppID = appID, rs_CreatedAt = sn_TakenAt snap,
      rs_TTLSeconds = computeReservationTTL cfg appID snap, rs_Status = ReservationStatusActive\<rparr>"

lemma place_one_cases:
  obtains (none) "pk_decisions (place_one cfg finder uid od snap a st) = pk_decisions st"
      "pk_localReservations (place_one cfg finder uid od snap a st) = pk_localReservations st"
  | (placed) cid cons victims where
      "choose_place cfg finder (sub od (pk_iterations st))
         (gget_or zero_Application (sn_Applications snap) a) snap (pk_localReservations st)
         (gget_or [] (pk_localAppPlacement st) a) = Some (cid, cons, victims)"
      "pk_localReservations (place_one cfg finder uid od snap a st)
         = gput cid (gget_or 0 (pk_localReservations st) cid
             + ap_GPUsPerReplica (gget_or zero_Application (sn_Applications snap) a)) (pk_localReservations st)"
      "pk_decisions (place_one cfg finder uid od snap a st) = (pk_decisions st)
         \<lparr>pl_Preemptions := pl_Preemptions (pk_decisions st) @ victims,
          pl_Reservations := pl_Reservations (pk_decisions st)
            @ [reservation_for cfg uid snap a cid (length (pl_Reservations (pk_decisions st)))],
          pl_ScaleUps := pl_ScaleUps (pk_decisions st)
            @ [\<lparr>su_AppID = a, su_ClusterID = cid,
                su_ReservationID = uid (length (pl_Reservations (pk_decisions st))),
                su_SchedulingConstraints = cons\<rparr>]\<rparr>"
proof (cases "choose_place cfg finder (sub od (pk_iterations st))
         (gget_or zero_Application (sn_Applications snap) a) snap (pk_localReservations st)
         (gget_or [] (pk_localAppPlacement st) a)")
  case None
  then show ?thesis by (intro none) (simp_all add: place_one_def Let_def)
next
  case (Some t)
  obtain cid cons victims where t: "t = (cid, cons, victims)" by (cases t rule: prod_cases3)
  show ?thesis
    by (rule placed [OF Some [unfolded t]])
      (simp_all add: place_one_def Let_def Some t reservation_for_def)
qed

section \<open>Scale-ups and reservations are paired\<close>

definition paired ::
  "PlacementConfig \<Rightarrow> (nat \<Rightarrow> string) \<Rightarrow> WorldStateSnapshot \<Rightarrow> PlacementDecisions \<Rightarrow> bool" where
  "paired cfg uid snap d \<longleftrightarrow> length (pl_ScaleUps d) = length (pl_Reservations d)
     \<and> (\<forall>k < length (pl_Reservations d).
          pl_Reservations d ! k
            = reservation_for cfg uid snap (su_AppID (pl_ScaleUps d ! k)) (su_ClusterID (pl_ScaleUps d ! k)) k
          \<and> su_ReservationID (pl_ScaleUps d ! k) = uid k)"

lemma place_one_paired:
  assumes "paired cfg uid snap (pk_decisions st)"
  shows "paired cfg uid snap (pk_decisions (place_one cfg finder uid od snap a st))"
proof (cases rule: place_one_cases [of cfg finder uid od snap a st])
  case none
  then show ?thesis using assms by simp
next
  case (placed cid cons victims)
  then show ?thesis using assms by (auto simp: paired_def nth_append less_Suc_eq)
qed

section \<open>Local reservations never exceed what is available\<close>

definition reserved_in :: "ClusterID \<Rightarrow> GPUReservation list \<Rightarrow> int" where
  "reserved_in cid rs = sum_list (map rs_GPUs (filter (\<lambda>r. rs_ClusterID r = cid) rs))"

lemma choose_place_no_finder:
  assumes "choose_place cfg None od app snap loc local = Some (cid, cons, victims)"
    and "gwf (sn_Clusters snap)"
  shows "ap_GPUsPerReplica app \<le> clusterAvailableGPUs cid snap loc"
    and "\<exists>c. gget (sn_Clusters snap) cid = Some c \<and> hasFittingNode c (ap_GPUsPerReplica app)"
    and "victims = []"
proof -
  have f: "findBestCluster cfg (sub od 0) app snap loc local = Some (cid, cons)" and v: "victims = []"
    using assms(1) by (auto simp: choose_place_def split: option.splits)
  from findBestCluster_Some(1) [OF f] show "ap_GPUsPerReplica app \<le> clusterAvailableGPUs cid snap loc"
    and "\<exists>c. gget (sn_Clusters snap) cid = Some c \<and> hasFittingNode c (ap_GPUsPerReplica app)"
    using mem_eligible [OF assms(2)] by auto
  show "victims = []" by (rule v)
qed

text \<open>The cluster's free GPUs less its active reservations, before the cycle places anything.\<close>

definition free_capacity :: "WorldStateSnapshot \<Rightarrow> ClusterID \<Rightarrow> int" where
  "free_capacity snap cid = (case gget (sn_Clusters snap) cid of None \<Rightarrow> 0 | Some c \<Rightarrow>
     sum_vals (\<lambda>n. if nd_Status n = NodeStatusReady then nd_FreeGPUs n else 0) (cl_Nodes c)
     - sum_vals (\<lambda>r. if rs_ClusterID r = cid \<and> rs_Status r = ReservationStatusActive then rs_GPUs r else 0)
         (sn_Reservations snap))"

lemma clusterAvailableGPUs_alt:
  "gget (sn_Clusters snap) cid \<noteq> None \<Longrightarrow>
     clusterAvailableGPUs cid snap loc = max 0 (free_capacity snap cid - gget_or 0 loc cid)"
  by (auto simp: clusterAvailableGPUs_def free_capacity_def Let_def max_def)

definition within_capacity :: "WorldStateSnapshot \<Rightarrow> PlacementRun \<Rightarrow> bool" where
  "within_capacity snap st \<longleftrightarrow> (\<forall>cid.
     gget_or 0 (pk_localReservations st) cid = reserved_in cid (pl_Reservations (pk_decisions st))
     \<and> gget_or 0 (pk_localReservations st) cid \<le> max 0 (free_capacity snap cid))
   \<and> pl_Preemptions (pk_decisions st) = []"

lemma reserved_in_append: "reserved_in cid (rs @ rs') = reserved_in cid rs + reserved_in cid rs'"
  by (simp add: reserved_in_def)

lemma place_one_within_capacity:
  assumes "gwf (sn_Clusters snap)" and I: "within_capacity snap st"
  shows "within_capacity snap (place_one cfg (None :: 'e finder option) uid od snap a st)"
proof (cases rule: place_one_cases [of cfg "None :: 'e finder option" uid od snap a st])
  case none
  show ?thesis using I unfolding within_capacity_def none(1) none(2) .
next
  case (placed cid cons victims)
  let ?g = "ap_GPUsPerReplica (gget_or zero_Application (sn_Applications snap) a)"
  let ?l = "gget_or 0 (pk_localReservations st) cid"
  note P = choose_place_no_finder [OF placed(1) assms(1)]
  have "gget (sn_Clusters snap) cid \<noteq> None" using P(2) by auto
  from P(1) [unfolded clusterAvailableGPUs_alt [OF this]]
  have le: "?l + ?g \<le> max 0 (free_capacity snap cid)"
    using I by (auto simp: within_capacity_def max_def split: if_splits)
  have R: "reserved_in c [reservation_for cfg uid snap a cid k] = (if cid = c then ?g else 0)" for c k
    by (simp add: reserved_in_def reservation_for_def)
  have I': "gget_or 0 (pk_localReservations st) c = reserved_in c (pl_Reservations (pk_decisions st))"
    "gget_or 0 (pk_localReservations st) c \<le> max 0 (free_capacity snap c)"
    "pl_Preemptions (pk_decisions st) = []" for c
    using I unfolding within_capacity_def by blast+
  have "gget_or 0 (gput cid (?l + ?g) (pk_localReservations st)) c
        = reserved_in c (pl_Reservations (pk_decisions st) @ [reservation_for cfg uid snap a cid k])
      \<and> gget_or 0 (gput cid (?l + ?g) (pk_localReservations st)) c \<le> max 0 (free_capacity snap c)" for c k
    unfolding reserved_in_append R gget_or_gput using I'(1,2) [of c] le by auto
  then show ?thesis using I'(3) P(3) by (simp add: within_capacity_def placed(2,3))
qed

text \<open>
  With a finder, a reservation that does not fit is one the finder made a plan for: its victims
  are then among the preemptions of the cycle.
\<close>

definition preempted_for ::
  "'e finder option \<Rightarrow> WorldStateSnapshot \<Rightarrow> PlacementDecisions \<Rightarrow> GPUReservation \<Rightarrow> bool" where
  "preempted_for finder snap d r \<longleftrightarrow> (\<exists>f od plan. finder = Some f
     \<and> f od (gget_or zero_Application (sn_Applications snap) (rs_ForAppID r)) snap = Inr (Some plan)
     \<and> pn_TargetCluster plan = rs_ClusterID r \<and> set (pn_Victims plan) \<subseteq> set (pl_Preemptions d))"

definition covered :: "'e finder option \<Rightarrow> WorldStateSnapshot \<Rightarrow> PlacementDecisions \<Rightarrow> nat \<Rightarrow> bool" where
  "covered finder snap d k \<longleftrightarrow> (let r = pl_Reservations d ! k in 0 < rs_GPUs r \<longrightarrow>
     reserved_in (rs_ClusterID r) (take (Suc k) (pl_Reservations d)) \<le> free_capacity snap (rs_ClusterID r)
     \<or> preempted_for finder snap d r)"

definition all_covered :: "'e finder option \<Rightarrow> WorldStateSnapshot \<Rightarrow> PlacementRun \<Rightarrow> bool" where
  "all_covered finder snap st \<longleftrightarrow>
     (\<forall>cid. gget_or 0 (pk_localReservations st) cid = reserved_in cid (pl_Reservations (pk_decisions st)))
   \<and> (\<forall>k < length (pl_Reservations (pk_decisions st)). covered finder snap (pk_decisions st) k)"

lemma covered_mono:
  assumes "covered finder snap d k" and "k < length (pl_Reservations d)"
    and "pl_Reservations d' = pl_Reservations d @ rs" and "set (pl_Preemptions d) \<subseteq> set (pl_Preemptions d')"
  shows "covered finder snap d' k"
  using assms unfolding covered_def preempted_for_def Let_def by (simp add: nth_append) blast

lemma place_one_all_covered:
  assumes wf: "gwf (sn_Clusters snap)" and I: "all_covered finder snap st"
  shows "all_covered finder snap (place_one cfg finder uid od snap a st)"
proof (cases rule: place_one_cases [of cfg finder uid od snap a st])
  case none
  show ?thesis using I unfolding all_covered_def none(1) none(2) .
next
  case (placed cid cons victims)
  let ?app = "gget_or zero_Application (sn_Applications snap) a"
  let ?rs = "pl_Reservations (pk_decisions st)"
  let ?r = "reservation_for cfg uid snap a cid (length ?rs)"
  let ?d = "pk_decisions (place_one cfg finder uid od snap a st)"
  have D: "pl_Reservations ?d = ?rs @ [?r]" "pl_Preemptions ?d = pl_Preemptions (pk_decisions st) @ victims"
    by (simp_all add: placed(3))
  have loc: "gget_or 0 (pk_localReservations st) c = reserved_in c ?rs" for c
    using I by (simp add: all_covered_def)
  have R: "reserved_in c [?r] = (if cid = c then ap_GPUsPerReplica ?app else 0)" for c
    by (simp add: reserved_in_def reservation_for_def)
  have new: "covered finder snap ?d (length ?rs)"
  proof (cases "findBestCluster cfg (sub (sub od (pk_iterations st)) 0) ?app snap (pk_localReservations st)
      (gget_or [] (pk_localAppPlacement st) a)")
    case None
    then have "preempted_for finder snap ?d ?r"
      using placed(1) D(2)
      by (auto simp: choose_place_def preempted_for_def reservation_for_def split: option.splits sum.splits)
    then show ?thesis by (simp add: covered_def D(1))
  next
    case (Some x)
    then have "findBestCluster cfg (sub (sub od (pk_iterations st)) 0) ?app snap (pk_localReservations st)
      (gget_or [] (pk_localAppPlacement st) a) = Some (cid, cons)"
      using placed(1) by (cases x) (simp add: choose_place_def)
    from findBestCluster_Some(1) [OF this] mem_eligible [OF wf] obtain c
      where c: "gget (sn_Clusters snap) cid = Some c"
      and le: "ap_GPUsPerReplica ?app \<le> clusterAvailableGPUs cid snap (pk_localReservations st)" by auto
    have "gget (sn_Clusters snap) cid \<noteq> None" using c by simp
    from le [unfolded clusterAvailableGPUs_alt [OF this] loc]
    have "reserved_in cid ?rs + ap_GPUsPerReplica ?app \<le> free_capacity snap cid" if "0 < ap_GPUsPerReplica ?app"
      using that by (simp add: max_def split: if_splits)
    then show ?thesis
      unfolding covered_def D(1) Let_def by (simp add: reserved_in_append R) (simp add: reservation_for_def)
  qed
  have old: "covered finder snap ?d k" if "k < length ?rs" for k
    by (rule covered_mono [OF _ that D(1)]) (use I that D(2) in \<open>auto simp: all_covered_def\<close>)
  have "covered finder snap ?d k" if "k < length (pl_Reservations ?d)" for k
    using that old [of k] new D(1) by (cases "k = length ?rs") auto
  moreover have "gget_or 0 (pk_localReservations (place_one cfg finder uid od snap a st)) c
      = reserved_in c (pl_Reservations ?d)" for c
    unfolding placed(2) D(1) reserved_in_append R gget_or_gput loc by simp
  ultimately show ?thesis unfolding all_covered_def by blast
qed

section \<open>The order of the scale-ups\<close>

text \<open>An application's iterations append at most \<open>delta\<close> scale-ups, all for that application.\<close>

lemma place_one_apps:
  "\<exists>k \<le> (1::nat). map su_AppID (pl_ScaleUps (pk_decisions (place_one cfg finder uid od snap a st)))
     = map su_AppID (pl_ScaleUps (pk_decisions st)) @ replicate k a"
proof (cases rule: place_one_cases [of cfg finder uid od snap a st])
  case none
  then show ?thesis by (intro exI [of _ 0]) simp
next
  case (placed cid cons victims)
  then show ?thesis by (intro exI [of _ 1]) simp
qed

lemma place_app_apps:
  "\<exists>k \<le> nat (snd su). map su_AppID (pl_ScaleUps (pk_decisions (place_app cfg finder uid od snap su st)))
     = map su_AppID (pl_ScaleUps (pk_decisions st)) @ replicate k (fst su)"
proof -
  have "\<exists>k \<le> n. map su_AppID (pl_ScaleUps (pk_decisions ((place_one cfg finder uid od snap a ^^ n) st)))
      = map su_AppID (pl_ScaleUps (pk_decisions st)) @ replicate k a" for n a
  proof (induction n)
    case (Suc n)
    let ?s = "(place_one cfg finder uid od snap a ^^ n) st"
    obtain k where k: "k \<le> n" "map su_AppID (pl_ScaleUps (pk_decisions ?s))
        = map su_AppID (pl_ScaleUps (pk_decisions st)) @ replicate k a" using Suc by blast
    obtain j where j: "j \<le> 1" "map su_AppID (pl_ScaleUps (pk_decisions (place_one cfg finder uid od snap a ?s)))
        = map su_AppID (pl_ScaleUps (pk_decisions ?s)) @ replicate j a"
      using place_one_apps [of cfg finder uid od snap a ?s] by blast
    show ?case
      by (rule exI [of _ "k + j"]) (use k j in \<open>simp add: replicate_add\<close>)
  qed simp
  then show ?thesis unfolding place_app_def by blast
qed

lemma place_all_apps:
  "\<exists>ks. length ks = length sus \<and> (\<forall>i < length sus. ks ! i \<le> nat (snd (sus ! i)))
     \<and> map su_AppID (pl_ScaleUps (pk_decisions (fold (place_app cfg finder uid od snap) sus st)))
         = map su_AppID (pl_ScaleUps (pk_decisions st)) @ concat (map2 (\<lambda>k su. replicate k (fst su)) ks sus)"
proof (induction sus arbitrary: st)
  case (Cons su sus)
  let ?s = "place_app cfg finder uid od snap su st"
  obtain k where k: "k \<le> nat (snd su)" "map su_AppID (pl_ScaleUps (pk_decisions ?s))
      = map su_AppID (pl_ScaleUps (pk_decisions st)) @ replicate k (fst su)"
    using place_app_apps [of su cfg finder uid od snap st] by blast
  obtain ks where ks: "length ks = length sus" "\<forall>i < length sus. ks ! i \<le> nat (snd (sus ! i))"
    "map su_AppID (pl_ScaleUps (pk_decisions (fold (place_app cfg finder uid od snap) sus ?s)))
       = map su_AppID (pl_ScaleUps (pk_decisions ?s)) @ concat (map2 (\<lambda>k su. replicate k (fst su)) ks sus)"
    using Cons.IH [of ?s] by blast
  show ?case
    by (rule exI [of _ "k # ks"]) (use k ks in \<open>auto simp: nth_Cons split: nat.split\<close>)
qed simp

lemma sorted_replicates:
  assumes "sorted_wrt (\<lambda>x y. f (fst x) \<le> f (fst y)) sus" and "length ks = length sus"
  shows "sorted_wrt (\<lambda>x y. f x \<le> (f y :: int)) (concat (map2 (\<lambda>k su. replicate k (fst su)) ks sus))"
  using assms
proof (induction sus arbitrary: ks)
  case (Cons su sus)
  obtain k ks' where ks: "ks = k # ks'" using Cons.prems(2) by (cases ks) auto
  have tail: "f (fst su) \<le> f y" if "y \<in> set (concat (map2 (\<lambda>k su. replicate k (fst su)) ks' sus))" for y
    using that Cons.prems(1) by (force dest: set_zip_rightD)
  have "sorted_wrt (\<lambda>x y. f x \<le> f y) (replicate k (fst su))" by (simp add: sorted_wrt_iff_nth_less)
  then show ?case using Cons tail ks by (auto simp: sorted_wrt_append)
qed simp

lemma count_replicates:
  assumes "distinct (map fst sus)" and "length ks = length sus" and "\<forall>i < length sus. ks ! i \<le> nat (snd (sus ! i))"
  shows "length (filter (\<lambda>x. x = a) (concat (map2 (\<lambda>k su. replicate k (fst su)) ks sus)))
    \<le> (case map_of sus a of None \<Rightarrow> 0 | Some d \<Rightarrow> nat d)"
  using assms
proof (induction sus arbitrary: ks)
  case (Cons su sus)
  obtain k ks' where ks: "ks = k # ks'" using Cons.prems(2) by (cases ks) auto
  have k: "k \<le> nat (snd su)" using Cons.prems(3) ks by auto
  have ks': "\<forall>i < length sus. ks' ! i \<le> nat (snd (sus ! i))" using Cons.prems(3) ks by auto
  have IH: "length (filter (\<lambda>x. x = a) (concat (map2 (\<lambda>k su. replicate k (fst su)) ks' sus)))
    \<le> (case map_of sus a of None \<Rightarrow> 0 | Some d \<Rightarrow> nat d)"
    using Cons.IH [OF _ _ ks'] Cons.prems(1,2) ks by simp
  have f: "length (filter (\<lambda>x. x = a) (replicate k (fst su))) = (if fst su = a then k else 0)"
    by (simp add: filter_replicate)
  show ?case
  proof (cases "fst su = a")
    case True
    then have "map_of sus a = None" using Cons.prems(1) by (auto simp: map_of_eq_None_iff)
    then show ?thesis using IH f True k ks by (cases su) simp
  next
    case False
    then show ?thesis using IH f ks by (cases su) simp
  qed
qed simp

section \<open>The whole cycle\<close>

lemma start_run_fields [simp]:
  "pl_Reservations (pk_decisions (start_run od snap sds)) = []"
  "pl_ScaleUps (pk_decisions (start_run od snap sds)) = []"
  "pl_Preemptions (pk_decisions (start_run od snap sds)) = []"
  "pk_localReservations (start_run od snap sds) = []"
  by (simp_all add: start_run_def zero_PlacementDecisions_def)

interpretation priorities: comparison "priority_less snap" "\<lambda>_. True" for snap
  by unfold_locales (auto simp: priority_less_def)

lemma sortedScaleUps_sorted:
  "sorted_wrt (\<lambda>x y. ap_Priority (gget_or zero_Application (sn_Applications snap) (fst x))
      \<le> ap_Priority (gget_or zero_Application (sn_Applications snap) (fst y)))
     (sortedScaleUps od snap sds)"
proof -
  have "sorted_wrt (\<lambda>x y. \<not> priority_less snap y x) (sortedScaleUps od snap sds)"
    unfolding sortedScaleUps_def by (rule priorities.sort_slice_in_order) simp
  then show ?thesis by (rule sorted_wrt_mono_rel [rotated]) (simp add: priority_less_def not_less)
qed

lemma appDeltas_keys: "gwf sds \<Longrightarrow> distinct (map fst (appDeltas od snap sds))"
proof -
  have "map fst (appDeltas od snap sds) = map fst (filter (\<lambda>(_, sd). sl_ScaleActionApproved sd) (range_order od sds))"
    by (simp add: appDeltas_def case_prod_beta comp_def)
  moreover assume "gwf sds"
  ultimately show ?thesis by (simp add: distinct_map_filter)
qed

lemma mem_appDeltas:
  "gwf sds \<Longrightarrow> (a, delta) \<in> set (appDeltas od snap sds) \<longleftrightarrow>
     (\<exists>sd. gget sds a = Some sd \<and> sl_ScaleActionApproved sd
        \<and> delta = sl_TargetCount sd - countActiveReplicas a snap)"
  by (force simp: appDeltas_def gget_iff_mem)

lemma sortedScaleUps_keys:
  assumes "gwf sds"
  shows "distinct (map fst (sortedScaleUps od snap sds))"
proof -
  have "mset (map fst (sortedScaleUps od snap sds))
      = mset (map fst (filter (\<lambda>(_, delta). 0 < delta) (appDeltas od snap sds)))"
    by (simp add: sortedScaleUps_def)
  moreover have "distinct (map fst (filter (\<lambda>(_, delta). 0 < delta) (appDeltas od snap sds)))"
    using appDeltas_keys [OF assms] by (rule distinct_map_filter)
  ultimately show ?thesis by (metis mset_eq_imp_distinct_iff)
qed

definition placement_state ::
  "PlacementConfig \<Rightarrow> 'e finder option \<Rightarrow> (nat \<Rightarrow> string) \<Rightarrow> orders \<Rightarrow> WorldStateSnapshot
     \<Rightarrow> (AppID, ScalingDecision) gomap \<Rightarrow> PlacementRun" where
  "placement_state cfg finder uid od snap sds =
     fold (place_app cfg finder uid (sub od 3) snap) (sortedScaleUps od snap sds)
       (start_run (sub od 2) snap (filter (\<lambda>(_, delta). delta < 0) (appDeltas od snap sds)))"

lemma ComputePlacement_state: "ComputePlacement cfg finder uid od snap sds = pk_decisions (placement_state cfg finder uid od snap sds)"
  by (simp add: ComputePlacement_def placement_state_def Let_def)

lemma ComputePlacement_paired: "paired cfg uid snap (ComputePlacement cfg finder uid od snap sds)"
  unfolding ComputePlacement_state placement_state_def
  by (rule placement_inv [where I = "\<lambda>st. paired cfg uid snap (pk_decisions st)"])
    (simp_all add: place_one_paired, simp add: paired_def)

lemma ComputePlacement_within_capacity:
  assumes "gwf (sn_Clusters snap)"
  shows "within_capacity snap (placement_state cfg (None :: 'e finder option) uid od snap sds)"
  unfolding placement_state_def
  by (rule placement_inv [where I = "within_capacity snap"])
    (simp_all add: place_one_within_capacity [OF assms], simp add: within_capacity_def reserved_in_def)

lemma ComputePlacement_covered:
  assumes "gwf (sn_Clusters snap)"
  shows "all_covered finder snap (placement_state cfg finder uid od snap sds)"
  unfolding placement_state_def
  by (rule placement_inv [where I = "all_covered finder snap"])
    (simp_all add: place_one_all_covered [OF assms], simp add: all_covered_def reserved_in_def)

lemma scale_downs_kept:
  "pl_ScaleDowns (pk_decisions (fold (place_app cfg finder uid od snap) sus st)) = pl_ScaleDowns (pk_decisions st)"
proof (rule placement_inv [where I = "\<lambda>st'. pl_ScaleDowns (pk_decisions st') = pl_ScaleDowns (pk_decisions st)"])
  fix a and st' :: PlacementRun
  assume "pl_ScaleDowns (pk_decisions st') = pl_ScaleDowns (pk_decisions st)"
  then show "pl_ScaleDowns (pk_decisions (place_one cfg finder uid od snap a st')) = pl_ScaleDowns (pk_decisions st)"
    by (cases rule: place_one_cases [of cfg finder uid od snap a st']) auto
qed simp

section \<open>Properties\<close>

text \<open>C11: A cycle over-books a cluster only where it preempts. Whatever the preemption finder, the
  priorities and the orders in which maps are ranged over: when a reservation of the cycle is
  made, all the cycle has reserved in its cluster, itself included, is at most what the cluster
  had free on ready nodes less the reservations that were active already, or the finder made a
  plan to preempt for this application in this cluster, whose victims are all among the
  preemptions of the cycle. Without a finder the reservations of a cluster fit all together.\<close>

theorem placement_never_overbooks:
  assumes "snap_ok snap" and "d = ComputePlacement cfg finder uid od snap sds"
  shows "(\<forall>k < length (pl_Reservations d). let r = pl_Reservations d ! k in 0 < rs_GPUs r \<longrightarrow>
      reserved_in (rs_ClusterID r) (take (Suc k) (pl_Reservations d)) \<le> free_capacity snap (rs_ClusterID r)
      \<or> (\<exists>f o' plan. finder = Some f
          \<and> f o' (gget_or zero_Application (sn_Applications snap) (rs_ForAppID r)) snap = Inr (Some plan)
          \<and> pn_TargetCluster plan = rs_ClusterID r \<and> set (pn_Victims plan) \<subseteq> set (pl_Preemptions d)))
    \<and> (finder = None \<longrightarrow> (\<forall>cid. reserved_in cid (pl_Reservations d) \<le> max 0 (free_capacity snap cid)))"
proof -
  have wf: "gwf (sn_Clusters snap)" using assms(1) by (simp add: snap_ok_def keyed_def)
  have c: "covered finder snap d k" if "k < length (pl_Reservations d)" for k
    using that ComputePlacement_covered [OF wf, of finder cfg uid od sds]
    unfolding assms(2) ComputePlacement_state all_covered_def by blast
  have "reserved_in cid (pl_Reservations d) \<le> max 0 (free_capacity snap cid)" if "finder = None" for cid
    using ComputePlacement_within_capacity [OF wf, of cfg uid od sds, where 'e = 'a]
    unfolding assms(2) that ComputePlacement_state within_capacity_def by metis
  with c show ?thesis unfolding covered_def preempted_for_def Let_def by blast
qed

text \<open>C12: Every scale-up has its own reservation: the two lists have the same length, the \<open>k\<close>-th
  scale-up names the \<open>k\<close>-th reservation, which is active, in the same cluster, for the same
  application, of the size of one replica and with the snapshot's time, and no two of them share
  an identifier.\<close>

theorem scale_ups_are_reserved:
  assumes "inj uid" and "d = ComputePlacement cfg finder uid od snap sds"
  shows "length (pl_ScaleUps d) = length (pl_Reservations d)
    \<and> distinct (map rs_ReservationID (pl_Reservations d))
    \<and> (\<forall>k < length (pl_ScaleUps d). let su = pl_ScaleUps d ! k; r = pl_Reservations d ! k in
         su_ReservationID su = rs_ReservationID r \<and> su_ClusterID su = rs_ClusterID r
         \<and> su_AppID su = rs_ForAppID r \<and> rs_Status r = ReservationStatusActive
         \<and> rs_GPUs r = ap_GPUsPerReplica (gget_or zero_Application (sn_Applications snap) (su_AppID su))
         \<and> rs_CreatedAt r = sn_TakenAt snap)"
proof -
  have p: "paired cfg uid snap d" unfolding assms(2) by (rule ComputePlacement_paired)
  then have "rs_ReservationID (pl_Reservations d ! k) = uid k" if "k < length (pl_Reservations d)" for k
    using that by (simp add: paired_def reservation_for_def)
  then have "map rs_ReservationID (pl_Reservations d) = map uid [0..<length (pl_Reservations d)]"
    by (intro nth_equalityI) auto
  then have "distinct (map rs_ReservationID (pl_Reservations d))"
    using inj_on_subset [OF assms(1) subset_UNIV] by (simp add: distinct_map)
  then show ?thesis using p by (auto simp: paired_def Let_def reservation_for_def)
qed

text \<open>Scale-ups are placed strictly by priority, and never more than were decided: the list is
  ordered by the priority of its applications, and an application gets at most as many new
  replicas as its approved target exceeds its active ones.\<close>

theorem scale_ups_follow_priority:
  assumes "gwf sds" and "d = ComputePlacement cfg finder uid od snap sds"
  shows "sorted_wrt (\<lambda>x y. ap_Priority (gget_or zero_Application (sn_Applications snap) (su_AppID x))
      \<le> ap_Priority (gget_or zero_Application (sn_Applications snap) (su_AppID y))) (pl_ScaleUps d)
    \<and> int (length (filter (\<lambda>su. su_AppID su = a) (pl_ScaleUps d)))
        \<le> (case gget sds a of None \<Rightarrow> 0 | Some sd \<Rightarrow>
             if sl_ScaleActionApproved sd then max 0 (sl_TargetCount sd - CountActiveReplicas snap a) else 0)"
proof -
  let ?sus = "sortedScaleUps od snap sds"
  let ?prio = "\<lambda>a. ap_Priority (gget_or zero_Application (sn_Applications snap) a)"
  let ?st = "start_run (sub od 2) snap (filter (\<lambda>(_, delta). delta < 0) (appDeltas od snap sds))"
  from place_all_apps [of ?sus cfg finder uid "sub od 3" snap ?st] obtain ks
    where ks: "length ks = length ?sus" "\<forall>i < length ?sus. ks ! i \<le> nat (snd (?sus ! i))"
    and apps0: "map su_AppID (pl_ScaleUps (pk_decisions (fold (place_app cfg finder uid (sub od 3) snap) ?sus ?st)))
       = map su_AppID (pl_ScaleUps (pk_decisions ?st)) @ concat (map2 (\<lambda>k su. replicate k (fst su)) ks ?sus)"
    by blast
  have apps: "map su_AppID (pl_ScaleUps d) = concat (map2 (\<lambda>k su. replicate k (fst su)) ks ?sus)"
    unfolding assms(2) ComputePlacement_state placement_state_def apps0 by simp
  have "sorted_wrt (\<lambda>x y. ?prio x \<le> ?prio y) (map su_AppID (pl_ScaleUps d))"
    unfolding apps by (rule sorted_replicates [OF sortedScaleUps_sorted ks(1)])
  then have sorted: "sorted_wrt (\<lambda>x y. ?prio (su_AppID x) \<le> ?prio (su_AppID y)) (pl_ScaleUps d)"
    by (simp add: sorted_wrt_map)
  have "length (filter (\<lambda>su. su_AppID su = a) (pl_ScaleUps d))
      = length (filter (\<lambda>x. x = a) (map su_AppID (pl_ScaleUps d)))" by (simp add: filter_map comp_def)
  also have "\<dots> \<le> (case map_of ?sus a of None \<Rightarrow> 0 | Some d \<Rightarrow> nat d)"
    unfolding apps by (rule count_replicates [OF sortedScaleUps_keys [OF assms(1)] ks])
  finally have n: "length (filter (\<lambda>su. su_AppID su = a) (pl_ScaleUps d))
      \<le> (case map_of ?sus a of None \<Rightarrow> 0 | Some d \<Rightarrow> nat d)" .
  have "int (length (filter (\<lambda>su. su_AppID su = a) (pl_ScaleUps d)))
        \<le> (case gget sds a of None \<Rightarrow> 0 | Some sd \<Rightarrow>
             if sl_ScaleActionApproved sd then max 0 (sl_TargetCount sd - CountActiveReplicas snap a) else 0)"
  proof (cases "map_of ?sus a")
    case None
    then show ?thesis using n by (auto split: option.split)
  next
    case (Some delta)
    then have "(a, delta) \<in> set ?sus" by (rule map_of_SomeD)
    then have "(a, delta) \<in> set (appDeltas od snap sds)" by (simp add: sortedScaleUps_def)
    then show ?thesis
      using n Some mem_appDeltas [OF assms(1)] by (auto simp: countActiveReplicas_def)
  qed
  with sorted show ?thesis by blast
qed

text \<open>What makes a cluster qualify for a replica: a ready node with enough free GPUs, enough GPUs
  that are not reserved, and under \<open>SPREAD_CLUSTERS\<close> room within the share that the number of
  such clusters gives.\<close>

definition fits_in :: "Application \<Rightarrow> WorldStateSnapshot \<Rightarrow> (ClusterID, int) gomap \<Rightarrow> ClusterID \<Rightarrow> bool" where
  "fits_in app snap loc cid \<longleftrightarrow> (\<exists>c. gget (sn_Clusters snap) cid = Some c
     \<and> hasFittingNode c (ap_GPUsPerReplica app) \<and> ap_GPUsPerReplica app \<le> clusterAvailableGPUs cid snap loc)"

definition qualifies ::
  "Application \<Rightarrow> WorldStateSnapshot \<Rightarrow> (ClusterID, int) gomap \<Rightarrow> (ClusterID, int) gomap \<Rightarrow> ClusterID \<Rightarrow> bool" where
  "qualifies app snap loc local cid \<longleftrightarrow> fits_in app snap loc cid
     \<and> within_spread app snap local (spreadLimit app snap local (card {c. fits_in app snap loc c})) cid"

lemma eligible_fits:
  assumes "snap_ok snap"
  shows "set (eligibleClusters od app snap loc) = {c. fits_in app snap loc c}"
    and "length (eligibleClusters od app snap loc) = card {c. fits_in app snap loc c}"
proof -
  have wf: "gwf (sn_Clusters snap)" using assms by (simp add: snap_ok_def keyed_def)
  show s: "set (eligibleClusters od app snap loc) = {c. fits_in app snap loc c}"
    using mem_eligible [OF wf] by (auto simp: fits_in_def)
  have "distinct (eligibleClusters od app snap loc)"
    unfolding eligibleClusters_def using wf by (intro distinct_map_filter) simp
  from distinct_card [OF this] s show "length (eligibleClusters od app snap loc) = card {c. fits_in app snap loc c}"
    by simp
qed

lemma findBestCluster_None:
  assumes "snap_ok snap"
  shows "findBestCluster cfg od app snap loc local = None \<longleftrightarrow> (\<forall>c. \<not> qualifies app snap loc local c)"
proof -
  let ?q = "within_spread app snap local (spreadLimit app snap local (length (eligibleClusters od app snap loc)))"
  have "findBestCluster cfg od app snap loc local = None
      \<longleftrightarrow> best_by (cluster_score cfg app snap) (filter ?q (eligibleClusters od app snap loc)) None = None"
    by (simp add: findBestCluster_def Let_def case_prod_beta split: option.split)
  also have "\<dots> \<longleftrightarrow> (\<forall>c \<in> set (eligibleClusters od app snap loc). \<not> ?q c)"
    by (simp add: best_by_None filter_empty_conv)
  finally show ?thesis using eligible_fits [OF assms, of od app loc] by (auto simp: qualifies_def)
qed

text \<open>C15: No cluster is chosen for a replica exactly if none qualifies. One that is chosen
  qualifies: it has a ready node with enough free GPUs and enough unreserved GPUs, and under
  \<open>SPREAD_CLUSTERS\<close> it stays within the exact ceiling of the even share (the \<open>float64\<close>
  computation never allows more). No other cluster that qualifies has a greater score. Counts
  are taken to be below 2^53 and the scores not to be NaN.\<close>

theorem best_cluster_is_eligible_spread_and_best:
  assumes "snap_ok snap"
    and "\<And>k n. (k, n) \<in> set local \<Longrightarrow> 0 \<le> n"
    and "CountActiveReplicas snap (ap_AppID app) + sum_vals (\<lambda>n. n) local + 1 \<le> 2 ^ 53"
    and "card {c. fits_in app snap loc c} \<le> 2 ^ 53"
    and "\<And>c. fits_in app snap loc c \<Longrightarrow> cluster_score cfg app snap c \<noteq> NaN"
  shows "(findBestCluster cfg od app snap loc local = None \<longleftrightarrow> (\<forall>c. \<not> qualifies app snap loc local c))
    \<and> (\<forall>cid cons. findBestCluster cfg od app snap loc local = Some (cid, cons) \<longrightarrow>
        qualifies app snap loc local cid
      \<and> sc_RequiredGPUs cons = ap_GPUsPerReplica app
      \<and> (ap_FailureDomainRule app = FailureDomainSpreadClusters \<longrightarrow>
           countAppReplicasInCluster (ap_AppID app) cid snap + gget_or 0 local cid + 1
             \<le> \<lceil>(of_int (CountActiveReplicas snap (ap_AppID app) + sum_vals (\<lambda>n. n) local + 1) :: rat)
                 / of_int (int (card {c. fits_in app snap loc c}))\<rceil>)
      \<and> (\<forall>c. qualifies app snap loc local c
           \<longrightarrow> \<not> f_gt (cluster_score cfg app snap c) (cluster_score cfg app snap cid)))"
proof -
  let ?e = "eligibleClusters od app snap loc"
  let ?t = "CountActiveReplicas snap (ap_AppID app) + sum_vals (\<lambda>n. n) local + 1"
  note E = eligible_fits [OF assms(1), of od app loc]
  have share: "countAppReplicasInCluster (ap_AppID app) cid snap + gget_or 0 local cid + 1
      \<le> \<lceil>(of_int ?t :: rat) / of_int (int (length ?e))\<rceil>"
    if "findBestCluster cfg od app snap loc local = Some (cid, cons)"
      and rule: "ap_FailureDomainRule app = FailureDomainSpreadClusters" for cid cons
  proof -
    note F = findBestCluster_Some [OF that(1)]
    have len: "0 < length ?e" using F(1) by (cases ?e) auto
    have t: "0 \<le> ?t" using sum_vals_nonneg [of local "\<lambda>n. n"] assms(2) CountActiveReplicas_nonneg [of snap "ap_AppID app"] by force
    have "int (length ?e) \<le> 2 ^ 53" using assms(4) E(2) by simp
    then have lim: "ceilInt (f_div (f_of_int ?t) (f_of_int (int (length ?e)))) \<le> \<lceil>(of_int ?t :: rat) / of_int (int (length ?e))\<rceil>"
      using ceilInt_ratio_le [OF t assms(3), of "int (length ?e)"] len by simp
    have "spreadLimit app snap local (length ?e) = ceilInt (f_div (f_of_int ?t) (f_of_int (int (length ?e))))"
      using rule len by (simp add: spreadLimit_def Let_def)
    then have "countAppReplicasInCluster (ap_AppID app) cid snap + gget_or 0 local cid
        < ceilInt (f_div (f_of_int ?t) (f_of_int (int (length ?e))))"
      using F(2) rule by (simp only: within_spread_def simp_thms not_le)
    then show ?thesis using lim by linarith
  qed
  have best: "\<not> f_gt (cluster_score cfg app snap c) (cluster_score cfg app snap cid)"
    if "findBestCluster cfg od app snap loc local = Some (cid, cons)" and "qualifies app snap loc local c" for cid cons c
    using best_by_max [OF findBestCluster_Some(4) [OF that(1)]] assms(5) that(2) E by (auto simp: qualifies_def)
  have ok: "qualifies app snap loc local cid \<and> sc_RequiredGPUs cons = ap_GPUsPerReplica app"
    if "findBestCluster cfg od app snap loc local = Some (cid, cons)" for cid cons
    using findBestCluster_Some(1-3) [OF that] E by (auto simp: qualifies_def)
  show ?thesis using findBestCluster_None [OF assms(1)] share [unfolded E(2)] best ok by blast
qed

text \<open>The candidates a scale-down takes and those it leaves.\<close>

lemma down_split:
  assumes "snap_ok snap" and "0 \<le> n" and "r \<in> set (ReplicasForApp snap a)" and "active_replica r"
  shows "rp_ReplicaID r \<in> set (selectScaleDownVictims od a n snap)
    \<longleftrightarrow> down_candidate a snap r
      \<in> set (take (nat (min n (CountActiveReplicas snap a))) (sort_slice od down_less (down_candidates a snap)))"
    and "rp_ReplicaID r \<notin> set (selectScaleDownVictims od a n snap)
    \<longleftrightarrow> down_candidate a snap r
      \<in> set (drop (nat (min n (CountActiveReplicas snap a))) (sort_slice od down_less (down_candidates a snap)))"
proof -
  let ?cs = "sort_slice od down_less (down_candidates a snap)" and ?c = "down_candidate a snap r"
  let ?n = "nat (min n (CountActiveReplicas snap a))"
  have len: "int (length ?cs) = CountActiveReplicas snap a"
    by (simp add: down_candidates_def CountActiveReplicas_def)
  have sel: "selectScaleDownVictims od a n snap = map dc_replicaID (take ?n ?cs)"
    unfolding selectScaleDownVictims_def Let_def using len by (auto simp: min_def)
  have ids: "map dc_replicaID (down_candidates a snap) = map rp_ReplicaID (filter active_replica (ReplicasForApp snap a))"
    by (simp add: down_candidates_def comp_def)
  have "distinct (map dc_replicaID (down_candidates a snap))"
    unfolding ids using snap_ok_distinct_ids [OF assms(1)] by (rule distinct_map_filter)
  moreover have "mset (map dc_replicaID ?cs) = mset (map dc_replicaID (down_candidates a snap))" by simp
  ultimately have d: "distinct (map dc_replicaID ?cs)" by (metis mset_eq_imp_distinct_iff)
  then have "inj_on dc_replicaID (set ?cs)" by (simp add: distinct_map)
  moreover have c: "?c \<in> set ?cs" using assms(3,4) by (simp add: down_candidates_def)
  moreover have "set (take ?n ?cs) \<subseteq> set ?cs" by (rule set_take_subset)
  ultimately have "dc_replicaID ?c \<in> dc_replicaID ` set (take ?n ?cs) \<longleftrightarrow> ?c \<in> set (take ?n ?cs)"
    by (rule inj_on_image_mem_iff)
  then show "rp_ReplicaID r \<in> set (selectScaleDownVictims od a n snap) \<longleftrightarrow> ?c \<in> set (take ?n ?cs)"
    unfolding sel by simp
  moreover have "?c \<in> set (take ?n ?cs) \<longleftrightarrow> ?c \<notin> set (drop ?n ?cs)"
  proof -
    have "distinct (take ?n ?cs @ drop ?n ?cs)" using d by (simp add: distinct_map)
    moreover have "?c \<in> set (take ?n ?cs @ drop ?n ?cs)" using c by simp
    ultimately show ?thesis unfolding distinct_append set_append by blast
  qed
  ultimately show "rp_ReplicaID r \<notin> set (selectScaleDownVictims od a n snap) \<longleftrightarrow> ?c \<in> set (drop ?n ?cs)" by blast
qed


end
