(* ===== verification/Accounting.thy ===== *)
theory Accounting
  imports WorldStateInv
begin

text \<open>
  The GPU accounting of the world state: what \<open>UpsertReplica\<close>, \<open>DeleteReplica\<close>,
  \<open>UpsertNode\<close> and \<open>RemoveNode\<close> do to a node's \<open>AllocatedGPUs\<close>, \<open>FreeGPUs\<close>
  and \<open>Pods\<close>, and the freshness and range of a cluster's fragmentation score.
\<close>

section \<open>Allocated and free add up to the total\<close>

definition balanced :: "Node \<Rightarrow> bool" where
  "balanced n \<longleftrightarrow> nd_AllocatedGPUs n + nd_FreeGPUs n = nd_TotalGPUs n"

definition all_nodes :: "(Node \<Rightarrow> bool) \<Rightarrow> WorldState \<Rightarrow> bool" where
  "all_nodes P ws \<longleftrightarrow> (\<forall>cid nid n. node_at ws cid nid = Some n \<longrightarrow> P n)"

lemma all_nodesD: "all_nodes P ws \<Longrightarrow> node_at ws cid nid = Some n \<Longrightarrow> P n"
  by (simp add: all_nodes_def)

lemma balanced_release [simp]: "balanced (release r n) = balanced n"
  by (simp add: balanced_def release_def)

lemma balanced_occupy [simp]: "balanced (occupy r n) = balanced n"
  by (simp add: balanced_def occupy_def)

text \<open>The nodes a call brings in: those of \<open>UpsertNode\<close> and \<open>UpsertCluster\<close>.\<close>

fun call_nodes :: "ws_call \<Rightarrow> Node list" where
  "call_nodes (CallUpsertNode n) = [n]"
| "call_nodes (CallUpsertCluster c) = map snd (cl_Nodes c)"
| "call_nodes _ = []"

lemma clusters_reservation_calls [simp]:
  "ws_clusters (keep_on_error ws (CreateReservation rs ws)) = ws_clusters ws"
  "ws_clusters (keep_on_error ws (FulfillReservation i ws)) = ws_clusters ws"
  "ws_clusters (keep_on_error ws (ExpireReservation i ws)) = ws_clusters ws"
  "ws_clusters (snd (ExpireStaleReservations now ws)) = ws_clusters ws"
  by (simp_all add: keep_on_error_def CreateReservation_def FulfillReservation_def
      ExpireReservation_def closeReservation_def ExpireStaleReservations_def Let_def
      split: option.split)

lemma clusters_table_calls [simp]:
  "ws_clusters (UpsertApplication a ws) = ws_clusters ws"
  "ws_clusters (UpsertPerformanceProfile p ws) = ws_clusters ws"
  "ws_clusters (UpdateVLLMMetrics m ws) = ws_clusters ws"
  "ws_clusters (UpdateCacheLocations mid locs ws) = ws_clusters ws"
  "ws_clusters (RecordScaleEvent appID dir t ws) = ws_clusters ws"
  "ws_clusters (IncrementScaleDownSignal appID ws) = ws_clusters ws"
  by (simp_all add: UpsertApplication_def UpsertPerformanceProfile_def UpdateVLLMMetrics_def
      UpdateCacheLocations_def RecordScaleEvent_def IncrementScaleDownSignal_def Let_def)

lemma node_at_table_calls [simp]:
  "node_at (UpsertApplication a ws) cid nid = node_at ws cid nid"
  "node_at (UpsertPerformanceProfile p ws) cid nid = node_at ws cid nid"
  "node_at (UpdateVLLMMetrics m ws) cid nid = node_at ws cid nid"
  "node_at (UpdateCacheLocations mid locs ws) cid nid = node_at ws cid nid"
  "node_at (RecordScaleEvent appID dir t ws) cid nid = node_at ws cid nid"
  "node_at (IncrementScaleDownSignal appID ws) cid nid = node_at ws cid nid"
  "node_at (snd (ExpireStaleReservations now ws)) cid nid = node_at ws cid nid"
  "node_at (keep_on_error ws (CreateReservation rs ws)) cid nid = node_at ws cid nid"
  "node_at (keep_on_error ws (FulfillReservation i ws)) cid nid = node_at ws cid nid"
  "node_at (keep_on_error ws (ExpireReservation i ws)) cid nid = node_at ws cid nid"
  by (simp_all add: node_at_def)

lemma ws_step_balanced:
  assumes "all_nodes balanced ws" and "\<And>n. n \<in> set (call_nodes call) \<Longrightarrow> balanced n"
  shows "all_nodes balanced (ws_step call ws)"
proof -
  have "balanced n" if "node_at (ws_step call ws) cid nid = Some n" for cid nid n
  proof (cases call)
    case (CallUpsertCluster c)
    then show ?thesis using assms that
      by (fastforce simp: node_at_UpsertCluster dest: gget_mem all_nodesD split: if_splits)
  next
    case (CallUpsertReplica r)
    then show ?thesis using assms(1) that
      by (auto simp: node_at_UpsertReplica dest: all_nodesD split: option.splits if_splits)
  next
    case (CallDeleteReplica i)
    then show ?thesis using assms(1) that
      by (auto simp: node_at_DeleteReplica dest: all_nodesD split: option.splits if_splits)
  qed (use assms that in \<open>auto simp: node_at_UpsertNode node_at_RemoveNode dest: all_nodesD split: if_splits\<close>)
  then show ?thesis by (simp add: all_nodes_def)
qed

section \<open>Allocation is the sum over the replicas placed\<close>

definition gpus_on :: "WorldState \<Rightarrow> ClusterID \<Rightarrow> NodeID \<Rightarrow> int" where
  "gpus_on ws cid nid = sum_vals (\<lambda>r. if located r cid nid then rp_GPUs r else 0) (ws_replicas ws)"

definition pods_on :: "WorldState \<Rightarrow> ClusterID \<Rightarrow> NodeID \<Rightarrow> ReplicaID set" where
  "pods_on ws cid nid = {rid. \<exists>r. gget (ws_replicas ws) rid = Some r \<and> located r cid nid}"

definition accounted :: "WorldState \<Rightarrow> bool" where
  "accounted ws \<longleftrightarrow> (\<forall>cid nid n. node_at ws cid nid = Some n \<longrightarrow>
     nd_AllocatedGPUs n = gpus_on ws cid nid
     \<and> distinct (nd_Pods n) \<and> set (nd_Pods n) = pods_on ws cid nid)"

lemma removeFromSlice_remove1 [simp]: "removeFromSlice s v = remove1 v s"
  by (induction s) auto

lemma gpus_on_UpsertReplica:
  assumes "gwf (ws_replicas ws)"
  shows "gpus_on (UpsertReplica r ws) cid nid =
    gpus_on ws cid nid + (if located r cid nid then rp_GPUs r else 0)
    - (case gget (ws_replicas ws) (rp_ReplicaID r) of None \<Rightarrow> 0
       | Some old \<Rightarrow> if located old cid nid then rp_GPUs old else 0)"
  by (simp add: gpus_on_def sum_vals_gput [OF assms] split: option.split)

lemma gpus_on_DeleteReplica:
  assumes "gwf (ws_replicas ws)"
  shows "gpus_on (DeleteReplica rid ws) cid nid =
    gpus_on ws cid nid
    - (case gget (ws_replicas ws) rid of None \<Rightarrow> 0
       | Some old \<Rightarrow> if located old cid nid then rp_GPUs old else 0)"
  by (simp add: gpus_on_def sum_vals_gdel [OF assms] split: option.split)

lemma pods_on_UpsertReplica:
  "pods_on (UpsertReplica r ws) cid nid =
     (if located r cid nid then insert (rp_ReplicaID r) (pods_on ws cid nid)
      else pods_on ws cid nid - {rp_ReplicaID r})"
  by (auto simp: pods_on_def split: if_splits)

lemma pods_on_DeleteReplica:
  "pods_on (DeleteReplica rid ws) cid nid = pods_on ws cid nid - {rid}"
  by (auto simp: pods_on_def split: if_splits)

lemma pods_on_mem:
  "rid \<in> pods_on ws cid nid \<longleftrightarrow> (\<exists>r. gget (ws_replicas ws) rid = Some r \<and> located r cid nid)"
  by (simp add: pods_on_def)

text \<open>What accounting says of one node, and that one release or one placement keeps it.\<close>

definition node_ok :: "Node \<Rightarrow> int \<Rightarrow> ReplicaID set \<Rightarrow> bool" where
  "node_ok n g P \<longleftrightarrow> nd_AllocatedGPUs n = g \<and> distinct (nd_Pods n) \<and> set (nd_Pods n) = P"

lemma accountedI:
  assumes "\<And>cid nid n. node_at ws cid nid = Some n \<Longrightarrow> node_ok n (gpus_on ws cid nid) (pods_on ws cid nid)"
  shows "accounted ws"
  using assms unfolding accounted_def node_ok_def by blast

lemma accountedD:
  "accounted ws \<Longrightarrow> node_at ws cid nid = Some n \<Longrightarrow> node_ok n (gpus_on ws cid nid) (pods_on ws cid nid)"
  unfolding accounted_def node_ok_def by blast

lemma node_ok_occupy:
  "node_ok n g P \<Longrightarrow> rp_ReplicaID r \<notin> P
     \<Longrightarrow> node_ok (occupy r n) (g + rp_GPUs r) (insert (rp_ReplicaID r) P)"
  by (auto simp: node_ok_def occupy_def)

lemma node_ok_release:
  "node_ok n g P \<Longrightarrow> node_ok (release r n) (g - rp_GPUs r) (P - {rp_ReplicaID r})"
  by (auto simp: node_ok_def release_def)

lemma UpsertReplica_accounted:
  assumes acc: "accounted ws" and wf: "keyed rp_ReplicaID (ws_replicas ws)"
    and same: "\<And>old. gget (ws_replicas ws) (rp_ReplicaID r) = Some old \<Longrightarrow> same_place old r
                 \<Longrightarrow> rp_GPUs old = rp_GPUs r"
  shows "accounted (UpsertReplica r ws)"
proof (rule accountedI)
  fix cid nid n'
  assume n': "node_at (UpsertReplica r ws) cid nid = Some n'"
  obtain n where n: "node_at ws cid nid = Some n"
    using n' by (auto simp: node_at_UpsertReplica split: option.splits if_splits)
  note N = accountedD [OF acc n]
  note G = gpus_on_UpsertReplica [OF keyed_gwf [OF wf], of r cid nid]
  show "node_ok n' (gpus_on (UpsertReplica r ws) cid nid) (pods_on (UpsertReplica r ws) cid nid)"
  proof (cases "gget (ws_replicas ws) (rp_ReplicaID r)")
    case None
    then have fresh: "rp_ReplicaID r \<notin> pods_on ws cid nid" by (simp add: pods_on_mem)
    show ?thesis
    proof (cases "located r cid nid")
      case True
      then show ?thesis
        using None n n' G node_ok_occupy [OF N fresh]
        by (simp add: node_at_UpsertReplica pods_on_UpsertReplica)
    next
      case False
      then show ?thesis
        using None n n' G N fresh by (simp add: node_at_UpsertReplica pods_on_UpsertReplica)
    qed
  next
    case (Some old)
    have rid: "rp_ReplicaID old = rp_ReplicaID r" by (rule keyedD [OF wf Some])
    have old: "rp_ReplicaID r \<in> pods_on ws cid nid \<longleftrightarrow> located old cid nid"
      by (simp add: pods_on_mem Some)
    consider (same) "same_place old r" | (left) "\<not> same_place old r" "located old cid nid"
      | (came) "\<not> same_place old r" "located r cid nid"
      | (none) "\<not> same_place old r" "\<not> located old cid nid" "\<not> located r cid nid" by blast
    then show ?thesis
    proof cases
      case same
      have "located old cid nid = located r cid nid" by (rule same_place_located [OF same])
      then show ?thesis
        using Some same n n' N old G assms(3) [OF Some same]
        by (simp add: node_at_UpsertReplica pods_on_UpsertReplica insert_absorb)
    next
      case left
      then have "\<not> located r cid nid" by (rule not_same_place_located)
      then show ?thesis
        using Some left n n' G node_ok_release [OF N, of old] rid
        by (simp add: node_at_UpsertReplica pods_on_UpsertReplica)
    next
      case came
      then have "\<not> located old cid nid" using not_same_place_located by blast
      then show ?thesis
        using Some came n n' G node_ok_occupy [OF N, of r] old
        by (simp add: node_at_UpsertReplica pods_on_UpsertReplica)
    next
      case none
      then show ?thesis
        using Some n n' G N old by (simp add: node_at_UpsertReplica pods_on_UpsertReplica)
    qed
  qed
qed

lemma DeleteReplica_accounted:
  assumes acc: "accounted ws" and wf: "keyed rp_ReplicaID (ws_replicas ws)"
  shows "accounted (DeleteReplica rid ws)"
proof (rule accountedI)
  fix cid nid n'
  assume n': "node_at (DeleteReplica rid ws) cid nid = Some n'"
  obtain n where n: "node_at ws cid nid = Some n"
    using n' by (auto simp: node_at_DeleteReplica split: option.splits if_splits)
  note N = accountedD [OF acc n]
  note G = gpus_on_DeleteReplica [OF keyed_gwf [OF wf], of rid cid nid]
  show "node_ok n' (gpus_on (DeleteReplica rid ws) cid nid) (pods_on (DeleteReplica rid ws) cid nid)"
  proof (cases "gget (ws_replicas ws) rid")
    case None
    then have "rid \<notin> pods_on ws cid nid" by (simp add: pods_on_mem)
    then show ?thesis using None n n' G N by (simp add: node_at_DeleteReplica pods_on_DeleteReplica)
  next
    case (Some old)
    have rid: "rp_ReplicaID old = rid" by (rule keyedD [OF wf Some])
    have old: "rid \<in> pods_on ws cid nid \<longleftrightarrow> located old cid nid" by (simp add: pods_on_mem Some)
    show ?thesis
    proof (cases "located old cid nid")
      case True
      then show ?thesis using Some n n' G node_ok_release [OF N, of old] rid
        by (simp add: node_at_DeleteReplica pods_on_DeleteReplica)
    next
      case False
      then show ?thesis using Some n n' G N old
        by (simp add: node_at_DeleteReplica pods_on_DeleteReplica)
    qed
  qed
qed

lemma RemoveNode_accounted: "accounted ws \<Longrightarrow> accounted (RemoveNode cid nid ws)"
  by (auto simp: accounted_def node_at_RemoveNode gpus_on_def pods_on_def split: if_splits)

text \<open>
  A node that is written is accounted only if it arrives with the allocation of the replicas
  on it: \<open>UpsertNode\<close> stores what it is given.
\<close>

lemma UpsertNode_accounted:
  "accounted ws \<Longrightarrow> node_ok n (gpus_on ws (nd_ClusterID n) (nd_NodeID n)) (pods_on ws (nd_ClusterID n) (nd_NodeID n))
     \<Longrightarrow> accounted (UpsertNode n ws)"
  by (auto simp: accounted_def node_ok_def node_at_UpsertNode gpus_on_def pods_on_def split: if_splits)

section \<open>Fragmentation scores are fresh and in range\<close>

text \<open>
  \<open>fresh_but K S\<close>: outside the clusters \<open>S\<close>, which a call is still changing, each cluster is one
  of \<open>K\<close>, those \<open>UpsertCluster\<close> was given and which it stores as they are, or its score is that
  of its nodes.
\<close>

definition fresh_but :: "Cluster set \<Rightarrow> ClusterID set \<Rightarrow> WorldState \<Rightarrow> bool" where
  "fresh_but K S ws \<longleftrightarrow> (\<forall>cid c. gget (ws_clusters ws) cid = Some c \<longrightarrow> cid \<notin> S \<longrightarrow>
     c \<in> K \<or> cl_FragmentationScore c = computeFragmentation (cl_Nodes c))"

abbreviation fresh_scores :: "Cluster set \<Rightarrow> WorldState \<Rightarrow> bool" where
  "fresh_scores K \<equiv> fresh_but K {}"

lemma fresh_but_frame [simp]:
  "fresh_but K S (gauge_add s d ws) = fresh_but K S ws"
  "fresh_but K S (ws\<lparr>ws_replicas := x\<rparr>) = fresh_but K S ws"
  by (simp_all add: fresh_but_def)

lemma fresh_restore: "fresh_but K S ws \<Longrightarrow> fresh_but K (insert (rp_ClusterID r) S) (restoreNodeGPUs r ws)"
  by (simp add: fresh_but_def restoreNodeGPUs_def Let_def split: option.split)

lemma fresh_allocate: "fresh_but K S ws \<Longrightarrow> fresh_but K (insert (rp_ClusterID r) S) (allocateNodeGPUs r ws)"
  by (simp add: fresh_but_def allocateNodeGPUs_def Let_def split: option.split)

lemma fresh_refresh: "fresh_but K S ws \<Longrightarrow> fresh_but K (S - {cid}) (refreshFragmentation cid ws)"
  by (auto simp: fresh_but_def refreshFragmentation_def split: option.split)

lemma fresh_but_mono: "fresh_but K S ws \<Longrightarrow> S \<subseteq> T \<Longrightarrow> fresh_but K T ws"
  unfolding fresh_but_def by blast

lemma fresh_after_replica:
  "fresh_but K {cid} ws \<Longrightarrow> fresh_scores K (refreshFragmentation cid ws)"
  using fresh_refresh [of K "{cid}" ws cid] by simp

lemma fresh_UpsertReplica:
  assumes "fresh_scores K ws"
  shows "fresh_scores K (UpsertReplica r ws)"
proof (cases "gget (ws_replicas ws) (rp_ReplicaID r)")
  case None
  then show ?thesis
    using fresh_allocate [OF assms, of r]
    by (simp add: UpsertReplica_def Let_def fresh_after_replica)
next
  case (Some old)
  let ?a = "rp_ClusterID old" and ?b = "rp_ClusterID r"
  show ?thesis
  proof (cases "same_place old r")
    case True
    then have "?a = ?b" by (simp add: same_place_def)
    then show ?thesis
      using Some True fresh_but_mono [OF assms, of "{?b}"]
      by (simp add: UpsertReplica_def Let_def fresh_after_replica)
  next
    case False
    let ?w = "gauge_add (rp_Status old) (- 1) (restoreNodeGPUs old ws)"
    let ?v = "gauge_add (rp_Status r) 1 ((allocateNodeGPUs r ?w)
      \<lparr>ws_replicas := gput (rp_ReplicaID r) r (ws_replicas (allocateNodeGPUs r ?w))\<rparr>)"
    have "fresh_but K {?a, ?b} ?v"
      using fresh_allocate [of K "{?a}" ?w r] fresh_restore [OF assms, of old] by (simp add: insert_commute)
    from fresh_refresh [OF this, of ?b]
    have v: "fresh_but K ({?a} - {?b}) (refreshFragmentation ?b ?v)"
      by (rule fresh_but_mono) auto
    show ?thesis
    proof (cases "?a = ?b")
      case True
      then show ?thesis using Some False v by (simp add: UpsertReplica_def Let_def)
    next
      case ne: False
      then have "fresh_but K {?a} (refreshFragmentation ?b ?v)" using v by simp
      then show ?thesis
        using Some False ne fresh_after_replica by (simp add: UpsertReplica_def Let_def)
    qed
  qed
qed

lemma fresh_DeleteReplica: "fresh_scores K ws \<Longrightarrow> fresh_scores K (DeleteReplica rid ws)"
  using fresh_restore [of K "{}" ws]
  by (simp add: DeleteReplica_def Let_def fresh_after_replica split: option.split)

lemma fresh_node_calls:
  "fresh_scores K ws \<Longrightarrow> fresh_scores K (UpsertNode n ws)"
  "fresh_scores K ws \<Longrightarrow> fresh_scores K (RemoveNode cid nid ws)"
  by (simp_all add: fresh_but_def UpsertNode_def RemoveNode_def Let_def split: option.split)

definition fresh_guard :: "Cluster set \<Rightarrow> ws_call \<Rightarrow> WorldState \<Rightarrow> bool" where
  "fresh_guard K call ws = (case call of CallUpsertCluster c \<Rightarrow> c \<in> K | _ \<Rightarrow> True)"

lemma fresh_step: "fresh_scores K ws \<Longrightarrow> fresh_guard K c ws \<Longrightarrow> fresh_scores K (ws_step c ws)"
proof (cases c)
  case (CallUpsertCluster x1)
  then show "fresh_scores K ws \<Longrightarrow> fresh_guard K c ws \<Longrightarrow> fresh_scores K (ws_step c ws)"
    by (auto simp: fresh_guard_def fresh_but_def UpsertCluster_def Let_def)
qed (simp_all add: fresh_UpsertReplica fresh_DeleteReplica fresh_node_calls,
     simp_all add: fresh_but_def)

interpretation fresh_inv: ws_invariant "fresh_scores K" "fresh_guard K" for K
  by unfold_locales (simp_all add: fresh_step, simp add: fresh_but_def New_def)

lemma guarded_fresh:
  "{c. CallUpsertCluster c \<in> set calls} \<subseteq> K \<Longrightarrow> guarded (fresh_guard K) calls ws"
  by (induction calls arbitrary: ws) (auto simp: fresh_guard_def split: ws_call.split)

lemma computeFragmentation_unit:
  assumes "\<And>nid n. (nid, n) \<in> set nodes \<Longrightarrow> 0 \<le> nd_FreeGPUs n \<and> nd_FreeGPUs n \<le> nd_TotalGPUs n"
    and "sum_vals nd_TotalGPUs nodes \<le> 2 ^ 53"
  obtains q where "computeFragmentation nodes = Fin q" and "0 \<le> q" and "q \<le> 1"
proof -
  let ?f = "sum_vals nd_FreeGPUs nodes" and ?t = "sum_vals nd_TotalGPUs nodes"
  have f: "0 \<le> ?f" using assms(1) by (blast intro: sum_vals_nonneg)
  have le: "?f \<le> ?t" using assms(1) by (blast intro: sum_vals_mono)
  show ?thesis
  proof (cases "?t = 0")
    case True
    then show ?thesis using that [of 0] by (simp add: computeFragmentation_def Let_def)
  next
    case False
    then have "0 < ?t" using f le by linarith
    from f_complement_ratio [OF f le this assms(2)] obtain q
      where "f_sub f_one (f_div (f_of_int ?f) (f_of_int ?t)) = Fin q" "0 \<le> q" "q \<le> 1" .
    then show ?thesis using False that [of q] by (simp add: computeFragmentation_def Let_def)
  qed
qed

section \<open>The accounting as invariants of every run\<close>

definition balanced_guard :: "ws_call \<Rightarrow> WorldState \<Rightarrow> bool" where
  "balanced_guard c ws \<longleftrightarrow> (\<forall>n \<in> set (call_nodes c). balanced n)"

interpretation balanced_inv: ws_invariant "all_nodes balanced" balanced_guard
proof
  show "all_nodes balanced New" by (simp add: all_nodes_def node_at_def New_def)
  show "all_nodes balanced ws \<Longrightarrow> balanced_guard c ws \<Longrightarrow> all_nodes balanced (ws_step c ws)" for ws c
    by (rule ws_step_balanced) (auto simp: balanced_guard_def)
qed

text \<open>
  The guard of the accounting: a replica that stays where it is keeps its GPU count, and a
  node is written with the allocation of the replicas that are on it already.
\<close>

definition accounted_node :: "WorldState \<Rightarrow> ClusterID \<Rightarrow> NodeID \<Rightarrow> Node \<Rightarrow> bool" where
  "accounted_node ws cid nid n \<longleftrightarrow> node_ok n (gpus_on ws cid nid) (pods_on ws cid nid)"

definition accounted_guard :: "ws_call \<Rightarrow> WorldState \<Rightarrow> bool" where
  "accounted_guard c ws = (case c of
     CallUpsertCluster cl \<Rightarrow> (\<forall>nid n. gget (cl_Nodes cl) nid = Some n
        \<longrightarrow> accounted_node ws (cl_ClusterID cl) nid n)
   | CallUpsertNode n \<Rightarrow> accounted_node ws (nd_ClusterID n) (nd_NodeID n) n
   | CallUpsertReplica r \<Rightarrow>
       (case gget (ws_replicas ws) (rp_ReplicaID r) of None \<Rightarrow> True
        | Some old \<Rightarrow> same_place old r \<longrightarrow> rp_GPUs old = rp_GPUs r)
   | _ \<Rightarrow> True)"

lemma replicas_keep_on_error [simp]:
  "ws_replicas (keep_on_error ws (CreateReservation rs ws)) = ws_replicas ws"
  "ws_replicas (keep_on_error ws (FulfillReservation i ws)) = ws_replicas ws"
  "ws_replicas (keep_on_error ws (ExpireReservation i ws)) = ws_replicas ws"
  "ws_replicas (snd (ExpireStaleReservations now ws)) = ws_replicas ws"
  by (simp_all add: keep_on_error_def CreateReservation_def FulfillReservation_def
      ExpireReservation_def closeReservation_def ExpireStaleReservations_def Let_def
      split: option.split)

lemma replicas_table_calls [simp]:
  "ws_replicas (UpsertApplication a ws) = ws_replicas ws"
  "ws_replicas (UpsertPerformanceProfile p ws) = ws_replicas ws"
  "ws_replicas (UpdateVLLMMetrics m ws) = ws_replicas ws"
  "ws_replicas (UpdateCacheLocations mid locs ws) = ws_replicas ws"
  "ws_replicas (RecordScaleEvent appID dir t ws) = ws_replicas ws"
  "ws_replicas (IncrementScaleDownSignal appID ws) = ws_replicas ws"
  "ws_replicas (UpsertCluster cl ws) = ws_replicas ws"
  by (simp_all add: UpsertApplication_def UpsertPerformanceProfile_def UpdateVLLMMetrics_def
      UpdateCacheLocations_def RecordScaleEvent_def IncrementScaleDownSignal_def UpsertCluster_def Let_def)

lemma accounted_cong:
  assumes "\<And>cid nid. node_at ws' cid nid = node_at ws cid nid" and "ws_replicas ws' = ws_replicas ws"
  shows "accounted ws' = accounted ws"
  by (simp add: accounted_def assms gpus_on_def pods_on_def)

lemma accounted_table_calls:
  "accounted (UpsertApplication a ws) = accounted ws"
  "accounted (UpsertPerformanceProfile p ws) = accounted ws"
  "accounted (UpdateVLLMMetrics m ws) = accounted ws"
  "accounted (UpdateCacheLocations mid locs ws) = accounted ws"
  "accounted (RecordScaleEvent appID dir t ws) = accounted ws"
  "accounted (IncrementScaleDownSignal appID ws) = accounted ws"
  "accounted (snd (ExpireStaleReservations now ws)) = accounted ws"
  "accounted (keep_on_error ws (CreateReservation rs ws)) = accounted ws"
  "accounted (keep_on_error ws (FulfillReservation i ws)) = accounted ws"
  "accounted (keep_on_error ws (ExpireReservation i ws)) = accounted ws"
  by (rule accounted_cong; simp)+

lemma accounted_step:
  assumes acc: "accounted ws" and k: "keyed rp_ReplicaID (ws_replicas ws)" and g: "accounted_guard c ws"
  shows "accounted (ws_step c ws)"
proof -
  show ?thesis
  proof (cases c)
    case (CallUpsertCluster cl)
    have "node_ok n (gpus_on ws cid nid) (pods_on ws cid nid)"
      if "node_at (UpsertCluster cl ws) cid nid = Some n" for cid nid n
      using that g accountedD [OF acc, of cid nid n]
      by (cases "cid = cl_ClusterID cl")
        (auto simp: CallUpsertCluster node_at_UpsertCluster accounted_guard_def accounted_node_def)
    then show ?thesis
      by (intro accountedI) (simp add: CallUpsertCluster gpus_on_def pods_on_def)
  next
    case (CallUpsertReplica r)
    then show ?thesis
      using UpsertReplica_accounted [OF acc k, of r] g
      by (auto simp: accounted_guard_def split: option.splits)
  qed (use acc g in \<open>simp_all add: UpsertNode_accounted accounted_guard_def accounted_node_def
        RemoveNode_accounted DeleteReplica_accounted [OF acc k] accounted_table_calls\<close>)
qed

text \<open>That the replica table is keyed needs nothing of the calls.\<close>

abbreviation keyed_replicas :: "WorldState \<Rightarrow> bool" where
  "keyed_replicas ws \<equiv> keyed rp_ReplicaID (ws_replicas ws)"

lemma replicas_node_calls [simp]:
  "ws_replicas (UpsertNode n ws) = ws_replicas ws"
  "ws_replicas (RemoveNode cid nid ws) = ws_replicas ws"
  by (simp_all add: UpsertNode_def RemoveNode_def Let_def split: option.split)

lemma keyed_replicas_step: "keyed_replicas ws \<Longrightarrow> keyed_replicas (ws_step c ws)"
  by (cases c) simp_all

interpretation keyed_inv: ws_invariant keyed_replicas "\<lambda>c ws. True"
  by unfold_locales (simp add: New_def, rule keyed_replicas_step)

interpretation accounted_inv: ws_invariant "\<lambda>ws. keyed_replicas ws \<and> accounted ws" accounted_guard
proof
  show "keyed_replicas New \<and> accounted New" by (simp add: accounted_def node_at_def New_def)
  show "keyed_replicas ws \<and> accounted ws \<Longrightarrow> accounted_guard c ws
      \<Longrightarrow> keyed_replicas (ws_step c ws) \<and> accounted (ws_step c ws)" for ws c
    by (simp add: accounted_step keyed_replicas_step)
qed

section \<open>What a node's allocation is off by\<close>

text \<open>
  Without the guard a node's allocation can differ from the sum over its replicas. The
  difference has two sources only: \<open>written\<close>, the node as a call stores it, whatever replicas
  are on it, and \<open>regauged\<close>, the change of the GPU count of a replica that stays where it is.
  \<open>drift\<close> follows it through a sequence of calls.
\<close>

definition written :: "ws_call \<Rightarrow> ClusterID \<Rightarrow> NodeID \<Rightarrow> Node option" where
  "written c cid nid = (case c of
     CallUpsertNode n \<Rightarrow> if nd_ClusterID n = cid \<and> nd_NodeID n = nid then Some n else None
   | CallUpsertCluster cl \<Rightarrow> if cl_ClusterID cl = cid then gget (cl_Nodes cl) nid else None
   | _ \<Rightarrow> None)"

definition regauged :: "ws_call \<Rightarrow> WorldState \<Rightarrow> ClusterID \<Rightarrow> NodeID \<Rightarrow> int" where
  "regauged c ws cid nid = (case c of
     CallUpsertReplica r \<Rightarrow> (case gget (ws_replicas ws) (rp_ReplicaID r) of
         None \<Rightarrow> 0
       | Some old \<Rightarrow> if same_place old r \<and> located r cid nid then rp_GPUs r - rp_GPUs old else 0)
   | _ \<Rightarrow> 0)"

definition drift_step :: "ws_call \<Rightarrow> WorldState \<Rightarrow> ClusterID \<Rightarrow> NodeID \<Rightarrow> int \<Rightarrow> int" where
  "drift_step c ws cid nid d = (case written c cid nid of
     Some n \<Rightarrow> nd_AllocatedGPUs n - gpus_on ws cid nid
   | None \<Rightarrow> d - regauged c ws cid nid)"

fun drift :: "ws_call list \<Rightarrow> WorldState \<Rightarrow> ClusterID \<Rightarrow> NodeID \<Rightarrow> int \<Rightarrow> int" where
  "drift [] ws cid nid d = d"
| "drift (c # cs) ws cid nid d = drift cs (ws_step c ws) cid nid (drift_step c ws cid nid d)"

definition off_by :: "WorldState \<Rightarrow> ClusterID \<Rightarrow> NodeID \<Rightarrow> int \<Rightarrow> bool" where
  "off_by ws cid nid d \<longleftrightarrow> (\<forall>n. node_at ws cid nid = Some n \<longrightarrow> nd_AllocatedGPUs n = gpus_on ws cid nid + d)"

lemma gpus_on_cong: "ws_replicas ws' = ws_replicas ws \<Longrightarrow> gpus_on ws' cid nid = gpus_on ws cid nid"
  by (simp add: gpus_on_def)

lemma off_by_replica:
  assumes off: "off_by ws cid nid d" and k: "keyed_replicas ws"
  shows "off_by (UpsertReplica r ws) cid nid (d - regauged (CallUpsertReplica r) ws cid nid)"
    and "off_by (DeleteReplica rid ws) cid nid d"
  using off same_place_located [of _ r cid nid] not_same_place_located [of _ r cid nid]
  by (auto simp: off_by_def regauged_def node_at_UpsertReplica node_at_DeleteReplica occupy_def release_def
      gpus_on_UpsertReplica [OF keyed_gwf [OF k]] gpus_on_DeleteReplica [OF keyed_gwf [OF k]]
      split: option.splits if_splits)

lemma off_by_step:
  assumes off: "off_by ws cid nid d" and k: "keyed_replicas ws"
  shows "off_by (ws_step c ws) cid nid (drift_step c ws cid nid d)"
proof (cases c)
  case (CallUpsertCluster cl)
  then show ?thesis using off
    by (auto simp: off_by_def drift_step_def written_def regauged_def node_at_UpsertCluster gpus_on_def
        split: option.splits if_splits)
next
  case (CallUpsertNode n)
  then show ?thesis using off
    by (auto simp: off_by_def drift_step_def written_def regauged_def node_at_UpsertNode gpus_on_def
        split: if_splits)
next
  case (CallUpsertReplica r)
  then show ?thesis using off_by_replica(1) [OF off k] by (simp add: drift_step_def written_def)
next
  case (CallDeleteReplica r)
  then show ?thesis using off_by_replica(2) [OF off k]
    by (simp add: drift_step_def written_def regauged_def)
qed (use off in \<open>simp_all add: off_by_def drift_step_def written_def regauged_def node_at_RemoveNode gpus_on_def\<close>)

lemma off_by_run:
  "off_by ws cid nid d \<Longrightarrow> keyed_replicas ws \<Longrightarrow> off_by (ws_run calls ws) cid nid (drift calls ws cid nid d)"
  by (induction calls arbitrary: ws d) (simp_all add: ws_run_def off_by_step keyed_replicas_step)

section \<open>Properties\<close>

text \<open>C1: After every sequence of mutators each node's \<open>AllocatedGPUs\<close> is the sum of the GPUs of
  exactly the replicas placed on it, plus what it is off by: placing, moving and deleting
  replicas never leaks or double-counts a GPU. It is off only through the two calls that store
  what they are given: writing the node (it is then off by what it is written with less the sum
  at that moment) and a replica that changes its GPU count in place (off by the change).
  Where every node is written with the allocation of the replicas already on it and replicas
  keep their GPU count while they stay in place, the allocation is the sum, and the pod list
  names each of the replicas once.\<close>

theorem node_allocation_is_sum_of_replicas:
  assumes "node_at (ws_run calls New) cid nid = Some n"
  shows "nd_AllocatedGPUs n = gpus_on (ws_run calls New) cid nid + drift calls New cid nid 0
    \<and> (guarded accounted_guard calls New \<longrightarrow>
        drift calls New cid nid 0 = 0
      \<and> distinct (nd_Pods n)
      \<and> set (nd_Pods n) = {rid. \<exists>r. gget (ws_replicas (ws_run calls New)) rid = Some r
          \<and> rp_ClusterID r = cid \<and> rp_NodeID r = nid})"
proof -
  have "off_by New cid nid 0" "keyed_replicas New" by (simp_all add: off_by_def node_at_def New_def)
  then have sum: "nd_AllocatedGPUs n = gpus_on (ws_run calls New) cid nid + drift calls New cid nid 0"
    using off_by_run assms by (auto simp: off_by_def)
  have "node_ok n (gpus_on (ws_run calls New) cid nid) (pods_on (ws_run calls New) cid nid)"
    if "guarded accounted_guard calls New"
    using accounted_inv.run [OF that] accountedD [OF _ assms] by blast
  with sum show ?thesis by (auto simp: node_ok_def pods_on_def located_def)
qed

definition second_node :: Node where
  "second_node = sample_node\<lparr>nd_NodeID := ''n2''\<rparr>"

definition moved_replica :: Replica where
  "moved_replica = sample_replica\<lparr>rp_NodeID := ''n2''\<rparr>"

definition move_calls :: "ws_call list" where
  "move_calls = [CallUpsertNode sample_node, CallUpsertNode second_node,
     CallUpsertReplica sample_replica, CallUpsertReplica moved_replica]"

lemmas move_defs = move_calls_def moved_replica_def second_node_def sample_node_def sample_replica_def
  New_def

lemma node_allocation_is_sum_of_replicas_witness:
  "\<exists>n. node_at (ws_run move_calls New) ''c1'' ''n2'' = Some n
     \<and> nd_AllocatedGPUs n = 4 \<and> set (nd_Pods n) = {''r1''}"
proof -
  have g: "guarded accounted_guard move_calls New"
    by (simp add: move_defs accounted_guard_def accounted_node_def node_ok_def
        gpus_on_def pods_on_def same_place_def)
  obtain n where n: "node_at (ws_run move_calls New) ''c1'' ''n2'' = Some n"
    by (simp add: move_defs ws_run_def node_at_UpsertReplica node_at_UpsertNode located_def same_place_def)
  have r: "ws_replicas (ws_run move_calls New) = [(''r1'', moved_replica)]"
    by (simp add: move_defs ws_run_def)
  have "gpus_on (ws_run move_calls New) ''c1'' ''n2'' = 4"
    by (simp add: gpus_on_def r moved_replica_def sample_replica_def located_def)
  moreover have "{rid. \<exists>x. gget (ws_replicas (ws_run move_calls New)) rid = Some x
      \<and> rp_ClusterID x = ''c1'' \<and> rp_NodeID x = ''n2''} = {''r1''}"
    by (auto simp: r moved_replica_def sample_replica_def split: if_splits)
  ultimately show ?thesis
    using node_allocation_is_sum_of_replicas [OF n] g n by auto
qed

text \<open>Announcing a node again, as a \<open>NodeUp\<close> event does, empties it although its replica stays.\<close>

lemma rewritten_node_is_off:
  "drift (move_calls @ [CallUpsertNode second_node]) New ''c1'' ''n2'' 0 = - 4"
  by (simp add: move_defs drift_step_def written_def regauged_def gpus_on_def located_def same_place_def)

text \<open>If every node that is registered arrives with allocated and free GPUs that add up to
  its total, then on every node of every later state they still do, whatever replicas come,
  move and go.\<close>

theorem allocated_plus_free_is_total:
  assumes "guarded balanced_guard calls New"
    and "node_at (ws_run calls New) cid nid = Some n"
  shows "nd_AllocatedGPUs n + nd_FreeGPUs n = nd_TotalGPUs n"
  using all_nodesD [OF balanced_inv.run [OF assms(1)] assms(2)] by (simp add: balanced_def)

lemma allocated_plus_free_is_total_witness:
  "\<exists>n. node_at (ws_run move_calls New) ''c1'' ''n2'' = Some n
     \<and> nd_AllocatedGPUs n + nd_FreeGPUs n = nd_TotalGPUs n"
proof -
  have g: "guarded balanced_guard move_calls New"
    by (simp add: move_defs balanced_guard_def balanced_def)
  obtain n where n: "node_at (ws_run move_calls New) ''c1'' ''n2'' = Some n"
    by (simp add: move_defs ws_run_def node_at_UpsertReplica node_at_UpsertNode located_def same_place_def)
  show ?thesis using allocated_plus_free_is_total [OF g n] n by blast
qed

text \<open>C5: The fragmentation score stored with a cluster is never stale: after every sequence of
  mutators it is the score of the cluster's present nodes, unless the cluster still is exactly
  what an \<open>UpsertCluster\<close> was given. Where in addition no node has negative or more than its
  total GPUs free and the cluster has at most 2^53 GPUs, the \<open>float64\<close> result is a finite
  number of the unit interval; \<open>fragmentation_score_can_be_negative\<close> shows that the first of
  these conditions is needed.\<close>

theorem fragmentation_score_fresh_and_bounded:
  assumes "gget (ws_clusters (ws_run calls New)) cid = Some c"
    and "CallUpsertCluster c \<notin> set calls"
  shows "cl_FragmentationScore c = computeFragmentation (cl_Nodes c)
    \<and> ((\<forall>(nid, n) \<in> set (cl_Nodes c). 0 \<le> nd_FreeGPUs n \<and> nd_FreeGPUs n \<le> nd_TotalGPUs n)
        \<and> sum_vals nd_TotalGPUs (cl_Nodes c) \<le> 2 ^ 53
        \<longrightarrow> (\<exists>q. cl_FragmentationScore c = Fin q \<and> 0 \<le> q \<and> q \<le> 1))"
proof -
  have fresh: "cl_FragmentationScore c = computeFragmentation (cl_Nodes c)"
    using fresh_inv.run [OF guarded_fresh [OF order_refl], of calls] assms by (auto simp: fresh_but_def)
  show ?thesis
  proof (intro conjI impI)
    assume "(\<forall>(nid, n) \<in> set (cl_Nodes c). 0 \<le> nd_FreeGPUs n \<and> nd_FreeGPUs n \<le> nd_TotalGPUs n)
      \<and> sum_vals nd_TotalGPUs (cl_Nodes c) \<le> 2 ^ 53"
    then obtain q where "computeFragmentation (cl_Nodes c) = Fin q" "0 \<le> q" "q \<le> 1"
      by (auto intro: computeFragmentation_unit [of "cl_Nodes c"])
    with fresh show "\<exists>q. cl_FragmentationScore c = Fin q \<and> 0 \<le> q \<and> q \<le> 1" by auto
  qed (rule fresh)
qed

lemma fragmentation_score_fresh_and_bounded_witness:
  "\<exists>c q. gget (ws_clusters (ws_run sample_calls New)) ''c1'' = Some c
     \<and> cl_FragmentationScore c = computeFragmentation (cl_Nodes c)
     \<and> cl_FragmentationScore c = Fin q \<and> 0 \<le> q \<and> q \<le> 1"
proof -
  obtain c where c: "gget (ws_clusters (ws_run sample_calls New)) ''c1'' = Some c"
    and nodes: "cl_Nodes c = [(''n1'', sample_node\<lparr>nd_AllocatedGPUs := 4, nd_FreeGPUs := 4, nd_Pods := [''r1'']\<rparr>)]"
    by (simp add: sample_calls_def ws_run_def sample_node_def sample_replica_def New_def UpsertNode_def
        Let_def UpsertReplica_def allocateNodeGPUs_def refreshFragmentation_def gauge_add_def
        CreateReservation_def keep_on_error_def)
  have given: "CallUpsertCluster c \<notin> set sample_calls" by (simp add: sample_calls_def)
  note F = fragmentation_score_fresh_and_bounded [OF c given]
  have "\<exists>q. cl_FragmentationScore c = Fin q \<and> 0 \<le> q \<and> q \<le> 1"
    by (rule mp [OF conjunct2 [OF F]]) (simp add: nodes sample_node_def)
  with c conjunct1 [OF F] show ?thesis by blast
qed

text \<open>A node that is announced again while a replica is on it has more free GPUs than it has at
  all once the replica is deleted; the score is then negative.\<close>

lemma fragmentation_score_can_be_negative:
  "\<exists>c q. gget (ws_clusters (ws_run [CallUpsertNode sample_node, CallUpsertReplica sample_replica,
        CallUpsertNode sample_node, CallDeleteReplica ''r1''] New)) ''c1'' = Some c
     \<and> cl_FragmentationScore c = Fin q \<and> q < 0"
proof -
  have "f_sub f_one (f_div (f_of_int 12) (f_of_int 8)) = Fin (- 1 / 2)" by code_simp
  then show ?thesis
    by (simp add: ws_run_def sample_node_def sample_replica_def New_def UpsertNode_def
        Let_def UpsertReplica_def DeleteReplica_def allocateNodeGPUs_def restoreNodeGPUs_def
        refreshFragmentation_def gauge_add_def computeFragmentation_def)
qed

end
