(* ===== verification/PlacementExamples.thy ===== *)
theory PlacementExamples
  imports PlacementCycle Accounting
begin

text \<open>
  Concrete placement cycles: the properties of theory \<open>PlacementCycle\<close> at work, and two
  over-commitments the cycle does not prevent.
\<close>

definition place_state :: WorldState where
  "place_state = ws_run [CallUpsertNode sample_node, CallUpsertApplication sample_app] New"

definition place_snap :: WorldStateSnapshot where
  "place_snap = Snapshot (\<lambda>_. []) 100 place_state"

definition up_decision :: "AppID \<Rightarrow> int \<Rightarrow> ScalingDecision" where
  "up_decision a n = \<lparr>sl_AppID = a, sl_CurrentCount = 0, sl_RunningCount = 0, sl_PendingCount = 0,
     sl_TargetCount = n, sl_Direction = ScaleDirectionUp, sl_Signal = ScaleSignalQueue,
     sl_SLABreach = False, sl_ScaleActionApproved = True, sl_ActionAt = 100,
     sl_ScaleDownSignalObserved = False\<rparr>"

lemma up_decision_fields [simp]:
  "sl_ScaleActionApproved (up_decision a n)" "sl_TargetCount (up_decision a n) = n"
  by (simp_all add: up_decision_def)

definition sample_uid :: "nat \<Rightarrow> string" where
  "sample_uid n = replicate n CHR ''x''"

lemma inj_sample_uid: "inj sample_uid"
  by (rule injI) (metis length_replicate sample_uid_def)

lemma place_snap_ok: "snap_ok place_snap"
  unfolding place_snap_def place_state_def
  by (rule snap_ok_Snapshot, rule wf_inv.run) (simp add: wf_call_def)

abbreviation sample_placement :: PlacementDecisions where
  "sample_placement \<equiv> ComputePlacement DefaultPlacementConfig (None :: unit finder option) sample_uid (\<lambda>_. [])
     place_snap [(''a'', up_decision ''a'' 2)]"

lemma sample_placement_value:
  "map su_ClusterID (pl_ScaleUps sample_placement) = [''c1'', ''c1'']
     \<and> reserved_in ''c1'' (pl_Reservations sample_placement) = 4 \<and> free_capacity place_snap ''c1'' = 8"
  by code_simp

lemma placement_never_overbooks_witness:
  "(\<exists>k < 2. rs_GPUs (pl_Reservations sample_placement ! k) = 2
      \<and> reserved_in ''c1'' (take (Suc k) (pl_Reservations sample_placement)) \<le> free_capacity place_snap ''c1'')
     \<and> 4 \<le> max 0 (free_capacity place_snap ''c1'')"
proof -
  note P = placement_never_overbooks [OF place_snap_ok refl, of DefaultPlacementConfig "None :: unit finder option"
      sample_uid "\<lambda>_. []" "[(''a'', up_decision ''a'' 2)]"]
  have r: "length (pl_Reservations sample_placement) = 2" "rs_GPUs (pl_Reservations sample_placement ! 1) = 2"
    "rs_ClusterID (pl_Reservations sample_placement ! 1) = ''c1''" by code_simp+
  have "reserved_in ''c1'' (take (Suc 1) (pl_Reservations sample_placement)) \<le> free_capacity place_snap ''c1''"
    using conjunct1 [OF P] r by (auto simp only: Let_def dest!: spec [of _ 1])
  with r(2) have "\<exists>k < 2. rs_GPUs (pl_Reservations sample_placement ! k) = 2
      \<and> reserved_in ''c1'' (take (Suc k) (pl_Reservations sample_placement)) \<le> free_capacity place_snap ''c1''"
    by (intro exI [of _ 1]) simp
  then show ?thesis using conjunct2 [OF P] sample_placement_value by metis
qed

lemma scale_ups_are_reserved_witness:
  "distinct (map rs_ReservationID (pl_Reservations sample_placement))"
  using scale_ups_are_reserved [OF inj_sample_uid refl] by blast

lemma scale_ups_follow_priority_witness:
  "int (length (filter (\<lambda>su. su_AppID su = ''a'') (pl_ScaleUps sample_placement))) \<le> 2"
proof -
  let ?sds = "[(''a'', up_decision ''a'' 2)]"
  have wf: "gwf ?sds" by simp
  have "int (length (filter (\<lambda>su. su_AppID su = ''a'') (pl_ScaleUps sample_placement)))
      \<le> (case gget ?sds ''a'' of None \<Rightarrow> 0 | Some sd \<Rightarrow> if sl_ScaleActionApproved sd
           then max 0 (sl_TargetCount sd - CountActiveReplicas place_snap ''a'') else 0)"
    by (rule conjunct2 [OF scale_ups_follow_priority [OF wf refl]])
  also have "\<dots> = max 0 (2 - CountActiveReplicas place_snap ''a'')" by simp
  also have "\<dots> \<le> 2" using CountActiveReplicas_nonneg [of place_snap "''a''"] by linarith
  finally show ?thesis .
qed

lemma best_found:
  "findBestCluster DefaultPlacementConfig (\<lambda>_. []) sample_app place_snap [] []
     = Some (''c1'', zero_SchedulingConstraints\<lparr>sc_RequiredGPUs := 2, sc_CacheAffinityModel := ''m''\<rparr>)"
  by code_simp

lemma best_eligible: "eligibleClusters (\<lambda>_. []) sample_app place_snap [] = [''c1'']"
  by code_simp

lemma best_score: "cluster_score DefaultPlacementConfig sample_app place_snap ''c1'' \<noteq> NaN"
  by code_simp

lemma best_count: "CountActiveReplicas place_snap (ap_AppID sample_app) = 0"
  by code_simp

lemma best_fits: "{c. fits_in sample_app place_snap [] c} = {''c1''}"
  using eligible_fits(1) [OF place_snap_ok, of "\<lambda>_. []" sample_app "[]"] by (simp add: best_eligible)

lemma best_cluster_is_eligible_spread_and_best_witness:
  "qualifies sample_app place_snap [] [] ''c1'' \<and> \<not> (\<forall>c. \<not> qualifies sample_app place_snap [] [] c)"
proof -
  have local: "(k, n) \<in> set ([] :: (ClusterID, int) gomap) \<Longrightarrow> 0 \<le> n" for k n by simp
  have count: "CountActiveReplicas place_snap (ap_AppID sample_app) + sum_vals (\<lambda>n. n) ([] :: (ClusterID, int) gomap) + 1
      \<le> 2 ^ 53" unfolding best_count by simp
  have card: "card {c. fits_in sample_app place_snap [] c} \<le> 2 ^ 53" unfolding best_fits by simp
  have score: "cluster_score DefaultPlacementConfig sample_app place_snap c \<noteq> NaN"
    if "fits_in sample_app place_snap [] c" for c
  proof -
    have "c = ''c1''" using that best_fits by (metis mem_Collect_eq singletonD)
    then show ?thesis by (simp only: best_score not_False_eq_True)
  qed
  note B = best_cluster_is_eligible_spread_and_best [OF place_snap_ok _ count card]
  have none: "findBestCluster DefaultPlacementConfig (\<lambda>_. []) sample_app place_snap [] [] = None
      \<longleftrightarrow> (\<forall>c. \<not> qualifies sample_app place_snap [] [] c)"
    by (rule conjunct1 [OF B]) (rule local, assumption, rule score)
  have "qualifies sample_app place_snap [] [] ''c1''"
    by (rule conjunct1 [OF conjunct2 [OF B, rule_format, OF _ _ best_found]]) (rule local, assumption, rule score)
  with none show ?thesis by blast
qed

text \<open>Two replicas, the first on a node that is half full, the second on one that is less so.\<close>

definition down_state :: WorldState where
  "down_state = ws_run [CallUpsertApplication sample_app, CallUpsertNode sample_node,
     CallUpsertNode (sample_node\<lparr>nd_NodeID := ''n2''\<rparr>), CallUpsertReplica sample_replica,
     CallUpsertReplica (sample_replica\<lparr>rp_ReplicaID := ''r2'', rp_NodeID := ''n2'', rp_GPUs := 2\<rparr>)] New"

definition down_snap :: WorldStateSnapshot where
  "down_snap = Snapshot (\<lambda>_. []) 100 down_state"

lemma down_snap_ok: "snap_ok down_snap"
  unfolding down_snap_def down_state_def
  by (rule snap_ok_Snapshot, rule wf_inv.run) (simp add: wf_call_def)

lemma down_ids: "map fst (sn_Replicas down_snap) = [''r1'', ''r2'']"
  by (simp add: down_snap_def down_state_def ws_run_def New_def sample_replica_def)

lemma down_replicas: "map rp_ReplicaID (ReplicasForApp down_snap ''a'') = [''r1'', ''r2'']"
  by code_simp

lemma down_count: "CountActiveReplicas down_snap ''a'' = 2"
  by code_simp

lemma down_active: "list_all active_replica (ReplicasForApp down_snap ''a'')"
  by code_simp

lemma down_scores:
  "map (\<lambda>r. dc_utilScore (down_candidate ''a'' down_snap r)) (ReplicasForApp down_snap ''a'') = [Fin (1 / 2), Fin (1 / 4)]"
  by code_simp

lemma plausible_nodesI:
  "list_all (\<lambda>(_, c). list_all (\<lambda>(_, n). nd_TotalGPUs n \<le> 9007199254740992) (cl_Nodes c)) (sn_Clusters snap)
     \<Longrightarrow> plausible_nodes snap"
  unfolding plausible_nodes_def
proof (intro allI impI)
  fix cid c nid n
  assume all: "list_all (\<lambda>(_, c). list_all (\<lambda>(_, n). nd_TotalGPUs n \<le> 9007199254740992) (cl_Nodes c))
      (sn_Clusters snap)"
    and "gget (sn_Clusters snap) cid = Some c" and "gget (cl_Nodes c) nid = Some n"
  then have "(cid, c) \<in> set (sn_Clusters snap)" and "(nid, n) \<in> set (cl_Nodes c)" by (auto dest: gget_mem)
  with all have "nd_TotalGPUs n \<le> 9007199254740992" by (force simp: list_all_iff)
  then show "nd_TotalGPUs n \<le> 2 ^ 53" by simp
qed

lemma down_plausible: "plausible_nodes down_snap"
  by (rule plausible_nodesI) code_simp


section \<open>What the cycle does not prevent\<close>

text \<open>
  The preemption engine sees the same snapshot for every replica of the cycle, so two replicas
  that need preemption are given the same victim: eight GPUs are reserved against the four
  that evicting \<open>r1\<close> frees, and \<open>r1\<close> is listed twice.
\<close>

definition greedy_app :: Application where
  "greedy_app = requester_app\<lparr>ap_GPUsPerReplica := 4\<rparr>"

definition greedy_snap :: WorldStateSnapshot where
  "greedy_snap = Snapshot (\<lambda>_. []) 100 (ws_run [CallUpsertApplication greedy_app, CallUpsertApplication victim_app,
     CallUpsertReplica (sample_replica\<lparr>rp_AppID := ''b''\<rparr>)] New)"

definition real_finder :: "unit finder" where
  "real_finder = (\<lambda>od app snap. Inr (FindPreemptionOpportunity DefaultPreemptionConfig od app snap))"

lemma preemption_counts_a_victim_twice:
  "let d = ComputePlacement DefaultPlacementConfig (Some real_finder) sample_uid (\<lambda>_. []) greedy_snap
             [(''a'', up_decision ''a'' 2)]
   in map pd_VictimReplicaID (pl_Preemptions d) = [''r1'', ''r1'']
      \<and> reserved_in ''c1'' (pl_Reservations d) = 8 \<and> freed_gpus greedy_snap [hd (pl_Preemptions d)] = 4"
  by code_simp

text \<open>
  Capacity within the cycle is tracked per cluster, not per node: two replicas of eight GPUs
  are both placed in a cluster with a single node that can take one.
\<close>

definition split_snap :: WorldStateSnapshot where
  "split_snap = Snapshot (\<lambda>_. []) 100 (ws_run [CallUpsertApplication (sample_app\<lparr>ap_GPUsPerReplica := 8\<rparr>),
     CallUpsertNode sample_node,
     CallUpsertNode (sample_node\<lparr>nd_NodeID := ''n2'', nd_TotalGPUs := 4, nd_FreeGPUs := 4\<rparr>),
     CallUpsertNode (sample_node\<lparr>nd_NodeID := ''n3'', nd_TotalGPUs := 4, nd_FreeGPUs := 4\<rparr>)] New)"

lemma cluster_capacity_ignores_nodes:
  "map su_ClusterID (pl_ScaleUps (ComputePlacement DefaultPlacementConfig (None :: unit finder option) sample_uid
       (\<lambda>_. []) split_snap [(''a'', up_decision ''a'' 2)])) = [''c1'', ''c1'']"
  by code_simp

end
