(* ===== verification/Rebalancing.thy ===== *)
theory Rebalancing
  imports Snapshot
begin

text \<open>
  \<open>internal/engine/rebalancing\<close>: which replicas could move to a tighter cluster. The nested
  ranges of \<open>FindRebalancingOpportunities\<close> (clusters, nodes, pods) are flattened into the
  list of visits they make; the loop with its early return runs over that list. Every range
  that selects takes its order from \<open>od\<close>.
\<close>

section \<open>Configuration\<close>

record RebalancingConfig =
  rc_MaxMigrationsPerCycle :: int
  rc_MinFragmentationDelta :: f64

definition DefaultRebalancingConfig :: RebalancingConfig where
  "DefaultRebalancingConfig =
     \<lparr>rc_MaxMigrationsPerCycle = 2, rc_MinFragmentationDelta = round64 (15 / 100)\<rparr>"

section \<open>Scores and targets\<close>

text \<open>
  The inner loop of \<open>findConsolidationTarget\<close> and of \<open>estimateFragmentationDelta\<close>: the
  ready node with the least waste, the empty name and \<open>-1\<close> when there is none.
\<close>

definition tightest_step :: "int \<Rightarrow> Node \<Rightarrow> NodeID \<times> int \<Rightarrow> NodeID \<times> int" where
  "tightest_step gpus node best =
     (case best of (bestNodeID, bestWaste) \<Rightarrow>
        if nd_Status node \<noteq> NodeStatusReady then best
        else if nd_FreeGPUs node < gpus then best
        else (let waste = nd_FreeGPUs node - gpus
              in if bestWaste < 0 \<or> waste < bestWaste then (nd_NodeID node, waste) else best))"

definition tightest_node :: "orders \<Rightarrow> int \<Rightarrow> (NodeID, Node) gomap \<Rightarrow> NodeID \<times> int" where
  "tightest_node od gpus nodes =
     fold (\<lambda>(_, n). tightest_step gpus n) (range_order od nodes) ('''', - 1)"

record consolidationTarget =
  ct_clusterID :: ClusterID
  ct_constraints :: SchedulingConstraints

definition target_step ::
  "orders \<Rightarrow> Replica \<Rightarrow> Application \<Rightarrow> nat \<times> Cluster \<Rightarrow> consolidationTarget option \<times> int
     \<Rightarrow> consolidationTarget option \<times> int" where
  "target_step od replica app ic best =
     (case ic of (i, cluster) \<Rightarrow> case best of (bestTarget, bestWaste) \<Rightarrow>
        if cl_ClusterID cluster = rp_ClusterID replica then best
        else (case tightest_node (sub od i) (rp_GPUs replica) (cl_Nodes cluster) of
                (bestNodeID, bestNodeWaste) \<Rightarrow>
                  if bestNodeID = '''' then best
                  else if bestWaste < 0 \<or> bestNodeWaste < bestWaste
                  then (Some \<lparr>ct_clusterID = cl_ClusterID cluster,
                          ct_constraints = zero_SchedulingConstraints\<lparr>sc_RequiredGPUs := rp_GPUs replica,
                            sc_PreferredNodes := [bestNodeID], sc_CacheAffinityModel := ap_ModelID app\<rparr>\<rparr>,
                        bestNodeWaste)
                  else best))"

definition findConsolidationTarget ::
  "orders \<Rightarrow> Replica \<Rightarrow> Application \<Rightarrow> WorldStateSnapshot \<Rightarrow> consolidationTarget option" where
  "findConsolidationTarget od replica app snap =
     fst (fold (target_step od replica app)
            (enumerate 0 (map snd (range_order od (sn_Clusters snap)))) (None, - 1))"

definition fragmentationWith :: "(NodeID, Node) gomap \<Rightarrow> NodeID \<Rightarrow> int \<Rightarrow> f64" where
  "fragmentationWith nodes nodeID change =
     (let totalCapacity = sum_vals nd_TotalGPUs nodes;
          totalFree = sum_vals (\<lambda>n. if nd_NodeID n = nodeID then nd_FreeGPUs n + change else nd_FreeGPUs n) nodes
      in if totalCapacity = 0 then f_zero
         else f_sub f_one (f_div (f_of_int totalFree) (f_of_int totalCapacity)))"

definition computeFragmentationAfterRemoval :: "(NodeID, Node) gomap \<Rightarrow> NodeID \<Rightarrow> int \<Rightarrow> f64" where
  "computeFragmentationAfterRemoval nodes nodeID gpus = fragmentationWith nodes nodeID gpus"

definition computeFragmentationAfterAddition :: "(NodeID, Node) gomap \<Rightarrow> NodeID \<Rightarrow> int \<Rightarrow> f64" where
  "computeFragmentationAfterAddition nodes nodeID gpus = fragmentationWith nodes nodeID (- gpus)"

definition estimateFragmentationDelta ::
  "orders \<Rightarrow> Node \<Rightarrow> Cluster \<Rightarrow> int \<Rightarrow> WorldStateSnapshot \<Rightarrow> f64" where
  "estimateFragmentationDelta od sourceNode destCluster gpus snap =
     (case gget (sn_Clusters snap) (nd_ClusterID sourceNode) of
        None \<Rightarrow> f_zero
      | Some sourceCluster \<Rightarrow>
          (let currentSourceFrag = cl_FragmentationScore sourceCluster;
               currentDestFrag = cl_FragmentationScore destCluster;
               newSourceFrag = computeFragmentationAfterRemoval (cl_Nodes sourceCluster) (nd_NodeID sourceNode) gpus;
               (bestNodeID, _) = tightest_node od gpus (cl_Nodes destCluster);
               newDestFrag = (if bestNodeID \<noteq> ''''
                  then computeFragmentationAfterAddition (cl_Nodes destCluster) bestNodeID gpus
                  else currentDestFrag)
           in f_sub (f_add currentSourceFrag currentDestFrag) (f_add newSourceFrag newDestFrag)))"

definition hasCachedModel :: "ClusterID \<Rightarrow> ModelID \<Rightarrow> WorldStateSnapshot \<Rightarrow> bool" where
  "hasCachedModel clusterID modelID snap =
     list_ex (\<lambda>loc. loc_ClusterID loc = clusterID) (gget_or [] (sn_CacheLocations snap) modelID)"

definition countRunningReplicas :: "AppID \<Rightarrow> WorldStateSnapshot \<Rightarrow> int" where
  "countRunningReplicas appID snap =
     int (length (filter (\<lambda>r. rp_Status r = ReplicaStatusRunning) (ReplicasForApp snap appID)))"

section \<open>The scan\<close>

text \<open>The pods the three ranges visit, with their node; skipped clusters and nodes contribute none.\<close>

definition node_visits :: "Node \<Rightarrow> (Node \<times> ReplicaID) list" where
  "node_visits node =
     (if nd_Status node \<noteq> NodeStatusReady then []
      else if nd_AllocatedGPUs node \<le> 0 \<or> nd_TotalGPUs node \<le> nd_AllocatedGPUs node then []
      else map (\<lambda>replicaID. (node, replicaID)) (nd_Pods node))"

definition cluster_visits :: "RebalancingConfig \<Rightarrow> orders \<Rightarrow> Cluster \<Rightarrow> (Node \<times> ReplicaID) list" where
  "cluster_visits cfg od cluster =
     (if f_lt (cl_FragmentationScore cluster) (rc_MinFragmentationDelta cfg) then []
      else concat (map (\<lambda>(_, node). node_visits node) (range_order od (cl_Nodes cluster))))"

definition visits :: "RebalancingConfig \<Rightarrow> orders \<Rightarrow> WorldStateSnapshot \<Rightarrow> (Node \<times> ReplicaID) list" where
  "visits cfg od snap =
     concat (map (\<lambda>(i, cluster). cluster_visits cfg (sub od i) cluster)
       (enumerate 0 (map snd (range_order od (sn_Clusters snap)))))"

text \<open>One pass of the innermost loop body: the migration it appends, if it reaches the append.\<close>

definition propose :: "RebalancingConfig \<Rightarrow> orders \<Rightarrow> WorldStateSnapshot \<Rightarrow> Node \<Rightarrow> ReplicaID \<Rightarrow> MigrateDecision option" where
  "propose cfg od snap node replicaID =
     (case gget (sn_Replicas snap) replicaID of
        None \<Rightarrow> None
      | Some replica \<Rightarrow>
          (case gget (sn_Applications snap) (rp_AppID replica) of
             None \<Rightarrow> None
           | Some app \<Rightarrow>
               if countRunningReplicas (rp_AppID replica) snap \<le> ap_MinReplicas app then None
               else (case findConsolidationTarget (sub od 0) replica app snap of
                       None \<Rightarrow> None
                     | Some target \<Rightarrow>
                         if \<not> hasCachedModel (ct_clusterID target) (ap_ModelID app) snap then None
                         else (let destCluster = gget_or \<lparr>cl_ClusterID = '''', cl_Nodes = [], cl_FragmentationScore = f_zero\<rparr>
                                                   (sn_Clusters snap) (ct_clusterID target);
                                   improvement = estimateFragmentationDelta (sub od 1) node destCluster (rp_GPUs replica) snap
                               in if f_lt improvement (rc_MinFragmentationDelta cfg) then None
                                  else Some \<lparr>mg_AppID = rp_AppID replica, mg_SourceReplicaID = rp_ReplicaID replica,
                                        mg_TargetClusterID = ct_clusterID target,
                                        mg_SchedulingConstraints = ct_constraints target\<rparr>))))"

text \<open>The loop: \<open>Inl\<close> when it returns from inside, \<open>Inr\<close> when all visits are made.\<close>

fun scan :: "RebalancingConfig \<Rightarrow> orders \<Rightarrow> WorldStateSnapshot \<Rightarrow> (Node \<times> ReplicaID) list \<Rightarrow> MigrateDecision list
    \<Rightarrow> MigrateDecision list + MigrateDecision list" where
  "scan cfg od snap [] migrations = Inr migrations"
| "scan cfg od snap ((node, replicaID) # vs) migrations =
     (case propose cfg (sub od (length vs)) snap node replicaID of
        None \<Rightarrow> scan cfg od snap vs migrations
      | Some mg \<Rightarrow>
          (let migrations' = migrations @ [mg]
           in if rc_MaxMigrationsPerCycle cfg \<le> int (length migrations') then Inl migrations'
              else scan cfg od snap vs migrations'))"

definition migration_less :: "WorldStateSnapshot \<Rightarrow> MigrateDecision \<Rightarrow> MigrateDecision \<Rightarrow> bool" where
  "migration_less snap a b =
     (let pi = ap_Priority (gget_or zero_Application (sn_Applications snap) (mg_AppID a));
          pj = ap_Priority (gget_or zero_Application (sn_Applications snap) (mg_AppID b))
      in if pi \<noteq> pj then pj < pi else mg_SourceReplicaID a < mg_SourceReplicaID b)"

definition FindRebalancingOpportunities ::
  "RebalancingConfig \<Rightarrow> orders \<Rightarrow> WorldStateSnapshot \<Rightarrow> MigrateDecision list" where
  "FindRebalancingOpportunities cfg od snap =
     (case scan cfg (sub od 1) snap (visits cfg (sub od 0) snap) [] of
        Inl migrations \<Rightarrow> migrations
      | Inr migrations \<Rightarrow>
          (let ordered = sort_slice (sub od 2) (migration_less snap) migrations
           in if rc_MaxMigrationsPerCycle cfg < int (length ordered)
              then take (nat (rc_MaxMigrationsPerCycle cfg)) ordered else ordered))"

section \<open>The tightest node and the target\<close>

definition fits :: "int \<Rightarrow> Node \<Rightarrow> bool" where
  "fits gpus n \<longleftrightarrow> nd_Status n = NodeStatusReady \<and> gpus \<le> nd_FreeGPUs n"

lemma tightest_fold:
  assumes "fold (\<lambda>(_, n). tightest_step gpus n) ms (b, w) = (b', w')"
  shows "(w' < 0 \<longrightarrow> w < 0 \<and> (\<forall>(k, n) \<in> set ms. \<not> fits gpus n))
    \<and> (0 \<le> w' \<longrightarrow> (0 \<le> w \<longrightarrow> w' \<le> w) \<and> (\<forall>(k, n) \<in> set ms. fits gpus n \<longrightarrow> w' \<le> nd_FreeGPUs n - gpus)
        \<and> ((b', w') = (b, w) \<or> (\<exists>(k, n) \<in> set ms. fits gpus n \<and> b' = nd_NodeID n \<and> w' = nd_FreeGPUs n - gpus)))
    \<and> (w' < 0 \<longrightarrow> (b', w') = (b, w))"
  using assms
proof (induction ms arbitrary: b w)
  case Nil
  then show ?case by auto
next
  case (Cons p ms)
  obtain k n where p: "p = (k, n)" by (cases p)
  obtain b1 w1 where s: "tightest_step gpus n (b, w) = (b1, w1)" by (cases "tightest_step gpus n (b, w)")
  have rest: "fold (\<lambda>(_, n). tightest_step gpus n) ms (b1, w1) = (b', w')" using Cons.prems p s by simp
  have step: "if fits gpus n \<and> (w < 0 \<or> nd_FreeGPUs n - gpus < w)
      then b1 = nd_NodeID n \<and> w1 = nd_FreeGPUs n - gpus else b1 = b \<and> w1 = w"
    using s by (auto simp: tightest_step_def Let_def fits_def split: if_splits)
  show ?case
  proof (cases "fits gpus n \<and> (w < 0 \<or> nd_FreeGPUs n - gpus < w)")
    case True
    then have "0 \<le> w1" using step by (simp add: fits_def)
    then show ?thesis using Cons.IH [OF rest] step True p by (auto simp: fits_def)
  next
    case False
    then show ?thesis using Cons.IH [OF rest] step p by (auto simp: fits_def)
  qed
qed

text \<open>The contract of the choice, for node maps keyed by non-empty names.\<close>

lemma tightest_node_spec:
  assumes "gwf nodes" and "tightest_node od gpus nodes = (b, w)"
    and "\<And>k n. gget nodes k = Some n \<Longrightarrow> nd_NodeID n = k \<and> k \<noteq> ''''"
  shows "b = '''' \<longleftrightarrow> (\<forall>k n. gget nodes k = Some n \<longrightarrow> \<not> fits gpus n)"
    and "b \<noteq> '''' \<Longrightarrow> \<exists>n. gget nodes b = Some n \<and> fits gpus n \<and> w = nd_FreeGPUs n - gpus"
    and "b \<noteq> '''' \<Longrightarrow> \<forall>k n. gget nodes k = Some n \<longrightarrow> fits gpus n \<longrightarrow> w \<le> nd_FreeGPUs n - gpus"
proof -
  have f: "fold (\<lambda>(_, n). tightest_step gpus n) (range_order od nodes) ('''', - 1) = (b, w)"
    using assms(2) by (simp add: tightest_node_def)
  note T = tightest_fold [OF f]
  have mem: "(k, n) \<in> set (range_order od nodes) \<longleftrightarrow> gget nodes k = Some n" for k n
    by (simp add: gget_iff_mem [OF assms(1)])
  have neg: "w < 0 \<longleftrightarrow> b = ''''"
    using T assms(3) mem by (auto simp: not_less)
  show "b = '''' \<longleftrightarrow> (\<forall>k n. gget nodes k = Some n \<longrightarrow> \<not> fits gpus n)"
    using T neg mem assms(3) by (cases "w < 0") fastforce+
  show "b \<noteq> '''' \<Longrightarrow> \<exists>n. gget nodes b = Some n \<and> fits gpus n \<and> w = nd_FreeGPUs n - gpus"
    using T neg mem assms(3) by (cases "w < 0") fastforce+
  show "b \<noteq> '''' \<Longrightarrow> \<forall>k n. gget nodes k = Some n \<longrightarrow> fits gpus n \<longrightarrow> w \<le> nd_FreeGPUs n - gpus"
    using T neg mem by (cases "w < 0") fastforce+
qed

definition named_nodes :: "WorldStateSnapshot \<Rightarrow> bool" where
  "named_nodes snap \<longleftrightarrow> (\<forall>cid c nid n. gget (sn_Clusters snap) cid = Some c \<longrightarrow>
     gget (cl_Nodes c) nid = Some n \<longrightarrow> nid \<noteq> '''')"

definition target_for :: "Replica \<Rightarrow> Application \<Rightarrow> Cluster \<Rightarrow> NodeID \<Rightarrow> consolidationTarget" where
  "target_for replica app c nid = \<lparr>ct_clusterID = cl_ClusterID c,
     ct_constraints = zero_SchedulingConstraints\<lparr>sc_RequiredGPUs := rp_GPUs replica,
       sc_PreferredNodes := [nid], sc_CacheAffinityModel := ap_ModelID app\<rparr>\<rparr>"

text \<open>A destination: another cluster's ready node with room for the replica, and its waste.\<close>

definition destination :: "Replica \<Rightarrow> Cluster \<Rightarrow> NodeID \<Rightarrow> Node \<Rightarrow> bool" where
  "destination replica c nid n \<longleftrightarrow> cl_ClusterID c \<noteq> rp_ClusterID replica
     \<and> gget (cl_Nodes c) nid = Some n \<and> fits (rp_GPUs replica) n"

lemma target_fold:
  assumes "fold (target_step od replica app) L (t0, w0) = (t, w)" and "t0 = None \<longleftrightarrow> w0 < 0"
    and "\<forall>p \<in> set L. gwf (cl_Nodes (snd p))
      \<and> (\<forall>k n. gget (cl_Nodes (snd p)) k = Some n \<longrightarrow> nd_NodeID n = k \<and> k \<noteq> '''')"
  shows "(t = None \<longleftrightarrow> w < 0) \<and> (0 \<le> w0 \<longrightarrow> 0 \<le> w \<and> w \<le> w0)
    \<and> (\<forall>i c k n. (i, c) \<in> set L \<longrightarrow> destination replica c k n \<longrightarrow> 0 \<le> w \<and> w \<le> nd_FreeGPUs n - rp_GPUs replica)
    \<and> (t = t0 \<and> w = w0 \<or> (\<exists>i c k n. (i, c) \<in> set L \<and> destination replica c k n
         \<and> w = nd_FreeGPUs n - rp_GPUs replica \<and> t = Some (target_for replica app c k)))"
  using assms
proof (induction L arbitrary: t0 w0)
  case Nil
  then show ?case by auto
next
  case (Cons p L)
  obtain i c where p: "p = (i, c)" by (cases p)
  have wf: "gwf (cl_Nodes c)" "\<And>k n. gget (cl_Nodes c) k = Some n \<Longrightarrow> nd_NodeID n = k \<and> k \<noteq> ''''"
    using Cons.prems(3) p by auto
  obtain t1 w1 where s: "target_step od replica app (i, c) (t0, w0) = (t1, w1)"
    by (cases "target_step od replica app (i, c) (t0, w0)")
  have rest: "fold (target_step od replica app) L (t1, w1) = (t, w)" using Cons.prems(1) p s by simp
  obtain b bw where b: "tightest_node (sub od i) (rp_GPUs replica) (cl_Nodes c) = (b, bw)"
    by (cases "tightest_node (sub od i) (rp_GPUs replica) (cl_Nodes c)")
  note B = tightest_node_spec [OF wf(1) b wf(2)]
  consider (skip) "\<forall>k n. \<not> destination replica c k n" "t1 = t0" "w1 = w0"
    | (keep) n where "destination replica c b n" "bw = nd_FreeGPUs n - rp_GPUs replica" "0 \<le> w0" "w0 \<le> bw"
        "t1 = t0" "w1 = w0"
    | (new) n where "destination replica c b n" "bw = nd_FreeGPUs n - rp_GPUs replica" "w0 < 0 \<or> bw < w0"
        "t1 = Some (target_for replica app c b)" "w1 = bw"
  proof (cases "cl_ClusterID c = rp_ClusterID replica \<or> b = ''''")
    case True
    then have "\<forall>k n. \<not> destination replica c k n" using B(1) by (auto simp: destination_def)
    moreover have "(t1, w1) = (t0, w0)"
      using s True b by (cases "cl_ClusterID c = rp_ClusterID replica") (simp_all add: target_step_def)
    then have "t1 = t0" "w1 = w0" by simp_all
    ultimately show ?thesis by (rule that(1))
  next
    case False
    then obtain n where n: "destination replica c b n" "bw = nd_FreeGPUs n - rp_GPUs replica"
      using B(2) by (auto simp: destination_def)
    show ?thesis
    proof (cases "w0 < 0 \<or> bw < w0")
      case True
      then have "t1 = Some (target_for replica app c b)" "w1 = bw"
        using s False b by (auto simp: target_step_def target_for_def)
      with n True show ?thesis by (intro that(3))
    next
      case no: False
      then have "t1 = t0" "w1 = w0" using s False b by (auto simp: target_step_def)
      with n no show ?thesis by (intro that(2)) auto
    qed
  qed
  note cases = this
  have least: "bw \<le> nd_FreeGPUs m - rp_GPUs replica" if "destination replica c b n" "destination replica c k m" for k n m
    using that B(1,3) by (auto simp: destination_def)
  have L: "\<forall>p \<in> set L. gwf (cl_Nodes (snd p))
      \<and> (\<forall>k n. gget (cl_Nodes (snd p)) k = Some n \<longrightarrow> nd_NodeID n = k \<and> k \<noteq> '''')"
    using Cons.prems(3) by simp
  from cases show ?case
  proof cases
    case skip
    have "t1 = None \<longleftrightarrow> w1 < 0" using skip Cons.prems(2) by simp
    note IH = Cons.IH [OF rest this L]
    show ?thesis using IH skip(1) unfolding skip(2,3) by (simp add: p) blast
  next
    case (keep n)
    have "t1 = None \<longleftrightarrow> w1 < 0" using keep Cons.prems(2) by simp
    note IH = Cons.IH [OF rest this L]
    have "w \<le> bw" "0 \<le> w" using IH keep by auto
    then have "0 \<le> w \<and> w \<le> nd_FreeGPUs m - rp_GPUs replica" if "destination replica c k m" for k m
      using least [OF keep(1) that] by auto
    then show ?thesis
      using IH unfolding keep(5,6) by (simp add: p) blast
  next
    case (new n)
    have w1: "0 \<le> w1" using new by (simp add: destination_def fits_def)
    have "t1 = None \<longleftrightarrow> w1 < 0" using new w1 by simp
    note IH = Cons.IH [OF rest this L]
    have "w \<le> bw" "0 \<le> w" using IH new w1 by auto
    then have "0 \<le> w \<and> w \<le> nd_FreeGPUs m - rp_GPUs replica" if "destination replica c k m" for k m
      using least [OF new(1) that] by auto
    moreover have "t = t1 \<and> w = w1 \<Longrightarrow> w = nd_FreeGPUs n - rp_GPUs replica \<and> t = Some (target_for replica app c b)"
      using new(2,4,5) by simp
    moreover have "0 \<le> w0 \<longrightarrow> 0 \<le> w \<and> w \<le> w0" using \<open>w \<le> bw\<close> \<open>0 \<le> w\<close> new(3) by auto
    ultimately show ?thesis using IH new(1) by (simp add: p) blast
  qed
qed

lemma findConsolidationTarget_spec:
  assumes "snap_ok snap" and "named_nodes snap"
    and "findConsolidationTarget od replica app snap = Some t"
  obtains c nid n where "gget (sn_Clusters snap) (cl_ClusterID c) = Some c" and "destination replica c nid n"
    and "t = target_for replica app c nid"
    and "\<And>cid' c' nid' n'. gget (sn_Clusters snap) cid' = Some c' \<Longrightarrow> destination replica c' nid' n'
      \<Longrightarrow> nd_FreeGPUs n - rp_GPUs replica \<le> nd_FreeGPUs n' - rp_GPUs replica"
proof -
  let ?L = "enumerate 0 (map snd (range_order od (sn_Clusters snap)))"
  obtain w where f: "fold (target_step od replica app) ?L (None, - 1) = (Some t, w)"
    using assms(3) unfolding findConsolidationTarget_def by (metis prod.collapse)
  have k: "keyed cl_ClusterID (sn_Clusters snap)" using assms(1) by (simp add: snap_ok_def)
  have memL: "\<exists>cid. gget (sn_Clusters snap) cid = Some c" if "(i, c) \<in> set ?L" for i c
  proof -
    let ?xs = "map snd (range_order od (sn_Clusters snap))"
    have "i < length ?xs \<and> c = ?xs ! i" using that by (simp add: in_set_enumerate_eq)
    then have "c \<in> set ?xs" using nth_mem [of i ?xs] by blast
    then show ?thesis by (auto simp: gget_iff_mem [OF keyed_gwf [OF k]])
  qed
  have inL: "\<exists>i. (i, c) \<in> set ?L" if "gget (sn_Clusters snap) cid = Some c" for cid c
  proof -
    have "c \<in> set (map snd (range_order od (sn_Clusters snap)))"
      using gget_mem [OF that] by force
    then obtain i where "i < length (map snd (range_order od (sn_Clusters snap)))"
      "map snd (range_order od (sn_Clusters snap)) ! i = c" by (metis in_set_conv_nth)
    then show ?thesis by (intro exI [of _ i]) (simp add: in_set_enumerate_eq)
  qed
  have wf: "\<forall>p \<in> set ?L. gwf (cl_Nodes (snd p))
      \<and> (\<forall>k n. gget (cl_Nodes (snd p)) k = Some n \<longrightarrow> nd_NodeID n = k \<and> k \<noteq> '''')"
  proof
    fix p assume "p \<in> set ?L"
    then obtain cid where c: "gget (sn_Clusters snap) cid = Some (snd p)" using memL [of "fst p" "snd p"] by auto
    then have "wf_cluster (snd p)" using assms(1) by (simp add: snap_ok_def)
    then show "gwf (cl_Nodes (snd p))
      \<and> (\<forall>k n. gget (cl_Nodes (snd p)) k = Some n \<longrightarrow> nd_NodeID n = k \<and> k \<noteq> '''')"
      using c assms(2) by (auto simp: wf_cluster_def keyed_def named_nodes_def)
  qed
  have init: "((None :: consolidationTarget option) = None) = ((- 1 :: int) < 0)" by simp
  note T = target_fold [OF f init wf]
  from T obtain i c nid n where c: "(i, c) \<in> set ?L" "destination replica c nid n"
    "w = nd_FreeGPUs n - rp_GPUs replica" "t = target_for replica app c nid" by auto
  obtain cid where cid: "gget (sn_Clusters snap) cid = Some c" using memL [OF c(1)] by blast
  then have "cl_ClusterID c = cid" by (rule keyedD [OF k])
  with cid have g: "gget (sn_Clusters snap) (cl_ClusterID c) = Some c" by simp
  show ?thesis
  proof (rule that [OF g c(2,4)])
    fix cid' c' nid' n'
    assume "gget (sn_Clusters snap) cid' = Some c'" and d: "destination replica c' nid' n'"
    then obtain j where "(j, c') \<in> set ?L" using inL by blast
    then have "w \<le> nd_FreeGPUs n' - rp_GPUs replica" using T d by blast
    then show "nd_FreeGPUs n - rp_GPUs replica \<le> nd_FreeGPUs n' - rp_GPUs replica" using c(3) by simp
  qed
qed

section \<open>Every proposal is sound\<close>

text \<open>
  Where a visit is made: a node of a known cluster that is fragmented enough, ready, with some
  but not all of its GPUs allocated, that lists the replica among its pods.
\<close>

definition source_ok :: "RebalancingConfig \<Rightarrow> WorldStateSnapshot \<Rightarrow> Node \<Rightarrow> ReplicaID \<Rightarrow> bool" where
  "source_ok cfg snap node rid \<longleftrightarrow> (\<exists>cid c nid. gget (sn_Clusters snap) cid = Some c
     \<and> \<not> f_lt (cl_FragmentationScore c) (rc_MinFragmentationDelta cfg)
     \<and> gget (cl_Nodes c) nid = Some node \<and> nd_Status node = NodeStatusReady
     \<and> 0 < nd_AllocatedGPUs node \<and> nd_AllocatedGPUs node < nd_TotalGPUs node
     \<and> rid \<in> set (nd_Pods node))"

lemma visits_source:
  assumes "snap_ok snap" and "(node, rid) \<in> set (visits cfg od snap)"
  shows "source_ok cfg snap node rid"
proof -
  have k: "gwf (sn_Clusters snap)" using assms(1) by (simp add: snap_ok_def keyed_def)
  obtain i c where i: "(i, c) \<in> set (enumerate 0 (map snd (range_order od (sn_Clusters snap))))"
    and v: "(node, rid) \<in> set (cluster_visits cfg (sub od i) c)"
    using assms(2) by (auto simp: visits_def)
  have "c \<in> set (map snd (range_order od (sn_Clusters snap)))"
    using in_set_enumerate_eq [THEN iffD1, OF i] nth_mem [of i "map snd (range_order od (sn_Clusters snap))"] by simp
  then obtain cid where c: "gget (sn_Clusters snap) cid = Some c" by (auto simp: gget_iff_mem [OF k])
  then have wf: "gwf (cl_Nodes c)" using assms(1) by (auto simp: snap_ok_def wf_cluster_def keyed_def)
  from v obtain nid where frag: "\<not> f_lt (cl_FragmentationScore c) (rc_MinFragmentationDelta cfg)"
    and "(nid, node) \<in> set (cl_Nodes c)" and n: "(node, rid) \<in> set (node_visits node)"
    by (auto simp: cluster_visits_def node_visits_def split: if_splits)
  then have node: "gget (cl_Nodes c) nid = Some node" by (simp add: gget_iff_mem [OF wf])
  show ?thesis
    unfolding source_ok_def
    by (rule exI [of _ cid], rule exI [of _ c], rule exI [of _ nid])
      (use c frag node n in \<open>auto simp: node_visits_def split: if_splits\<close>)
qed

text \<open>What a migration promises, of its source as of its target.\<close>

definition migration_ok :: "RebalancingConfig \<Rightarrow> WorldStateSnapshot \<Rightarrow> MigrateDecision \<Rightarrow> bool" where
  "migration_ok cfg snap mg \<longleftrightarrow> (\<exists>r app c nid n node od.
     gget (sn_Replicas snap) (mg_SourceReplicaID mg) = Some r \<and> mg_AppID mg = rp_AppID r
     \<and> gget (sn_Applications snap) (rp_AppID r) = Some app
     \<and> ap_MinReplicas app < countRunningReplicas (rp_AppID r) snap
     \<and> mg_TargetClusterID mg \<noteq> rp_ClusterID r
     \<and> gget (sn_Clusters snap) (mg_TargetClusterID mg) = Some c
     \<and> gget (cl_Nodes c) nid = Some n \<and> fits (rp_GPUs r) n
     \<and> sc_PreferredNodes (mg_SchedulingConstraints mg) = [nid]
     \<and> sc_RequiredGPUs (mg_SchedulingConstraints mg) = rp_GPUs r
     \<and> hasCachedModel (mg_TargetClusterID mg) (ap_ModelID app) snap
     \<and> source_ok cfg snap node (mg_SourceReplicaID mg)
     \<and> \<not> f_lt (estimateFragmentationDelta od node c (rp_GPUs r) snap) (rc_MinFragmentationDelta cfg)
     \<and> (\<forall>cid' c' nid' n'. gget (sn_Clusters snap) cid' = Some c' \<longrightarrow> destination r c' nid' n'
          \<longrightarrow> nd_FreeGPUs n \<le> nd_FreeGPUs n'))"

lemma propose_ok:
  assumes "snap_ok snap" and "named_nodes snap" and "propose cfg od snap node rid = Some mg"
    and "source_ok cfg snap node rid"
  shows "migration_ok cfg snap mg"
proof -
  obtain r app t where r: "gget (sn_Replicas snap) rid = Some r"
    and app: "gget (sn_Applications snap) (rp_AppID r) = Some app"
    and min: "ap_MinReplicas app < countRunningReplicas (rp_AppID r) snap"
    and t: "findConsolidationTarget (sub od 0) r app snap = Some t"
    and cached: "hasCachedModel (ct_clusterID t) (ap_ModelID app) snap"
    and mg: "mg = \<lparr>mg_AppID = rp_AppID r, mg_SourceReplicaID = rp_ReplicaID r,
       mg_TargetClusterID = ct_clusterID t, mg_SchedulingConstraints = ct_constraints t\<rparr>"
    and better: "\<not> f_lt (estimateFragmentationDelta (sub od 1) node
       (gget_or \<lparr>cl_ClusterID = '''', cl_Nodes = [], cl_FragmentationScore = f_zero\<rparr> (sn_Clusters snap) (ct_clusterID t))
       (rp_GPUs r) snap) (rc_MinFragmentationDelta cfg)"
    using assms(3) by (auto simp: propose_def Let_def split: option.splits if_splits)
  have "keyed rp_ReplicaID (sn_Replicas snap)" using assms(1) by (simp add: snap_ok_def)
  then have rid: "rp_ReplicaID r = rid" using r by (rule keyedD)
  obtain c nid n where c: "gget (sn_Clusters snap) (cl_ClusterID c) = Some c" "destination r c nid n"
    "t = target_for r app c nid"
    "\<And>cid' c' nid' n'. gget (sn_Clusters snap) cid' = Some c' \<Longrightarrow> destination r c' nid' n'
      \<Longrightarrow> nd_FreeGPUs n - rp_GPUs r \<le> nd_FreeGPUs n' - rp_GPUs r"
    by (rule findConsolidationTarget_spec [OF assms(1,2) t]) blast
  have least: "\<forall>cid' c' nid' n'. gget (sn_Clusters snap) cid' = Some c' \<longrightarrow> destination r c' nid' n'
          \<longrightarrow> nd_FreeGPUs n \<le> nd_FreeGPUs n'" using c(4) by fastforce
  show ?thesis
    unfolding migration_ok_def
    by (rule exI [of _ r], rule exI [of _ app], rule exI [of _ c], rule exI [of _ nid], rule exI [of _ n],
        rule exI [of _ node], rule exI [of _ "sub od 1"])
      (use r rid app min c(1,2) cached better assms(4) least
        in \<open>simp add: mg c(3) target_for_def destination_def gget_or_def\<close>)
qed

lemma scan_ok:
  assumes "snap_ok snap" and "named_nodes snap" and "\<forall>mg \<in> set acc. migration_ok cfg snap mg"
    and "int (length acc) < max 1 (rc_MaxMigrationsPerCycle cfg)"
    and "\<forall>(node, rid) \<in> set vs. source_ok cfg snap node rid"
  shows "case scan cfg od snap vs acc of
      Inl ms \<Rightarrow> (\<forall>mg \<in> set ms. migration_ok cfg snap mg) \<and> int (length ms) = max 1 (rc_MaxMigrationsPerCycle cfg)
    | Inr ms \<Rightarrow> (\<forall>mg \<in> set ms. migration_ok cfg snap mg) \<and> int (length ms) < max 1 (rc_MaxMigrationsPerCycle cfg)"
  using assms(3-5)
proof (induction vs arbitrary: acc)
  case Nil
  then show ?case by simp
next
  case (Cons v vs)
  obtain node rid where v: "v = (node, rid)" by (cases v)
  show ?case
  proof (cases "propose cfg (sub od (length vs)) snap node rid")
    case None
    then show ?thesis using Cons v by simp
  next
    case (Some mg)
    have ok: "migration_ok cfg snap mg"
      by (rule propose_ok [OF assms(1,2) Some]) (use Cons.prems(3) v in simp)
    show ?thesis
    proof (cases "rc_MaxMigrationsPerCycle cfg \<le> int (length (acc @ [mg]))")
      case True
      then show ?thesis using Cons.prems Some v ok by (simp add: Let_def)
    next
      case False
      then have "int (length (acc @ [mg])) < max 1 (rc_MaxMigrationsPerCycle cfg)" by simp
      then show ?thesis using Cons.IH [of "acc @ [mg]"] Cons.prems(1,3) Some v ok False by (simp add: Let_def)
    qed
  qed
qed

interpretation migrations: total_comparison "migration_less snap" "\<lambda>_. True" mg_SourceReplicaID for snap
proof -
  have "total_comparison (\<lambda>x y. if - ap_Priority (gget_or zero_Application (sn_Applications snap) (mg_AppID x))
        \<noteq> - ap_Priority (gget_or zero_Application (sn_Applications snap) (mg_AppID y))
      then - ap_Priority (gget_or zero_Application (sn_Applications snap) (mg_AppID x))
        < - ap_Priority (gget_or zero_Application (sn_Applications snap) (mg_AppID y))
      else by_key mg_SourceReplicaID x y) (\<lambda>_. True) (mg_SourceReplicaID :: MigrateDecision \<Rightarrow> _)"
    by (rule total_comparison_lex [OF total_comparison_by_key])
  then show "total_comparison (migration_less snap) (\<lambda>_. True) (mg_SourceReplicaID :: MigrateDecision \<Rightarrow> _)"
    by (simp add: migration_less_def [abs_def] by_key_def Let_def cong: if_cong)
qed

section \<open>Properties\<close>

text \<open>C14: Every proposed migration is sound. The source replica exists and its application runs
  more replicas than its minimum; it is on the pod list of a ready node with some but not all of
  its GPUs allocated, in a cluster whose fragmentation reaches the threshold. The target is another
  known cluster that holds the application's model in some cache and whose preferred node is
  ready and has room; no ready node of any other cluster would fit the replica more tightly, and
  the estimated improvement of the two clusters' fragmentation reaches the threshold.\<close>

theorem migrations_are_sound:
  assumes "snap_ok snap" and "named_nodes snap"
    and "mg \<in> set (FindRebalancingOpportunities cfg od snap)"
  shows "migration_ok cfg snap mg"
proof -
  let ?r = "scan cfg (sub od 1) snap (visits cfg (sub od 0) snap) []"
  have S: "case ?r of Inl ms \<Rightarrow> (\<forall>mg \<in> set ms. migration_ok cfg snap mg) \<and> int (length ms) = max 1 (rc_MaxMigrationsPerCycle cfg)
    | Inr ms \<Rightarrow> (\<forall>mg \<in> set ms. migration_ok cfg snap mg) \<and> int (length ms) < max 1 (rc_MaxMigrationsPerCycle cfg)"
    by (rule scan_ok [OF assms(1,2)]) (auto intro: visits_source [OF assms(1)])
  show ?thesis
  proof (cases ?r)
    case (Inl ms)
    then show ?thesis using S assms(3) by (simp add: FindRebalancingOpportunities_def)
  next
    case (Inr ms)
    then have "mg \<in> set ms"
      using assms(3) by (auto simp: FindRebalancingOpportunities_def Let_def dest: in_set_takeD split: if_splits)
    then show ?thesis using S Inr by simp
  qed
qed

text \<open>A cycle proposes at most \<open>MaxMigrationsPerCycle\<close> migrations (one when the bound is not
  positive), and while the bound is not reached they come sorted, the least important
  application first; a scan that reaches the bound returns what it met first instead.\<close>

theorem migrations_are_bounded:
  assumes "snap_ok snap" and "named_nodes snap"
  shows "int (length (FindRebalancingOpportunities cfg od snap)) \<le> max 1 (rc_MaxMigrationsPerCycle cfg)
    \<and> (int (length (FindRebalancingOpportunities cfg od snap)) < rc_MaxMigrationsPerCycle cfg \<longrightarrow>
        sorted_wrt (\<lambda>x y. \<not> migration_less snap y x) (FindRebalancingOpportunities cfg od snap))"
proof -
  let ?r = "scan cfg (sub od 1) snap (visits cfg (sub od 0) snap) []"
  have S: "case ?r of Inl ms \<Rightarrow> (\<forall>mg \<in> set ms. migration_ok cfg snap mg) \<and> int (length ms) = max 1 (rc_MaxMigrationsPerCycle cfg)
    | Inr ms \<Rightarrow> (\<forall>mg \<in> set ms. migration_ok cfg snap mg) \<and> int (length ms) < max 1 (rc_MaxMigrationsPerCycle cfg)"
    by (rule scan_ok [OF assms]) (auto intro: visits_source [OF assms(1)])
  show ?thesis
  proof (cases ?r)
    case (Inl ms)
    then show ?thesis using S by (simp add: FindRebalancingOpportunities_def)
  next
    case (Inr ms)
    have "sorted_wrt (\<lambda>x y. \<not> migration_less snap y x) (sort_slice (sub od 2) (migration_less snap) ms)"
      by (rule migrations.sort_slice_in_order) simp
    then show ?thesis
      using S Inr by (auto simp: FindRebalancingOpportunities_def Let_def)
  qed
qed

section \<open>An example\<close>

definition move_state :: WorldState where
  "move_state = ws_run [CallUpsertNode (sample_node\<lparr>nd_TotalGPUs := 4, nd_FreeGPUs := 4\<rparr>),
     CallUpsertNode (sample_node\<lparr>nd_NodeID := ''n2'', nd_ClusterID := ''c2''\<rparr>),
     CallUpsertApplication (zero_Application\<lparr>ap_AppID := ''a'', ap_ModelID := ''m''\<rparr>),
     CallUpdateCacheLocations ''m'' [\<lparr>loc_ModelID = ''m'', loc_ClusterID = ''c2'', loc_NodeID = ''n2'',
        loc_Tier = CacheTierLocalNVMe, loc_CachedAt = 0\<rparr>],
     CallUpsertReplica (sample_replica\<lparr>rp_GPUs := 2\<rparr>)] New"

definition move_snap :: WorldStateSnapshot where
  "move_snap = Snapshot (\<lambda>_. []) 100 move_state"

definition move_decision :: MigrateDecision where
  "move_decision = \<lparr>mg_AppID = ''a'', mg_SourceReplicaID = ''r1'', mg_TargetClusterID = ''c2'',
     mg_SchedulingConstraints = zero_SchedulingConstraints\<lparr>sc_RequiredGPUs := 2, sc_PreferredNodes := [''n2''],
       sc_CacheAffinityModel := ''m''\<rparr>\<rparr>"

lemma move_found: "FindRebalancingOpportunities DefaultRebalancingConfig (\<lambda>_. []) move_snap = [move_decision]"
  by code_simp

lemma move_snap_ok: "snap_ok move_snap"
  unfolding move_snap_def move_state_def
  by (rule snap_ok_Snapshot, rule wf_inv.run) (simp add: wf_call_def)

lemma named_nodesI:
  "list_all (\<lambda>(_, c). list_all (\<lambda>(nid, _). nid \<noteq> '''') (cl_Nodes c)) (sn_Clusters snap) \<Longrightarrow> named_nodes snap"
  unfolding named_nodes_def by (fastforce simp: list_all_iff dest: gget_mem)

lemma move_named: "named_nodes move_snap"
  by (rule named_nodesI) code_simp

lemma migrations_are_sound_witness: "migration_ok DefaultRebalancingConfig move_snap move_decision"
  by (rule migrations_are_sound [OF move_snap_ok move_named, where cfg = DefaultRebalancingConfig and od = "\<lambda>_. []"])
    (simp add: move_found)

lemma migrations_are_bounded_witness:
  "int (length (FindRebalancingOpportunities DefaultRebalancingConfig (\<lambda>_. []) move_snap)) \<le> 2"
  using migrations_are_bounded [OF move_snap_ok move_named, of DefaultRebalancingConfig "\<lambda>_. []"]
  by (simp add: DefaultRebalancingConfig_def)

end
