(* ===== verification/PlanGen.thy ===== *)
theory PlanGen
  imports Model
begin

text \<open>
  \<open>internal/plangen/generator.go\<close>: from placement and migration decisions to an execution
  plan. The generator appends operations in four phases; \<open>uid n\<close> is the identifier the
  \<open>n\<close>-th call of \<open>uuid.New\<close> returns, so the operation at position \<open>n\<close> has it.
\<close>

section \<open>The four phases\<close>

record PlanRun =
  pg_ops :: "Operation list"
  pg_clusterPreemptionOps :: "(ClusterID, OperationID list) gomap"

definition append_op :: "(nat \<Rightarrow> string) \<Rightarrow> OperationType \<Rightarrow> Payload \<Rightarrow> OperationID list \<Rightarrow> PlanRun \<Rightarrow> PlanRun" where
  "append_op uid ty payload deps st =
     st\<lparr>pg_ops := pg_ops st @ [\<lparr>op_ID = uid (length (pg_ops st)), op_Type = ty, op_Payload = payload,
                                op_DependsOn = deps\<rparr>]\<rparr>"

definition preempt_phase :: "(nat \<Rightarrow> string) \<Rightarrow> PreemptionDecision \<Rightarrow> PlanRun \<Rightarrow> PlanRun" where
  "preempt_phase uid p st =
     (let opID = uid (length (pg_ops st));
          m = pg_clusterPreemptionOps st
      in (append_op uid OperationPreempt (PayloadPreempt p) [] st)
           \<lparr>pg_clusterPreemptionOps := gput (pd_ClusterID p) (gget_or [] m (pd_ClusterID p) @ [opID]) m\<rparr>)"

definition scale_down_phase :: "(nat \<Rightarrow> string) \<Rightarrow> ScaleDownDecision \<Rightarrow> PlanRun \<Rightarrow> PlanRun" where
  "scale_down_phase uid sd st = append_op uid OperationScaleDown (PayloadScaleDown sd) [] st"

definition scale_up_phase :: "(nat \<Rightarrow> string) \<Rightarrow> ScaleUpDecision \<Rightarrow> PlanRun \<Rightarrow> PlanRun" where
  "scale_up_phase uid su st =
     append_op uid OperationScaleUp (PayloadScaleUp su)
       (gget_or [] (pg_clusterPreemptionOps st) (su_ClusterID su)) st"

definition migration_up :: "MigrateDecision \<Rightarrow> ScaleUpDecision" where
  "migration_up m = \<lparr>su_AppID = mg_AppID m, su_ClusterID = mg_TargetClusterID m, su_ReservationID = '''',
     su_SchedulingConstraints = mg_SchedulingConstraints m\<rparr>"

definition migration_down :: "MigrateDecision \<Rightarrow> ScaleDownDecision" where
  "migration_down m = \<lparr>sd_AppID = mg_AppID m, sd_ReplicaID = mg_SourceReplicaID m\<rparr>"

definition migration_phase :: "(nat \<Rightarrow> string) \<Rightarrow> MigrateDecision \<Rightarrow> PlanRun \<Rightarrow> PlanRun" where
  "migration_phase uid m st =
     (let suID = uid (length (pg_ops st))
      in append_op uid OperationScaleDown (PayloadScaleDown (migration_down m)) [suID]
           (scale_up_phase uid (migration_up m) st))"

definition GeneratePlan :: "(nat \<Rightarrow> string) \<Rightarrow> PlacementDecisions \<Rightarrow> MigrateDecision list \<Rightarrow> ExecutionPlan" where
  "GeneratePlan uid decisions migrations =
     (let st0 = \<lparr>pg_ops = [], pg_clusterPreemptionOps = []\<rparr>;
          st1 = fold (preempt_phase uid) (pl_Preemptions decisions) st0;
          st2 = fold (scale_down_phase uid) (pl_ScaleDowns decisions) st1;
          st3 = fold (scale_up_phase uid) (pl_ScaleUps decisions) st2;
          st4 = fold (migration_phase uid) migrations st3
      in pg_ops st4)"

section \<open>Invariants of the phases\<close>

text \<open>The identifiers of the preemptions in a cluster, in plan order.\<close>

fun preempts_in :: "ClusterID \<Rightarrow> Operation \<Rightarrow> bool" where
  "preempts_in c op = (case op_Payload op of PayloadPreempt p \<Rightarrow> pd_ClusterID p = c | _ \<Rightarrow> False)"

definition preempt_ids :: "ClusterID \<Rightarrow> Operation list \<Rightarrow> OperationID list" where
  "preempt_ids c ops = map op_ID (filter (preempts_in c) ops)"

definition plan_run_ok :: "(nat \<Rightarrow> string) \<Rightarrow> PlanRun \<Rightarrow> bool" where
  "plan_run_ok uid st \<longleftrightarrow> map op_ID (pg_ops st) = map uid [0..<length (pg_ops st)]
     \<and> (\<forall>c. gget_or [] (pg_clusterPreemptionOps st) c = preempt_ids c (pg_ops st))
     \<and> (\<forall>k < length (pg_ops st). set (op_DependsOn (pg_ops st ! k)) \<subseteq> uid ` {..<k})"

lemma preempt_ids_append: "preempt_ids c (ops @ ops') = preempt_ids c ops @ preempt_ids c ops'"
  by (simp add: preempt_ids_def)

lemma preempt_ids_subset:
  "plan_run_ok uid st \<Longrightarrow> set (preempt_ids c (pg_ops st)) \<subseteq> uid ` {..<length (pg_ops st)}"
proof -
  assume "plan_run_ok uid st"
  then have "set (map op_ID (pg_ops st)) = set (map uid [0..<length (pg_ops st)])"
    by (simp only: plan_run_ok_def)
  then have "op_ID ` set (pg_ops st) = uid ` {..<length (pg_ops st)}"
    by (simp only: set_map set_upt lessThan_atLeast0)
  then show ?thesis by (auto simp: preempt_ids_def)
qed

lemma append_op_ok:
  assumes "plan_run_ok uid st" and "set deps \<subseteq> uid ` {..<length (pg_ops st)}"
    and "\<forall>p. payload \<noteq> PayloadPreempt p"
  shows "plan_run_ok uid (append_op uid ty payload deps st)"
  using assms by (auto simp: plan_run_ok_def append_op_def preempt_ids_append preempt_ids_def nth_append
      less_Suc_eq split: Payload.split)

lemma append_op_fields [simp]:
  "length (pg_ops (append_op uid ty payload deps st)) = Suc (length (pg_ops st))"
  "pg_clusterPreemptionOps (append_op uid ty payload deps st) = pg_clusterPreemptionOps st"
  by (simp_all add: append_op_def)

lemma preempt_phase_ok: "plan_run_ok uid st \<Longrightarrow> plan_run_ok uid (preempt_phase uid p st)"
  by (auto simp: plan_run_ok_def preempt_phase_def append_op_def Let_def preempt_ids_append preempt_ids_def
      nth_append less_Suc_eq)

lemma scale_down_phase_ok: "plan_run_ok uid st \<Longrightarrow> plan_run_ok uid (scale_down_phase uid sd st)"
  unfolding scale_down_phase_def by (rule append_op_ok) simp_all

lemma scale_up_phase_ok: "plan_run_ok uid st \<Longrightarrow> plan_run_ok uid (scale_up_phase uid su st)"
  unfolding scale_up_phase_def
  by (rule append_op_ok) (use preempt_ids_subset in \<open>simp_all add: plan_run_ok_def\<close>)

lemma migration_phase_ok: "plan_run_ok uid st \<Longrightarrow> plan_run_ok uid (migration_phase uid m st)"
  unfolding migration_phase_def Let_def
  by (rule append_op_ok [OF scale_up_phase_ok]) (simp_all add: scale_up_phase_def)

lemma fold_inv: "(\<And>x st. I st \<Longrightarrow> I (f x st)) \<Longrightarrow> I st \<Longrightarrow> I (fold f xs st)"
  by (induction xs arbitrary: st) auto

text \<open>The payloads, and what each kind of operation depends on.\<close>

definition plan_payloads :: "PlacementDecisions \<Rightarrow> MigrateDecision list \<Rightarrow> Payload list" where
  "plan_payloads d ms = map PayloadPreempt (pl_Preemptions d) @ map PayloadScaleDown (pl_ScaleDowns d)
     @ map PayloadScaleUp (pl_ScaleUps d)
     @ concat (map (\<lambda>m. [PayloadScaleUp (migration_up m), PayloadScaleDown (migration_down m)]) ms)"

lemma payloads_fold:
  assumes "\<And>x st. map op_Payload (pg_ops (f x st)) = map op_Payload (pg_ops st) @ g x"
  shows "map op_Payload (pg_ops (fold f xs st)) = map op_Payload (pg_ops st) @ concat (map g xs)"
  by (induction xs arbitrary: st) (simp_all add: assms)

lemma GeneratePlan_payloads:
  "map op_Payload (GeneratePlan uid d ms) = plan_payloads d ms"
proof -
  have 1: "map op_Payload (pg_ops (preempt_phase uid p st)) = map op_Payload (pg_ops st) @ [PayloadPreempt p]" for p st
    by (simp add: preempt_phase_def append_op_def Let_def)
  have 2: "map op_Payload (pg_ops (scale_down_phase uid p st)) = map op_Payload (pg_ops st) @ [PayloadScaleDown p]" for p st
    by (simp add: scale_down_phase_def append_op_def)
  have 3: "map op_Payload (pg_ops (scale_up_phase uid p st)) = map op_Payload (pg_ops st) @ [PayloadScaleUp p]" for p st
    by (simp add: scale_up_phase_def append_op_def)
  have 4: "map op_Payload (pg_ops (migration_phase uid m st)) = map op_Payload (pg_ops st)
      @ [PayloadScaleUp (migration_up m), PayloadScaleDown (migration_down m)]" for m st
    by (simp add: migration_phase_def append_op_def scale_up_phase_def Let_def)

  show ?thesis
    unfolding GeneratePlan_def Let_def plan_payloads_def
      payloads_fold [where f = "preempt_phase uid", OF 1] payloads_fold [where f = "scale_down_phase uid", OF 2]
      payloads_fold [where f = "scale_up_phase uid", OF 3] payloads_fold [where f = "migration_phase uid", OF 4]
    by (simp add: concat_map_singleton)
qed

text \<open>A well-formed plan: distinct identifiers, dependencies on earlier operations only.\<close>

definition plan_ok :: "ExecutionPlan \<Rightarrow> bool" where
  "plan_ok ops \<longleftrightarrow> distinct (map op_ID ops)
     \<and> (\<forall>k < length ops. set (op_DependsOn (ops ! k)) \<subseteq> op_ID ` set (take k ops))"

lemma GeneratePlan_run_ok:
  obtains st where "plan_run_ok uid st" and "pg_ops st = GeneratePlan uid d ms"
proof -
  let ?st = "fold (migration_phase uid) ms (fold (scale_up_phase uid) (pl_ScaleUps d)
    (fold (scale_down_phase uid) (pl_ScaleDowns d) (fold (preempt_phase uid) (pl_Preemptions d)
      \<lparr>pg_ops = [], pg_clusterPreemptionOps = []\<rparr>)))"
  have "plan_run_ok uid \<lparr>pg_ops = [], pg_clusterPreemptionOps = []\<rparr>"
    by (simp add: plan_run_ok_def preempt_ids_def)
  then have "plan_run_ok uid (fold (preempt_phase uid) (pl_Preemptions d) \<lparr>pg_ops = [], pg_clusterPreemptionOps = []\<rparr>)"
    by (rule fold_inv [where I = "plan_run_ok uid", rotated]) (rule preempt_phase_ok)
  then have "plan_run_ok uid (fold (scale_down_phase uid) (pl_ScaleDowns d)
      (fold (preempt_phase uid) (pl_Preemptions d) \<lparr>pg_ops = [], pg_clusterPreemptionOps = []\<rparr>))"
    by (rule fold_inv [where I = "plan_run_ok uid", rotated]) (rule scale_down_phase_ok)
  then have "plan_run_ok uid (fold (scale_up_phase uid) (pl_ScaleUps d) (fold (scale_down_phase uid) (pl_ScaleDowns d)
      (fold (preempt_phase uid) (pl_Preemptions d) \<lparr>pg_ops = [], pg_clusterPreemptionOps = []\<rparr>)))"
    by (rule fold_inv [where I = "plan_run_ok uid", rotated]) (rule scale_up_phase_ok)
  then have "plan_run_ok uid ?st"
    by (rule fold_inv [where I = "plan_run_ok uid", rotated]) (rule migration_phase_ok)
  then show ?thesis by (rule that) (simp add: GeneratePlan_def Let_def)
qed

lemma GeneratePlan_ok:
  assumes "inj uid"
  shows "plan_ok (GeneratePlan uid d ms)"
proof -
  obtain st where st: "plan_run_ok uid st" "pg_ops st = GeneratePlan uid d ms" by (rule GeneratePlan_run_ok)
  let ?ops = "GeneratePlan uid d ms"
  have ids: "map op_ID ?ops = map uid [0..<length ?ops]" using st by (simp add: plan_run_ok_def)
  have "inj_on uid {0..<length ?ops}" by (rule inj_on_subset [OF assms subset_UNIV])
  then have d: "distinct (map op_ID ?ops)" by (simp add: ids distinct_map)
  have "op_ID ` set (take k ?ops) = uid ` {..<k}" if "k < length ?ops" for k
  proof -
    have "map op_ID (take k ?ops) = take k (map op_ID ?ops)" by (simp add: take_map)
    also have "\<dots> = map uid [0..<k]" using that by (simp add: ids take_map)
    finally have "set (map op_ID (take k ?ops)) = set (map uid [0..<k])" by (simp only:)
    then show ?thesis by (simp only: set_map set_upt lessThan_atLeast0)
  qed
  moreover have "\<forall>k < length ?ops. set (op_DependsOn (?ops ! k)) \<subseteq> uid ` {..<k}"
    using st by (simp add: plan_run_ok_def)
  ultimately show ?thesis using d by (simp add: plan_ok_def)
qed

section \<open>What the operations depend on\<close>

text \<open>
  The identifiers of the preemptions in a cluster, by position, and the dependencies of the
  whole plan in its order: none for preemptions and scale-downs, the preemptions of the cluster
  for a scale-up; of the two operations of the \<open>j\<close>-th migration the second depends on the first,
  which stands directly before it.
\<close>

definition cluster_preemptions :: "(nat \<Rightarrow> string) \<Rightarrow> PreemptionDecision list \<Rightarrow> ClusterID \<Rightarrow> OperationID list" where
  "cluster_preemptions uid ps c = map uid (filter (\<lambda>i. pd_ClusterID (ps ! i) = c) [0..<length ps])"

definition plan_deps :: "(nat \<Rightarrow> string) \<Rightarrow> PlacementDecisions \<Rightarrow> MigrateDecision list \<Rightarrow> OperationID list list" where
  "plan_deps uid d ms =
     (let pre = cluster_preemptions uid (pl_Preemptions d);
          n = length (pl_Preemptions d) + length (pl_ScaleDowns d) + length (pl_ScaleUps d)
      in replicate (length (pl_Preemptions d) + length (pl_ScaleDowns d)) []
         @ map (\<lambda>su. pre (su_ClusterID su)) (pl_ScaleUps d)
         @ concat (map (\<lambda>(j, m). [pre (mg_TargetClusterID m), [uid (n + 2 * j)]]) (enumerate 0 ms)))"

abbreviation deps_of :: "PlanRun \<Rightarrow> OperationID list list" where
  "deps_of st \<equiv> map op_DependsOn (pg_ops st)"

abbreviation preemptions_of :: "PlanRun \<Rightarrow> ClusterID \<Rightarrow> OperationID list" where
  "preemptions_of st c \<equiv> gget_or [] (pg_clusterPreemptionOps st) c"

lemma preempt_phase_fold:
  assumes "st = fold (preempt_phase uid) ps \<lparr>pg_ops = [], pg_clusterPreemptionOps = []\<rparr>"
  shows "length (pg_ops st) = length ps" and "deps_of st = replicate (length ps) []"
    and "preemptions_of st c = cluster_preemptions uid ps c"
  using assms
proof (induction ps arbitrary: st rule: rev_induct)
  case (snoc p ps)
  let ?st = "fold (preempt_phase uid) ps \<lparr>pg_ops = [], pg_clusterPreemptionOps = []\<rparr>"
  note IH = snoc.IH [OF refl]
  {
    case 1
    then show ?case using IH(1) by (simp add: preempt_phase_def append_op_def Let_def)
  next
    case 2
    then show ?case
      using IH(2) by (simp add: preempt_phase_def append_op_def Let_def replicate_append_same flip: replicate_Suc)
  next
    case 3
    have "filter (\<lambda>i. pd_ClusterID ((ps @ [p]) ! i) = c) [0..<length ps]
        = filter (\<lambda>i. pd_ClusterID (ps ! i) = c) [0..<length ps]"
      by (rule filter_cong) (simp_all add: nth_append)
    then show ?case
      using 3 IH(1,3) by (auto simp: preempt_phase_def append_op_def Let_def cluster_preemptions_def)
  }
qed (simp_all add: cluster_preemptions_def)

lemma scale_down_phase_fold:
  "length (pg_ops (fold (scale_down_phase uid) sds st)) = length (pg_ops st) + length sds"
  "deps_of (fold (scale_down_phase uid) sds st) = deps_of st @ replicate (length sds) []"
  "preemptions_of (fold (scale_down_phase uid) sds st) c = preemptions_of st c"
  by (induction sds arbitrary: st) (simp_all add: scale_down_phase_def, simp add: append_op_def)

lemma scale_up_phase_fields [simp]:
  "length (pg_ops (scale_up_phase uid su st)) = Suc (length (pg_ops st))"
  "deps_of (scale_up_phase uid su st) = deps_of st @ [preemptions_of st (su_ClusterID su)]"
  "pg_clusterPreemptionOps (scale_up_phase uid su st) = pg_clusterPreemptionOps st"
  by (simp_all add: scale_up_phase_def) (simp add: append_op_def)

lemma scale_up_phase_fold:
  "length (pg_ops (fold (scale_up_phase uid) sus st)) = length (pg_ops st) + length sus"
  "preemptions_of (fold (scale_up_phase uid) sus st) c = preemptions_of st c"
  "deps_of (fold (scale_up_phase uid) sus st) = deps_of st @ map (\<lambda>su. preemptions_of st (su_ClusterID su)) sus"
  by (induction sus arbitrary: st) simp_all

lemma last_scale_up [simp]:
  "pg_ops (scale_up_phase uid su st) \<noteq> []"
  "op_ID (last (pg_ops (scale_up_phase uid su st))) = uid (length (pg_ops st))"
  "op_Payload (last (pg_ops (scale_up_phase uid su st))) = PayloadScaleUp su"
  by (simp_all add: scale_up_phase_def append_op_def)

lemma migration_phase_fields [simp]:
  "length (pg_ops (migration_phase uid m st)) = length (pg_ops st) + 2"
  "pg_clusterPreemptionOps (migration_phase uid m st) = pg_clusterPreemptionOps st"
  "deps_of (migration_phase uid m st)
     = deps_of st @ [preemptions_of st (mg_TargetClusterID m), [uid (length (pg_ops st))]]"
proof -
  have c: "su_ClusterID (migration_up m) = mg_TargetClusterID m" by (simp add: migration_up_def)
  show "length (pg_ops (migration_phase uid m st)) = length (pg_ops st) + 2"
    "pg_clusterPreemptionOps (migration_phase uid m st) = pg_clusterPreemptionOps st"
    by (simp_all add: migration_phase_def Let_def)
  have "deps_of (append_op uid ty payload deps st') = deps_of st' @ [deps]" for ty payload deps st'
    by (simp add: append_op_def)
  then show "deps_of (migration_phase uid m st)
     = deps_of st @ [preemptions_of st (mg_TargetClusterID m), [uid (length (pg_ops st))]]"
    by (simp add: migration_phase_def Let_def c)
qed

lemma migration_phase_fold:
  "length (pg_ops (fold (migration_phase uid) ms st)) = length (pg_ops st) + 2 * length ms"
  "pg_clusterPreemptionOps (fold (migration_phase uid) ms st) = pg_clusterPreemptionOps st"
  "deps_of (fold (migration_phase uid) ms st) = deps_of st
     @ concat (map (\<lambda>(j, m). [preemptions_of st (mg_TargetClusterID m), [uid (length (pg_ops st) + 2 * j)]])
         (enumerate 0 ms))"
  by (induction ms rule: rev_induct) (simp_all add: enumerate_append_eq)

lemma GeneratePlan_dependencies: "map op_DependsOn (GeneratePlan uid d ms) = plan_deps uid d ms"
proof -
  let ?st1 = "fold (preempt_phase uid) (pl_Preemptions d) \<lparr>pg_ops = [], pg_clusterPreemptionOps = []\<rparr>"
  note P = preempt_phase_fold [OF refl [of ?st1]]
  show ?thesis
    unfolding GeneratePlan_def Let_def plan_deps_def
    by (simp add: migration_phase_fold(3) scale_up_phase_fold scale_down_phase_fold P replicate_add)
qed

lemma GeneratePlan_ids: "map op_ID (GeneratePlan uid d ms) = map uid [0..<length (GeneratePlan uid d ms)]"
  by (rule GeneratePlan_run_ok [of uid d ms]) (simp add: plan_run_ok_def)

lemma GeneratePlan_types:
  "op \<in> set (GeneratePlan uid d ms) \<Longrightarrow> op_Type op = (case op_Payload op of
     PayloadPreempt p \<Rightarrow> OperationPreempt | PayloadScaleDown sd \<Rightarrow> OperationScaleDown | _ \<Rightarrow> OperationScaleUp)"
proof -
  define I where "I st \<longleftrightarrow> (\<forall>op \<in> set (pg_ops st). op_Type op = (case op_Payload op of
     PayloadPreempt p \<Rightarrow> OperationPreempt | PayloadScaleDown sd \<Rightarrow> OperationScaleDown | _ \<Rightarrow> OperationScaleUp))" for st :: PlanRun
  have step: "I st \<Longrightarrow> I (preempt_phase uid p st)" "I st \<Longrightarrow> I (scale_down_phase uid sd st)"
    "I st \<Longrightarrow> I (scale_up_phase uid su st)" "I st \<Longrightarrow> I (migration_phase uid m st)" for p sd su m st
    by (simp_all add: I_def preempt_phase_def scale_down_phase_def scale_up_phase_def migration_phase_def
        append_op_def Let_def)
  have "I \<lparr>pg_ops = [], pg_clusterPreemptionOps = []\<rparr>" by (simp add: I_def)
  then have "I (fold (migration_phase uid) ms (fold (scale_up_phase uid) (pl_ScaleUps d)
      (fold (scale_down_phase uid) (pl_ScaleDowns d) (fold (preempt_phase uid) (pl_Preemptions d)
        \<lparr>pg_ops = [], pg_clusterPreemptionOps = []\<rparr>))))"
    by (intro fold_inv [where I = I] step)
  then show "op \<in> set (GeneratePlan uid d ms) \<Longrightarrow> ?thesis" by (simp add: I_def GeneratePlan_def Let_def)
qed

section \<open>Properties\<close>

text \<open>A generated plan is well formed whatever the decisions are: no two operations share an
  identifier, and an operation depends only on operations that stand before it, so the
  dependencies are closed and acyclic.\<close>

theorem generated_plan_is_well_formed:
  assumes "inj uid"
  shows "distinct (map op_ID (GeneratePlan uid d ms))
    \<and> (\<forall>k < length (GeneratePlan uid d ms). \<forall>dep \<in> set (op_DependsOn (GeneratePlan uid d ms ! k)).
         \<exists>j < k. op_ID (GeneratePlan uid d ms ! j) = dep)"
proof -
  let ?ops = "GeneratePlan uid d ms"
  have ok: "plan_ok ?ops" by (rule GeneratePlan_ok [OF assms])
  have "\<exists>j < k. op_ID (?ops ! j) = dep" if "k < length ?ops" "dep \<in> set (op_DependsOn (?ops ! k))" for k dep
  proof -
    have "dep \<in> op_ID ` set (take k ?ops)" using ok that by (auto simp: plan_ok_def)
    then obtain j where "j < length (take k ?ops)" "op_ID (take k ?ops ! j) = dep"
      by (metis (no_types, lifting) image_iff in_set_conv_nth)
    then show ?thesis using that(1) by (intro exI [of _ j]) simp
  qed
  then show ?thesis using ok by (simp add: plan_ok_def)
qed

lemma inj_replicate_x: "inj (\<lambda>n. replicate n CHR ''x'')"
  by (rule injI) (metis length_replicate)

lemma generated_plan_is_well_formed_witness:
  "distinct (map op_ID (GeneratePlan (\<lambda>n. replicate n CHR ''x'') zero_PlacementDecisions
     [\<lparr>mg_AppID = ''a'', mg_SourceReplicaID = ''r'', mg_TargetClusterID = ''c'',
       mg_SchedulingConstraints = zero_SchedulingConstraints\<rparr>]))"
  using generated_plan_is_well_formed [OF inj_replicate_x] by blast

text \<open>C13: The plan carries out exactly the decisions, in the order preemptions, scale-downs,
  scale-ups, migrations, a migration as a scale-up followed by the scale-down of its source, each
  under the identifier drawn for its position. A scale-up waits for exactly the preemptions in its
  cluster, the scale-down of a migration for exactly the scale-up before it; preemptions and the
  other scale-downs wait for nothing.\<close>

theorem plan_carries_out_the_decisions:
  "map op_Payload (GeneratePlan uid d ms) = map PayloadPreempt (pl_Preemptions d)
       @ map PayloadScaleDown (pl_ScaleDowns d) @ map PayloadScaleUp (pl_ScaleUps d)
       @ concat (map (\<lambda>m. [PayloadScaleUp (migration_up m), PayloadScaleDown (migration_down m)]) ms)
     \<and> map op_ID (GeneratePlan uid d ms) = map uid [0..<length (GeneratePlan uid d ms)]
     \<and> map op_DependsOn (GeneratePlan uid d ms) =
         (let pre = \<lambda>c. map uid (filter (\<lambda>i. pd_ClusterID (pl_Preemptions d ! i) = c) [0..<length (pl_Preemptions d)]);
              n = length (pl_Preemptions d) + length (pl_ScaleDowns d) + length (pl_ScaleUps d)
          in replicate (length (pl_Preemptions d) + length (pl_ScaleDowns d)) []
             @ map (\<lambda>su. pre (su_ClusterID su)) (pl_ScaleUps d)
             @ concat (map (\<lambda>(j, m). [pre (mg_TargetClusterID m), [uid (n + 2 * j)]]) (enumerate 0 ms)))
     \<and> (\<forall>op \<in> set (GeneratePlan uid d ms). op_Type op = (case op_Payload op of
           PayloadPreempt p \<Rightarrow> OperationPreempt | PayloadScaleDown sd \<Rightarrow> OperationScaleDown
         | _ \<Rightarrow> OperationScaleUp))"
  using GeneratePlan_payloads [of uid d ms] GeneratePlan_dependencies [of uid d ms] GeneratePlan_ids [of uid d ms]
    GeneratePlan_types [of _ uid d ms]
  by (simp add: plan_payloads_def plan_deps_def cluster_preemptions_def)

lemma plan_carries_out_the_decisions_witness:
  "map op_Type (GeneratePlan (\<lambda>n. replicate n CHR ''x'') zero_PlacementDecisions
     [\<lparr>mg_AppID = ''a'', mg_SourceReplicaID = ''r'', mg_TargetClusterID = ''c'',
       mg_SchedulingConstraints = zero_SchedulingConstraints\<rparr>]) = [OperationScaleUp, OperationScaleDown]
   \<and> map op_DependsOn (GeneratePlan (\<lambda>n. replicate n CHR ''x'') zero_PlacementDecisions
     [\<lparr>mg_AppID = ''a'', mg_SourceReplicaID = ''r'', mg_TargetClusterID = ''c'',
       mg_SchedulingConstraints = zero_SchedulingConstraints\<rparr>]) = [[], [[]]]"
proof -
  let ?ms = "[\<lparr>mg_AppID = ''a'', mg_SourceReplicaID = ''r'', mg_TargetClusterID = ''c'',
       mg_SchedulingConstraints = zero_SchedulingConstraints\<rparr>]"
  note P = plan_carries_out_the_decisions [of "\<lambda>n. replicate n CHR ''x''" zero_PlacementDecisions ?ms]
  have "map op_DependsOn (GeneratePlan (\<lambda>n. replicate n CHR ''x'') zero_PlacementDecisions ?ms) = [[], [[]]]"
    unfolding conjunct1 [OF conjunct2 [OF conjunct2 [OF P]]] by (simp add: zero_PlacementDecisions_def)
  moreover have "map op_Type (GeneratePlan (\<lambda>n. replicate n CHR ''x'') zero_PlacementDecisions ?ms)
      = [OperationScaleUp, OperationScaleDown]" by code_simp
  ultimately show ?thesis by blast
qed

end
