(* ===== verification/Executor.thy ===== *)
theory Executor
  imports PlanGen
begin

text \<open>
  The loop of \<open>internal/executor/executor.go\<close>: \<open>Execute\<close> starts a goroutine for every
  operation whose dependencies have completed, waits for one result, and aborts the transitive
  dependents of an operation that failed.

  What a goroutine returns is the argument \<open>outcome\<close> (theory \<open>Operations\<close> models what it
  does), and the order in which results arrive, or the moment the context is cancelled, is the
  argument \<open>env\<close>: \<open>env n\<close> is what the \<open>n\<close>-th \<open>select\<close> of the loop chooses. A theorem for
  every \<open>outcome\<close>, \<open>env\<close> and \<open>od\<close> is one for every execution.
\<close>

section \<open>State\<close>

datatype opStatus = opPending | opInFlight | opCompleted | opFailed | opAborted

record 'e FailedOp =
  fo_OperationID :: OperationID
  fo_Type :: OperationType
  fo_Err :: 'e

record 'e ExecutionResult =
  er_Completed :: "OperationID list"
  er_Failed :: "'e FailedOp list"
  er_Aborted :: "OperationID list"

text \<open>The indices built once per plan; \<open>ix_status\<close> is the initial status map.\<close>

record PlanIndex =
  ix_opByID :: "(OperationID, Operation) gomap"
  ix_status :: "(OperationID, opStatus) gomap"
  ix_dependents :: "(OperationID, OperationID list) gomap"

text \<open>
  The local variables of the loop. \<open>ex_running\<close> holds the operations whose goroutine has been
  started and whose result has not been received; the code's counter \<open>inflight\<close> is its length.
\<close>

record 'e Exec =
  ex_status :: "(OperationID, opStatus) gomap"
  ex_pending :: int
  ex_running :: "OperationID list"
  ex_completed :: "OperationID list"
  ex_failed :: "'e FailedOp list"
  ex_aborted :: "OperationID list"

datatype turn =
  Receive nat
| Cancelled "nat list"

definition zero_Operation :: Operation where
  "zero_Operation = \<lparr>op_ID = '''', op_Type = OperationMigrate, op_Payload = PayloadOther, op_DependsOn = []\<rparr>"

section \<open>Indices\<close>

definition add_dependent :: "OperationID \<Rightarrow> OperationID \<Rightarrow> (OperationID, OperationID list) gomap \<Rightarrow>
    (OperationID, OperationID list) gomap" where
  "add_dependent i dep m = gput dep (gget_or [] m dep @ [i]) m"

definition index_op :: "Operation \<Rightarrow> PlanIndex \<Rightarrow> PlanIndex" where
  "index_op op ix =
     \<lparr>ix_opByID = gput (op_ID op) op (ix_opByID ix),
      ix_status = gput (op_ID op) opPending (ix_status ix),
      ix_dependents = fold (add_dependent (op_ID op)) (op_DependsOn op) (ix_dependents ix)\<rparr>"

definition build_index :: "ExecutionPlan \<Rightarrow> PlanIndex" where
  "build_index plan = fold index_op plan \<lparr>ix_opByID = [], ix_status = [], ix_dependents = []\<rparr>"

definition op_of :: "PlanIndex \<Rightarrow> OperationID \<Rightarrow> Operation" where
  "op_of ix i = gget_or zero_Operation (ix_opByID ix) i"

section \<open>The loop\<close>

text \<open>An identifier no operation has reads as the zero value \<open>opPending\<close>.\<close>

abbreviation status_of :: "(OperationID, opStatus) gomap \<Rightarrow> OperationID \<Rightarrow> opStatus" where
  "status_of \<equiv> gget_or opPending"

definition depsCompleted :: "Operation \<Rightarrow> (OperationID, opStatus) gomap \<Rightarrow> bool" where
  "depsCompleted op status \<longleftrightarrow> list_all (\<lambda>dep. status_of status dep = opCompleted) (op_DependsOn op)"

text \<open>The breadth-first search of \<open>abortTransitive\<close>; it ends although the graph may be cyclic.\<close>

function abort_bfs :: "(OperationID, OperationID list) gomap \<Rightarrow> OperationID list \<Rightarrow> OperationID list \<Rightarrow>
    (OperationID, opStatus) gomap \<Rightarrow> OperationID list \<Rightarrow>
    (OperationID, opStatus) gomap \<times> OperationID list" where
  "abort_bfs dependents [] visited status abortedIDs = (status, abortedIDs)"
| "abort_bfs dependents (i # queue) visited status abortedIDs =
     (if i \<in> set visited then abort_bfs dependents queue visited status abortedIDs
      else if status_of status i = opPending
      then abort_bfs dependents (queue @ gget_or [] dependents i) (i # visited)
             (gput i opAborted status) (abortedIDs @ [i])
      else abort_bfs dependents (queue @ gget_or [] dependents i) (i # visited) status abortedIDs)"
  by pat_completeness auto

definition unvisited :: "('k, 'v) gomap \<Rightarrow> 'k list \<Rightarrow> nat" where
  "unvisited m visited = card (fst ` set m - set visited)"

lemma unvisited_Cons:
  assumes "i \<notin> set visited"
  shows "unvisited m (i # visited) < unvisited m visited
    \<or> unvisited m (i # visited) = unvisited m visited \<and> gget_or [] m i = []"
proof (cases "i \<in> fst ` set m")
  case True
  then have "fst ` set m - set (i # visited) \<subset> fst ` set m - set visited" using assms by auto
  then show ?thesis unfolding unvisited_def by (intro disjI1 psubset_card_mono) simp_all
next
  case False
  then have "fst ` set m - set (i # visited) = fst ` set m - set visited" by auto
  moreover have "gget m i = None" using False by (simp add: gget_None_keys)
  ultimately show ?thesis by (simp add: unvisited_def gget_or_def)
qed

termination abort_bfs
proof (relation "measures [\<lambda>(m, queue, visited, status, ids). unvisited m visited,
    \<lambda>(m, queue, visited, status, ids). length queue]", goal_cases)
  case (3 m i queue visited status ids)
  then show ?case using unvisited_Cons [OF 3(1), of m] by auto
next
  case (4 m i queue visited status ids)
  then show ?case using unvisited_Cons [OF 4(1), of m] by auto
qed simp_all

definition abortTransitive :: "OperationID \<Rightarrow> (OperationID, OperationID list) gomap \<Rightarrow>
    (OperationID, opStatus) gomap \<Rightarrow> (OperationID, opStatus) gomap \<times> OperationID list" where
  "abortTransitive failedID dependents status =
     abort_bfs dependents (gget_or [] dependents failedID) [failedID] status []"

definition dispatch_one :: "PlanIndex \<Rightarrow> OperationID \<Rightarrow> 'e Exec \<Rightarrow> 'e Exec" where
  "dispatch_one ix i st =
     (if status_of (ex_status st) i \<noteq> opPending then st
      else if \<not> depsCompleted (op_of ix i) (ex_status st) then st
      else st\<lparr>ex_status := gput i opInFlight (ex_status st), ex_pending := ex_pending st - 1,
              ex_running := ex_running st @ [i]\<rparr>)"

definition dispatch_ready :: "PlanIndex \<Rightarrow> orders \<Rightarrow> 'e Exec \<Rightarrow> 'e Exec" where
  "dispatch_ready ix od st = fold (dispatch_one ix) (map fst (range_order od (ex_status st))) st"

text \<open>Bookkeeping for one result, as in both arms of the \<open>select\<close>.\<close>

definition settle :: "PlanIndex \<Rightarrow> (Operation \<Rightarrow> 'e option) \<Rightarrow> OperationID \<Rightarrow> 'e Exec \<Rightarrow> 'e Exec" where
  "settle ix outcome i st =
     (let st1 = st\<lparr>ex_running := remove1 i (ex_running st)\<rparr>
      in case outcome (op_of ix i) of
           Some err \<Rightarrow> st1\<lparr>ex_status := gput i opFailed (ex_status st1),
             ex_failed := ex_failed st1 @ [\<lparr>fo_OperationID = i, fo_Type = op_Type (op_of ix i), fo_Err = err\<rparr>]\<rparr>
         | None \<Rightarrow> st1\<lparr>ex_status := gput i opCompleted (ex_status st1), ex_completed := ex_completed st1 @ [i]\<rparr>)"

definition receive :: "PlanIndex \<Rightarrow> (Operation \<Rightarrow> 'e option) \<Rightarrow> OperationID \<Rightarrow> 'e Exec \<Rightarrow> 'e Exec" where
  "receive ix outcome i st =
     (let st1 = settle ix outcome i st
      in if outcome (op_of ix i) = None then st1
         else let (status, abortedIDs) = abortTransitive i (ix_dependents ix) (ex_status st1)
              in st1\<lparr>ex_status := status, ex_aborted := ex_aborted st1 @ abortedIDs,
                     ex_pending := ex_pending st1 - int (length abortedIDs)\<rparr>)"

definition abort_one :: "OperationID \<Rightarrow> 'e Exec \<Rightarrow> 'e Exec" where
  "abort_one i st =
     (if status_of (ex_status st) i = opPending
      then st\<lparr>ex_status := gput i opAborted (ex_status st), ex_aborted := ex_aborted st @ [i],
              ex_pending := ex_pending st - 1\<rparr>
      else st)"

definition abort_pending :: "orders \<Rightarrow> 'e Exec \<Rightarrow> 'e Exec" where
  "abort_pending od st = fold abort_one (map fst (range_order od (ex_status st))) st"

definition cancel :: "PlanIndex \<Rightarrow> (Operation \<Rightarrow> 'e option) \<Rightarrow> orders \<Rightarrow> nat list \<Rightarrow> 'e Exec \<Rightarrow> 'e Exec" where
  "cancel ix outcome od arrivals st =
     (let st1 = abort_pending od st
      in fold (settle ix outcome) (shuffle arrivals (ex_running st1)) st1)"

definition exec_turn :: "PlanIndex \<Rightarrow> (Operation \<Rightarrow> 'e option) \<Rightarrow> orders \<Rightarrow> turn \<Rightarrow> 'e Exec \<Rightarrow> 'e Exec" where
  "exec_turn ix outcome od t st =
     (case t of
        Receive k \<Rightarrow> receive ix outcome (ex_running st ! (k mod length (ex_running st))) st
      | Cancelled arrivals \<Rightarrow> cancel ix outcome od arrivals st)"

section \<open>The loop ends\<close>

text \<open>
  Every round receives at least one result, and no operation goes back to pending: the number of
  pending entries plus running goroutines falls.
\<close>

definition pending_ids :: "(OperationID, opStatus) gomap \<Rightarrow> OperationID set" where
  "pending_ids status = {i. gget status i = Some opPending}"

definition work_left :: "'e Exec \<Rightarrow> nat" where
  "work_left st = card (pending_ids (ex_status st)) + length (ex_running st)"

lemma finite_pending [simp]: "finite (pending_ids status)"
proof -
  have "pending_ids status \<subseteq> fst ` set status"
    by (auto simp: pending_ids_def dest!: gget_mem intro: rev_image_eqI)
  then show ?thesis by (rule finite_subset) simp
qed

lemma pending_ids_gput:
  "pending_ids (gput i s status) = (if s = opPending then insert i (pending_ids status) else pending_ids status - {i})"
  by (auto simp: pending_ids_def split: if_splits)

lemma status_of_pending: "gget status i \<noteq> None \<Longrightarrow> status_of status i = opPending \<longleftrightarrow> i \<in> pending_ids status"
  by (auto simp: gget_or_def pending_ids_def split: option.splits)

lemma keys_gput: "fst ` set (gput k v m) = insert k (fst ` set m)"
  by (induction m) auto

lemma dispatch_one_keys:
  "i \<in> fst ` set (ex_status st) \<Longrightarrow> fst ` set (ex_status (dispatch_one ix i st)) = fst ` set (ex_status st)"
  by (auto simp: dispatch_one_def keys_gput)

lemma dispatch_one_work:
  assumes "i \<in> fst ` set (ex_status st)"
  shows "work_left (dispatch_one ix i st) = work_left st"
proof (cases "i \<in> pending_ids (ex_status st)")
  case True
  then have "card (pending_ids (ex_status st) - {i}) + 1 = card (pending_ids (ex_status st))"
    by (metis Suc_eq_plus1 card.remove finite_pending)
  then show ?thesis by (auto simp: dispatch_one_def work_left_def pending_ids_gput)
next
  case False
  have "gget (ex_status st) i \<noteq> None" using assms by (simp add: gget_None_keys)
  then have "status_of (ex_status st) i \<noteq> opPending" using False status_of_pending by blast
  then show ?thesis by (simp add: dispatch_one_def)
qed

lemma dispatch_fold_work:
  "set ids \<subseteq> fst ` set (ex_status st) \<Longrightarrow> work_left (fold (dispatch_one ix) ids st) = work_left st"
  by (induction ids arbitrary: st) (simp_all add: dispatch_one_work dispatch_one_keys)

lemma dispatch_ready_work: "work_left (dispatch_ready ix od st) = work_left st"
  unfolding dispatch_ready_def by (rule dispatch_fold_work) simp

lemma abort_bfs_pending:
  "pending_ids (fst (abort_bfs dependents queue visited status ids)) \<subseteq> pending_ids status"
  by (induction dependents queue visited status ids rule: abort_bfs.induct) (auto simp: pending_ids_gput)

lemma settle_work: "i \<in> set (ex_running st) \<Longrightarrow> work_left (settle ix outcome i st) < work_left st"
proof -
  assume i: "i \<in> set (ex_running st)"
  have "card (pending_ids (ex_status st) - {i}) \<le> card (pending_ids (ex_status st))"
    by (rule card_mono) auto
  moreover have "Suc (length (remove1 i (ex_running st))) = length (ex_running st)"
    using i by (simp add: length_remove1) (metis Suc_pred length_pos_if_in_set)
  ultimately show ?thesis
    by (auto simp: settle_def work_left_def Let_def pending_ids_gput split: option.split)
qed

lemma receive_work:
  assumes "i \<in> set (ex_running st)"
  shows "work_left (receive ix outcome i st) < work_left st"
proof -
  let ?st1 = "settle ix outcome i st"
  have "work_left (receive ix outcome i st) \<le> work_left ?st1"
    using card_mono [OF finite_pending abort_bfs_pending]
    by (simp add: receive_def Let_def work_left_def abortTransitive_def split_beta)
  then show ?thesis using settle_work [OF assms, of ix outcome] by simp
qed

lemma abort_one_work: "work_left (abort_one i st) \<le> work_left st \<and> ex_running (abort_one i st) = ex_running st"
proof -
  have "card (pending_ids (ex_status st) - {i}) \<le> card (pending_ids (ex_status st))"
    by (rule card_mono) auto
  then show ?thesis by (simp add: abort_one_def work_left_def pending_ids_gput)
qed

lemma abort_fold_work: "work_left (fold abort_one ids st) \<le> work_left st \<and> ex_running (fold abort_one ids st) = ex_running st"
  by (induction ids arbitrary: st) (use abort_one_work order_trans in \<open>fastforce+\<close>)

lemma settle_running: "ex_running (settle ix outcome i st) = remove1 i (ex_running st)"
  by (simp add: settle_def Let_def split: option.split)

lemma settle_fold_work:
  "mset is \<subseteq># mset (ex_running st) \<Longrightarrow>
     work_left (fold (settle ix outcome) is st) + length is \<le> work_left st"
proof (induction "is" arbitrary: st)
  case (Cons i "is")
  have i: "i \<in> set (ex_running st)" using Cons.prems by (metis mset.simps(2) mset_subset_eq_insertD set_mset_mset)
  have "mset is \<subseteq># mset (ex_running (settle ix outcome i st))"
    using Cons.prems by (simp add: settle_running insert_subset_eq_iff)
  from Cons.IH [OF this] show ?case using settle_work [OF i, of ix outcome] by simp
qed simp

lemma exec_turn_work:
  assumes "ex_running st \<noteq> []"
  shows "work_left (exec_turn ix outcome od t st) < work_left st"
proof (cases t)
  case (Receive k)
  then show ?thesis using assms by (simp add: exec_turn_def receive_work)
next
  case (Cancelled arrivals)
  let ?st1 = "abort_pending od st"
  have r: "ex_running ?st1 = ex_running st" and w: "work_left ?st1 \<le> work_left st"
    unfolding abort_pending_def using abort_fold_work by blast+
  have "work_left (fold (settle ix outcome) (shuffle arrivals (ex_running ?st1)) ?st1) + length (ex_running ?st1) \<le> work_left ?st1"
    using settle_fold_work [of "shuffle arrivals (ex_running ?st1)" ?st1 ix outcome] by simp
  moreover have "0 < length (ex_running ?st1)" using assms r by simp
  ultimately have "work_left (cancel ix outcome od arrivals st) < work_left st"
    unfolding cancel_def Let_def using w by linarith
  then show ?thesis using Cancelled by (simp add: exec_turn_def)
qed

function exec_loop :: "PlanIndex \<Rightarrow> (Operation \<Rightarrow> 'e option) \<Rightarrow> (nat \<Rightarrow> turn) \<Rightarrow> orders \<Rightarrow> nat \<Rightarrow> 'e Exec \<Rightarrow> 'e Exec" where
  "exec_loop ix outcome env od n st =
     (if ex_pending st + int (length (ex_running st)) > 0
      then let st1 = dispatch_ready ix (sub (sub od n) 0) st
           in if ex_running st1 = [] then st1
              else exec_loop ix outcome env od (Suc n) (exec_turn ix outcome (sub (sub od n) 1) (env n) st1)
      else st)"
  by pat_completeness auto
termination
proof (relation "measure (\<lambda>(ix, outcome, env, od, n, st). work_left st)", goal_cases)
  case (2 ix outcome env od n st st1)
  then show ?case using exec_turn_work [of st1] dispatch_ready_work [of ix "sub (sub od n) 0" st] by simp
qed simp

declare exec_loop.simps [simp del]

definition start_exec :: "ExecutionPlan \<Rightarrow> 'e Exec" where
  "start_exec plan = \<lparr>ex_status = ix_status (build_index plan), ex_pending = int (length plan), ex_running = [],
     ex_completed = [], ex_failed = [], ex_aborted = []\<rparr>"

definition exec_result :: "'e Exec \<Rightarrow> 'e ExecutionResult" where
  "exec_result st = \<lparr>er_Completed = ex_completed st, er_Failed = ex_failed st, er_Aborted = ex_aborted st\<rparr>"

definition Execute :: "orders \<Rightarrow> (nat \<Rightarrow> turn) \<Rightarrow> (Operation \<Rightarrow> 'e option) \<Rightarrow> ExecutionPlan \<Rightarrow> 'e ExecutionResult" where
  "Execute od env outcome plan =
     (if plan = [] then \<lparr>er_Completed = [], er_Failed = [], er_Aborted = []\<rparr>
      else exec_result (exec_loop (build_index plan) outcome env od 0 (start_exec plan)))"

end
