(* ===== verification/ExecutorInv.thy ===== *)
theory ExecutorInv
  imports Executor
begin

text \<open>
  Correctness of the executor's loop (theory \<open>Executor\<close>): the statuses and the lists of the
  result are kept in step (\<open>books\<close>), nothing is started before its dependencies (\<open>deps_done\<close>),
  what depends on a failure is aborted (\<open>blocked\<close>), and only that is (\<open>reasons\<close>, while
  nothing is cancelled).
\<close>

section \<open>What the indices hold\<close>

lemma build_index_snoc: "build_index (plan @ [op]) = index_op op (build_index plan)"
  by (simp add: build_index_def)

lemma index_status:
  "gget (ix_status (build_index plan)) i = (if i \<in> op_ID ` set plan then Some opPending else None)"
proof (induction plan rule: rev_induct)
  case (snoc op plan)
  then show ?case by (simp add: build_index_snoc index_op_def)
qed (simp add: build_index_def)

lemma index_op_of:
  "distinct (map op_ID plan) \<Longrightarrow> op \<in> set plan \<Longrightarrow> op_of (build_index plan) (op_ID op) = op"
proof (induction plan rule: rev_induct)
  case (snoc o' plan)
  have "op_ID o' \<noteq> op_ID op" if "op \<in> set plan" using that snoc.prems(1) by (auto simp: rev_image_eqI)
  then show ?case using snoc by (auto simp: build_index_snoc index_op_def op_of_def)
qed simp

lemma add_dependents:
  "set (gget_or [] (fold (add_dependent i) deps m) d) = set (gget_or [] m d) \<union> (if d \<in> set deps then {i} else {})"
  by (induction deps arbitrary: m) (auto simp: add_dependent_def)

lemma index_dependents:
  "set (gget_or [] (ix_dependents (build_index plan)) d) = {op_ID op |op. op \<in> set plan \<and> d \<in> set (op_DependsOn op)}"
proof (induction plan rule: rev_induct)
  case (snoc op plan)
  then show ?case by (auto simp: build_index_snoc index_op_def add_dependents)
qed (simp add: build_index_def)

section \<open>What the search aborts\<close>

text \<open>
  \<open>W\<close> is the set of operations the search visits: the least set that holds the queue and is
  closed under dependents, apart from what was visited before.
\<close>

definition search_visits :: "(OperationID, OperationID list) gomap \<Rightarrow> OperationID list \<Rightarrow> OperationID list \<Rightarrow> OperationID set \<Rightarrow> bool" where
  "search_visits dependents queue visited W \<longleftrightarrow>
     W \<inter> set visited = {} \<and> set queue \<subseteq> W \<union> set visited
     \<and> (\<forall>w \<in> W. set (gget_or [] dependents w) \<subseteq> W \<union> set visited)
     \<and> (\<forall>w \<in> W. w \<in> set queue \<or> (\<exists>u \<in> W. w \<in> set (gget_or [] dependents u)))
     \<and> (\<forall>B. set queue \<subseteq> B \<longrightarrow> (\<forall>b \<in> B. set (gget_or [] dependents b) \<subseteq> B) \<longrightarrow> W \<subseteq> B)"

definition aborts :: "OperationID set \<Rightarrow> (OperationID, opStatus) gomap \<Rightarrow> (OperationID, opStatus) gomap \<Rightarrow> OperationID list \<Rightarrow> bool" where
  "aborts W status status' new \<longleftrightarrow>
     (\<forall>k. gget status' k = (if k \<in> W \<and> status_of status k = opPending then Some opAborted else gget status k))
     \<and> distinct new \<and> set new = {k \<in> W. status_of status k = opPending}"

lemma search_visits_step:
  assumes W: "search_visits dependents (queue @ gget_or [] dependents i) (i # visited) W" and "i \<notin> set visited"
  shows "search_visits dependents (i # queue) visited (insert i W)"
  unfolding search_visits_def
proof (intro conjI allI impI)
  show "insert i W \<inter> set visited = {}" "set (i # queue) \<subseteq> insert i W \<union> set visited"
    "\<forall>w \<in> insert i W. set (gget_or [] dependents w) \<subseteq> insert i W \<union> set visited"
    using assms unfolding search_visits_def by auto
  show "\<forall>w \<in> insert i W. w \<in> set (i # queue) \<or> (\<exists>u \<in> insert i W. w \<in> set (gget_or [] dependents u))"
  proof
    fix w assume "w \<in> insert i W"
    then have "w = i \<or> w \<in> set (queue @ gget_or [] dependents i) \<or> (\<exists>u \<in> W. w \<in> set (gget_or [] dependents u))"
      using W unfolding search_visits_def by blast
    then show "w \<in> set (i # queue) \<or> (\<exists>u \<in> insert i W. w \<in> set (gget_or [] dependents u))" by auto
  qed
next
  fix B assume B: "set (i # queue) \<subseteq> B" "\<forall>b \<in> B. set (gget_or [] dependents b) \<subseteq> B"
  then have "set (queue @ gget_or [] dependents i) \<subseteq> B" by simp
  then have "W \<subseteq> B" using W B(2) unfolding search_visits_def by blast
  then show "insert i W \<subseteq> B" using B(1) by simp
qed

lemma search_visits_skip:
  assumes W: "search_visits dependents queue visited W" and "i \<in> set visited"
  shows "search_visits dependents (i # queue) visited W"
  unfolding search_visits_def
proof (intro conjI allI impI)
  show "W \<inter> set visited = {}" "set (i # queue) \<subseteq> W \<union> set visited"
    "\<forall>w \<in> W. set (gget_or [] dependents w) \<subseteq> W \<union> set visited"
    using assms unfolding search_visits_def by auto
  show "\<forall>w \<in> W. w \<in> set (i # queue) \<or> (\<exists>u \<in> W. w \<in> set (gget_or [] dependents u))"
    using W unfolding search_visits_def by (metis list.set_intros(2))
  show "W \<subseteq> B" if "set (i # queue) \<subseteq> B" "\<forall>b \<in> B. set (gget_or [] dependents b) \<subseteq> B" for B
    using W that unfolding search_visits_def by auto
qed

lemma aborts_step:
  assumes "aborts W (gput i opAborted status) status' new" and "status_of status i = opPending" and "i \<notin> W"
  shows "aborts (insert i W) status status' (i # new)"
  using assms by (auto simp: aborts_def)

lemma aborts_keep:
  assumes "aborts W status status' new" and "status_of status i \<noteq> opPending"
  shows "aborts (insert i W) status status' new"
  using assms by (auto simp: aborts_def)

lemma abort_bfs_spec:
  "\<exists>W status' new. abort_bfs dependents queue visited status ids = (status', ids @ new)
     \<and> search_visits dependents queue visited W \<and> aborts W status status' new"
proof (induction dependents queue visited status ids rule: abort_bfs.induct)
  case (1 dependents visited status ids)
  have "search_visits dependents [] visited {} \<and> aborts {} status status []"
    by (auto simp: search_visits_def aborts_def)
  then show ?case by fastforce
next
  case (2 dependents i queue visited status ids)
  show ?case
  proof (cases "i \<in> set visited")
    case True
    from "2.IH"(1) [OF True] show ?thesis using True search_visits_skip by (metis abort_bfs.simps(2))
  next
    case new: False
    show ?thesis
    proof (cases "status_of status i = opPending")
      case True
      from "2.IH"(2) [OF new True] obtain W status' ys
        where W: "abort_bfs dependents (queue @ gget_or [] dependents i) (i # visited) (gput i opAborted status) (ids @ [i])
            = (status', (ids @ [i]) @ ys)"
          "search_visits dependents (queue @ gget_or [] dependents i) (i # visited) W"
          "aborts W (gput i opAborted status) status' ys" by blast
      have "i \<notin> W" using W(2) by (auto simp: search_visits_def)
      then show ?thesis
        using W(1) new True search_visits_step [OF W(2) new] aborts_step [OF W(3) True]
        by (intro exI [of _ "insert i W"] exI [of _ status'] exI [of _ "i # ys"]) simp
    next
      case False
      from "2.IH"(3) [OF new False] obtain W status' ys
        where W: "abort_bfs dependents (queue @ gget_or [] dependents i) (i # visited) status ids = (status', ids @ ys)"
          "search_visits dependents (queue @ gget_or [] dependents i) (i # visited) W"
          "aborts W status status' ys" by blast
      then show ?thesis
        using new False search_visits_step [OF W(2) new] aborts_keep [OF W(3) False]
        by (intro exI [of _ "insert i W"] exI [of _ status'] exI [of _ ys]) simp
    qed
  qed
qed

section \<open>The invariant of the loop\<close>

text \<open>The lists of the result are the statuses, listed once each.\<close>

definition tracks :: "opStatus \<Rightarrow> OperationID list \<Rightarrow> (OperationID, opStatus) gomap \<Rightarrow> bool" where
  "tracks s ids status \<longleftrightarrow> distinct ids \<and> (\<forall>i. i \<in> set ids \<longleftrightarrow> gget status i = Some s)"

definition books :: "ExecutionPlan \<Rightarrow> 'e Exec \<Rightarrow> bool" where
  "books plan st \<longleftrightarrow>
     (\<forall>i. gget (ex_status st) i = None \<longleftrightarrow> i \<notin> op_ID ` set plan)
     \<and> tracks opInFlight (ex_running st) (ex_status st)
     \<and> tracks opCompleted (ex_completed st) (ex_status st)
     \<and> tracks opFailed (map fo_OperationID (ex_failed st)) (ex_status st)
     \<and> tracks opAborted (ex_aborted st) (ex_status st)
     \<and> ex_pending st = int (card (pending_ids (ex_status st)))"

definition deps_done :: "ExecutionPlan \<Rightarrow> (OperationID, opStatus) gomap \<Rightarrow> bool" where
  "deps_done plan status \<longleftrightarrow> (\<forall>op \<in> set plan.
     gget status (op_ID op) \<in> {Some opInFlight, Some opCompleted, Some opFailed} \<longrightarrow>
     (\<forall>d \<in> set (op_DependsOn op). gget status d = Some opCompleted))"

definition blocked :: "ExecutionPlan \<Rightarrow> (OperationID, opStatus) gomap \<Rightarrow> bool" where
  "blocked plan status \<longleftrightarrow> (\<forall>op \<in> set plan. \<forall>d \<in> set (op_DependsOn op).
     gget status d \<in> {Some opFailed, Some opAborted} \<longrightarrow> gget status (op_ID op) = Some opAborted)"

definition results_ok :: "ExecutionPlan \<Rightarrow> (Operation \<Rightarrow> 'e option) \<Rightarrow> 'e Exec \<Rightarrow> bool" where
  "results_ok plan outcome st \<longleftrightarrow>
     (\<forall>k < length (ex_completed st). \<forall>op \<in> set plan. op_ID op = ex_completed st ! k \<longrightarrow>
        outcome op = None \<and> set (op_DependsOn op) \<subseteq> set (take k (ex_completed st)))
     \<and> (\<forall>f \<in> set (ex_failed st). \<exists>op \<in> set plan.
          fo_OperationID f = op_ID op \<and> fo_Type f = op_Type op \<and> outcome op = Some (fo_Err f))"

definition exec_inv :: "ExecutionPlan \<Rightarrow> (Operation \<Rightarrow> 'e option) \<Rightarrow> 'e Exec \<Rightarrow> bool" where
  "exec_inv plan outcome st \<longleftrightarrow> books plan st \<and> deps_done plan (ex_status st) \<and> blocked plan (ex_status st)
     \<and> results_ok plan outcome st"

text \<open>Without a cancellation, what is aborted waits for something that failed or was aborted.\<close>

definition reasons :: "ExecutionPlan \<Rightarrow> (OperationID, opStatus) gomap \<Rightarrow> bool" where
  "reasons plan status \<longleftrightarrow> (\<forall>op \<in> set plan. gget status (op_ID op) = Some opAborted \<longrightarrow>
     (\<exists>d \<in> set (op_DependsOn op). gget status d \<in> {Some opFailed, Some opAborted}))"

lemma tracks_other: "tracks s ids status \<Longrightarrow> gget status i \<noteq> Some s \<Longrightarrow> t \<noteq> s \<Longrightarrow> tracks s ids (gput i t status)"
  by (auto simp: tracks_def)

lemma tracks_add: "tracks s ids status \<Longrightarrow> gget status i \<noteq> Some s \<Longrightarrow> tracks s (ids @ [i]) (gput i s status)"
  by (auto simp: tracks_def)

lemma tracks_remove: "tracks s ids status \<Longrightarrow> t \<noteq> s \<Longrightarrow> tracks s (remove1 i ids) (gput i t status)"
  by (auto simp: tracks_def)

lemma card_pending_gput:
  "t \<noteq> opPending \<Longrightarrow> card (pending_ids (gput i t status)) = card (pending_ids status) - (if i \<in> pending_ids status then 1 else 0)"
  by (simp add: pending_ids_gput)

lemma start_inv: "distinct (map op_ID plan) \<Longrightarrow> exec_inv plan outcome (start_exec plan) \<and> reasons plan (ex_status (start_exec plan :: 'e Exec))"
proof -
  assume d: "distinct (map op_ID plan)"
  have "pending_ids (ix_status (build_index plan)) = op_ID ` set plan"
    by (auto simp: pending_ids_def index_status split: if_splits)
  moreover have "card (op_ID ` set plan) = length plan" using distinct_card [OF d] by simp
  ultimately show ?thesis
    by (auto simp: exec_inv_def start_exec_def books_def tracks_def deps_done_def blocked_def results_ok_def
        reasons_def index_status)
qed

lemma status_of_Some: "gget status i = Some s \<Longrightarrow> status_of status i = s"
  by (simp add: gget_or_def)

lemma status_of_not_pending: "s \<noteq> opPending \<Longrightarrow> status_of status i = s \<longleftrightarrow> gget status i = Some s"
  by (auto simp: gget_or_def split: option.splits)

lemma books_running: "books plan st \<Longrightarrow> i \<in> set (ex_running st) \<longleftrightarrow> gget (ex_status st) i = Some opInFlight"
  by (simp add: books_def tracks_def)

lemma books_op:
  assumes "books plan st" and "gget (ex_status st) i = Some s"
  shows "\<exists>op \<in> set plan. op_ID op = i"
proof -
  have "gget (ex_status st) i = None \<longleftrightarrow> i \<notin> op_ID ` set plan" using assms(1) by (simp add: books_def)
  then show ?thesis using assms(2) by auto
qed

lemma same_op:
  "distinct (map op_ID plan) \<Longrightarrow> op \<in> set plan \<Longrightarrow> op' \<in> set plan \<Longrightarrow> op_ID op' = op_ID op \<Longrightarrow> op' = op"
  by (metis distinct_map inj_onD)

text \<open>How one status update affects the parts of the invariant.\<close>

lemma deps_done_gput:
  assumes "deps_done plan status" and "gget status i \<noteq> Some opCompleted"
    and "\<forall>op \<in> set plan. op_ID op = i \<longrightarrow> t \<in> {opInFlight, opCompleted, opFailed} \<longrightarrow>
      (\<forall>d \<in> set (op_DependsOn op). gget status d = Some opCompleted)"
  shows "deps_done plan (gput i t status)"
  unfolding deps_done_def
proof (intro ballI impI)
  fix op d
  assume op: "op \<in> set plan" and s: "gget (gput i t status) (op_ID op) \<in> {Some opInFlight, Some opCompleted, Some opFailed}"
    and d: "d \<in> set (op_DependsOn op)"
  have "gget status d = Some opCompleted"
  proof (cases "op_ID op = i")
    case True
    then have "t \<in> {opInFlight, opCompleted, opFailed}" using s by simp
    then show ?thesis using assms(3) op d True by blast
  next
    case False
    then have "gget status (op_ID op) \<in> {Some opInFlight, Some opCompleted, Some opFailed}" using s by simp
    then show ?thesis using assms(1) op d unfolding deps_done_def by blast
  qed
  then show "gget (gput i t status) d = Some opCompleted" using assms(2) by auto
qed

lemma blocked_gput:
  assumes "blocked plan status" and "gget status i \<noteq> Some opAborted" and "t \<noteq> opFailed" and "t \<noteq> opAborted"
  shows "blocked plan (gput i t status)"
  unfolding blocked_def
proof (intro ballI impI)
  fix op d
  assume op: "op \<in> set plan" and d: "d \<in> set (op_DependsOn op)"
    and s: "gget (gput i t status) d \<in> {Some opFailed, Some opAborted}"
  then have "gget status d \<in> {Some opFailed, Some opAborted}" using assms(3,4) by (simp split: if_splits)
  then have "gget status (op_ID op) = Some opAborted" using assms(1) op d unfolding blocked_def by blast
  then show "gget (gput i t status) (op_ID op) = Some opAborted" using assms(2) by auto
qed

lemma reasons_gput:
  assumes "reasons plan status" and "gget status i \<notin> {Some opFailed, Some opAborted}" and "t \<noteq> opAborted"
  shows "reasons plan (gput i t status)"
  unfolding reasons_def
proof (intro ballI impI)
  fix op assume op: "op \<in> set plan" and s: "gget (gput i t status) (op_ID op) = Some opAborted"
  then have "gget status (op_ID op) = Some opAborted" using assms(3) by (simp split: if_splits)
  then obtain d where "d \<in> set (op_DependsOn op)" "gget status d \<in> {Some opFailed, Some opAborted}"
    using assms(1) op unfolding reasons_def by blast
  then show "\<exists>d \<in> set (op_DependsOn op). gget (gput i t status) d \<in> {Some opFailed, Some opAborted}"
    using assms(2) by (intro bexI [of _ d]) auto
qed

lemma dispatch_inv:
  assumes d: "distinct (map op_ID plan)" and inv: "exec_inv plan outcome st" and r: "gget (ex_status st) i \<noteq> None"
  shows "exec_inv plan outcome (dispatch_one (build_index plan) i st)"
    and "reasons plan (ex_status st) \<Longrightarrow> reasons plan (ex_status (dispatch_one (build_index plan) i st))"
proof -
  let ?st' = "dispatch_one (build_index plan) i st"
  have B: "books plan st" using inv by (simp add: exec_inv_def)
  obtain op where op: "op \<in> set plan" "op_ID op = i" using books_op [OF B] r by blast
  then have oi: "op_of (build_index plan) i = op" using index_op_of [OF d] by blast
  have "exec_inv plan outcome ?st' \<and> (reasons plan (ex_status st) \<longrightarrow> reasons plan (ex_status ?st'))"
  proof (cases "status_of (ex_status st) i = opPending \<and> depsCompleted op (ex_status st)")
    case False
    then have "?st' = st" using oi by (auto simp: dispatch_one_def)
    then show ?thesis using inv by simp
  next
    case True
    then have p: "gget (ex_status st) i = Some opPending" using r by (auto simp: gget_or_def)
    have dc: "gget (ex_status st) x = Some opCompleted" if "x \<in> set (op_DependsOn op)" for x
      using True that by (auto simp: depsCompleted_def list_all_iff status_of_not_pending)
    have st': "?st' = st\<lparr>ex_status := gput i opInFlight (ex_status st), ex_pending := ex_pending st - 1,
        ex_running := ex_running st @ [i]\<rparr>"
      using True oi by (simp add: dispatch_one_def)
    have "0 < card (pending_ids (ex_status st))"
      using p by (simp add: card_gt_0_iff) (auto simp: pending_ids_def)
    then have "int (card (pending_ids (gput i opInFlight (ex_status st)))) = ex_pending st - 1"
      using B p by (simp add: card_pending_gput books_def) (simp add: pending_ids_def)
    moreover have "\<forall>j. gget (gput i opInFlight (ex_status st)) j = None \<longleftrightarrow> j \<notin> op_ID ` set plan"
      using B op by (auto simp: books_def)
    moreover have "tracks opInFlight (ex_running st @ [i]) (gput i opInFlight (ex_status st))"
      using B p by (intro tracks_add) (simp_all add: books_def)
    ultimately have "books plan ?st'"
      using B p unfolding books_def st' by (simp add: tracks_other)
    moreover have "deps_done plan (gput i opInFlight (ex_status st))"
      using inv p dc same_op [OF d op(1)] op(2)
      by (intro deps_done_gput) (auto simp: exec_inv_def)
    moreover have "blocked plan (gput i opInFlight (ex_status st))"
      using inv p by (intro blocked_gput) (simp_all add: exec_inv_def)
    moreover have "results_ok plan outcome ?st'"
      using inv unfolding exec_inv_def results_ok_def st' by simp
    moreover have "reasons plan (ex_status st) \<longrightarrow> reasons plan (gput i opInFlight (ex_status st))"
      using p by (intro impI reasons_gput) simp_all
    ultimately show ?thesis by (simp add: exec_inv_def st')
  qed
  then show "exec_inv plan outcome ?st'" and "reasons plan (ex_status st) \<Longrightarrow> reasons plan (ex_status ?st')" by blast+
qed

lemma settle_fields [simp]:
  "ex_status (settle ix outcome i st) = gput i (if outcome (op_of ix i) = None then opCompleted else opFailed) (ex_status st)"
  "ex_pending (settle ix outcome i st) = ex_pending st"
  "ex_aborted (settle ix outcome i st) = ex_aborted st"
  "ex_running (settle ix outcome i st) = remove1 i (ex_running st)"
  "ex_completed (settle ix outcome i st) = ex_completed st @ (if outcome (op_of ix i) = None then [i] else [])"
  "map fo_OperationID (ex_failed (settle ix outcome i st))
     = map fo_OperationID (ex_failed st) @ (if outcome (op_of ix i) = None then [] else [i])"
  by (auto simp: settle_def Let_def split: option.split)

lemma settle_books:
  assumes B: "books plan st" and i: "i \<in> set (ex_running st)"
  shows "books plan (settle ix outcome i st)"
proof -
  have s: "gget (ex_status st) i = Some opInFlight" using B i by (simp add: books_running)
  obtain op where "op \<in> set plan" "op_ID op = i" using books_op [OF B s] by blast
  then have "\<forall>j. gget (gput i t (ex_status st)) j = None \<longleftrightarrow> j \<notin> op_ID ` set plan" for t
    using B by (auto simp: books_def)
  moreover have "card (pending_ids (gput i t (ex_status st))) = card (pending_ids (ex_status st))" if "t \<noteq> opPending" for t
    using s by (simp add: card_pending_gput [OF that]) (simp add: pending_ids_def)
  ultimately show ?thesis
    using B s unfolding books_def settle_fields by (simp add: tracks_other tracks_add tracks_remove)
qed

lemma settle_results:
  assumes d: "distinct (map op_ID plan)" and B: "books plan st" and D: "deps_done plan (ex_status st)"
    and R: "results_ok plan outcome st" and i: "i \<in> set (ex_running st)"
  shows "deps_done plan (ex_status (settle (build_index plan) outcome i st))"
    and "results_ok plan outcome (settle (build_index plan) outcome i st)"
proof -
  have s: "gget (ex_status st) i = Some opInFlight" using B i by (simp add: books_running)
  obtain op where op: "op \<in> set plan" "op_ID op = i" using books_op [OF B s] by blast
  then have oi: "op_of (build_index plan) i = op" using index_op_of [OF d] by blast
  have dc: "gget (ex_status st) x = Some opCompleted" if "x \<in> set (op_DependsOn op)" for x
  proof -
    have "gget (ex_status st) (op_ID op) \<in> {Some opInFlight, Some opCompleted, Some opFailed}" using op s by simp
    then show ?thesis using D op(1) that unfolding deps_done_def by blast
  qed
  show "deps_done plan (ex_status (settle (build_index plan) outcome i st))"
    unfolding settle_fields
  proof (rule deps_done_gput [OF D])
    show "gget (ex_status st) i \<noteq> Some opCompleted" using s by simp
    have "op' = op" if "op' \<in> set plan" "op_ID op' = i" for op'
      by (rule same_op [OF d op(1) that(1)]) (simp add: op(2) that(2))
    then show "\<forall>op' \<in> set plan. op_ID op' = i \<longrightarrow> (if outcome (op_of (build_index plan) i) = None then opCompleted else opFailed)
        \<in> {opInFlight, opCompleted, opFailed} \<longrightarrow> (\<forall>x \<in> set (op_DependsOn op'). gget (ex_status st) x = Some opCompleted)"
      using dc by metis
  qed
  let ?st' = "settle (build_index plan) outcome i st"
  show "results_ok plan outcome ?st'"
  proof (cases "outcome op")
    case None
    have "outcome op' = None \<and> set (op_DependsOn op') \<subseteq> set (take k (ex_completed st @ [i]))"
      if "k < Suc (length (ex_completed st))" "op' \<in> set plan" "op_ID op' = (ex_completed st @ [i]) ! k" for k op'
    proof (cases "k = length (ex_completed st)")
      case True
      then have "op' = op" using that op same_op [OF d op(1) that(2)] by simp
      then show ?thesis using True None dc B by (auto simp: books_def tracks_def)
    next
      case False
      then have "k < length (ex_completed st)" "op_ID op' = ex_completed st ! k" using that by (simp_all add: nth_append)
      then have "outcome op' = None \<and> set (op_DependsOn op') \<subseteq> set (take k (ex_completed st))"
        using R that(2) unfolding results_ok_def by blast
      then show ?thesis by auto
    qed
    then show ?thesis using R None oi by (simp add: results_ok_def) (simp add: settle_def oi)
  next
    case (Some e)
    then have "?st' = st\<lparr>ex_running := remove1 i (ex_running st), ex_status := gput i opFailed (ex_status st),
        ex_failed := ex_failed st @ [\<lparr>fo_OperationID = i, fo_Type = op_Type op, fo_Err = e\<rparr>]\<rparr>"
      using oi by (simp add: settle_def Let_def)
    then show ?thesis using R Some op by (auto simp: results_ok_def)
  qed
qed

lemma results_ok_cong:
  "ex_completed st' = ex_completed st \<Longrightarrow> ex_failed st' = ex_failed st \<Longrightarrow> results_ok plan outcome st' = results_ok plan outcome st"
  by (simp add: results_ok_def)

text \<open>A result without an error.\<close>

lemma receive_ok_inv:
  assumes d: "distinct (map op_ID plan)" and inv: "exec_inv plan outcome st" and i: "i \<in> set (ex_running st)"
    and ok: "outcome (op_of (build_index plan) i) = None"
  shows "exec_inv plan outcome (receive (build_index plan) outcome i st)"
    and "reasons plan (ex_status st) \<Longrightarrow> reasons plan (ex_status (receive (build_index plan) outcome i st))"
proof -
  have B: "books plan st" and D: "deps_done plan (ex_status st)" and K: "blocked plan (ex_status st)"
    and R: "results_ok plan outcome st" using inv by (simp_all add: exec_inv_def)
  have s: "gget (ex_status st) i = Some opInFlight" using B i by (simp add: books_running)
  have r: "receive (build_index plan) outcome i st = settle (build_index plan) outcome i st"
    using ok by (simp add: receive_def Let_def)
  have "blocked plan (gput i opCompleted (ex_status st))" using s by (intro blocked_gput [OF K]) simp_all
  then show "exec_inv plan outcome (receive (build_index plan) outcome i st)"
    unfolding r exec_inv_def using settle_books [OF B i] settle_results [OF d B D R i] ok by simp
  assume "reasons plan (ex_status st)"
  then have "reasons plan (gput i opCompleted (ex_status st))" using s by (intro reasons_gput) simp_all
  then show "reasons plan (ex_status (receive (build_index plan) outcome i st))" using r ok by simp
qed

text \<open>Aborting a set of operations, those of it that are pending.\<close>

lemma aborts_gget:
  assumes "aborts W status status' new" and "\<forall>w \<in> W. gget status w \<noteq> None"
  shows "gget status' k = (if k \<in> W \<and> gget status k = Some opPending then Some opAborted else gget status k)"
proof -
  have "status_of status k = opPending \<longleftrightarrow> gget status k = Some opPending" if "k \<in> W"
    using assms(2) that by (auto simp: gget_or_def)
  moreover have "gget status' k = (if k \<in> W \<and> status_of status k = opPending then Some opAborted else gget status k)"
    using assms(1) unfolding aborts_def by blast
  ultimately show ?thesis by auto
qed

lemma aborts_new:
  assumes "aborts W status status' new" and "\<forall>w \<in> W. gget status w \<noteq> None"
  shows "distinct new" and "set new = W \<inter> pending_ids status"
proof -
  show "distinct new" using assms(1) by (simp add: aborts_def)
  have "status_of status k = opPending \<longleftrightarrow> gget status k = Some opPending" if "k \<in> W" for k
    using assms(2) that by (auto simp: gget_or_def)
  then show "set new = W \<inter> pending_ids status" using assms(1) by (auto simp: aborts_def pending_ids_def)
qed

lemma tracks_aborts:
  assumes "tracks s ids status" and "aborts W status status' new" and "\<forall>w \<in> W. gget status w \<noteq> None"
    and "s \<noteq> opPending" and "s \<noteq> opAborted"
  shows "tracks s ids status'"
  using assms(1,4,5) unfolding tracks_def by (simp add: aborts_gget [OF assms(2,3)])

lemma aborts_books:
  assumes B: "books plan st" and A: "aborts W (ex_status st) status' new" and W: "\<forall>w \<in> W. gget (ex_status st) w \<noteq> None"
  shows "books plan (st\<lparr>ex_status := status', ex_aborted := ex_aborted st @ new,
           ex_pending := ex_pending st - int (length new)\<rparr>)"
proof -
  note g = aborts_gget [OF A W] and n = aborts_new [OF A W]
  have "pending_ids status' = pending_ids (ex_status st) - set new" using n(2) by (auto simp: pending_ids_def g)
  then have "card (pending_ids status') = card (pending_ids (ex_status st)) - card (set new)"
    by (simp add: card_Diff_subset n(2))
  moreover have "card (set new) \<le> card (pending_ids (ex_status st))" by (rule card_mono) (auto simp: n(2))
  moreover have "card (set new) = length new" by (rule distinct_card [OF n(1)])
  ultimately have "int (card (pending_ids status')) = ex_pending st - int (length new)" using B by (simp add: books_def)
  moreover have "tracks opAborted (ex_aborted st @ new) status'"
    using B n unfolding tracks_def books_def by (auto simp: g pending_ids_def)
  moreover have "\<forall>k. gget status' k = None \<longleftrightarrow> k \<notin> op_ID ` set plan"
  proof
    fix k
    have "gget (ex_status st) k = None \<longleftrightarrow> k \<notin> op_ID ` set plan" using B by (simp add: books_def)
    then show "gget status' k = None \<longleftrightarrow> k \<notin> op_ID ` set plan" by (auto simp: g)
  qed
  ultimately show ?thesis
    using B tracks_aborts [OF _ A W] by (simp add: books_def)
qed

lemma aborts_deps_done:
  assumes D: "deps_done plan status" and A: "aborts W status status' new" and W: "\<forall>w \<in> W. gget status w \<noteq> None"
  shows "deps_done plan status'"
  unfolding deps_done_def
proof (intro ballI impI)
  fix op x assume op: "op \<in> set plan" "gget status' (op_ID op) \<in> {Some opInFlight, Some opCompleted, Some opFailed}"
    "x \<in> set (op_DependsOn op)"
  have "gget status (op_ID op) \<in> {Some opInFlight, Some opCompleted, Some opFailed}"
    using op(2) by (simp add: aborts_gget [OF A W] split: if_splits)
  then have "gget status x = Some opCompleted" using D op(1,3) unfolding deps_done_def by blast
  then show "gget status' x = Some opCompleted" by (simp add: aborts_gget [OF A W])
qed

text \<open>Who waits for something that has not completed is pending or aborted.\<close>

lemma waits:
  assumes "books plan st" and "deps_done plan (ex_status st)" and "op \<in> set plan" and "x \<in> set (op_DependsOn op)"
    and "gget (ex_status st) x \<noteq> Some opCompleted"
  shows "gget (ex_status st) (op_ID op) \<in> {Some opPending, Some opAborted}"
proof -
  have "gget (ex_status st) (op_ID op) \<noteq> None" using assms(1,3) by (simp add: books_def)
  then obtain s where s: "gget (ex_status st) (op_ID op) = Some s" by blast
  have "gget (ex_status st) (op_ID op) \<notin> {Some opInFlight, Some opCompleted, Some opFailed}"
    using assms(2-) unfolding deps_done_def by blast
  then show ?thesis using s by (cases s) simp_all
qed

text \<open>A failure: what the search visits, seen from the state in which \<open>i\<close> has just failed.\<close>

lemma failure_visits:
  assumes B: "books plan st1" and D: "deps_done plan (ex_status st1)" and i: "gget (ex_status st1) i = Some opFailed"
    and S: "search_visits (ix_dependents (build_index plan)) (gget_or [] (ix_dependents (build_index plan)) i) [i] W"
  shows "w \<in> W \<Longrightarrow> gget (ex_status st1) w \<in> {Some opPending, Some opAborted}"
    and "op \<in> set plan \<Longrightarrow> x \<in> set (op_DependsOn op) \<Longrightarrow> x = i \<or> x \<in> W \<Longrightarrow> op_ID op \<in> W"
    and "op \<in> set plan \<Longrightarrow> op_ID op \<in> W \<Longrightarrow> distinct (map op_ID plan) \<Longrightarrow> \<exists>x \<in> set (op_DependsOn op). x = i \<or> x \<in> W"
proof -
  let ?deps = "\<lambda>x. set (gget_or [] (ix_dependents (build_index plan)) x)"
  let ?B = "{k. gget (ex_status st1) k \<in> {Some opPending, Some opAborted}}"
  have "?deps x \<subseteq> ?B" if "gget (ex_status st1) x \<noteq> Some opCompleted" for x
    unfolding index_dependents using waits [OF B D] that by blast
  then have "?deps i \<subseteq> ?B" and "\<forall>b \<in> ?B. ?deps b \<subseteq> ?B" using i by auto
  then have WB: "W \<subseteq> ?B" using S unfolding search_visits_def by blast
  then show "w \<in> W \<Longrightarrow> gget (ex_status st1) w \<in> {Some opPending, Some opAborted}" by blast
  show "op \<in> set plan \<Longrightarrow> x \<in> set (op_DependsOn op) \<Longrightarrow> x = i \<or> x \<in> W \<Longrightarrow> op_ID op \<in> W"
  proof -
    assume op: "op \<in> set plan" "x \<in> set (op_DependsOn op)" and x: "x = i \<or> x \<in> W"
    have "gget (ex_status st1) x \<noteq> Some opCompleted" using x i WB by auto
    then have "op_ID op \<noteq> i" using waits [OF B D op] i by auto
    moreover have "op_ID op \<in> ?deps x" unfolding index_dependents using op by blast
    ultimately show "op_ID op \<in> W" using x S unfolding search_visits_def by auto
  qed
  show "op \<in> set plan \<Longrightarrow> op_ID op \<in> W \<Longrightarrow> distinct (map op_ID plan) \<Longrightarrow> \<exists>x \<in> set (op_DependsOn op). x = i \<or> x \<in> W"
  proof -
    assume op: "op \<in> set plan" "op_ID op \<in> W" and d: "distinct (map op_ID plan)"
    have "op_ID op \<in> ?deps i \<or> (\<exists>u \<in> W. op_ID op \<in> ?deps u)" using S op(2) unfolding search_visits_def by blast
    then obtain u op' where "u = i \<or> u \<in> W" "op' \<in> set plan" "u \<in> set (op_DependsOn op')" "op_ID op' = op_ID op"
      unfolding index_dependents by force
    then show ?thesis using same_op [OF d op(1)] by blast
  qed
qed

lemma receive_failed_inv:
  assumes d: "distinct (map op_ID plan)" and inv: "exec_inv plan outcome st" and i: "i \<in> set (ex_running st)"
    and bad: "outcome (op_of (build_index plan) i) \<noteq> None"
  shows "exec_inv plan outcome (receive (build_index plan) outcome i st)"
    and "reasons plan (ex_status st) \<Longrightarrow> reasons plan (ex_status (receive (build_index plan) outcome i st))"
proof -
  let ?ix = "build_index plan"
  let ?st1 = "settle ?ix outcome i st"
  have B: "books plan st" and D: "deps_done plan (ex_status st)" and K: "blocked plan (ex_status st)"
    and R: "results_ok plan outcome st" using inv by (simp_all add: exec_inv_def)
  have s: "gget (ex_status st) i = Some opInFlight" using B i by (simp add: books_running)
  have s1: "ex_status ?st1 = gput i opFailed (ex_status st)" using bad by (simp del: not_None_eq)
  have B1: "books plan ?st1" by (rule settle_books [OF B i])
  have D1: "deps_done plan (ex_status ?st1)" and R1: "results_ok plan outcome ?st1"
    by (rule settle_results [OF d B D R i])+
  have f: "gget (ex_status ?st1) i = Some opFailed" using s1 by simp
  obtain W status' new where
      bfs: "abort_bfs (ix_dependents ?ix) (gget_or [] (ix_dependents ?ix) i) [i] (ex_status ?st1) [] = (status', [] @ new)"
      and S: "search_visits (ix_dependents ?ix) (gget_or [] (ix_dependents ?ix) i) [i] W"
      and A: "aborts W (ex_status ?st1) status' new"
    using abort_bfs_spec by blast
  note V = failure_visits [OF B1 D1 f S]
  have W: "\<forall>w \<in> W. gget (ex_status ?st1) w \<noteq> None" using V(1) by fastforce
  note g = aborts_gget [OF A W]
  have inW: "gget status' w = Some opAborted" if "w \<in> W" for w using V(1) [OF that] that by (auto simp: g)
  have outW: "gget status' k = gget (ex_status st) k" if "k \<notin> W" "k \<noteq> i" for k
    using that unfolding g s1 by simp
  have at_i: "gget status' i = Some opFailed" and iW: "i \<notin> W"
    using f S unfolding g by (auto simp: search_visits_def)
  have r: "receive ?ix outcome i st = ?st1\<lparr>ex_status := status', ex_aborted := ex_aborted ?st1 @ new,
      ex_pending := ex_pending ?st1 - int (length new)\<rparr>"
    using bad bfs by (simp add: receive_def Let_def abortTransitive_def del: not_None_eq settle_fields)
  have "blocked plan status'"
    unfolding blocked_def
  proof (intro ballI impI)
    fix op x assume op: "op \<in> set plan" "x \<in> set (op_DependsOn op)" and x: "gget status' x \<in> {Some opFailed, Some opAborted}"
    show "gget status' (op_ID op) = Some opAborted"
    proof (cases "x = i \<or> x \<in> W")
      case True
      from inW [OF V(2) [OF op True]] show ?thesis .
    next
      case False
      then have "gget (ex_status st) x \<in> {Some opFailed, Some opAborted}" using outW x by simp
      then have "gget (ex_status st) (op_ID op) = Some opAborted" using K op unfolding blocked_def by blast
      moreover from this have "op_ID op \<noteq> i" using s by auto
      ultimately show ?thesis using inW outW by (cases "op_ID op \<in> W") simp_all
    qed
  qed
  moreover have "results_ok plan outcome (receive ?ix outcome i st)"
    unfolding r using R1 by (subst results_ok_cong) simp_all
  ultimately show "exec_inv plan outcome (receive ?ix outcome i st)"
    using aborts_books [OF B1 A W] aborts_deps_done [OF D1 A W] unfolding exec_inv_def r by simp
  assume Q: "reasons plan (ex_status st)"
  have "reasons plan status'"
    unfolding reasons_def
  proof (intro ballI impI)
    fix op assume op: "op \<in> set plan" and a: "gget status' (op_ID op) = Some opAborted"
    show "\<exists>x \<in> set (op_DependsOn op). gget status' x \<in> {Some opFailed, Some opAborted}"
    proof (cases "op_ID op \<in> W")
      case True
      from V(3) [OF op True d] show ?thesis using at_i inW by (metis insertCI)
    next
      case False
      have "op_ID op \<noteq> i" using a at_i by auto
      then have "gget (ex_status st) (op_ID op) = Some opAborted" using a outW False by simp
      then obtain x where x: "x \<in> set (op_DependsOn op)" "gget (ex_status st) x \<in> {Some opFailed, Some opAborted}"
        using Q op unfolding reasons_def by blast
      have "x \<noteq> i" using x(2) s by auto
      then have "gget status' x \<in> {Some opFailed, Some opAborted}" using x(2) inW [of x] outW [of x] by (cases "x \<in> W") auto
      then show ?thesis using x(1) by blast
    qed
  qed
  then show "reasons plan (ex_status (receive ?ix outcome i st))" unfolding r by simp
qed

text \<open>A cancellation: at its end nothing is pending, so everything that waits is aborted.\<close>

definition exec_core :: "ExecutionPlan \<Rightarrow> (Operation \<Rightarrow> 'e option) \<Rightarrow> 'e Exec \<Rightarrow> bool" where
  "exec_core plan outcome st \<longleftrightarrow> books plan st \<and> deps_done plan (ex_status st) \<and> results_ok plan outcome st"

lemma core_blocked:
  assumes "exec_core plan outcome st" and "pending_ids (ex_status st) = {}"
  shows "exec_inv plan outcome st"
proof -
  have "blocked plan (ex_status st)"
    unfolding blocked_def
  proof (intro ballI impI)
    fix op x assume op: "op \<in> set plan" "x \<in> set (op_DependsOn op)" "gget (ex_status st) x \<in> {Some opFailed, Some opAborted}"
    then have "gget (ex_status st) (op_ID op) \<in> {Some opPending, Some opAborted}"
      using waits [of plan st op x] assms(1) by (auto simp: exec_core_def)
    moreover have "gget (ex_status st) (op_ID op) \<noteq> Some opPending" using assms(2) by (auto simp: pending_ids_def)
    ultimately show "gget (ex_status st) (op_ID op) = Some opAborted" by simp
  qed
  then show ?thesis using assms(1) by (simp add: exec_core_def exec_inv_def)
qed

lemma abort_one_core:
  assumes C: "exec_core plan outcome st" and i: "gget (ex_status st) i \<noteq> None"
  shows "exec_core plan outcome (abort_one i st)"
    and "pending_ids (ex_status (abort_one i st)) = pending_ids (ex_status st) - {i}"
    and "\<And>k. gget (ex_status (abort_one i st)) k = None \<longleftrightarrow> gget (ex_status st) k = None"
proof -
  have "exec_core plan outcome (abort_one i st) \<and> pending_ids (ex_status (abort_one i st)) = pending_ids (ex_status st) - {i}
    \<and> (\<forall>k. gget (ex_status (abort_one i st)) k = None \<longleftrightarrow> gget (ex_status st) k = None)"
  proof (cases "status_of (ex_status st) i = opPending")
    case True
    have A: "aborts {i} (ex_status st) (gput i opAborted (ex_status st)) [i]" using True by (auto simp: aborts_def)
    have W: "\<forall>w \<in> {i}. gget (ex_status st) w \<noteq> None" using i by simp
    have "exec_core plan outcome (abort_one i st)"
      using C aborts_books [OF _ A W] aborts_deps_done [OF _ A W] True results_ok_cong [of "abort_one i st" st]
      by (simp add: exec_core_def abort_one_def)
    then show ?thesis using True i by (auto simp: abort_one_def pending_ids_gput)
  next
    case False
    then have "gget (ex_status st) i \<noteq> Some opPending" by (auto simp: gget_or_def)
    then show ?thesis using C False by (auto simp: abort_one_def pending_ids_def)
  qed
  then show "exec_core plan outcome (abort_one i st)"
    "pending_ids (ex_status (abort_one i st)) = pending_ids (ex_status st) - {i}"
    "\<And>k. gget (ex_status (abort_one i st)) k = None \<longleftrightarrow> gget (ex_status st) k = None" by blast+
qed

lemma abort_fold_core:
  assumes "exec_core plan outcome st" and "\<forall>i \<in> set ids. gget (ex_status st) i \<noteq> None"
  shows "exec_core plan outcome (fold abort_one ids st)
    \<and> pending_ids (ex_status (fold abort_one ids st)) = pending_ids (ex_status st) - set ids"
  using assms
proof (induction ids arbitrary: st)
  case (Cons i ids)
  have i: "gget (ex_status st) i \<noteq> None" using Cons.prems(2) by simp
  note a = abort_one_core [OF Cons.prems(1) i]
  have "\<forall>j \<in> set ids. gget (ex_status (abort_one i st)) j \<noteq> None" using Cons.prems(2) a(3) by simp
  from Cons.IH [OF a(1) this] show ?case using a(2) by auto
qed simp

lemma settle_core:
  assumes "distinct (map op_ID plan)" and "exec_core plan outcome st" and "i \<in> set (ex_running st)"
  shows "exec_core plan outcome (settle (build_index plan) outcome i st)"
  using assms settle_books settle_results unfolding exec_core_def by blast

lemma settle_fold_core:
  assumes d: "distinct (map op_ID plan)"
  shows "exec_core plan outcome st \<Longrightarrow> mset is \<subseteq># mset (ex_running st) \<Longrightarrow> pending_ids (ex_status st) = {} \<Longrightarrow>
    exec_core plan outcome (fold (settle (build_index plan) outcome) is st)
    \<and> pending_ids (ex_status (fold (settle (build_index plan) outcome) is st)) = {}
    \<and> mset (ex_running (fold (settle (build_index plan) outcome) is st)) = mset (ex_running st) - mset is"
proof (induction "is" arbitrary: st)
  case (Cons i "is")
  have i: "i \<in> set (ex_running st)"
    using Cons.prems(2) by (metis mset.simps(2) mset_subset_eq_insertD set_mset_mset)
  let ?st1 = "settle (build_index plan) outcome i st"
  have "mset is \<subseteq># mset (ex_running ?st1)"
    using Cons.prems(2) i by (simp add: insert_subset_eq_iff)
  moreover have "pending_ids (ex_status ?st1) = {}" using Cons.prems(3) by (simp add: pending_ids_gput)
  ultimately show ?case using Cons.IH [OF settle_core [OF d Cons.prems(1) i]] by simp
qed simp

lemma cancel_inv:
  assumes d: "distinct (map op_ID plan)" and inv: "exec_inv plan outcome st"
  shows "exec_inv plan outcome (cancel (build_index plan) outcome od arrivals st)"
    and "pending_ids (ex_status (cancel (build_index plan) outcome od arrivals st)) = {}"
    and "ex_running (cancel (build_index plan) outcome od arrivals st) = []"
proof -
  let ?keys = "map fst (range_order od (ex_status st))"
  let ?st1 = "abort_pending od st"
  have k: "\<forall>i \<in> set ?keys. gget (ex_status st) i \<noteq> None" by (simp add: gget_None_keys)
  have "pending_ids (ex_status st) \<subseteq> set ?keys" by (auto simp: pending_ids_def gget_None_keys image_iff dest!: gget_mem) force
  then have c1: "exec_core plan outcome ?st1" and p1: "pending_ids (ex_status ?st1) = {}"
    using abort_fold_core [of plan outcome st ?keys] inv k
    by (auto simp: abort_pending_def exec_inv_def exec_core_def)
  have "mset (shuffle arrivals (ex_running ?st1)) \<subseteq># mset (ex_running ?st1)" by simp
  from settle_fold_core [OF d c1 this p1]
  have c: "exec_core plan outcome (cancel (build_index plan) outcome od arrivals st)"
    and p: "pending_ids (ex_status (cancel (build_index plan) outcome od arrivals st)) = {}"
    and r: "mset (ex_running (cancel (build_index plan) outcome od arrivals st)) = {#}"
    unfolding cancel_def Let_def by simp_all
  show "exec_inv plan outcome (cancel (build_index plan) outcome od arrivals st)" by (rule core_blocked [OF c p])
  show "pending_ids (ex_status (cancel (build_index plan) outcome od arrivals st)) = {}" by (rule p)
  show "ex_running (cancel (build_index plan) outcome od arrivals st) = []" using r by simp
qed

definition is_cancel :: "turn \<Rightarrow> bool" where
  "is_cancel t \<longleftrightarrow> (\<exists>arrivals. t = Cancelled arrivals)"

lemma exec_turn_inv:
  assumes d: "distinct (map op_ID plan)" and inv: "exec_inv plan outcome st" and r: "ex_running st \<noteq> []"
  shows "exec_inv plan outcome (exec_turn (build_index plan) outcome od t st)"
    and "\<not> is_cancel t \<Longrightarrow> reasons plan (ex_status st) \<Longrightarrow> reasons plan (ex_status (exec_turn (build_index plan) outcome od t st))"
proof -
  have nth: "ex_running st ! (k mod length (ex_running st)) \<in> set (ex_running st)" for k using r by simp
  show "exec_inv plan outcome (exec_turn (build_index plan) outcome od t st)"
    using receive_ok_inv(1) [OF d inv nth] receive_failed_inv(1) [OF d inv nth] cancel_inv(1) [OF d inv]
    by (auto simp: exec_turn_def split: turn.split)
  show "\<not> is_cancel t \<Longrightarrow> reasons plan (ex_status st) \<Longrightarrow> reasons plan (ex_status (exec_turn (build_index plan) outcome od t st))"
    using receive_ok_inv(2) [OF d inv nth] receive_failed_inv(2) [OF d inv nth]
    by (auto simp: exec_turn_def is_cancel_def split: turn.split)
qed

lemma dispatch_fold_inv:
  assumes d: "distinct (map op_ID plan)"
  shows "exec_inv plan outcome st \<Longrightarrow> \<forall>i \<in> set ids. gget (ex_status st) i \<noteq> None \<Longrightarrow>
    exec_inv plan outcome (fold (dispatch_one (build_index plan)) ids st)
    \<and> (reasons plan (ex_status st) \<longrightarrow> reasons plan (ex_status (fold (dispatch_one (build_index plan)) ids st)))"
proof (induction ids arbitrary: st)
  case (Cons i ids)
  have i: "gget (ex_status st) i \<noteq> None" using Cons.prems(2) by simp
  have "\<forall>j \<in> set ids. gget (ex_status (dispatch_one (build_index plan) i st)) j \<noteq> None"
    using Cons.prems(2) by (simp add: dispatch_one_def)
  from Cons.IH [OF dispatch_inv(1) [OF d Cons.prems(1) i] this] dispatch_inv(2) [OF d Cons.prems(1) i]
  show ?case by simp
qed simp

lemma dispatch_ready_inv:
  assumes "distinct (map op_ID plan)" and "exec_inv plan outcome st"
  shows "exec_inv plan outcome (dispatch_ready (build_index plan) od st)"
    and "reasons plan (ex_status st) \<Longrightarrow> reasons plan (ex_status (dispatch_ready (build_index plan) od st))"
  using dispatch_fold_inv [OF assms, of "map fst (range_order od (ex_status st))"]
  by (simp_all add: dispatch_ready_def gget_None_keys)

section \<open>How the loop ends\<close>

text \<open>The loop stops with no goroutine left and no operation that could still be started.\<close>

definition stuck :: "ExecutionPlan \<Rightarrow> 'e Exec \<Rightarrow> bool" where
  "stuck plan st \<longleftrightarrow> ex_running st = []
     \<and> (\<forall>op \<in> set plan. gget (ex_status st) (op_ID op) = Some opPending \<longrightarrow> \<not> depsCompleted op (ex_status st))"

lemma dispatch_one_running: "ex_running st \<noteq> [] \<Longrightarrow> ex_running (dispatch_one ix i st) \<noteq> []"
  by (simp add: dispatch_one_def)

lemma dispatch_fold_running: "ex_running st \<noteq> [] \<Longrightarrow> ex_running (fold (dispatch_one ix) ids st) \<noteq> []"
  by (induction ids arbitrary: st) (simp_all add: dispatch_one_running)

lemma dispatch_nothing:
  "ex_running (fold (dispatch_one ix) ids st) = [] \<Longrightarrow>
     fold (dispatch_one ix) ids st = st
     \<and> (\<forall>i \<in> set ids. status_of (ex_status st) i = opPending \<longrightarrow> \<not> depsCompleted (op_of ix i) (ex_status st))"
proof (induction ids)
  case (Cons i ids)
  have "ex_running (dispatch_one ix i st) = []"
    using Cons.prems dispatch_fold_running [of "dispatch_one ix i st" ix ids] by auto
  then have s: "dispatch_one ix i st = st"
    and "status_of (ex_status st) i = opPending \<longrightarrow> \<not> depsCompleted (op_of ix i) (ex_status st)"
    by (auto simp: dispatch_one_def split: if_splits)
  then show ?case using Cons by simp
qed simp

lemma dispatch_ready_stuck:
  assumes d: "distinct (map op_ID plan)" and r: "ex_running (dispatch_ready (build_index plan) od st) = []"
  shows "stuck plan (dispatch_ready (build_index plan) od st)"
proof -
  let ?st1 = "dispatch_ready (build_index plan) od st"
  have n: "?st1 = st \<and> (\<forall>i \<in> set (map fst (range_order od (ex_status st))).
      status_of (ex_status st) i = opPending \<longrightarrow> \<not> depsCompleted (op_of (build_index plan) i) (ex_status st))"
    using dispatch_nothing r unfolding dispatch_ready_def by blast
  have "\<not> depsCompleted op (ex_status st)" if "op \<in> set plan" "gget (ex_status st) (op_ID op) = Some opPending" for op
  proof -
    have "op_ID op \<in> set (map fst (range_order od (ex_status st)))"
      using gget_mem [OF that(2)] by (auto intro: rev_image_eqI)
    then show ?thesis using n status_of_Some [OF that(2)] index_op_of [OF d that(1)] by auto
  qed
  then show ?thesis using n r by (simp add: stuck_def)
qed

lemma exec_loop_end:
  assumes d: "distinct (map op_ID plan)"
  shows "exec_inv plan outcome st \<Longrightarrow>
    exec_inv plan outcome (exec_loop (build_index plan) outcome env od n st)
    \<and> stuck plan (exec_loop (build_index plan) outcome env od n st)
    \<and> ((\<forall>k. \<not> is_cancel (env k)) \<longrightarrow> reasons plan (ex_status st) \<longrightarrow>
        reasons plan (ex_status (exec_loop (build_index plan) outcome env od n st)))"
proof (induction "build_index plan" outcome env od n st rule: exec_loop.induct)
  case (1 outcome env od n st)
  note B = 1(2)
  let ?ix = "build_index plan"
  let ?st1 = "dispatch_ready ?ix (sub (sub od n) 0) st"
  show ?case
  proof (cases "ex_pending st + int (length (ex_running st)) > 0")
    case False
    then have l: "exec_loop ?ix outcome env od n st = st" by (simp add: exec_loop.simps [of ?ix])
    have "ex_pending st = int (card (pending_ids (ex_status st)))" using B by (simp add: exec_inv_def books_def)
    then have "length (ex_running st) = 0" and "card (pending_ids (ex_status st)) = 0" using False by linarith+
    then have "ex_running st = []" "pending_ids (ex_status st) = {}" by simp_all
    then have "stuck plan st" by (auto simp: stuck_def pending_ids_def)
    then show ?thesis using l B by simp
  next
    case more: True
    note i1 = dispatch_ready_inv [OF d B, where od = "sub (sub od n) 0"]
    show ?thesis
    proof (cases "ex_running ?st1 = []")
      case True
      then have "exec_loop ?ix outcome env od n st = ?st1" using more by (subst exec_loop.simps) (simp add: Let_def)
      then show ?thesis using i1 dispatch_ready_stuck [OF d True] by simp
    next
      case False
      let ?st2 = "exec_turn ?ix outcome (sub (sub od n) 1) (env n) ?st1"
      have l: "exec_loop ?ix outcome env od n st = exec_loop ?ix outcome env od (Suc n) ?st2"
        using more False by (subst exec_loop.simps) (simp add: Let_def)
      note i2 = exec_turn_inv [OF d i1(1) False, where od = "sub (sub od n) 1" and t = "env n"]
      show ?thesis unfolding l using 1(1) [OF more refl False i2(1)] i1(2) i2(2) by blast
    qed
  qed
qed

text \<open>With a well-formed plan nothing is left pending.\<close>

lemma stuck_no_pending:
  assumes p: "plan_ok plan" and inv: "exec_inv plan outcome st" and stuck: "stuck plan st"
  shows "pending_ids (ex_status st) = {}"
proof (rule ccontr)
  have B: "books plan st" and K: "blocked plan (ex_status st)" using inv by (simp_all add: exec_inv_def)
  let ?P = "\<lambda>k. k < length plan \<and> gget (ex_status st) (op_ID (plan ! k)) = Some opPending"
  assume "pending_ids (ex_status st) \<noteq> {}"
  then obtain i where i: "gget (ex_status st) i = Some opPending" by (auto simp: pending_ids_def)
  then obtain op where "op \<in> set plan" "op_ID op = i" using books_op [OF B i] by blast
  then have ex: "\<exists>k. ?P k" using i by (metis in_set_conv_nth)
  let ?k = "LEAST k. ?P k"
  let ?op = "plan ! ?k"
  have k: "?P ?k" using ex by (rule LeastI_ex)
  then have op: "?op \<in> set plan" by simp
  have "gget (ex_status st) x = Some opCompleted" if x: "x \<in> set (op_DependsOn ?op)" for x
  proof -
    have "x \<in> op_ID ` set (take ?k plan)" using p k x by (auto simp: plan_ok_def)
    then obtain j where j: "j < ?k" "op_ID (plan ! j) = x" using k by (auto simp: in_set_conv_nth)
    have "\<not> ?P j" using j(1) by (rule not_less_Least)
    then have "gget (ex_status st) x \<noteq> Some opPending" using j k by simp
    moreover have "gget (ex_status st) x \<noteq> Some opInFlight"
      using stuck books_running [OF B, of x] by (simp add: stuck_def)
    moreover have "gget (ex_status st) x \<notin> {Some opFailed, Some opAborted}"
    proof
      assume "gget (ex_status st) x \<in> {Some opFailed, Some opAborted}"
      then have "gget (ex_status st) (op_ID ?op) = Some opAborted" using K op x unfolding blocked_def by blast
      then show False using k by simp
    qed
    moreover have "plan ! j \<in> set plan" using j k by simp
    then have "gget (ex_status st) x \<noteq> None" using j(2) B by (auto simp: books_def)
    then obtain s where "gget (ex_status st) x = Some s" by blast
    ultimately show ?thesis by (cases s) simp_all
  qed
  then have "\<forall>x \<in> set (op_DependsOn ?op). status_of (ex_status st) x = opCompleted" using status_of_Some by blast
  then have "depsCompleted ?op (ex_status st)" by (simp only: depsCompleted_def list_all_iff)
  moreover have "gget (ex_status st) (op_ID ?op) = Some opPending" using k by (rule conjunct2)
  ultimately show False using stuck op unfolding stuck_def by blast
qed

section \<open>Properties\<close>

lemma Execute_end:
  assumes d: "distinct (map op_ID plan)"
  obtains st where "Execute od env outcome plan = exec_result st" and "exec_inv plan outcome st" and "stuck plan st"
    and "\<forall>k. \<not> is_cancel (env k) \<Longrightarrow> reasons plan (ex_status st)"
proof (cases "plan = []")
  case True
  let ?st = "start_exec plan"
  have "exec_inv plan outcome ?st" and "reasons plan (ex_status ?st)" using start_inv [OF d] by blast+
  moreover have "stuck plan ?st" using True by (simp add: stuck_def start_exec_def)
  moreover have "Execute od env outcome plan = exec_result ?st"
    using True by (simp add: Execute_def exec_result_def start_exec_def)
  ultimately show ?thesis using that by blast
next
  case False
  let ?st = "exec_loop (build_index plan) outcome env od 0 (start_exec plan)"
  have "Execute od env outcome plan = exec_result ?st" using False by (simp add: Execute_def)
  moreover note exec_loop_end [OF d, of outcome "start_exec plan" env od 0] start_inv [OF d, of outcome]
  ultimately show ?thesis using that by blast
qed

lemma plan_ok_distinct: "plan_ok plan \<Longrightarrow> distinct (map op_ID plan)"
  by (simp add: plan_ok_def)

lemma status_cases:
  assumes "exec_inv plan outcome st" and "pending_ids (ex_status st) = {}" and "ex_running st = []" and "op \<in> set plan"
  shows "gget (ex_status st) (op_ID op) \<in> {Some opCompleted, Some opFailed, Some opAborted}"
proof -
  have B: "books plan st" using assms(1) by (simp add: exec_inv_def)
  then have "gget (ex_status st) (op_ID op) \<noteq> None" using assms(4) by (simp add: books_def)
  then obtain s where "gget (ex_status st) (op_ID op) = Some s" by blast
  moreover have "gget (ex_status st) (op_ID op) \<noteq> Some opPending" using assms(2) by (auto simp: pending_ids_def)
  moreover have "gget (ex_status st) (op_ID op) \<noteq> Some opInFlight" using books_running [OF B] assms(3) by auto
  ultimately show ?thesis by (cases s) simp_all
qed

lemma books_lists:
  assumes "books plan st"
  shows "i \<in> set (ex_completed st) \<longleftrightarrow> gget (ex_status st) i = Some opCompleted"
    and "i \<in> set (map fo_OperationID (ex_failed st)) \<longleftrightarrow> gget (ex_status st) i = Some opFailed"
    and "i \<in> set (ex_aborted st) \<longleftrightarrow> gget (ex_status st) i = Some opAborted"
  using assms by (simp_all add: books_def tracks_def)

lemma books_distinct:
  assumes "books plan st"
  shows "distinct (ex_completed st @ map fo_OperationID (ex_failed st) @ ex_aborted st)"
proof -
  have "distinct (ex_completed st)" "distinct (map fo_OperationID (ex_failed st))" "distinct (ex_aborted st)"
    using assms by (simp_all add: books_def tracks_def)
  moreover have "set (ex_completed st) \<inter> set (map fo_OperationID (ex_failed st)) = {}"
    "set (ex_completed st) \<inter> set (ex_aborted st) = {}"
    "set (map fo_OperationID (ex_failed st)) \<inter> set (ex_aborted st) = {}"
    unfolding disjoint_iff books_lists [OF assms] by simp_all
  ultimately show ?thesis by (simp only: distinct_append set_append Int_Un_distrib Un_empty_left simp_thms)
qed

text \<open>An operation is started only when everything it depends on has completed: in the list of
  completed operations its dependencies stand before it, and a failed one had all of them
  completed. Completed operations returned no error, and a failed one is listed with its type and
  the error it returned. This holds for every order of results and every cancellation.\<close>

theorem operations_run_after_their_dependencies:
  assumes "distinct (map op_ID plan)"
  shows "(\<forall>k < length (er_Completed (Execute od env outcome plan)). \<forall>op \<in> set plan.
        op_ID op = er_Completed (Execute od env outcome plan) ! k \<longrightarrow>
          outcome op = None \<and> set (op_DependsOn op) \<subseteq> set (take k (er_Completed (Execute od env outcome plan))))
    \<and> (\<forall>f \<in> set (er_Failed (Execute od env outcome plan)). \<exists>op \<in> set plan.
        fo_OperationID f = op_ID op \<and> fo_Type f = op_Type op \<and> outcome op = Some (fo_Err f)
        \<and> set (op_DependsOn op) \<subseteq> set (er_Completed (Execute od env outcome plan)))"
proof -
  obtain st where E: "Execute od env outcome plan = exec_result st" and I: "exec_inv plan outcome st"
    using Execute_end [OF assms] by metis
  have B: "books plan st" and D: "deps_done plan (ex_status st)" and R: "results_ok plan outcome st"
    using I by (simp_all add: exec_inv_def)
  have "set (op_DependsOn op) \<subseteq> set (ex_completed st)" if "op \<in> set plan" "op_ID op = fo_OperationID f" "f \<in> set (ex_failed st)" for op f
  proof -
    have "gget (ex_status st) (op_ID op) = Some opFailed" using that books_lists(2) [OF B, of "op_ID op"] by simp
    then show ?thesis using D that(1) books_lists(1) [OF B] unfolding deps_done_def by (metis insertCI subsetI)
  qed
  then show ?thesis using R unfolding E results_ok_def exec_result_def by (auto; metis)
qed

text \<open>C21: Executing a well-formed plan ends, and every operation is accounted for exactly once, as
  completed, failed or aborted, whatever fails, in whatever order the results arrive and
  whenever the context is cancelled.\<close>

theorem every_operation_ends_once:
  assumes "plan_ok plan"
  shows "mset (er_Completed (Execute od env outcome plan)
      @ map fo_OperationID (er_Failed (Execute od env outcome plan)) @ er_Aborted (Execute od env outcome plan))
    = mset (map op_ID plan)"
proof -
  note d = plan_ok_distinct [OF assms]
  obtain st where E: "Execute od env outcome plan = exec_result st" and I: "exec_inv plan outcome st" and S: "stuck plan st"
    using Execute_end [OF d] by metis
  have B: "books plan st" using I by (simp add: exec_inv_def)
  let ?ends = "ex_completed st @ map fo_OperationID (ex_failed st) @ ex_aborted st"
  have P: "pending_ids (ex_status st) = {}" by (rule stuck_no_pending [OF assms I S])
  have r: "ex_running st = []" using S by (simp add: stuck_def)
  have ends: "i \<in> set ?ends \<longleftrightarrow> gget (ex_status st) i \<in> {Some opCompleted, Some opFailed, Some opAborted}" for i
    unfolding set_append Un_iff books_lists [OF B] by simp
  have "set ?ends = op_ID ` set plan"
  proof (intro set_eqI iffI)
    fix i assume "i \<in> set ?ends"
    then have "\<exists>s. gget (ex_status st) i = Some s" unfolding ends by blast
    then show "i \<in> op_ID ` set plan" using books_op [OF B] by blast
  next
    fix i assume "i \<in> op_ID ` set plan"
    then show "i \<in> set ?ends" unfolding ends using status_cases [OF I P r] by blast
  qed
  then have "set_mset (mset ?ends) = set_mset (mset (map op_ID plan))" by simp
  then have "mset ?ends = mset (map op_ID plan)"
    using set_eq_iff_mset_eq_distinct [OF books_distinct [OF B] d] by simp
  then show ?thesis by (simp add: E exec_result_def)
qed

text \<open>The operations that can succeed: they return no error, and so does all they depend on.\<close>

inductive will_complete :: "ExecutionPlan \<Rightarrow> (Operation \<Rightarrow> 'e option) \<Rightarrow> OperationID \<Rightarrow> bool"
  for plan :: ExecutionPlan and outcome :: "Operation \<Rightarrow> 'e option" where
  "op \<in> set plan \<Longrightarrow> outcome op = None \<Longrightarrow> (\<And>x. x \<in> set (op_DependsOn op) \<Longrightarrow> will_complete plan outcome x) \<Longrightarrow>
     will_complete plan outcome (op_ID op)"

inductive_cases will_completeE: "will_complete plan outcome i"

lemma completed_will_complete:
  assumes B: "books plan st" and R: "results_ok plan outcome st"
  shows "k < length (ex_completed st) \<Longrightarrow> will_complete plan outcome (ex_completed st ! k)"
proof (induction k rule: less_induct)
  case (less k)
  let ?i = "ex_completed st ! k"
  have "gget (ex_status st) ?i = Some opCompleted" using books_lists(1) [OF B, of ?i] less.prems by simp
  then obtain op where op: "op \<in> set plan" "op_ID op = ?i" using books_op [OF B] by blast
  then have o: "outcome op = None" "set (op_DependsOn op) \<subseteq> set (take k (ex_completed st))"
    using R less.prems unfolding results_ok_def by blast+
  have "will_complete plan outcome (op_ID op)"
  proof (rule will_complete.intros [of op])
    fix x assume "x \<in> set (op_DependsOn op)"
    then have "x \<in> set (take k (ex_completed st))" using o(2) by blast
    then obtain j where "j < length (take k (ex_completed st))" "take k (ex_completed st) ! j = x"
      unfolding in_set_conv_nth by blast
    then have "j < k" "x = ex_completed st ! j" using less.prems by simp_all
    then show "will_complete plan outcome x" using less by simp
  qed (use op o in auto)
  then show ?case by (simp only: op(2))
qed

lemma failed_outcome:
  assumes d: "distinct (map op_ID plan)" and I: "exec_inv plan outcome st" and op: "op \<in> set plan"
    and s: "gget (ex_status st) (op_ID op) = Some opFailed"
  shows "outcome op \<noteq> None"
proof -
  have B: "books plan st" and R: "results_ok plan outcome st" using I by (simp_all add: exec_inv_def)
  have "op_ID op \<in> set (map fo_OperationID (ex_failed st))" using books_lists(2) [OF B] s by blast
  then obtain f where "f \<in> set (ex_failed st)" "fo_OperationID f = op_ID op" by auto
  then obtain op' where "op' \<in> set plan" "op_ID op' = op_ID op" "outcome op' = Some (fo_Err f)"
    using R unfolding results_ok_def by metis
  moreover from this have "op' = op" using same_op [OF d op] by blast
  ultimately show ?thesis by simp
qed

lemma reasonsE:
  assumes "reasons plan status" and "op \<in> set plan" and "gget status (op_ID op) = Some opAborted"
  obtains x where "x \<in> set (op_DependsOn op)" and "gget status x \<noteq> Some opCompleted"
proof -
  obtain x where "x \<in> set (op_DependsOn op)" "gget status x \<in> {Some opFailed, Some opAborted}"
    using assms unfolding reasons_def by blast
  then show ?thesis using that by auto
qed

lemma will_complete_completed:
  assumes d: "distinct (map op_ID plan)" and I: "exec_inv plan outcome st" and P: "pending_ids (ex_status st) = {}"
    and r: "ex_running st = []" and Q: "reasons plan (ex_status st)"
  shows "will_complete plan outcome i \<Longrightarrow> gget (ex_status st) i = Some opCompleted"
proof (induction rule: will_complete.induct)
  case (1 op)
  have "gget (ex_status st) (op_ID op) \<noteq> Some opFailed"
    using failed_outcome [OF d I 1(1)] 1(2) by blast
  moreover have "gget (ex_status st) (op_ID op) \<noteq> Some opAborted"
    using reasonsE [OF Q 1(1)] 1(4) by metis
  ultimately show ?case using status_cases [OF I P r 1(1)] by blast
qed

text \<open>The final status of an operation when nothing was cancelled.\<close>

lemma final_status:
  assumes d: "distinct (map op_ID plan)" and I: "exec_inv plan outcome st" and P: "pending_ids (ex_status st) = {}"
    and r: "ex_running st = []" and Q: "reasons plan (ex_status st)"
  shows "gget (ex_status st) i = Some opCompleted \<longleftrightarrow> will_complete plan outcome i"
    and "op \<in> set plan \<Longrightarrow> gget (ex_status st) (op_ID op) = Some opAborted
      \<longleftrightarrow> (\<exists>x \<in> set (op_DependsOn op). \<not> will_complete plan outcome x)"
    and "op \<in> set plan \<Longrightarrow> gget (ex_status st) (op_ID op) = Some opFailed
      \<longleftrightarrow> outcome op \<noteq> None \<and> (\<forall>x \<in> set (op_DependsOn op). will_complete plan outcome x)"
proof -
  have B: "books plan st" and D: "deps_done plan (ex_status st)" and R: "results_ok plan outcome st"
    using I by (simp_all add: exec_inv_def)
  have c: "gget (ex_status st) i = Some opCompleted \<longleftrightarrow> will_complete plan outcome i" for i
  proof
    assume "gget (ex_status st) i = Some opCompleted"
    then have "i \<in> set (ex_completed st)" using books_lists(1) [OF B] by blast
    then show "will_complete plan outcome i" using completed_will_complete [OF B R] by (metis in_set_conv_nth)
  qed (rule will_complete_completed [OF d I P r Q])
  then show "gget (ex_status st) i = Some opCompleted \<longleftrightarrow> will_complete plan outcome i" .
  have deps: "\<forall>x \<in> set (op_DependsOn op). will_complete plan outcome x"
    if "op \<in> set plan" "gget (ex_status st) (op_ID op) \<in> {Some opInFlight, Some opCompleted, Some opFailed}" for op
    using D that unfolding deps_done_def c by blast
  show a: "gget (ex_status st) (op_ID op) = Some opAborted
      \<longleftrightarrow> (\<exists>x \<in> set (op_DependsOn op). \<not> will_complete plan outcome x)" if op: "op \<in> set plan" for op
  proof
    assume "gget (ex_status st) (op_ID op) = Some opAborted"
    then show "\<exists>x \<in> set (op_DependsOn op). \<not> will_complete plan outcome x"
      using reasonsE [OF Q op] c by metis
  next
    assume "\<exists>x \<in> set (op_DependsOn op). \<not> will_complete plan outcome x"
    then show "gget (ex_status st) (op_ID op) = Some opAborted"
      using deps [OF op] status_cases [OF I P r op] by blast
  qed
  show "gget (ex_status st) (op_ID op) = Some opFailed
      \<longleftrightarrow> outcome op \<noteq> None \<and> (\<forall>x \<in> set (op_DependsOn op). will_complete plan outcome x)" if op: "op \<in> set plan"
  proof
    assume "gget (ex_status st) (op_ID op) = Some opFailed"
    then show "outcome op \<noteq> None \<and> (\<forall>x \<in> set (op_DependsOn op). will_complete plan outcome x)"
      using failed_outcome [OF d I op] deps [OF op] by blast
  next
    assume o: "outcome op \<noteq> None \<and> (\<forall>x \<in> set (op_DependsOn op). will_complete plan outcome x)"
    have "\<not> will_complete plan outcome (op_ID op)"
    proof
      assume "will_complete plan outcome (op_ID op)"
      then obtain op' where "op' \<in> set plan" "op_ID op' = op_ID op" "outcome op' = None"
        by (auto elim!: will_completeE)
      moreover from this have "op' = op" using same_op [OF d op] by blast
      ultimately show False using o by simp
    qed
    then show "gget (ex_status st) (op_ID op) = Some opFailed"
      using status_cases [OF I P r op] c a [OF op] o by blast
  qed
qed

text \<open>C22: Without a cancellation the result depends on what the operations return only, not on the
  order in which results arrive or goroutines start: exactly those operations complete that
  return no error and depend, directly or not, on none that does; those that fail are the ones
  with an error whose dependencies all complete; the rest is aborted.\<close>

theorem result_is_independent_of_the_schedule:
  assumes "plan_ok plan" and "\<forall>k. \<not> is_cancel (env k)"
  shows "set (er_Completed (Execute od env outcome plan)) = {i. will_complete plan outcome i}
    \<and> set (map fo_OperationID (er_Failed (Execute od env outcome plan)))
        = {op_ID op |op. op \<in> set plan \<and> outcome op \<noteq> None \<and> (\<forall>x \<in> set (op_DependsOn op). will_complete plan outcome x)}
    \<and> set (er_Aborted (Execute od env outcome plan))
        = {op_ID op |op. op \<in> set plan \<and> (\<exists>x \<in> set (op_DependsOn op). \<not> will_complete plan outcome x)}"
proof -
  note d = plan_ok_distinct [OF assms(1)]
  obtain st where E: "Execute od env outcome plan = exec_result st" and I: "exec_inv plan outcome st"
    and S: "stuck plan st" and Q: "reasons plan (ex_status st)"
    using Execute_end [OF d] assms(2) by metis
  have B: "books plan st" using I by (simp add: exec_inv_def)
  have P: "pending_ids (ex_status st) = {}" by (rule stuck_no_pending [OF assms(1) I S])
  have r: "ex_running st = []" using S by (simp add: stuck_def)
  note final = final_status [OF d I P r Q]
  have lists: "i \<in> set (map fo_OperationID (ex_failed st)) \<longleftrightarrow> (\<exists>op \<in> set plan. op_ID op = i \<and> gget (ex_status st) i = Some opFailed)"
    "i \<in> set (ex_aborted st) \<longleftrightarrow> (\<exists>op \<in> set plan. op_ID op = i \<and> gget (ex_status st) i = Some opAborted)" for i
    using books_lists(2,3) [OF B, of i] books_op [OF B] by blast+
  have "set (ex_completed st) = {i. will_complete plan outcome i}" using books_lists(1) [OF B] final(1) by blast
  moreover have "set (map fo_OperationID (ex_failed st))
      = {op_ID op |op. op \<in> set plan \<and> outcome op \<noteq> None \<and> (\<forall>x \<in> set (op_DependsOn op). will_complete plan outcome x)}"
    by (rule set_eqI) (unfold lists mem_Collect_eq, use final(3) in blast)
  moreover have "set (ex_aborted st)
      = {op_ID op |op. op \<in> set plan \<and> (\<exists>x \<in> set (op_DependsOn op). \<not> will_complete plan outcome x)}"
    by (rule set_eqI) (unfold lists mem_Collect_eq, use final(2) in blast)
  ultimately show ?thesis unfolding E exec_result_def by (simp only: ExecutionResult.simps simp_thms)
qed

text \<open>The pair of operations of a migration in a generated plan.\<close>

lemma append_op_prefix: "set (pg_ops st) \<subseteq> set (pg_ops (append_op uid ty payload deps st))"
  by (auto simp: append_op_def)

lemma migration_phase_pair:
  "\<exists>up down. {up, down} \<subseteq> set (pg_ops (migration_phase uid m st)) \<and> op_Payload up = PayloadScaleUp (migration_up m)
     \<and> op_Payload down = PayloadScaleDown (migration_down m) \<and> op_DependsOn down = [op_ID up]"
proof -
  let ?up = "last (pg_ops (scale_up_phase uid (migration_up m) st))"
  let ?down = "last (pg_ops (migration_phase uid m st))"
  have "pg_ops (migration_phase uid m st) = pg_ops st @ [?up, ?down]"
    by (simp add: migration_phase_def scale_up_phase_def append_op_def Let_def)
  then have "{?up, ?down} \<subseteq> set (pg_ops (migration_phase uid m st))" by (metis Un_upper2 list.simps(15) empty_set set_append)
  moreover have "op_DependsOn ?down = [op_ID ?up]" "op_Payload ?down = PayloadScaleDown (migration_down m)"
    by (simp_all add: migration_phase_def append_op_def Let_def)
  ultimately show ?thesis using last_scale_up(3) [of uid "migration_up m" st] by blast
qed

lemma migration_fold_pair:
  "set (pg_ops st) \<subseteq> set (pg_ops (fold (migration_phase uid) ms st))
   \<and> (m \<in> set ms \<longrightarrow> (\<exists>up down. {up, down} \<subseteq> set (pg_ops (fold (migration_phase uid) ms st))
       \<and> op_Payload up = PayloadScaleUp (migration_up m) \<and> op_Payload down = PayloadScaleDown (migration_down m)
       \<and> op_DependsOn down = [op_ID up]))"
proof (induction ms arbitrary: st)
  case (Cons m' ms)
  have "set (pg_ops st) \<subseteq> set (pg_ops (migration_phase uid m' st))"
    unfolding migration_phase_def scale_up_phase_def Let_def using append_op_prefix by (meson subset_trans)
  moreover note IH = Cons.IH [of "migration_phase uid m' st"]
  ultimately have "set (pg_ops st) \<subseteq> set (pg_ops (fold (migration_phase uid) (m' # ms) st))"
    unfolding fold_simps by blast
  moreover have "\<exists>up down. {up, down} \<subseteq> set (pg_ops (fold (migration_phase uid) (m' # ms) st))
       \<and> op_Payload up = PayloadScaleUp (migration_up m) \<and> op_Payload down = PayloadScaleDown (migration_down m)
       \<and> op_DependsOn down = [op_ID up]" if "m \<in> set (m' # ms)"
  proof (cases "m = m'")
    case True
    then show ?thesis unfolding fold_simps using IH migration_phase_pair [of uid m' st] by (meson subset_trans)
  next
    case False
    then have "m \<in> set ms" using that by simp
    then show ?thesis unfolding fold_simps by (rule IH [THEN conjunct2, THEN mp])
  qed
  ultimately show ?case by blast
qed simp

lemma GeneratePlan_pair:
  assumes "m \<in> set ms"
  shows "\<exists>up down. {up, down} \<subseteq> set (GeneratePlan uid d ms) \<and> op_Payload up = PayloadScaleUp (migration_up m)
     \<and> op_Payload down = PayloadScaleDown (migration_down m) \<and> op_DependsOn down = [op_ID up]"
  unfolding GeneratePlan_def Let_def by (rule migration_fold_pair [THEN conjunct2, THEN mp, OF assms])

text \<open>C23: Migrations are carried out blue-green: in the plan made for them the scale-down of the source
  replica is not even started (neither completes nor fails) unless the scale-up that replaces it
  has completed, whatever else fails or is cancelled.\<close>

theorem migration_replaces_before_removing:
  assumes "inj uid" and "m \<in> set ms"
  shows "\<exists>up \<in> set (GeneratePlan uid d ms). \<exists>down \<in> set (GeneratePlan uid d ms).
    op_Payload up = PayloadScaleUp (migration_up m) \<and> op_Payload down = PayloadScaleDown (migration_down m)
    \<and> (op_ID down \<in> set (er_Completed (Execute od env outcome (GeneratePlan uid d ms)))
         \<or> op_ID down \<in> set (map fo_OperationID (er_Failed (Execute od env outcome (GeneratePlan uid d ms)))) \<longrightarrow>
       op_ID up \<in> set (er_Completed (Execute od env outcome (GeneratePlan uid d ms))) \<and> outcome up = None)"
proof -
  let ?plan = "GeneratePlan uid d ms"
  have p: "distinct (map op_ID ?plan)" by (rule plan_ok_distinct [OF GeneratePlan_ok [OF assms(1)]])
  obtain up down where pair: "{up, down} \<subseteq> set ?plan \<and> op_Payload up = PayloadScaleUp (migration_up m)
     \<and> op_Payload down = PayloadScaleDown (migration_down m) \<and> op_DependsOn down = [op_ID up]"
    using GeneratePlan_pair [OF assms(2), of uid d] by blast
  then have ud: "up \<in> set ?plan" "down \<in> set ?plan" "op_Payload up = PayloadScaleUp (migration_up m)"
    "op_Payload down = PayloadScaleDown (migration_down m)" "op_DependsOn down = [op_ID up]" by simp_all
  obtain st where E: "Execute od env outcome ?plan = exec_result st" and I: "exec_inv ?plan outcome st"
    using Execute_end [OF p] by metis
  have B: "books ?plan st" and D: "deps_done ?plan (ex_status st)" and R: "results_ok ?plan outcome st"
    using I by (simp_all add: exec_inv_def)
  have "op_ID up \<in> set (ex_completed st) \<and> outcome up = None"
    if s: "op_ID down \<in> set (ex_completed st) \<or> op_ID down \<in> set (map fo_OperationID (ex_failed st))"
  proof -
    have "gget (ex_status st) (op_ID down) \<in> {Some opInFlight, Some opCompleted, Some opFailed}"
      using s unfolding books_lists [OF B] by blast
    then have "gget (ex_status st) (op_ID up) = Some opCompleted"
      using D ud(2,5) unfolding deps_done_def by (metis list.set_intros(1))
    then have "op_ID up \<in> set (ex_completed st)" unfolding books_lists [OF B] .
    moreover from this have "outcome up = None"
      using R ud(1) unfolding results_ok_def by (metis in_set_conv_nth)
    ultimately show ?thesis by blast
  qed
  then show ?thesis
    using ud unfolding E exec_result_def by (intro bexI [of _ up] bexI [of _ down]) simp_all
qed

section \<open>An example\<close>

lemma collect_ids: "{op_ID op |op. op \<in> set ops \<and> P op} = set (map op_ID (filter P ops))"
  by auto

definition sample_op :: "OperationID \<Rightarrow> OperationID list \<Rightarrow> Operation" where
  "sample_op i deps = \<lparr>op_ID = i, op_Type = OperationScaleDown,
     op_Payload = PayloadScaleDown \<lparr>sd_AppID = ''app'', sd_ReplicaID = i\<rparr>, op_DependsOn = deps\<rparr>"

definition sample_plan :: ExecutionPlan where
  "sample_plan = [sample_op ''a'' [], sample_op ''b'' [''a''], sample_op ''c'' []]"

definition fail_a :: "Operation \<Rightarrow> string option" where
  "fail_a op = (if op_ID op = ''a'' then Some ''boom'' else None)"

lemma sample_plan_ok: "plan_ok sample_plan"
  by (simp add: plan_ok_def sample_plan_def sample_op_def All_less_Suc numeral_eq_Suc)

lemma sample_will_complete: "will_complete sample_plan fail_a i \<longleftrightarrow> i = ''c''"
proof
  assume "will_complete sample_plan fail_a i"
  then show "i = ''c''"
  proof (induction rule: will_complete.induct)
    case (1 op)
    then show ?case by (auto simp: sample_plan_def sample_op_def fail_a_def)
  qed
next
  have "will_complete sample_plan fail_a (op_ID (sample_op ''c'' []))"
    by (rule will_complete.intros) (simp_all add: sample_plan_def sample_op_def fail_a_def)
  then show "i = ''c'' \<Longrightarrow> will_complete sample_plan fail_a i" by (simp add: sample_op_def)
qed

lemma sample_execution:
  "Execute (\<lambda>_. []) (\<lambda>_. Receive 0) fail_a sample_plan
     = \<lparr>er_Completed = [''c''], er_Failed = [\<lparr>fo_OperationID = ''a'', fo_Type = OperationScaleDown, fo_Err = ''boom''\<rparr>],
        er_Aborted = [''b'']\<rparr>"
  by code_simp

lemma operations_run_after_their_dependencies_witness:
  "(\<exists>op \<in> set sample_plan. ''a'' = op_ID op \<and> fail_a op = Some ''boom'')
   \<and> (\<exists>op \<in> set sample_plan. op_ID op = ''c'' \<and> fail_a op = None)"
  using operations_run_after_their_dependencies [OF plan_ok_distinct [OF sample_plan_ok],
      of "\<lambda>_. []" "\<lambda>_. Receive 0" fail_a]
  unfolding sample_execution by (auto simp: sample_plan_def sample_op_def)

lemma every_operation_ends_once_witness:
  "mset (er_Completed (Execute (\<lambda>_. []) (\<lambda>_. Receive 0) fail_a sample_plan)
      @ map fo_OperationID (er_Failed (Execute (\<lambda>_. []) (\<lambda>_. Receive 0) fail_a sample_plan))
      @ er_Aborted (Execute (\<lambda>_. []) (\<lambda>_. Receive 0) fail_a sample_plan)) = {#''a'', ''b'', ''c''#}"
  unfolding every_operation_ends_once [OF sample_plan_ok] by (simp add: sample_plan_def sample_op_def)

lemma result_is_independent_of_the_schedule_witness:
  "set (er_Completed (Execute (\<lambda>_. []) (\<lambda>_. Receive 0) fail_a sample_plan)) = {''c''}
   \<and> set (map fo_OperationID (er_Failed (Execute (\<lambda>_. []) (\<lambda>_. Receive 0) fail_a sample_plan))) = {''a''}
   \<and> set (er_Aborted (Execute (\<lambda>_. []) (\<lambda>_. Receive 0) fail_a sample_plan)) = {''b''}"
proof -
  have "\<forall>k. \<not> is_cancel ((\<lambda>_. Receive 0) (k :: nat))" by (simp add: is_cancel_def)
  note result_is_independent_of_the_schedule [OF sample_plan_ok this, of "\<lambda>_. []" fail_a]
  moreover have "{i. will_complete sample_plan fail_a i} = {''c''}" by (simp add: sample_will_complete)
  ultimately show ?thesis
    unfolding collect_ids sample_will_complete by (simp add: sample_plan_def sample_op_def fail_a_def)
qed

definition sample_migration :: MigrateDecision where
  "sample_migration = \<lparr>mg_AppID = ''a'', mg_SourceReplicaID = ''r'', mg_TargetClusterID = ''c'',
     mg_SchedulingConstraints = zero_SchedulingConstraints\<rparr>"

lemma migration_replaces_before_removing_witness:
  "\<exists>up \<in> set (GeneratePlan (\<lambda>n. replicate n CHR ''x'') zero_PlacementDecisions [sample_migration]).
     op_Payload up = PayloadScaleUp (migration_up sample_migration)"
  using migration_replaces_before_removing [OF inj_replicate_x, of sample_migration "[sample_migration]"
      zero_PlacementDecisions "\<lambda>_. []" "\<lambda>_. Receive 0" "\<lambda>_. None :: string option"]
  by (meson list.set_intros(1))

end
