(* ===== verification/Operations.thy ===== *)
theory Operations
  imports Reservations Snapshot Executor
begin

text \<open>
  \<open>internal/executor/operations.go\<close>, \<open>config.go\<close> and the helpers of \<open>executor.go\<close>: what the
  goroutine of one operation does.

  The goroutine talks to a cluster client and to the world state, both shared with everything
  else that runs. What the cluster answers is the argument \<open>responses\<close> (an answer per call, in
  whatever way other goroutines and the cluster itself influence it), and what the goroutine
  does is the list of its calls (\<open>action\<close>) beside the error it returns. \<open>rsp_ticks\<close> is the
  number of poll timers that fire before the context is done.
\<close>

section \<open>Configuration, answers, actions\<close>

record ExecutorConfig =
  xc_PollInterval :: duration
  xc_WaitForDeletionTimeout :: duration
  xc_DefaultReservationTTL :: duration

definition DefaultExecutorConfig :: ExecutorConfig where
  "DefaultExecutorConfig = \<lparr>xc_PollInterval = seconds 5,
     xc_WaitForDeletionTimeout = seconds 120,
     xc_DefaultReservationTTL = seconds 300\<rparr>"

text \<open>The answers of one cluster client to one goroutine; \<open>'e\<close> is the type of its errors.\<close>

record 'e responses =
  rsp_create :: "'e + ReplicaID"
  rsp_status :: "nat \<Rightarrow> 'e + ReplicaStatus"
  rsp_delete :: "'e option"
  rsp_label :: "'e option"
  rsp_ticks :: nat
  rsp_ctx_err :: 'e

datatype 'e op_error =
  NoClusterClient ClusterID
| ReplicaNotInSnapshot ReplicaID
| UnsupportedPayload
| CreateFailed AppID 'e
| LabelFailed ReplicaID 'e
| DeleteFailed ReplicaID 'e
| StatusFailed ReplicaID 'e
| TerminatedUnexpectedly ReplicaID
| ContextDone 'e
| WaitFailed ReplicaID "'e op_error"

datatype action =
  ActCreateReplica AppID SchedulingConstraints
| ActLabelReplica ReplicaID "(string \<times> string) list"
| ActDeleteReplica ReplicaID
| ActWithTimeout duration
| ActGetReplicaStatus ReplicaID
| ActFulfillReservation ReservationID
| ActExpireReservation ReservationID

type_synonym 'e op_run = "'e op_error option \<times> action list"

section \<open>Waiting\<close>

text \<open>
  The polling loops of \<open>waitForRunning\<close> and \<open>waitForDeletion\<close>: \<open>ticks\<close> timers are left before
  the context is done, \<open>n\<close> polls have been made.
\<close>

primrec waitForRunning :: "'e responses \<Rightarrow> ReplicaID \<Rightarrow> nat \<Rightarrow> nat \<Rightarrow> 'e op_run" where
  "waitForRunning r rid n 0 =
     ((case rsp_status r n of
         Inl e \<Rightarrow> Some (StatusFailed rid e)
       | Inr ReplicaStatusRunning \<Rightarrow> None
       | Inr ReplicaStatusTerminated \<Rightarrow> Some (TerminatedUnexpectedly rid)
       | Inr _ \<Rightarrow> Some (ContextDone (rsp_ctx_err r))), [ActGetReplicaStatus rid])"
| "waitForRunning r rid n (Suc ticks) =
     (case rsp_status r n of
        Inl e \<Rightarrow> (Some (StatusFailed rid e), [ActGetReplicaStatus rid])
      | Inr ReplicaStatusRunning \<Rightarrow> (None, [ActGetReplicaStatus rid])
      | Inr ReplicaStatusTerminated \<Rightarrow> (Some (TerminatedUnexpectedly rid), [ActGetReplicaStatus rid])
      | Inr _ \<Rightarrow> (let (err, acts) = waitForRunning r rid (Suc n) ticks in (err, ActGetReplicaStatus rid # acts)))"

primrec waitForDeletion :: "'e responses \<Rightarrow> ReplicaID \<Rightarrow> nat \<Rightarrow> nat \<Rightarrow> 'e op_run" where
  "waitForDeletion r rid n 0 =
     ((case rsp_status r n of
         Inl e \<Rightarrow> None
       | Inr s \<Rightarrow> if s = ReplicaStatusTerminated then None else Some (ContextDone (rsp_ctx_err r))),
      [ActGetReplicaStatus rid])"
| "waitForDeletion r rid n (Suc ticks) =
     (case rsp_status r n of
        Inl e \<Rightarrow> (None, [ActGetReplicaStatus rid])
      | Inr s \<Rightarrow> if s = ReplicaStatusTerminated then (None, [ActGetReplicaStatus rid])
          else (let (err, acts) = waitForDeletion r rid (Suc n) ticks in (err, ActGetReplicaStatus rid # acts)))"

section \<open>The operations\<close>

definition scaleUp :: "'e responses \<Rightarrow> ScaleUpDecision \<Rightarrow> duration \<Rightarrow> 'e op_run" where
  "scaleUp r decision ttl =
     (let create = ActCreateReplica (su_AppID decision) (su_SchedulingConstraints decision)
      in case rsp_create r of
           Inl e \<Rightarrow> (Some (CreateFailed (su_AppID decision) e), [create])
         | Inr replicaID \<Rightarrow>
             (let (err, polls) = waitForRunning r replicaID 0 (rsp_ticks r);
                  waited = create # ActWithTimeout ttl # polls
              in case err of
                   Some e \<Rightarrow> (Some (WaitFailed replicaID e),
                     waited @ [ActExpireReservation (su_ReservationID decision), ActDeleteReplica replicaID])
                 | None \<Rightarrow> (None, waited @ [ActFulfillReservation (su_ReservationID decision)])))"

definition preempt :: "ExecutorConfig \<Rightarrow> 'e responses \<Rightarrow> PreemptionDecision \<Rightarrow> 'e op_run" where
  "preempt cfg r decision =
     (let victim = pd_VictimReplicaID decision;
          label = ActLabelReplica victim [(''draining'', ''true'')];
          timeout = wrap64 (xc_WaitForDeletionTimeout cfg + seconds (pd_GracePeriodSeconds decision))
      in case rsp_label r of
           Some e \<Rightarrow> (Some (LabelFailed victim e), [label])
         | None \<Rightarrow> (case rsp_delete r of
             Some e \<Rightarrow> (Some (DeleteFailed victim e), [label, ActDeleteReplica victim])
           | None \<Rightarrow> (let (err, polls) = waitForDeletion r victim 0 (rsp_ticks r)
               in (map_option (WaitFailed victim) err, label # ActDeleteReplica victim # ActWithTimeout timeout # polls))))"

definition scaleDown :: "ExecutorConfig \<Rightarrow> 'e responses \<Rightarrow> ScaleDownDecision \<Rightarrow> 'e op_run" where
  "scaleDown cfg r decision =
     (let rid = sd_ReplicaID decision
      in case rsp_delete r of
           Some e \<Rightarrow> (Some (DeleteFailed rid e), [ActDeleteReplica rid])
         | None \<Rightarrow> (let (err, polls) = waitForDeletion r rid 0 (rsp_ticks r)
             in (map_option (WaitFailed rid) err,
                 ActDeleteReplica rid # ActWithTimeout (xc_WaitForDeletionTimeout cfg) # polls)))"

section \<open>Dispatch\<close>

text \<open>
  \<open>clients\<close> is the executor's map of cluster clients; a client is the answers it gives.
\<close>

definition clusterClientFor :: "(ClusterID, 'e responses) gomap \<Rightarrow> ClusterID \<Rightarrow> 'e op_error + 'e responses" where
  "clusterClientFor clients cid =
     (case gget clients cid of None \<Rightarrow> Inl (NoClusterClient cid) | Some client \<Rightarrow> Inr client)"

definition reservationTTL :: "ExecutorConfig \<Rightarrow> ReservationID \<Rightarrow> WorldStateSnapshot \<Rightarrow> duration" where
  "reservationTTL cfg resID snap =
     (case gget (sn_Reservations snap) resID of
        Some res \<Rightarrow> if rs_TTLSeconds res > 0 then seconds (rs_TTLSeconds res) else xc_DefaultReservationTTL cfg
      | None \<Rightarrow> xc_DefaultReservationTTL cfg)"

definition dispatchOp ::
  "ExecutorConfig \<Rightarrow> (ClusterID, 'e responses) gomap \<Rightarrow> WorldStateSnapshot \<Rightarrow> Operation \<Rightarrow> 'e op_run" where
  "dispatchOp cfg clients snap op =
     (case op_Payload op of
        PayloadScaleUp d \<Rightarrow>
          (case clusterClientFor clients (su_ClusterID d) of
             Inl e \<Rightarrow> (Some e, [])
           | Inr client \<Rightarrow> scaleUp client d (reservationTTL cfg (su_ReservationID d) snap))
      | PayloadPreempt d \<Rightarrow>
          (case clusterClientFor clients (pd_ClusterID d) of
             Inl e \<Rightarrow> (Some e, [])
           | Inr client \<Rightarrow> preempt cfg client d)
      | PayloadScaleDown d \<Rightarrow>
          (case gget (sn_Replicas snap) (sd_ReplicaID d) of
             None \<Rightarrow> (Some (ReplicaNotInSnapshot (sd_ReplicaID d)), [])
           | Some replica \<Rightarrow>
               (case clusterClientFor clients (rp_ClusterID replica) of
                  Inl e \<Rightarrow> (Some e, [])
                | Inr client \<Rightarrow> scaleDown cfg client d))
      | PayloadOther \<Rightarrow> (Some UnsupportedPayload, []))"

text \<open>
  What the calls to the world state do to it: their errors are logged and dropped.
\<close>

fun apply_action :: "(ReservationID \<Rightarrow> 's \<Rightarrow> 'x + 's) \<Rightarrow> (ReservationID \<Rightarrow> 's \<Rightarrow> 'x + 's) \<Rightarrow> action \<Rightarrow> 's \<Rightarrow> 's" where
  "apply_action fulfill expire_one (ActFulfillReservation i) s = (case fulfill i s of Inl _ \<Rightarrow> s | Inr s' \<Rightarrow> s')"
| "apply_action fulfill expire_one (ActExpireReservation i) s = (case expire_one i s of Inl _ \<Rightarrow> s | Inr s' \<Rightarrow> s')"
| "apply_action fulfill expire_one _ s = s"

section \<open>When waiting succeeds\<close>

definition keeps_waiting :: "'e + ReplicaStatus \<Rightarrow> bool" where
  "keeps_waiting s \<longleftrightarrow> s = Inr ReplicaStatusPending \<or> s = Inr ReplicaStatusDraining"

definition gone :: "'e + ReplicaStatus \<Rightarrow> bool" where
  "gone s \<longleftrightarrow> (case s of Inl _ \<Rightarrow> True | Inr st \<Rightarrow> st = ReplicaStatusTerminated)"

lemma poll_split:
  "(\<exists>m \<le> Suc ticks. P (n + m) \<and> (\<forall>j < m. Q (n + j)))
     \<longleftrightarrow> P n \<or> Q n \<and> (\<exists>m \<le> ticks. P (Suc n + m) \<and> (\<forall>j < m. Q (Suc n + j)))"
proof
  assume "\<exists>m \<le> Suc ticks. P (n + m) \<and> (\<forall>j < m. Q (n + j))"
  then obtain m where m: "m \<le> Suc ticks" "P (n + m)" "\<forall>j < m. Q (n + j)" by blast
  show "P n \<or> Q n \<and> (\<exists>m \<le> ticks. P (Suc n + m) \<and> (\<forall>j < m. Q (Suc n + j)))"
  proof (cases m)
    case (Suc k)
    then have "k \<le> ticks \<and> P (Suc n + k) \<and> (\<forall>j < k. Q (Suc n + j))" using m by (auto dest: spec [of _ "Suc _"])
    moreover have "Q n" using m(3) Suc by (auto dest: spec [of _ 0])
    ultimately show ?thesis by blast
  qed (use m in simp)
next
  assume "P n \<or> Q n \<and> (\<exists>m \<le> ticks. P (Suc n + m) \<and> (\<forall>j < m. Q (Suc n + j)))"
  then show "\<exists>m \<le> Suc ticks. P (n + m) \<and> (\<forall>j < m. Q (n + j))"
  proof
    assume "Q n \<and> (\<exists>m \<le> ticks. P (Suc n + m) \<and> (\<forall>j < m. Q (Suc n + j)))"
    then obtain m where "Q n" "m \<le> ticks" "P (Suc n + m)" "\<forall>j < m. Q (Suc n + j)" by blast
    then show ?thesis by (intro exI [of _ "Suc m"]) (auto simp: less_Suc_eq_0_disj)
  qed (auto intro: exI [of _ 0])
qed

lemma waitForRunning_ok:
  "fst (waitForRunning r rid n ticks) = None \<longleftrightarrow>
     (\<exists>m \<le> ticks. rsp_status r (n + m) = Inr ReplicaStatusRunning \<and> (\<forall>j < m. keeps_waiting (rsp_status r (n + j))))"
proof (induction ticks arbitrary: n)
  case 0
  then show ?case by (auto split: sum.split ReplicaStatus.split)
next
  case (Suc ticks)
  show ?case
    unfolding poll_split [where P = "\<lambda>k. rsp_status r k = Inr ReplicaStatusRunning" and Q = "\<lambda>k. keeps_waiting (rsp_status r k)"]
      Suc.IH [symmetric]
    by (auto simp: keeps_waiting_def Let_def split: sum.split ReplicaStatus.split prod.split)
qed

lemma waitForDeletion_ok:
  "fst (waitForDeletion r rid n ticks) = None \<longleftrightarrow> (\<exists>m \<le> ticks. gone (rsp_status r (n + m)))"
proof (induction ticks arbitrary: n)
  case 0
  then show ?case by (auto simp: gone_def split: sum.split)
next
  case (Suc ticks)
  show ?case
  proof (cases "gone (rsp_status r n)")
    case True
    then have "fst (waitForDeletion r rid n (Suc ticks)) = None" by (auto simp: gone_def split: sum.splits)
    moreover have "\<exists>m \<le> Suc ticks. gone (rsp_status r (n + m))" using True by (intro exI [of _ 0]) simp
    ultimately show ?thesis by simp
  next
    case False
    then have "fst (waitForDeletion r rid n (Suc ticks)) = fst (waitForDeletion r rid (Suc n) ticks)"
      by (auto simp: gone_def split_beta Let_def split: sum.splits)
    then show ?thesis
      using poll_split [where P = "\<lambda>k. gone (rsp_status r k)" and Q = "\<lambda>_. True", of ticks n] Suc.IH [of "Suc n"] False
      by simp
  qed
qed

lemma waitForRunning_acts: "set (snd (waitForRunning r rid n ticks)) = {ActGetReplicaStatus rid}"
  by (induction ticks arbitrary: n) (simp_all add: split_beta Let_def split: sum.split ReplicaStatus.split)

lemma waitForDeletion_acts: "set (snd (waitForDeletion r rid n ticks)) = {ActGetReplicaStatus rid}"
  by (induction ticks arbitrary: n) (simp_all add: split_beta Let_def split: sum.split)

text \<open>Only the reservation calls matter to the world state.\<close>

definition run_actions ::
  "(ReservationID \<Rightarrow> 's \<Rightarrow> 'x + 's) \<Rightarrow> (ReservationID \<Rightarrow> 's \<Rightarrow> 'x + 's) \<Rightarrow> action list \<Rightarrow> 's \<Rightarrow> 's" where
  "run_actions fulfill expire_one acts s = fold (apply_action fulfill expire_one) acts s"

lemma run_actions_simps [simp]:
  "run_actions fulfill expire_one [] s = s"
  "run_actions fulfill expire_one (a # acts) s = run_actions fulfill expire_one acts (apply_action fulfill expire_one a s)"
  "run_actions fulfill expire_one (acts @ acts') s = run_actions fulfill expire_one acts' (run_actions fulfill expire_one acts s)"
  by (simp_all add: run_actions_def)

lemma run_actions_polls:
  "set acts \<subseteq> {ActGetReplicaStatus rid} \<Longrightarrow> run_actions fulfill expire_one acts s = s"
  by (induction acts arbitrary: s) auto

context reservation_store
begin

text \<open>The client of the store: closing a reservation whatever happens.\<close>

lemma apply_fulfill_status:
  "status (apply_action fulfill expire_one (ActFulfillReservation i) s) j =
     (if j = i \<and> status s i = Some ReservationStatusActive then Some ReservationStatusFulfilled else status s j)"
proof (cases "fulfill i s")
  case (Inl e)
  then have "status s i \<noteq> Some ReservationStatusActive" using fulfill_ok [of i s] by auto
  then show ?thesis using Inl by simp
next
  case (Inr s')
  then have "status s i = Some ReservationStatusActive" using fulfill_ok [of i s] by auto
  then show ?thesis using Inr fulfill_status [OF Inr] by simp
qed

lemma apply_expire_status:
  "status (apply_action fulfill expire_one (ActExpireReservation i) s) j =
     (if j = i \<and> status s i = Some ReservationStatusActive then Some ReservationStatusExpired else status s j)"
proof (cases "expire_one i s")
  case (Inl e)
  then have "status s i \<noteq> Some ReservationStatusActive" using expire_ok [of i s] by auto
  then show ?thesis using Inl by simp
next
  case (Inr s')
  then have "status s i = Some ReservationStatusActive" using expire_ok [of i s] by auto
  then show ?thesis using Inr expire_status [OF Inr] by simp
qed

lemma scale_up_closes:
  assumes "rsp_create r = Inr rid"
  shows "status (run_actions fulfill expire_one (snd (scaleUp r d ttl)) s) j =
    (if j = su_ReservationID d \<and> status s j = Some ReservationStatusActive
     then Some (if fst (scaleUp r d ttl) = None then ReservationStatusFulfilled else ReservationStatusExpired)
     else status s j)"
proof -
  obtain err polls where w: "waitForRunning r rid 0 (rsp_ticks r) = (err, polls)" by fastforce
  have "set polls \<subseteq> {ActGetReplicaStatus rid}" using waitForRunning_acts [of r rid 0 "rsp_ticks r"] w by simp
  note p = run_actions_polls [OF this, of fulfill expire_one]
  show ?thesis
    using assms w apply_fulfill_status [of "su_ReservationID d" s j] apply_expire_status [of "su_ReservationID d" s j]
    by (cases err) (auto simp: scaleUp_def Let_def p)
qed

lemma scale_up_not_created:
  assumes "rsp_create r = Inl e"
  shows "run_actions fulfill expire_one (snd (scaleUp r d ttl)) s = s"
  using assms by (simp add: scaleUp_def Let_def)

end

text \<open>Removing a replica makes no reservation call.\<close>

lemma removal_no_effect:
  "run_actions fulfill expire_one (snd (preempt cfg r p)) s = s"
  "run_actions fulfill expire_one (snd (scaleDown cfg r d)) s = s"
proof -
  obtain e1 polls1 where w1: "waitForDeletion r (pd_VictimReplicaID p) 0 (rsp_ticks r) = (e1, polls1)" by fastforce
  obtain e2 polls2 where w2: "waitForDeletion r (sd_ReplicaID d) 0 (rsp_ticks r) = (e2, polls2)" by fastforce
  have "run_actions fulfill expire_one polls1 s = s"
    using waitForDeletion_acts [of r "pd_VictimReplicaID p" 0 "rsp_ticks r"] w1 by (intro run_actions_polls) simp
  moreover have "run_actions fulfill expire_one polls2 s = s"
    using waitForDeletion_acts [of r "sd_ReplicaID d" 0 "rsp_ticks r"] w2 by (intro run_actions_polls) simp
  ultimately show "run_actions fulfill expire_one (snd (preempt cfg r p)) s = s"
    "run_actions fulfill expire_one (snd (scaleDown cfg r d)) s = s"
    using w1 w2 by (simp_all add: preempt_def scaleDown_def Let_def split: option.split)
qed

section \<open>Properties\<close>

text \<open>C24: A scale-up settles its reservation. Once the replica could be created, the operation fulfils
  an active reservation exactly when it succeeds and expires it exactly when it fails, changes no
  other reservation, and deletes the replica it created exactly when it fails; it succeeds exactly
  when some poll made before the deadline finds the replica running and every earlier one found it
  pending or draining. When the replica could not be created it fails and leaves the world state,
  the reservation included, as it was.\<close>

theorem scale_up_settles_its_reservation:
  "case rsp_create r of
     Inr rid \<Rightarrow>
       (\<forall>j. reservation_status (run_actions FulfillReservation ExpireReservation (snd (scaleUp r d ttl)) ws) j =
         (if j = su_ReservationID d \<and> reservation_status ws j = Some ReservationStatusActive
          then Some (if fst (scaleUp r d ttl) = None then ReservationStatusFulfilled else ReservationStatusExpired)
          else reservation_status ws j))
       \<and> (ActDeleteReplica rid \<in> set (snd (scaleUp r d ttl)) \<longleftrightarrow> fst (scaleUp r d ttl) \<noteq> None)
       \<and> (fst (scaleUp r d ttl) = None \<longleftrightarrow>
           (\<exists>m \<le> rsp_ticks r. rsp_status r m = Inr ReplicaStatusRunning \<and> (\<forall>j < m. keeps_waiting (rsp_status r j))))
   | Inl e \<Rightarrow> fst (scaleUp r d ttl) = Some (CreateFailed (su_AppID d) e)
       \<and> run_actions FulfillReservation ExpireReservation (snd (scaleUp r d ttl)) ws = ws"
proof (cases "rsp_create r")
  case (Inl e)
  then show ?thesis using store.scale_up_not_created [OF Inl, of d ttl ws] by (simp add: scaleUp_def Let_def)
next
  case (Inr rid)
  obtain err polls where w: "waitForRunning r rid 0 (rsp_ticks r) = (err, polls)" by fastforce
  have p: "set polls = {ActGetReplicaStatus rid}" using waitForRunning_acts [of r rid 0 "rsp_ticks r"] w by simp
  have "fst (scaleUp r d ttl) = None \<longleftrightarrow> fst (waitForRunning r rid 0 (rsp_ticks r)) = None"
    using w Inr by (cases err) (simp_all add: scaleUp_def Let_def)
  moreover have "ActDeleteReplica rid \<in> set (snd (scaleUp r d ttl)) \<longleftrightarrow> fst (scaleUp r d ttl) \<noteq> None"
    using w Inr p by (cases err) (simp_all add: scaleUp_def Let_def)
  ultimately show ?thesis
    using store.scale_up_closes [OF Inr, of d ttl ws] waitForRunning_ok [of r rid 0 "rsp_ticks r"] Inr by simp
qed

text \<open>Removing a replica, by preemption or scale-down, succeeds exactly when its calls do and some
  poll made before the deadline finds the replica terminated or no longer known. A preemption
  labels its victim before it deletes it and deletes nothing when the label could not be set,
  and neither removal touches a reservation.\<close>

lemma removal_waits_until_gone:
  "(fst (preempt cfg r p) = None \<longleftrightarrow>
      rsp_label r = None \<and> rsp_delete r = None \<and> (\<exists>m \<le> rsp_ticks r. gone (rsp_status r m)))
   \<and> (fst (scaleDown cfg r d) = None \<longleftrightarrow> rsp_delete r = None \<and> (\<exists>m \<le> rsp_ticks r. gone (rsp_status r m)))
   \<and> hd (snd (preempt cfg r p)) = ActLabelReplica (pd_VictimReplicaID p) [(''draining'', ''true'')]
   \<and> (ActDeleteReplica (pd_VictimReplicaID p) \<in> set (snd (preempt cfg r p)) \<longleftrightarrow> rsp_label r = None)
   \<and> run_actions FulfillReservation ExpireReservation (snd (preempt cfg r p)) ws = ws
   \<and> run_actions FulfillReservation ExpireReservation (snd (scaleDown cfg r d)) ws = ws"
proof -
  obtain e1 polls1 where w1: "waitForDeletion r (pd_VictimReplicaID p) 0 (rsp_ticks r) = (e1, polls1)" by fastforce
  obtain e2 polls2 where w2: "waitForDeletion r (sd_ReplicaID d) 0 (rsp_ticks r) = (e2, polls2)" by fastforce
  have s1: "set polls1 = {ActGetReplicaStatus (pd_VictimReplicaID p)}"
    using waitForDeletion_acts [of r "pd_VictimReplicaID p" 0 "rsp_ticks r"] w1 by simp
  show ?thesis
    using w1 w2 s1 waitForDeletion_ok [of r "pd_VictimReplicaID p" 0 "rsp_ticks r"]
      waitForDeletion_ok [of r "sd_ReplicaID d" 0 "rsp_ticks r"]
    by (simp add: removal_no_effect) (simp add: preempt_def scaleDown_def Let_def split: option.split)
qed

text \<open>Dispatching fails without a single call to a cluster or to the world state exactly when there is no client for the
  cluster, the replica to scale down is not in the snapshot, or the payload is of no known type;
  the error says which.\<close>

lemma dispatch_errors_are_effect_free:
  "snd (dispatchOp cfg clients snap op) = [] \<longleftrightarrow>
     (case op_Payload op of
        PayloadScaleUp d \<Rightarrow> gget clients (su_ClusterID d) = None
          \<and> fst (dispatchOp cfg clients snap op) = Some (NoClusterClient (su_ClusterID d))
      | PayloadPreempt d \<Rightarrow> gget clients (pd_ClusterID d) = None
          \<and> fst (dispatchOp cfg clients snap op) = Some (NoClusterClient (pd_ClusterID d))
      | PayloadScaleDown d \<Rightarrow> (case gget (sn_Replicas snap) (sd_ReplicaID d) of
            None \<Rightarrow> fst (dispatchOp cfg clients snap op) = Some (ReplicaNotInSnapshot (sd_ReplicaID d))
          | Some rep \<Rightarrow> gget clients (rp_ClusterID rep) = None
              \<and> fst (dispatchOp cfg clients snap op) = Some (NoClusterClient (rp_ClusterID rep)))
      | PayloadOther \<Rightarrow> fst (dispatchOp cfg clients snap op) = Some UnsupportedPayload)"
proof -
  have "snd (scaleUp r d ttl) \<noteq> []" for r :: "'a responses" and d ttl
    by (auto simp: scaleUp_def Let_def split_beta split: sum.split option.split)
  moreover have "snd (preempt cfg r p) \<noteq> []" for r :: "'a responses" and p
    by (auto simp: preempt_def Let_def split_beta split: option.split)
  moreover have "snd (scaleDown cfg r p) \<noteq> []" for r :: "'a responses" and p
    by (auto simp: scaleDown_def Let_def split_beta split: option.split)
  ultimately show ?thesis
    by (simp add: dispatchOp_def clusterClientFor_def split: Payload.split option.split)
qed

section \<open>An example\<close>

definition sample_responses :: "string responses" where
  "sample_responses = \<lparr>rsp_create = Inr ''r1'',
     rsp_status = (\<lambda>n. Inr (if n = 0 then ReplicaStatusPending else ReplicaStatusRunning)),
     rsp_delete = None, rsp_label = None, rsp_ticks = 3, rsp_ctx_err = ''deadline exceeded''\<rparr>"

definition sample_scale_up :: ScaleUpDecision where
  "sample_scale_up = \<lparr>su_AppID = ''app'', su_ClusterID = ''c1'', su_ReservationID = ''res1'',
     su_SchedulingConstraints = zero_SchedulingConstraints\<rparr>"

definition sample_store :: WorldState where
  "sample_store = New\<lparr>ws_reservations := [(''res1'', sample_reservation)]\<rparr>"

lemma scale_up_settles_its_reservation_witness:
  "reservation_status (run_actions FulfillReservation ExpireReservation
     (snd (scaleUp sample_responses sample_scale_up 0)) sample_store) ''res1'' = Some ReservationStatusFulfilled"
proof -
  have "\<exists>m \<le> (3 :: nat). (if m = 0 then ReplicaStatusPending else ReplicaStatusRunning) = ReplicaStatusRunning \<and> (\<forall>j < m. j = 0)"
    by (rule exI [of _ "1 :: nat"]) simp
  then have m: "\<exists>m \<le> rsp_ticks sample_responses. rsp_status sample_responses m = Inr ReplicaStatusRunning
      \<and> (\<forall>j < m. keeps_waiting (rsp_status sample_responses j))"
    by (auto simp: sample_responses_def keeps_waiting_def)
  show ?thesis
    using scale_up_settles_its_reservation [of sample_responses sample_scale_up 0 sample_store] m
    by (simp add: sample_responses_def sample_scale_up_def sample_store_def sample_reservation_def reservation_status_def)
qed

end
