(* ===== verification/Ingestion.thy ===== *)
theory Ingestion
  imports Model
begin

text \<open>
  \<open>internal/ingestion\<close>: the normalised events, what the ingester's listeners make of what they
  receive, and the debouncer that coalesces events into batches. A listener is modelled by the
  list of events it sends on \<open>rawCh\<close> for one item; the debouncer by its loop's state and one step
  per arm of its \<open>select\<close>. Counters and spans are left out; the relaying goroutine
  \<open>instrumentBatches\<close>, which forwards batches unchanged, is in theory \<open>Pipeline\<close>.
\<close>

section \<open>Events\<close>

datatype EventKind =
  EventMetricsUpdate | EventClusterEvent | EventSLABreach | EventPeriodicEval | EventAppConfigUpdate

fun kind_string :: "EventKind \<Rightarrow> string" where
  "kind_string EventMetricsUpdate = ''MetricsUpdate''"
| "kind_string EventClusterEvent = ''ClusterEvent''"
| "kind_string EventSLABreach = ''SLABreach''"
| "kind_string EventPeriodicEval = ''PeriodicEval''"
| "kind_string EventAppConfigUpdate = ''AppConfigUpdate''"

record Event =
  ev_Kind :: EventKind
  ev_Timestamp :: time
  ev_AppID :: AppID
  ev_VLLMMetrics :: "VLLMMetrics option"
  ev_ClusterEvent :: "ClusterEvent option"
  ev_Application :: "Application option"
  ev_SLAMetric :: string
  ev_SLAThreshold :: f64
  ev_SLAActual :: f64

text \<open>The composite literal \<open>Event{Kind: k, Timestamp: t}\<close>; further fields are set by updates.\<close>

definition event :: "EventKind \<Rightarrow> time \<Rightarrow> Event" where
  "event k t = \<lparr>ev_Kind = k, ev_Timestamp = t, ev_AppID = '''', ev_VLLMMetrics = None, ev_ClusterEvent = None,
     ev_Application = None, ev_SLAMetric = '''', ev_SLAThreshold = f_zero, ev_SLAActual = f_zero\<rparr>"

definition isMergeable :: "Event \<Rightarrow> bool" where
  "isMergeable e \<longleftrightarrow> ev_Kind e \<noteq> EventClusterEvent"

definition mergeKey :: "Event \<Rightarrow> string" where
  "mergeKey e = (if \<not> isMergeable e then '''' else kind_string (ev_Kind e) @ '':'' @ ev_AppID e)"

section \<open>The debouncer\<close>

text \<open>
  The variables of \<open>loop\<close>; \<open>db_timer\<close> is \<open>timerCh \<noteq> nil\<close>, \<open>db_out\<close> what has been sent on the
  output channel, \<open>db_closed\<close> that the loop has returned.
\<close>

record Debouncer =
  db_merged :: "(string, Event) gomap"
  db_nonMergeable :: "Event list"
  db_timer :: bool
  db_out :: "Event list list"
  db_closed :: bool

text \<open>
  What a \<open>select\<close> chooses: an event, the timer, the end of the input, or the end of the context.
  A batch the timer flushes is sent under a second \<open>select\<close> that may choose the end of the context
  instead: \<open>InTimer False\<close>.
\<close>

datatype deb_input = InEvent Event | InTimer bool | InClosed | InDone

definition new_debouncer :: Debouncer where
  "new_debouncer = \<lparr>db_merged = [], db_nonMergeable = [], db_timer = False, db_out = [], db_closed = False\<rparr>"

definition buildBatch :: "orders \<Rightarrow> (string, Event) gomap \<Rightarrow> Event list \<Rightarrow> Event list" where
  "buildBatch od merged nonMergeable = map snd (range_order od merged) @ nonMergeable"

definition flush :: "orders \<Rightarrow> bool \<Rightarrow> Debouncer \<Rightarrow> Debouncer" where
  "flush od sent st =
     (let batch = buildBatch od (db_merged st) (db_nonMergeable st)
      in if batch = [] then st
         else st\<lparr>db_out := (if sent then db_out st @ [batch] else db_out st), db_merged := [], db_nonMergeable := []\<rparr>)"

definition deb_step :: "orders \<Rightarrow> deb_input \<Rightarrow> Debouncer \<Rightarrow> Debouncer" where
  "deb_step od i st =
     (if db_closed st then st
      else case i of
        InEvent ev \<Rightarrow>
          (if isMergeable ev then st\<lparr>db_merged := gput (mergeKey ev) ev (db_merged st)\<rparr>
           else st\<lparr>db_nonMergeable := db_nonMergeable st @ [ev]\<rparr>)\<lparr>db_timer := True\<rparr>
      | InTimer sent \<Rightarrow> if db_timer st then (flush od sent st)\<lparr>db_timer := False\<rparr> else st
      | InClosed \<Rightarrow> (flush od True st)\<lparr>db_closed := True\<rparr>
      | InDone \<Rightarrow> (flush od True st)\<lparr>db_closed := True\<rparr>)"

primrec deb_run :: "orders \<Rightarrow> nat \<Rightarrow> deb_input list \<Rightarrow> Debouncer \<Rightarrow> Debouncer" where
  "deb_run od n [] st = st"
| "deb_run od n (i # ins) st = deb_run od (Suc n) ins (deb_step (sub od n) i st)"

section \<open>The ingester's listeners\<close>

type_synonym appRegistry = "(AppID, Application) gomap"

definition checkSLABreach :: "time \<Rightarrow> Application \<Rightarrow> VLLMMetrics \<Rightarrow> Event list" where
  "checkSLABreach now app metrics =
     (if sla_MaxP99TTFTMs (ap_SLA app) > 0
         \<and> f_lt (f_of_int (sla_MaxP99TTFTMs (ap_SLA app))) (vm_P99TimeToFirstTokenMs metrics)
      then [(event EventSLABreach now)\<lparr>ev_AppID := ap_AppID app, ev_SLAMetric := ''P99TTFT'',
              ev_SLAThreshold := f_of_int (sla_MaxP99TTFTMs (ap_SLA app)),
              ev_SLAActual := vm_P99TimeToFirstTokenMs metrics\<rparr>]
      else [])
     @ (if sla_MaxP99TPS (ap_SLA app) > 0
         \<and> f_lt (vm_TotalTokensPerSecond metrics) (f_of_int (sla_MaxP99TPS (ap_SLA app)))
        then [(event EventSLABreach now)\<lparr>ev_AppID := ap_AppID app, ev_SLAMetric := ''TPS'',
                ev_SLAThreshold := f_of_int (sla_MaxP99TPS (ap_SLA app)),
                ev_SLAActual := vm_TotalTokensPerSecond metrics\<rparr>]
        else [])"

text \<open>The lookup in the registry and the check that follow a metrics event in two listeners.\<close>

definition breaches_of :: "time \<Rightarrow> appRegistry \<Rightarrow> VLLMMetrics \<Rightarrow> Event list" where
  "breaches_of now reg metrics =
     (case gget reg (vm_AppID metrics) of None \<Rightarrow> [] | Some app \<Rightarrow> checkSLABreach now app metrics)"

definition listenInjectedEvents :: "time \<Rightarrow> appRegistry \<Rightarrow> Event \<Rightarrow> Event list" where
  "listenInjectedEvents now reg e =
     e # (case ev_VLLMMetrics e of
            Some metrics \<Rightarrow> if ev_Kind e = EventMetricsUpdate then breaches_of now reg metrics else []
          | None \<Rightarrow> [])"

definition listenClusterEvents :: "ClusterEvent \<Rightarrow> Event list" where
  "listenClusterEvents ce = [(event EventClusterEvent (ce_Timestamp ce))\<lparr>ev_ClusterEvent := Some ce\<rparr>]"

definition listenAppConfig :: "time \<Rightarrow> Application \<Rightarrow> appRegistry \<Rightarrow> appRegistry \<times> Event list" where
  "listenAppConfig now app reg =
     (gput (ap_AppID app) app reg,
      [(event EventAppConfigUpdate now)\<lparr>ev_AppID := ap_AppID app, ev_Application := Some app\<rparr>])"

definition listenMetricsConfig :: "time \<Rightarrow> appRegistry \<Rightarrow> VLLMMetrics \<Rightarrow> Event list" where
  "listenMetricsConfig now reg metrics =
     (event EventMetricsUpdate (vm_MeasuredAt metrics))\<lparr>ev_AppID := vm_AppID metrics, ev_VLLMMetrics := Some metrics\<rparr>
     # breaches_of now reg metrics"

text \<open>\<open>GetVLLMMetrics\<close> is the aggregator's method (a port); an error skips the application.\<close>

definition doPollMetrics :: "orders \<Rightarrow> time \<Rightarrow> (AppID \<Rightarrow> 'e + VLLMMetrics) \<Rightarrow> appRegistry \<Rightarrow> Event list" where
  "doPollMetrics od now GetVLLMMetrics reg =
     concat (map (\<lambda>(_, app). case GetVLLMMetrics (ap_AppID app) of
         Inl _ \<Rightarrow> []
       | Inr metrics \<Rightarrow>
           (event EventMetricsUpdate (vm_MeasuredAt metrics))
             \<lparr>ev_AppID := ap_AppID app, ev_VLLMMetrics := Some metrics\<rparr>
           # checkSLABreach now app metrics) (range_order od reg))"

definition periodicEvalTimer :: "time \<Rightarrow> Event list" where
  "periodicEvalTimer now = [event EventPeriodicEval now]"

text \<open>Seeding the registry in \<open>Start\<close>.\<close>

definition seed_registry :: "Application list \<Rightarrow> appRegistry" where
  "seed_registry apps = fold (\<lambda>app reg. gput (ap_AppID app) app reg) apps []"

text \<open>
  The synchronous part of \<open>Start\<close>: the registry is seeded and the three watches are set up in
  order; the first error ends it, the registry stays seeded. The answers of the ports are arguments
  (\<open>Inl\<close> or \<open>Some\<close> an error).
\<close>

datatype 'e start_error = ListApplicationsError 'e | WatchEventsError 'e | WatchApplicationsError 'e | WatchMetricsError 'e

definition Start :: "('e + Application list) \<Rightarrow> 'e option \<Rightarrow> 'e option \<Rightarrow> 'e option \<Rightarrow> 'e start_error option \<times> appRegistry" where
  "Start ListApplications WatchEvents WatchApplications WatchMetrics =
     (case ListApplications of
        Inl e \<Rightarrow> (Some (ListApplicationsError e), [])
      | Inr apps \<Rightarrow>
          (case WatchEvents of Some e \<Rightarrow> Some (WatchEventsError e)
           | None \<Rightarrow> (case WatchApplications of Some e \<Rightarrow> Some (WatchApplicationsError e)
           | None \<Rightarrow> map_option WatchMetricsError WatchMetrics), seed_registry apps))"

text \<open>An application is registered with its last configuration of the list.\<close>

lemma gget_seed_registry:
  "gget (seed_registry apps) a = List.find (\<lambda>app. ap_AppID app = a) (rev apps)"
proof -
  have "gget (fold (\<lambda>app reg. gput (ap_AppID app) app reg) apps reg) a
      = (case List.find (\<lambda>app. ap_AppID app = a) (rev apps) of None \<Rightarrow> gget reg a | Some app \<Rightarrow> Some app)" for reg
    by (induction apps rule: rev_induct) simp_all
  then show ?thesis by (simp add: seed_registry_def split: option.split)
qed

section \<open>Merge keys\<close>

lemma mergeKey_eq:
  assumes "isMergeable e" and "isMergeable e'"
  shows "mergeKey e = mergeKey e' \<longleftrightarrow> ev_Kind e = ev_Kind e' \<and> ev_AppID e = ev_AppID e'"
  using assms by (cases "ev_Kind e"; cases "ev_Kind e'") (simp_all add: mergeKey_def isMergeable_def)

text \<open>Events of one kind for one application: what the debouncer merges.\<close>

definition about :: "EventKind \<Rightarrow> AppID \<Rightarrow> Event \<Rightarrow> bool" where
  "about k a e \<longleftrightarrow> ev_Kind e = k \<and> ev_AppID e = a"

lemma about_mergeKey: "isMergeable e \<Longrightarrow> about k a e \<Longrightarrow> mergeKey e = kind_string k @ '':'' @ a"
  by (auto simp: about_def mergeKey_def)

lemma about_mergeable: "about k a e \<Longrightarrow> k \<noteq> EventClusterEvent \<Longrightarrow> isMergeable e"
  by (simp add: about_def isMergeable_def)

section \<open>The invariant of the debouncer\<close>

definition cluster_events :: "Event list \<Rightarrow> Event list" where
  "cluster_events evs = filter (\<lambda>e. \<not> isMergeable e) evs"

lemma cluster_events_append [simp]: "cluster_events (xs @ ys) = cluster_events xs @ cluster_events ys"
  by (simp add: cluster_events_def)

definition merged_ok :: "(string, Event) gomap \<Rightarrow> bool" where
  "merged_ok m \<longleftrightarrow> gwf m \<and> (\<forall>k e. gget m k = Some e \<longrightarrow> isMergeable e \<and> mergeKey e = k)"

text \<open>A batch holds at most one event per kind and application, cluster events apart.\<close>

definition coalesced :: "Event list \<Rightarrow> bool" where
  "coalesced batch \<longleftrightarrow> distinct (map mergeKey (filter isMergeable batch))"

definition keyed_as :: "string \<Rightarrow> Event \<Rightarrow> bool" where
  "keyed_as k e \<longleftrightarrow> isMergeable e \<and> mergeKey e = k"

text \<open>What has arrived is what was sent and what is held back.\<close>

definition deb_inv :: "Event list \<Rightarrow> Debouncer \<Rightarrow> bool" where
  "deb_inv arrived st \<longleftrightarrow> merged_ok (db_merged st) \<and> (\<forall>e \<in> set (db_nonMergeable st). \<not> isMergeable e)
     \<and> cluster_events (concat (db_out st)) @ db_nonMergeable st = cluster_events arrived
     \<and> (\<forall>k. latest (keyed_as k) arrived
          = (case gget (db_merged st) k of Some e \<Rightarrow> Some e
             | None \<Rightarrow> latest (keyed_as k) (concat (db_out st))))
     \<and> set (concat (db_out st)) \<union> snd ` set (db_merged st) \<union> set (db_nonMergeable st) \<subseteq> set arrived
     \<and> (\<forall>batch \<in> set (db_out st). coalesced batch)"

lemma new_debouncer_inv: "deb_inv [] new_debouncer"
  by (simp add: deb_inv_def new_debouncer_def merged_ok_def cluster_events_def)

lemma merged_ok_gput: "merged_ok m \<Longrightarrow> isMergeable e \<Longrightarrow> merged_ok (gput (mergeKey e) e m)"
  by (auto simp: merged_ok_def)

lemma deb_event_inv:
  assumes inv: "deb_inv arrived st" and "\<not> db_closed st"
  shows "deb_inv (arrived @ [ev]) (deb_step od (InEvent ev) st)"
proof (cases "isMergeable ev")
  case True
  let ?m = "gput (mergeKey ev) ev (db_merged st)"
  have st': "deb_step od (InEvent ev) st = st\<lparr>db_merged := ?m, db_timer := True\<rparr>"
    using assms(2) True by (simp add: deb_step_def)
  have "snd ` set ?m \<subseteq> insert ev (snd ` set (db_merged st))"
    using set_gput_subset [of "mergeKey ev" ev "db_merged st"] by force
  moreover have "set (concat (db_out st)) \<union> snd ` set (db_merged st) \<union> set (db_nonMergeable st) \<subseteq> set arrived"
    using inv unfolding deb_inv_def by blast
  ultimately have "set (concat (db_out st)) \<union> snd ` set ?m \<union> set (db_nonMergeable st) \<subseteq> set (arrived @ [ev])"
    unfolding set_append set_simps by blast
  moreover have "latest (keyed_as k) (arrived @ [ev]) = (case gget ?m k of Some e \<Rightarrow> Some e
      | None \<Rightarrow> latest (keyed_as k) (concat (db_out st)))" for k
    using inv True by (simp add: deb_inv_def latest_snoc keyed_as_def)
  moreover have "merged_ok ?m" using inv True by (simp add: deb_inv_def merged_ok_gput)
  moreover have "cluster_events (arrived @ [ev]) = cluster_events arrived" using True by (simp add: cluster_events_def)
  ultimately have "deb_inv (arrived @ [ev]) (st\<lparr>db_merged := ?m, db_timer := True\<rparr>)"
    using inv unfolding deb_inv_def by (simp del: gget_gput cluster_events_append cong: option.case_cong)
  then show ?thesis unfolding st' .
next
  case False
  then have st': "deb_step od (InEvent ev) st = st\<lparr>db_nonMergeable := db_nonMergeable st @ [ev], db_timer := True\<rparr>"
    using assms(2) by (simp add: deb_step_def)
  have "cluster_events (arrived @ [ev]) = cluster_events arrived @ [ev]" using False by (simp add: cluster_events_def)
  moreover have "latest (keyed_as k) (arrived @ [ev]) = latest (keyed_as k) arrived" for k
    using False by (simp add: latest_snoc keyed_as_def)
  ultimately show ?thesis using inv False unfolding st' by (auto simp: deb_inv_def cong: option.case_cong)
qed

lemma merged_events:
  assumes "merged_ok m"
  shows "e \<in> snd ` set m \<longleftrightarrow> (\<exists>k. gget m k = Some e)"
  using assms by (force simp: merged_ok_def gget_iff_mem)

lemma map_mergeKey_merged: "merged_ok m \<Longrightarrow> map mergeKey (map snd m) = map fst m"
  unfolding map_map o_def by (rule map_cong [OF refl]) (auto simp: merged_ok_def gget_iff_mem)

lemma buildBatch_facts:
  fixes od :: orders
  assumes m: "merged_ok m" and non: "\<forall>e \<in> set non. \<not> isMergeable e"
  shows "cluster_events (buildBatch od m non) = non" and "coalesced (buildBatch od m non)"
    and "latest (keyed_as k) (buildBatch od m non) = gget m k"
    and "set (buildBatch od m non) = snd ` set m \<union> set non"
proof -
  have all: "isMergeable e" if "e \<in> snd ` set m" for e
    using that m unfolding merged_events [OF m] by (auto simp: merged_ok_def)
  show set: "set (buildBatch od m non) = snd ` set m \<union> set non" by (simp add: buildBatch_def)
  have f: "filter (\<lambda>e. \<not> isMergeable e) (map snd (range_order od m)) = []" "filter isMergeable (map snd (range_order od m)) = map snd (range_order od m)"
    "filter (\<lambda>e. \<not> isMergeable e) non = non" "filter isMergeable non = []"
    using all non by (auto simp: filter_empty_conv intro!: filter_True)
  then show "cluster_events (buildBatch od m non) = non" by (simp add: cluster_events_def buildBatch_def)
  have "mset (map mergeKey (map snd (range_order od m))) = mset (map mergeKey (map snd m))" by simp
  also have "\<dots> = mset (map fst m)" by (simp only: map_mergeKey_merged [OF m])
  finally have "distinct (map mergeKey (map snd (range_order od m))) = distinct (map fst m)"
    by (rule mset_eq_imp_distinct_iff)
  then have "distinct (map mergeKey (map snd (range_order od m)))" using m by (simp add: merged_ok_def)
  then show "coalesced (buildBatch od m non)" using f by (simp add: coalesced_def buildBatch_def)
  show "latest (keyed_as k) (buildBatch od m non) = gget m k"
  proof (cases "gget m k")
    case None
    have "\<not> keyed_as k e" if "e \<in> set (buildBatch od m non)" for e
      using that None m non merged_events [OF m] by (auto simp: set merged_ok_def keyed_as_def)
    then show ?thesis using None by (simp add: latest_None)
  next
    case (Some e)
    show ?thesis
      unfolding Some
    proof (rule latest_unique)
      show "e \<in> set (buildBatch od m non)" using Some merged_events [OF m] by (auto simp: set)
      show "keyed_as k e" using Some m by (auto simp: merged_ok_def keyed_as_def)
      show "e' = e" if "e' \<in> set (buildBatch od m non)" "keyed_as k e'" for e'
        using that Some m non merged_events [OF m] by (auto simp: set merged_ok_def keyed_as_def)
    qed
  qed
qed

lemma deb_flush_inv:
  assumes inv: "deb_inv arrived st"
  shows "deb_inv arrived (flush od True st)" and "db_merged (flush od True st) = []" and "db_nonMergeable (flush od True st) = []"
proof -
  let ?batch = "buildBatch od (db_merged st) (db_nonMergeable st)"
  note b = buildBatch_facts [of "db_merged st" "db_nonMergeable st"]
  have m: "merged_ok (db_merged st)" and non: "\<forall>e \<in> set (db_nonMergeable st). \<not> isMergeable e"
    using inv by (simp_all add: deb_inv_def)
  have "deb_inv arrived (flush od True st) \<and> db_merged (flush od True st) = [] \<and> db_nonMergeable (flush od True st) = []"
  proof (cases "?batch = []")
    case True
    then have "set (db_merged st) = {}" "set (db_nonMergeable st) = {}" using b(4) [OF m non, where od = od] by auto
    then show ?thesis using inv True by (simp add: flush_def)
  next
    case False
    then have f: "flush od True st = st\<lparr>db_out := db_out st @ [?batch], db_merged := [], db_nonMergeable := []\<rparr>"
      by (simp add: flush_def Let_def)
    show ?thesis
      using inv b [OF m non, where od = od] unfolding f deb_inv_def
      by (auto simp: latest_append merged_ok_def split: option.split)
  qed
  then show "deb_inv arrived (flush od True st)" "db_merged (flush od True st) = []" "db_nonMergeable (flush od True st) = []"
    by blast+
qed

section \<open>Runs of the debouncer\<close>

text \<open>The events of an input sequence, and inputs of a run in which no flush is cut short.\<close>

fun arrivals :: "deb_input list \<Rightarrow> Event list" where
  "arrivals [] = []"
| "arrivals (InEvent e # ins) = e # arrivals ins"
| "arrivals (_ # ins) = arrivals ins"

definition undisturbed :: "deb_input list \<Rightarrow> bool" where
  "undisturbed ins \<longleftrightarrow> list_all (\<lambda>i. case i of InEvent _ \<Rightarrow> True | InTimer sent \<Rightarrow> sent | _ \<Rightarrow> False) ins"

lemma deb_run_append: "deb_run od n (ins @ ins') st = deb_run od (n + length ins) ins' (deb_run od n ins st)"
  by (induction ins arbitrary: n st) simp_all

lemma deb_inv_flags [simp]:
  "deb_inv arrived (st\<lparr>db_timer := b\<rparr>) = deb_inv arrived st"
  "deb_inv arrived (st\<lparr>db_closed := b\<rparr>) = deb_inv arrived st"
  by (simp_all add: deb_inv_def cong: option.case_cong)

lemma flush_closed [simp]: "db_closed (flush od sent st) = db_closed st"
  by (simp add: flush_def Let_def)

lemma deb_timer_inv:
  "deb_inv arrived st \<Longrightarrow> \<not> db_closed st \<Longrightarrow> deb_inv arrived (deb_step od (InTimer True) st) \<and> \<not> db_closed (deb_step od (InTimer True) st)"
  by (simp add: deb_step_def deb_flush_inv(1))

lemma deb_run_inv:
  "deb_inv arrived st \<Longrightarrow> \<not> db_closed st \<Longrightarrow> undisturbed ins \<Longrightarrow>
     deb_inv (arrived @ arrivals ins) (deb_run od n ins st) \<and> \<not> db_closed (deb_run od n ins st)"
proof (induction ins arbitrary: arrived n st)
  case (Cons i ins)
  show ?case
  proof (cases i)
    case (InEvent ev)
    have "\<not> db_closed (deb_step (sub od n) (InEvent ev) st)" using Cons.prems(2) by (simp add: deb_step_def)
    from Cons.IH [OF deb_event_inv [OF Cons.prems(1,2)] this] Cons.prems(3) InEvent
    show ?thesis by (simp add: undisturbed_def)
  next
    case (InTimer sent)
    then have s: "i = InTimer True" and u: "undisturbed ins" using Cons.prems(3) by (simp_all add: undisturbed_def)
    from deb_timer_inv [OF Cons.prems(1,2)]
    have "deb_inv arrived (deb_step (sub od n) i st)" "\<not> db_closed (deb_step (sub od n) i st)" unfolding s by blast+
    from Cons.IH [OF this u] show ?thesis unfolding s by simp
  qed (use Cons.prems(3) in \<open>simp_all add: undisturbed_def\<close>)
qed simp

lemma deb_closing_inv:
  assumes "deb_inv arrived st" and "\<not> db_closed st" and "i = InClosed \<or> i = InDone"
  shows "deb_inv arrived (deb_step od i st)" and "db_merged (deb_step od i st) = []" and "db_nonMergeable (deb_step od i st) = []"
  using deb_flush_inv [OF assms(1), of od] assms(2,3) by (auto simp: deb_step_def)

text \<open>Whatever is held back, a timer is running for it.\<close>

definition held :: "Debouncer \<Rightarrow> bool" where
  "held st \<longleftrightarrow> db_merged st \<noteq> [] \<or> db_nonMergeable st \<noteq> []"

lemma flush_held: "held (flush od sent st) \<Longrightarrow> held st"
  by (auto simp: held_def flush_def Let_def split: if_splits)

lemma flush_timer [simp]: "db_timer (flush od sent st) = db_timer st"
  by (simp add: flush_def Let_def)

lemma buildBatch_Nil: "buildBatch od m non = [] \<longleftrightarrow> m = [] \<and> non = []"
proof -
  have "range_order od m = [] \<longleftrightarrow> mset (range_order od m) = {#}" by (simp only: mset_zero_iff)
  then show ?thesis by (auto simp: buildBatch_def)
qed

lemma flush_empties: "\<not> held (flush od sent st)"
  by (auto simp: held_def flush_def Let_def buildBatch_Nil)

lemma deb_step_armed:
  assumes "held st \<longrightarrow> db_timer st"
  shows "held (deb_step od i st) \<longrightarrow> db_timer (deb_step od i st)"
proof (cases i)
  case (InTimer sent)
  have "\<not> held ((flush od sent st)\<lparr>db_timer := False\<rparr>)" using flush_empties [of od sent st] by (simp add: held_def)
  then show ?thesis using assms InTimer by (cases "db_timer st") (simp_all add: deb_step_def)
next
  case InClosed
  have "\<not> held ((flush od True st)\<lparr>db_closed := True\<rparr>)" using flush_empties [of od True st] by (simp add: held_def)
  then show ?thesis using assms InClosed by (simp add: deb_step_def)
next
  case InDone
  have "\<not> held ((flush od True st)\<lparr>db_closed := True\<rparr>)" using flush_empties [of od True st] by (simp add: held_def)
  then show ?thesis using assms InDone by (simp add: deb_step_def)
qed (use assms in \<open>simp add: deb_step_def held_def\<close>)

lemma deb_run_armed: "(held st \<longrightarrow> db_timer st) \<Longrightarrow> held (deb_run od n ins st) \<longrightarrow> db_timer (deb_run od n ins st)"
proof (induction ins arbitrary: n st)
  case (Cons i ins)
  from Cons.IH [OF deb_step_armed [OF Cons.prems]] show ?case by simp
qed simp

lemma deb_run_new_armed: "held (deb_run od 0 ins new_debouncer) \<Longrightarrow> db_timer (deb_run od 0 ins new_debouncer)"
  using deb_run_armed [of new_debouncer od 0 ins] by (simp add: held_def new_debouncer_def)

text \<open>The three inputs after which nothing is held back: the timer, the end of the input and of the
  context.\<close>

definition flushing :: "deb_input \<Rightarrow> bool" where
  "flushing i \<longleftrightarrow> i = InTimer True \<or> i = InClosed \<or> i = InDone"

lemma deb_flushing_inv:
  assumes "deb_inv arrived st" and "\<not> db_closed st" and "flushing i" and "held st \<longrightarrow> db_timer st"
  shows "deb_inv arrived (deb_step od i st)" and "\<not> held (deb_step od i st)"
proof -
  have "deb_inv arrived (deb_step od i st) \<and> \<not> held (deb_step od i st)"
  proof (cases "i = InTimer True")
    case True
    then show ?thesis
      using deb_flush_inv [OF assms(1), of od] assms(1,2,4) by (cases "db_timer st") (simp_all add: deb_step_def held_def)
  next
    case False
    then have "i = InClosed \<or> i = InDone" using assms(3) by (simp add: flushing_def)
    from deb_closing_inv [OF assms(1,2) this, of od] show ?thesis by (simp add: held_def)
  qed
  then show "deb_inv arrived (deb_step od i st)" "\<not> held (deb_step od i st)" by blast+
qed

text \<open>What a run has sent when it has flushed.\<close>

definition sent_events :: "orders \<Rightarrow> deb_input list \<Rightarrow> deb_input \<Rightarrow> Event list" where
  "sent_events od ins i = concat (db_out (deb_run od 0 (ins @ [i]) new_debouncer))"

lemma deb_complete:
  assumes "undisturbed ins" and "flushing i"
  shows "cluster_events (sent_events od ins i) = cluster_events (arrivals ins)"
    and "latest (keyed_as k) (sent_events od ins i) = latest (keyed_as k) (arrivals ins)"
    and "set (sent_events od ins i) \<subseteq> set (arrivals ins)"
    and "batch \<in> set (db_out (deb_run od 0 (ins @ [i]) new_debouncer)) \<Longrightarrow> coalesced batch"
    and "\<not> held (deb_run od 0 (ins @ [i]) new_debouncer)"
proof -
  have "deb_inv (arrivals ins) (deb_run od 0 ins new_debouncer)" and "\<not> db_closed (deb_run od 0 ins new_debouncer)"
    using deb_run_inv [OF new_debouncer_inv _ assms(1), of od 0] by (simp_all add: new_debouncer_def)
  note c = deb_flushing_inv [OF this assms(2) impI [OF deb_run_new_armed], of "sub od (length ins)"]
  have run: "deb_run od 0 (ins @ [i]) new_debouncer = deb_step (sub od (length ins)) i (deb_run od 0 ins new_debouncer)"
    by (simp add: deb_run_append)
  show "\<not> held (deb_run od 0 (ins @ [i]) new_debouncer)" unfolding run by (rule c(2))
  show "cluster_events (sent_events od ins i) = cluster_events (arrivals ins)"
    "latest (keyed_as k) (sent_events od ins i) = latest (keyed_as k) (arrivals ins)"
    "set (sent_events od ins i) \<subseteq> set (arrivals ins)"
    using c unfolding sent_events_def run deb_inv_def held_def by simp_all
  show "batch \<in> set (db_out (deb_run od 0 (ins @ [i]) new_debouncer)) \<Longrightarrow> coalesced batch"
    using c unfolding run deb_inv_def by blast
qed

lemma keyed_as_about:
  assumes "k \<noteq> EventClusterEvent"
  shows "about k a e \<longleftrightarrow> keyed_as (kind_string k @ '':'' @ a) e"
proof
  assume "about k a e"
  then show "keyed_as (kind_string k @ '':'' @ a) e"
    using about_mergeable [OF _ assms] about_mergeKey by (auto simp: keyed_as_def)
next
  assume e: "keyed_as (kind_string k @ '':'' @ a) e"
  let ?e' = "(event k 0)\<lparr>ev_AppID := a\<rparr>"
  have "isMergeable ?e'" using assms by (simp add: isMergeable_def event_def)
  moreover have "mergeKey e = mergeKey ?e'" using e assms by (simp add: keyed_as_def) (simp add: mergeKey_def isMergeable_def event_def)
  ultimately show "about k a e" using e mergeKey_eq [of e ?e'] by (simp add: keyed_as_def about_def event_def)
qed

lemma latest_about_sent:
  assumes "undisturbed ins" and "flushing i" and "k \<noteq> EventClusterEvent"
  shows "latest (about k a) (sent_events od ins i) = latest (about k a) (arrivals ins)"
proof -
  have "about k a = keyed_as (kind_string k @ '':'' @ a)" using keyed_as_about [OF assms(3)] by blast
  then show ?thesis by (simp add: deb_complete(2) [OF assms(1,2)])
qed

lemma distinct_filter_one: "distinct xs \<Longrightarrow> length (filter (\<lambda>x. x = y) xs) \<le> 1"
  by (induction xs) (auto simp: filter_empty_conv)

section \<open>Properties\<close>

text \<open>C25: The debouncer keeps nothing back for ever and loses nothing that matters. Whenever it
  holds an event back its timer is running, and once the timer has fired, or the input or the
  context has ended, it holds nothing any more: every cluster event that arrived has been
  delivered exactly once and in the order of arrival, of the other events the last one per kind
  and application that is delivered is the last one that arrived, nothing is delivered that did
  not arrive, and no batch holds two events of one kind for one application, cluster events
  apart. This holds for every placement of the timer and every map order, as long as no flush of
  the timer is cut short by the end of the context, whose batch is lost
  (\<open>cut_flush_loses_its_batch\<close>).\<close>

theorem debouncer_delivers_the_latest:
  assumes "undisturbed ins" and "i = InTimer True \<or> i = InClosed \<or> i = InDone"
  shows "(db_merged (deb_run od 0 ins new_debouncer) \<noteq> [] \<or> db_nonMergeable (deb_run od 0 ins new_debouncer) \<noteq> []
          \<longrightarrow> db_timer (deb_run od 0 ins new_debouncer))
    \<and> db_merged (deb_run od 0 (ins @ [i]) new_debouncer) = []
    \<and> db_nonMergeable (deb_run od 0 (ins @ [i]) new_debouncer) = []
    \<and> filter (\<lambda>e. ev_Kind e = EventClusterEvent) (concat (db_out (deb_run od 0 (ins @ [i]) new_debouncer)))
        = filter (\<lambda>e. ev_Kind e = EventClusterEvent) (arrivals ins)
    \<and> (\<forall>k a. k \<noteq> EventClusterEvent \<longrightarrow>
        latest (about k a) (concat (db_out (deb_run od 0 (ins @ [i]) new_debouncer))) = latest (about k a) (arrivals ins))
    \<and> set (concat (db_out (deb_run od 0 (ins @ [i]) new_debouncer))) \<subseteq> set (arrivals ins)
    \<and> (\<forall>batch \<in> set (db_out (deb_run od 0 (ins @ [i]) new_debouncer)). \<forall>k a.
        k \<noteq> EventClusterEvent \<longrightarrow> length (filter (about k a) batch) \<le> 1)"
proof -
  have fl: "flushing i" using assms(2) by (simp add: flushing_def)
  have one: "length (filter (about k a) batch) \<le> 1"
    if "batch \<in> set (db_out (deb_run od 0 (ins @ [i]) new_debouncer))" "k \<noteq> EventClusterEvent" for batch k a
  proof -
    have d: "distinct (map mergeKey (filter isMergeable batch))"
      using deb_complete(4) [OF assms(1) fl that(1)] by (simp add: coalesced_def)
    have "about k a e \<longleftrightarrow> isMergeable e \<and> mergeKey e = kind_string k @ '':'' @ a" for e
      using keyed_as_about [OF that(2), of a e] by (simp add: keyed_as_def)
    then have "filter (about k a) batch = filter (\<lambda>e. mergeKey e = kind_string k @ '':'' @ a) (filter isMergeable batch)"
      unfolding filter_filter by (intro filter_cong) auto
    then have "map mergeKey (filter (about k a) batch)
        = filter (\<lambda>x. x = kind_string k @ '':'' @ a) (map mergeKey (filter isMergeable batch))"
      by (simp add: filter_map o_def)
    then have "length (filter (about k a) batch)
        = length (filter (\<lambda>x. x = kind_string k @ '':'' @ a) (map mergeKey (filter isMergeable batch)))"
      by (metis length_map)
    also have "\<dots> \<le> 1" by (rule distinct_filter_one [OF d])
    finally show ?thesis .
  qed
  have "cluster_events = filter (\<lambda>e. ev_Kind e = EventClusterEvent)"
    by (simp add: fun_eq_iff cluster_events_def isMergeable_def)
  then show ?thesis
    using deb_complete(1,3,5) [OF assms(1) fl, of od] latest_about_sent [OF assms(1) fl, where od = od] one
      deb_run_new_armed [of od ins]
    unfolding sent_events_def held_def by simp
qed

section \<open>What the listeners send\<close>

text \<open>An event that carries the payload of its kind, tagged with the application it is about.\<close>

definition well_tagged :: "Event \<Rightarrow> bool" where
  "well_tagged e \<longleftrightarrow> (case ev_Kind e of
      EventMetricsUpdate \<Rightarrow> (case ev_VLLMMetrics e of None \<Rightarrow> False | Some m \<Rightarrow> vm_AppID m = ev_AppID e)
    | EventAppConfigUpdate \<Rightarrow> (case ev_Application e of None \<Rightarrow> False | Some app \<Rightarrow> ap_AppID app = ev_AppID e)
    | EventClusterEvent \<Rightarrow> ev_ClusterEvent e \<noteq> None
    | _ \<Rightarrow> True)"

lemma checkSLABreach_tagged: "e \<in> set (checkSLABreach now app m) \<Longrightarrow> well_tagged e \<and> ev_Kind e = EventSLABreach \<and> ev_AppID e = ap_AppID app"
  by (auto simp: checkSLABreach_def well_tagged_def event_def split: if_splits)

lemma breaches_tagged: "e \<in> set (breaches_of now reg m) \<Longrightarrow> well_tagged e"
  using checkSLABreach_tagged by (auto simp: breaches_of_def split: option.splits)

lemma listeners_tagged:
  "e \<in> set (listenClusterEvents ce) \<Longrightarrow> well_tagged e"
  "e \<in> set (snd (listenAppConfig now app reg)) \<Longrightarrow> well_tagged e"
  "e \<in> set (periodicEvalTimer now) \<Longrightarrow> well_tagged e"
  by (auto simp: listenClusterEvents_def listenAppConfig_def periodicEvalTimer_def well_tagged_def event_def)

lemma listenMetricsConfig_tagged:
  assumes "e \<in> set (listenMetricsConfig now reg m)"
  shows "well_tagged e"
proof (cases "e \<in> set (breaches_of now reg m)")
  case False
  then show ?thesis using assms by (simp add: listenMetricsConfig_def well_tagged_def event_def)
qed (rule breaches_tagged)

lemma listenInjectedEvents_tagged:
  assumes "e \<in> set (listenInjectedEvents now reg e0)" and "well_tagged e0"
  shows "well_tagged e"
proof (cases "e = e0")
  case False
  then obtain m where "e \<in> set (breaches_of now reg m)"
    using assms(1) by (auto simp: listenInjectedEvents_def split: option.splits if_splits)
  then show ?thesis by (rule breaches_tagged)
qed (simp add: assms(2))

lemma doPollMetrics_tagged:
  assumes "\<And>a m. GetVLLMMetrics a = Inr m \<Longrightarrow> vm_AppID m = a" and "e \<in> set (doPollMetrics od now GetVLLMMetrics reg)"
  shows "well_tagged e"
proof -
  obtain a app where e: "e \<in> set (case GetVLLMMetrics (ap_AppID app) of Inl _ \<Rightarrow> []
     | Inr m \<Rightarrow> (event EventMetricsUpdate (vm_MeasuredAt m))\<lparr>ev_AppID := ap_AppID app, ev_VLLMMetrics := Some m\<rparr>
         # checkSLABreach now app m)" "(a, app) \<in> set reg"
    using assms(2) by (auto simp: doPollMetrics_def)
  then show ?thesis
    using assms(1) checkSLABreach_tagged by (auto simp: well_tagged_def event_def split: sum.splits)
qed

text \<open>
  Both breaches one metrics update can raise share a merge key: when both limits are broken, only
  the throughput breach survives the debouncer.
\<close>

lemma latency_breach_is_merged_away:
  assumes "checkSLABreach now app m = [ttft, tps]"
  shows "sent_events od [InEvent ttft, InEvent tps] InClosed = [tps]"
proof -
  have "mergeKey ttft = mergeKey tps" and "isMergeable ttft" and "isMergeable tps"
    using assms checkSLABreach_tagged [of ttft now app m] checkSLABreach_tagged [of tps now app m]
    by (simp_all add: mergeKey_def isMergeable_def)
  then show ?thesis
    by (simp add: sent_events_def deb_step_def new_debouncer_def flush_def buildBatch_def Let_def)
qed

section \<open>An example\<close>

definition sample_cluster_event :: ClusterEvent where
  "sample_cluster_event = \<lparr>ce_Kind = ClusterEventNodeUp, ce_ClusterID = ''c1'', ce_NodeID = ''n1'', ce_ReplicaID = '''',
     ce_AppID = '''', ce_GPUs = 0, ce_TotalGPUs = 8, ce_Timestamp = 3\<rparr>"

definition sample_inputs :: "deb_input list" where
  "sample_inputs = [InEvent (event EventPeriodicEval 1), InEvent (event EventPeriodicEval 2), InTimer True,
     InEvent ((event EventClusterEvent 3)\<lparr>ev_ClusterEvent := Some sample_cluster_event\<rparr>)]"

lemma debouncer_delivers_the_latest_witness:
  "latest (about EventPeriodicEval '''') (concat (db_out (deb_run (\<lambda>_. []) 0 (sample_inputs @ [InClosed]) new_debouncer)))
     = Some (event EventPeriodicEval 2)"
proof -
  have u: "undisturbed sample_inputs" by (simp add: undisturbed_def sample_inputs_def)
  have "latest (about EventPeriodicEval '''') (arrivals sample_inputs) = Some (event EventPeriodicEval 2)"
    by (simp add: sample_inputs_def latest_def about_def event_def)
  then show ?thesis using debouncer_delivers_the_latest [OF u, of InClosed "\<lambda>_. []"] by simp
qed

text \<open>A flush of the timer that the end of the context cuts short loses what was held back.\<close>

lemma cut_flush_loses_its_batch:
  "concat (db_out (deb_run od 0 [InEvent e, InTimer False, InDone] new_debouncer)) = []"
  by (simp add: deb_step_def new_debouncer_def flush_def buildBatch_def Let_def)

end
