(* ===== verification/Validation.thy ===== *)
theory Validation
  imports PlacementCycle Operations
begin

text \<open>
  \<open>internal/controlloop/validation.go\<close>: the checks a plan has to pass before it is executed. A
  check returns the list of its violations, in the order \<open>errors.Join\<close> keeps; no error is the
  empty list.
\<close>

datatype plan_error =
  SelfPreemption AppID
| CapacityExceeded ClusterID int int
| TerminatedScaleDown ReplicaID AppID

definition scaleUpApps :: "ExecutionPlan \<Rightarrow> (AppID, unit) gomap" where
  "scaleUpApps plan = fold (\<lambda>op m.
     case (op_Type op, op_Payload op) of
       (OperationScaleUp, PayloadScaleUp su) \<Rightarrow> gput (su_AppID su) () m
     | _ \<Rightarrow> m) plan []"

definition checkNoSelfPreemption :: "ExecutionPlan \<Rightarrow> plan_error list" where
  "checkNoSelfPreemption plan =
     concat (map (\<lambda>op. case (op_Type op, op_Payload op) of
         (OperationPreempt, PayloadPreempt pd) \<Rightarrow>
           (case gget (scaleUpApps plan) (pd_VictimAppID pd) of
              Some _ \<Rightarrow> [SelfPreemption (pd_VictimAppID pd)]
            | None \<Rightarrow> [])
       | _ \<Rightarrow> []) plan)"

definition count_reserved :: "WorldStateSnapshot \<Rightarrow> Operation \<Rightarrow> (ClusterID, int) gomap \<Rightarrow> (ClusterID, int) gomap" where
  "count_reserved snap op m = (case (op_Type op, op_Payload op) of
       (OperationScaleUp, PayloadScaleUp su) \<Rightarrow>
         (case gget (sn_Reservations snap) (su_ReservationID su) of
            Some r \<Rightarrow> gput (rs_ClusterID r) (gget_or 0 m (rs_ClusterID r) + rs_GPUs r) m
          | None \<Rightarrow> m)
     | _ \<Rightarrow> m)"

definition gpusPerCluster :: "ExecutionPlan \<Rightarrow> WorldStateSnapshot \<Rightarrow> (ClusterID, int) gomap" where
  "gpusPerCluster plan snap = fold (count_reserved snap) plan []"

definition checkReservationCapacity :: "orders \<Rightarrow> ExecutionPlan \<Rightarrow> WorldStateSnapshot \<Rightarrow> plan_error list" where
  "checkReservationCapacity od plan snap =
     concat (map (\<lambda>(clusterID, reserved).
         case gget (sn_Clusters snap) clusterID of
           None \<Rightarrow> []
         | Some cluster \<Rightarrow>
             let totalGPUs = sum_vals nd_TotalGPUs (cl_Nodes cluster)
             in if totalGPUs < reserved then [CapacityExceeded clusterID reserved totalGPUs] else [])
       (range_order od (gpusPerCluster plan snap)))"

definition checkNoTerminatedScaleDown :: "ExecutionPlan \<Rightarrow> WorldStateSnapshot \<Rightarrow> plan_error list" where
  "checkNoTerminatedScaleDown plan snap =
     concat (map (\<lambda>op. case (op_Type op, op_Payload op) of
         (OperationScaleDown, PayloadScaleDown sd) \<Rightarrow>
           (case gget (sn_Replicas snap) (sd_ReplicaID sd) of
              Some r \<Rightarrow> if rp_Status r = ReplicaStatusTerminated
                        then [TerminatedScaleDown (sd_ReplicaID sd) (sd_AppID sd)] else []
            | None \<Rightarrow> [])
       | _ \<Rightarrow> []) plan)"

definition validatePlan :: "orders \<Rightarrow> ExecutionPlan \<Rightarrow> WorldStateSnapshot \<Rightarrow> plan_error list" where
  "validatePlan od plan snap =
     checkNoSelfPreemption plan @ checkReservationCapacity od plan snap @ checkNoTerminatedScaleDown plan snap"

section \<open>What the checks accept\<close>

abbreviation scales_up :: "Operation \<Rightarrow> ScaleUpDecision \<Rightarrow> bool" where
  "scales_up op su \<equiv> op_Type op = OperationScaleUp \<and> op_Payload op = PayloadScaleUp su"

lemma gget_scaleUpApps:
  "gget (scaleUpApps plan) a \<noteq> None \<longleftrightarrow> (\<exists>op \<in> set plan. \<exists>su. scales_up op su \<and> su_AppID su = a)"
proof (induction plan rule: rev_induct)
  case (snoc op plan)
  then show ?case
    by (auto simp: scaleUpApps_def split: OperationType.split Payload.split)
qed (simp add: scaleUpApps_def)

lemma checkNoSelfPreemption_ok:
  "checkNoSelfPreemption plan = [] \<longleftrightarrow>
     (\<forall>op \<in> set plan. \<forall>pd. op_Type op = OperationPreempt \<longrightarrow> op_Payload op = PayloadPreempt pd \<longrightarrow>
        \<not> (\<exists>op' \<in> set plan. \<exists>su. scales_up op' su \<and> su_AppID su = pd_VictimAppID pd))"
  unfolding gget_scaleUpApps [symmetric]
  by (auto simp: checkNoSelfPreemption_def split: OperationType.splits Payload.splits option.splits)

lemma checkNoTerminatedScaleDown_ok:
  "checkNoTerminatedScaleDown plan snap = [] \<longleftrightarrow>
     (\<forall>op \<in> set plan. \<forall>sd r. op_Type op = OperationScaleDown \<longrightarrow> op_Payload op = PayloadScaleDown sd \<longrightarrow>
        gget (sn_Replicas snap) (sd_ReplicaID sd) = Some r \<longrightarrow> rp_Status r \<noteq> ReplicaStatusTerminated)"
  by (auto simp: checkNoTerminatedScaleDown_def split: OperationType.splits Payload.splits option.splits if_splits)

text \<open>The GPUs of the snapshot's reservations that the plan's scale-ups in a cluster name.\<close>

definition reserved_by :: "WorldStateSnapshot \<Rightarrow> ClusterID \<Rightarrow> Operation \<Rightarrow> int" where
  "reserved_by snap cid op = (case (op_Type op, op_Payload op) of
       (OperationScaleUp, PayloadScaleUp su) \<Rightarrow>
         (case gget (sn_Reservations snap) (su_ReservationID su) of
            Some r \<Rightarrow> if rs_ClusterID r = cid then rs_GPUs r else 0
          | None \<Rightarrow> 0)
     | _ \<Rightarrow> 0)"

definition names_reservation :: "WorldStateSnapshot \<Rightarrow> ClusterID \<Rightarrow> Operation \<Rightarrow> bool" where
  "names_reservation snap cid op \<longleftrightarrow> (\<exists>su r. scales_up op su
     \<and> gget (sn_Reservations snap) (su_ReservationID su) = Some r \<and> rs_ClusterID r = cid)"

lemma count_reserved_facts:
  "gwf m \<Longrightarrow> gwf (count_reserved snap op m)"
  "gget_or 0 (count_reserved snap op m) cid = gget_or 0 m cid + reserved_by snap cid op"
  "gget (count_reserved snap op m) cid \<noteq> None \<longleftrightarrow> gget m cid \<noteq> None \<or> names_reservation snap cid op"
  by (auto simp: count_reserved_def reserved_by_def names_reservation_def
      split: OperationType.split Payload.split option.split)

lemma gpusPerCluster_facts:
  "gwf (gpusPerCluster plan snap)
   \<and> gget_or 0 (gpusPerCluster plan snap) cid = sum_list (map (reserved_by snap cid) plan)
   \<and> (gget (gpusPerCluster plan snap) cid \<noteq> None \<longleftrightarrow> (\<exists>op \<in> set plan. names_reservation snap cid op))"
proof (induction plan rule: rev_induct)
  case Nil
  then show ?case by (simp add: gpusPerCluster_def)
next
  case (snoc op plan)
  have "gpusPerCluster (plan @ [op]) snap = count_reserved snap op (gpusPerCluster plan snap)"
    by (simp add: gpusPerCluster_def)
  then show ?case using snoc by (simp add: count_reserved_facts del: not_None_eq) blast
qed

lemma checkReservationCapacity_ok:
  "checkReservationCapacity od plan snap = [] \<longleftrightarrow>
     (\<forall>cid cluster. gget (sn_Clusters snap) cid = Some cluster \<longrightarrow> (\<exists>op \<in> set plan. names_reservation snap cid op) \<longrightarrow>
        sum_list (map (reserved_by snap cid) plan) \<le> sum_vals nd_TotalGPUs (cl_Nodes cluster))"
proof -
  let ?m = "gpusPerCluster plan snap"
  have "checkReservationCapacity od plan snap = [] \<longleftrightarrow> (\<forall>(cid, reserved) \<in> set ?m. \<forall>cluster.
      gget (sn_Clusters snap) cid = Some cluster \<longrightarrow> reserved \<le> sum_vals nd_TotalGPUs (cl_Nodes cluster))"
    by (fastforce simp: checkReservationCapacity_def Let_def not_less split: option.splits if_splits)
  also have "\<dots> \<longleftrightarrow> (\<forall>cid reserved cluster. gget ?m cid = Some reserved \<longrightarrow>
      gget (sn_Clusters snap) cid = Some cluster \<longrightarrow> reserved \<le> sum_vals nd_TotalGPUs (cl_Nodes cluster))"
    using gpusPerCluster_facts [of plan snap] by (auto simp: gget_iff_mem)
  also have "\<dots> \<longleftrightarrow> (\<forall>cid cluster. gget (sn_Clusters snap) cid = Some cluster \<longrightarrow> gget ?m cid \<noteq> None \<longrightarrow>
      gget_or 0 ?m cid \<le> sum_vals nd_TotalGPUs (cl_Nodes cluster))"
  proof -
    have "gget_or 0 ?m cid = reserved" if "gget ?m cid = Some reserved" for cid reserved
      using that by (simp add: gget_or_def)
    then show ?thesis by (metis not_None_eq)
  qed
  finally show ?thesis using gpusPerCluster_facts [of plan snap] by (simp del: not_None_eq)
qed

section \<open>Reservations of the cycle itself\<close>

text \<open>The operations of a generated plan that scale up are those of the placement and of the migrations.\<close>

lemma generated_scale_ups:
  assumes "op \<in> set (GeneratePlan uid d ms)" and "op_Payload op = PayloadScaleUp su"
  shows "su \<in> set (pl_ScaleUps d) \<or> (\<exists>m \<in> set ms. su = migration_up m)"
proof -
  have "PayloadScaleUp su \<in> set (map op_Payload (GeneratePlan uid d ms))" using assms by (metis image_eqI set_map)
  then show ?thesis unfolding GeneratePlan_payloads by (auto simp: plan_payloads_def)
qed

lemma placed_reservation_id:
  assumes "su \<in> set (pl_ScaleUps (ComputePlacement cfg finder uid od snap sds))"
  obtains k where "su_ReservationID su = uid k"
  using ComputePlacement_paired [of cfg uid snap finder od sds] assms
  by (auto simp: paired_def in_set_conv_nth)

section \<open>Properties\<close>

text \<open>C28: A plan passes validation exactly when no application is both scaled up and preempted, no
  scale-down targets a terminated replica of the snapshot, and in every known cluster the GPUs of
  the snapshot's reservations that its scale-ups name do not exceed the total of the cluster's
  nodes; the order in which the clusters are visited does not matter.\<close>

theorem validation_accepts_exactly:
  "validatePlan od plan snap = [] \<longleftrightarrow>
     (\<forall>op \<in> set plan. \<forall>pd. op_Type op = OperationPreempt \<longrightarrow> op_Payload op = PayloadPreempt pd \<longrightarrow>
        \<not> (\<exists>op' \<in> set plan. \<exists>su. scales_up op' su \<and> su_AppID su = pd_VictimAppID pd))
   \<and> (\<forall>op \<in> set plan. \<forall>sd r. op_Type op = OperationScaleDown \<longrightarrow> op_Payload op = PayloadScaleDown sd \<longrightarrow>
        gget (sn_Replicas snap) (sd_ReplicaID sd) = Some r \<longrightarrow> rp_Status r \<noteq> ReplicaStatusTerminated)
   \<and> (\<forall>cid cluster. gget (sn_Clusters snap) cid = Some cluster \<longrightarrow> (\<exists>op \<in> set plan. names_reservation snap cid op) \<longrightarrow>
        sum_list (map (reserved_by snap cid) plan) \<le> sum_vals nd_TotalGPUs (cl_Nodes cluster))"
  unfolding validatePlan_def append_is_Nil_conv checkNoSelfPreemption_ok checkReservationCapacity_ok
    checkNoTerminatedScaleDown_ok by blast

text \<open>A check on a snapshot that has none of the identifiers the placement draws does not see the
  reservations of the plan, nor does the executor find their TTL in it.\<close>

lemma drawn_reservations_unseen:
  assumes "\<forall>n. gget (sn_Reservations snap) (uid n) = None" and "gget (sn_Reservations snap) '''' = None"
    and "d = ComputePlacement cfg finder uid od snap sds"
  shows "checkReservationCapacity od' (GeneratePlan uid' d ms) snap = []
    \<and> (\<forall>su \<in> set (pl_ScaleUps d). reservationTTL xcfg (su_ReservationID su) snap = xc_DefaultReservationTTL xcfg)"
proof -
  have placed: "gget (sn_Reservations snap) (su_ReservationID su) = None" if "su \<in> set (pl_ScaleUps d)" for su
    using placed_reservation_id that assms(1) unfolding assms(3) by metis
  have "\<not> names_reservation snap cid op" if op: "op \<in> set (GeneratePlan uid' d ms)" for cid op
  proof
    assume "names_reservation snap cid op"
    then obtain su r where su: "op_Payload op = PayloadScaleUp su" "gget (sn_Reservations snap) (su_ReservationID su) = Some r"
      by (auto simp: names_reservation_def)
    from generated_scale_ups [OF op su(1)] show False
      using placed su(2) assms(2) by (auto simp: migration_up_def)
  qed
  then have "checkReservationCapacity od' (GeneratePlan uid' d ms) snap = []"
    unfolding checkReservationCapacity_ok by blast
  then show ?thesis using placed by (simp add: reservationTTL_def)
qed

end
