(* ===== verification/EventLog.thy ===== *)
theory EventLog
  imports Model
begin

text \<open>
  \<open>internal/eventlog\<close>: scheduler events kept in an SQL table and queried by time.
\<close>

record EventRecord =
  el_ID :: int
  el_Timestamp :: time
  el_Type :: string
  el_AppID :: string
  el_ClusterID :: string
  el_Summary :: string
  el_DetailJSON :: string

end
