(* ===== verification/ControlLoop.thy ===== *)
theory ControlLoop
  imports Scaling Rebalancing Ingestion Validation EventLog
begin

text \<open>
  \<open>internal/controlloop/loop.go\<close> and \<open>types.go\<close>: one scheduling cycle, from a batch of events to
  the executed plan, and the loop around it. The engines are called through interfaces the code
  satisfies with the engines of the other theories; the cycle below is composed with those.
  Metrics, spans and log lines are left out.
\<close>

section \<open>Applying events\<close>

definition applyClusterEvent :: "ClusterEvent \<Rightarrow> WorldState \<Rightarrow> WorldState" where
  "applyClusterEvent ce ws =
     (case ce_Kind ce of
        ClusterEventNodeUp \<Rightarrow>
          UpsertNode \<lparr>nd_NodeID = ce_NodeID ce, nd_ClusterID = ce_ClusterID ce, nd_TotalGPUs = ce_TotalGPUs ce,
             nd_AllocatedGPUs = 0, nd_FreeGPUs = ce_TotalGPUs ce, nd_Pods = [], nd_CachedModels = [],
             nd_Status = NodeStatusReady\<rparr> ws
      | ClusterEventNodeDown \<Rightarrow> RemoveNode (ce_ClusterID ce) (ce_NodeID ce) ws
      | ClusterEventPodRunning \<Rightarrow>
          (if ce_ReplicaID ce \<noteq> ''''
           then UpsertReplica \<lparr>rp_ReplicaID = ce_ReplicaID ce, rp_AppID = ce_AppID ce, rp_ClusterID = ce_ClusterID ce,
                  rp_NodeID = ce_NodeID ce, rp_GPUs = ce_GPUs ce, rp_Status = ReplicaStatusRunning,
                  rp_CreatedAt = ce_Timestamp ce\<rparr> ws
           else ws)
      | ClusterEventPodTerminated \<Rightarrow>
          (if ce_ReplicaID ce \<noteq> '''' then DeleteReplica (ce_ReplicaID ce) ws else ws))"

definition applyEvent :: "Event \<Rightarrow> WorldState \<Rightarrow> WorldState" where
  "applyEvent ev ws =
     (case ev_Kind ev of
        EventMetricsUpdate \<Rightarrow> (case ev_VLLMMetrics ev of Some m \<Rightarrow> UpdateVLLMMetrics m ws | None \<Rightarrow> ws)
      | EventClusterEvent \<Rightarrow> (case ev_ClusterEvent ev of Some ce \<Rightarrow> applyClusterEvent ce ws | None \<Rightarrow> ws)
      | EventAppConfigUpdate \<Rightarrow> (case ev_Application ev of Some app \<Rightarrow> UpsertApplication app ws | None \<Rightarrow> ws)
      | EventPeriodicEval \<Rightarrow> ws
      | EventSLABreach \<Rightarrow> ws)"

definition applyEvents :: "Event list \<Rightarrow> WorldState \<Rightarrow> WorldState" where
  "applyEvents events ws = fold applyEvent events ws"

section \<open>Applying scaling decisions\<close>

fun direction_string :: "ScaleDirection \<Rightarrow> string" where
  "direction_string ScaleDirectionUp = ''up''"
| "direction_string ScaleDirectionDown = ''down''"
| "direction_string ScaleDirectionUnchanged = ''unchanged''"

definition applyScalingDecision :: "AppID \<times> ScalingDecision \<Rightarrow> WorldState \<Rightarrow> WorldState" where
  "applyScalingDecision p ws =
     (let (appID, d) = p
      in if sl_ScaleActionApproved d then RecordScaleEvent appID (direction_string (sl_Direction d)) (sl_ActionAt d) ws
         else if sl_ScaleDownSignalObserved d then IncrementScaleDownSignal appID ws
         else ws)"

definition applyScalingDecisions :: "orders \<Rightarrow> (AppID, ScalingDecision) gomap \<Rightarrow> WorldState \<Rightarrow> WorldState" where
  "applyScalingDecisions od decisions ws = fold applyScalingDecision (range_order od decisions) ws"

section \<open>The summary of a cycle and what is logged\<close>

record PlacementSummary =
  ps_ScaleUpCount :: int
  ps_ScaleDownCount :: int
  ps_PreemptionCount :: int
  ps_ScaleUps :: "ScaleUpDecision list"
  ps_ScaleDowns :: "ScaleDownDecision list"
  ps_Preemptions :: "PreemptionDecision list"

record failedOpJSON =
  fj_OperationID :: OperationID
  fj_Type :: string
  fj_Err :: string

record ExecutionSummary =
  es_CompletedCount :: int
  es_FailedCount :: int
  es_AbortedCount :: int
  es_Completed :: "OperationID list"
  es_Failed :: "failedOpJSON list"
  es_Aborted :: "OperationID list"

record CycleSummary =
  cs_TriggerKinds :: "EventKind list"
  cs_ScalingDecisions :: "(AppID, ScalingDecision) gomap"
  cs_VLLMMetrics :: "(AppID, VLLMMetrics) gomap"
  cs_WorldState :: WorldStateSnapshot
  cs_Placement :: PlacementSummary
  cs_Execution :: ExecutionSummary
  cs_CycleDurationMs :: int

fun type_string :: "OperationType \<Rightarrow> string" where
  "type_string OperationPreempt = ''preempt''"
| "type_string OperationScaleDown = ''scale_down''"
| "type_string OperationScaleUp = ''scale_up''"
| "type_string OperationMigrate = ''migrate''"

definition failed_json :: "('x \<Rightarrow> string) \<Rightarrow> 'x FailedOp \<Rightarrow> failedOpJSON" where
  "failed_json err_text f = \<lparr>fj_OperationID = fo_OperationID f, fj_Type = type_string (fo_Type f), fj_Err = err_text (fo_Err f)\<rparr>"

text \<open>\<open>err_text\<close> is the method \<open>Error\<close> of the errors.\<close>

definition buildCycleSummary ::
  "orders \<Rightarrow> ('x \<Rightarrow> string) \<Rightarrow> Event list \<Rightarrow> (AppID, ScalingDecision) gomap \<Rightarrow> PlacementDecisions
     \<Rightarrow> 'x ExecutionResult \<Rightarrow> WorldStateSnapshot \<Rightarrow> int \<Rightarrow> CycleSummary" where
  "buildCycleSummary od err_text events decisions placements result snap durationMs =
     (let kindSet = fold (\<lambda>ev m. gput (ev_Kind ev) () m) events []
      in \<lparr>cs_TriggerKinds = map fst (range_order od kindSet),
          cs_ScalingDecisions = decisions,
          cs_VLLMMetrics = sn_VLLMMetrics snap,
          cs_WorldState = snap,
          cs_Placement = \<lparr>ps_ScaleUpCount = int (length (pl_ScaleUps placements)),
            ps_ScaleDownCount = int (length (pl_ScaleDowns placements)),
            ps_PreemptionCount = int (length (pl_Preemptions placements)),
            ps_ScaleUps = pl_ScaleUps placements, ps_ScaleDowns = pl_ScaleDowns placements,
            ps_Preemptions = pl_Preemptions placements\<rparr>,
          cs_Execution = \<lparr>es_CompletedCount = int (length (er_Completed result)),
            es_FailedCount = int (length (er_Failed result)), es_AbortedCount = int (length (er_Aborted result)),
            es_Completed = er_Completed result, es_Failed = map (failed_json err_text) (er_Failed result),
            es_Aborted = er_Aborted result\<rparr>,
          cs_CycleDurationMs = durationMs\<rparr>)"

text \<open>
  The record logged for a completed operation; none for a type that does not fit its payload, nor
  for \<open>OperationMigrate\<close>.
\<close>

definition op_record :: "time \<Rightarrow> Operation \<Rightarrow> EventRecord option" where
  "op_record now op =
     (let rec = \<lparr>el_ID = 0, el_Timestamp = now, el_Type = '''', el_AppID = '''', el_ClusterID = '''',
                 el_Summary = '''', el_DetailJSON = ''''\<rparr>
      in case (op_Type op, op_Payload op) of
           (OperationScaleUp, PayloadScaleUp su) \<Rightarrow>
             Some (rec\<lparr>el_Type := ''scale_up'', el_AppID := su_AppID su, el_ClusterID := su_ClusterID su,
               el_Summary := ''Scaled up '' @ su_AppID su @ '' in '' @ su_ClusterID su\<rparr>)
         | (OperationScaleDown, PayloadScaleDown sd) \<Rightarrow>
             Some (rec\<lparr>el_Type := ''scale_down'', el_AppID := sd_AppID sd,
               el_Summary := ''Scaled down replica '' @ sd_ReplicaID sd @ '' of '' @ sd_AppID sd\<rparr>)
         | (OperationPreempt, PayloadPreempt p) \<Rightarrow>
             Some (rec\<lparr>el_Type := ''preempt'', el_AppID := pd_VictimAppID p, el_ClusterID := pd_ClusterID p,
               el_Summary := ''Preempted '' @ pd_VictimReplicaID p @ '' on '' @ pd_ClusterID p @ '': '' @ pd_Reason p\<rparr>)
         | _ \<Rightarrow> None)"

text \<open>
  What \<open>publishAndLog\<close> hands to the event logger, in order; \<open>marshal\<close> is \<open>json.Marshal\<close> with
  its error dropped. The summary itself is what it hands to the publisher.
\<close>

definition logged_events ::
  "time \<Rightarrow> (CycleSummary \<Rightarrow> string) \<Rightarrow> CycleSummary \<Rightarrow> ExecutionPlan \<Rightarrow> 'x ExecutionResult \<Rightarrow> PlacementDecisions
     \<Rightarrow> EventRecord list" where
  "logged_events now marshal summary plan result placements =
     List.map_filter (\<lambda>op. if op_ID op \<in> set (er_Completed result) then op_record now op else None) plan
     @ [\<lparr>el_ID = 0, el_Timestamp = now, el_Type = ''cycle_complete'', el_AppID = '''', el_ClusterID = '''',
          el_Summary = ''+'' @ fmt_d (int (length (pl_ScaleUps placements))) @ '' scale-up, -''
            @ fmt_d (int (length (pl_ScaleDowns placements))) @ '' scale-down, ''
            @ fmt_d (int (length (pl_Preemptions placements))) @ '' preempt'',
          el_DetailJSON = marshal summary\<rparr>]"

section \<open>A cycle\<close>

text \<open>The configured loop: its engines are functions of their configurations.\<close>

record 'e ControlLoop =
  lc_scaling :: ScalingConfig
  lc_placement :: PlacementConfig
  lc_finder :: "'e finder option"
  lc_rebalancing :: RebalancingConfig
  lc_executor :: ExecutorConfig

text \<open>\<open>ControlLoopConfig\<close> has one field, the interval of the expiry ticks; \<open>NewControlLoop\<close> gives it a default.\<close>

definition ReservationExpiryScanInterval :: "duration \<Rightarrow> duration" where
  "ReservationExpiryScanInterval configured = (if configured = 0 then seconds 30 else configured)"

text \<open>
  What a cycle meets: the clock, map orders, the identifiers \<open>uuid.New\<close> returns in placement and
  plan generation, the answers each operation's cluster clients give, what the executor's
  \<open>select\<close> chooses, and the order in which its goroutines reach the world state. An operation
  calls the world state at most once, so an order of operations is an order of their calls.
\<close>

record 'e CycleEnv =
  en_now :: time
  en_od :: orders
  en_resID :: "nat \<Rightarrow> string"
  en_opID :: "nat \<Rightarrow> string"
  en_clients :: "Operation \<Rightarrow> (ClusterID, 'e responses) gomap"
  en_turns :: "nat \<Rightarrow> turn"
  en_arrival :: "nat list"
  en_durationMs :: int

definition create_all :: "GPUReservation list \<Rightarrow> WorldState \<Rightarrow> WorldState" where
  "create_all rs ws = fold (\<lambda>r ws. keep_on_error ws (CreateReservation r ws)) rs ws"

definition op_outcome :: "'e ControlLoop \<Rightarrow> 'e CycleEnv \<Rightarrow> WorldStateSnapshot \<Rightarrow> Operation \<Rightarrow> 'e op_run" where
  "op_outcome cl env snap op = dispatchOp (lc_executor cl) (en_clients env op) snap op"

definition op_effect :: "'e ControlLoop \<Rightarrow> 'e CycleEnv \<Rightarrow> WorldStateSnapshot \<Rightarrow> Operation \<Rightarrow> WorldState \<Rightarrow> WorldState" where
  "op_effect cl env snap op ws = run_actions FulfillReservation ExpireReservation (snd (op_outcome cl env snap op)) ws"

definition started_ops :: "ExecutionPlan \<Rightarrow> 'x ExecutionResult \<Rightarrow> Operation list" where
  "started_ops plan result =
     filter (\<lambda>op. op_ID op \<in> set (er_Completed result) \<union> fo_OperationID ` set (er_Failed result)) plan"

text \<open>The local variables of a cycle, each from those before it.\<close>

definition cycle_snap :: "'e CycleEnv \<Rightarrow> Event list \<Rightarrow> WorldState \<Rightarrow> WorldStateSnapshot" where
  "cycle_snap env events ws = Snapshot (sub (en_od env) 0) (en_now env) (applyEvents events ws)"

definition cycle_placements :: "'e ControlLoop \<Rightarrow> 'e CycleEnv \<Rightarrow> WorldStateSnapshot \<Rightarrow> PlacementDecisions" where
  "cycle_placements cl env snap =
     ComputePlacement (lc_placement cl) (lc_finder cl) (en_resID env) (sub (en_od env) 2) snap
       (ComputeTargets (lc_scaling cl) snap)"

definition cycle_plan :: "'e ControlLoop \<Rightarrow> 'e CycleEnv \<Rightarrow> WorldStateSnapshot \<Rightarrow> ExecutionPlan" where
  "cycle_plan cl env snap =
     GeneratePlan (en_opID env) (cycle_placements cl env snap)
       (FindRebalancingOpportunities (lc_rebalancing cl) (sub (en_od env) 3) snap)"

definition cycle_result :: "'e ControlLoop \<Rightarrow> 'e CycleEnv \<Rightarrow> WorldStateSnapshot \<Rightarrow> 'e op_error ExecutionResult" where
  "cycle_result cl env snap =
     Execute (sub (en_od env) 5) (en_turns env) (\<lambda>op. fst (op_outcome cl env snap op)) (cycle_plan cl env snap)"

text \<open>
  \<open>runCycle\<close> returns the violations of a plan that was refused or the execution's result, and the
  world state: what a refused cycle did before stays.
\<close>

definition runCycle ::
  "'e ControlLoop \<Rightarrow> 'e CycleEnv \<Rightarrow> Event list \<Rightarrow> WorldState
     \<Rightarrow> (plan_error list + 'e op_error ExecutionResult) \<times> WorldState" where
  "runCycle cl env events ws =
     (let ws1 = applyEvents events ws;
          snap = cycle_snap env events ws;
          decisions = ComputeTargets (lc_scaling cl) snap;
          ws2 = applyScalingDecisions (sub (en_od env) 1) decisions ws1;
          ws3 = create_all (pl_Reservations (cycle_placements cl env snap)) ws2;
          plan = cycle_plan cl env snap;
          violations = validatePlan (sub (en_od env) 4) plan snap
      in if violations \<noteq> [] then (Inl violations, ws3)
         else let result = cycle_result cl env snap
              in (Inr result, fold (op_effect cl env snap) (shuffle (en_arrival env) (started_ops plan result)) ws3))"

definition cycle_outcome :: "plan_error list + 'x ExecutionResult \<Rightarrow> string" where
  "cycle_outcome r = (case r of Inl _ \<Rightarrow> ''validation_failure''
     | Inr result \<Rightarrow> if er_Failed result \<noteq> [] then ''execution_failure'' else ''success'')"

section \<open>The loop\<close>

text \<open>
  What happens to the world state over time: batches of events, which a leader turns into cycles
  and others drop, and the ticks of the goroutine \<open>runReservationExpiry\<close>.
\<close>

datatype 'e loop_input =
  Batch "Event list" bool "'e CycleEnv"
| ExpiryTick time

definition loop_step :: "'e ControlLoop \<Rightarrow> 'e loop_input \<Rightarrow> WorldState \<Rightarrow> WorldState" where
  "loop_step cl i ws =
     (case i of
        Batch events isLeader env \<Rightarrow> if \<not> isLeader then ws else snd (runCycle cl env events ws)
      | ExpiryTick now \<Rightarrow> snd (ExpireStaleReservations now ws))"

definition loop_run :: "'e ControlLoop \<Rightarrow> 'e loop_input list \<Rightarrow> WorldState \<Rightarrow> WorldState" where
  "loop_run cl ins ws = fold (loop_step cl) ins ws"

text \<open>What a completed cycle publishes and logs.\<close>

definition cycle_report ::
  "'e ControlLoop \<Rightarrow> 'e CycleEnv \<Rightarrow> ('e op_error \<Rightarrow> string) \<Rightarrow> (CycleSummary \<Rightarrow> string) \<Rightarrow> time \<Rightarrow> Event list \<Rightarrow> WorldState
     \<Rightarrow> CycleSummary \<times> EventRecord list" where
  "cycle_report cl env err_text marshal now events ws =
     (let snap = cycle_snap env events ws;
          placements = cycle_placements cl env snap;
          result = cycle_result cl env snap;
          summary = buildCycleSummary (sub (en_od env) 6) err_text events (ComputeTargets (lc_scaling cl) snap)
                      placements result snap (en_durationMs env)
      in (summary, logged_events now marshal summary (cycle_plan cl env snap) result placements))"

section \<open>A cycle is a sequence of mutators\<close>

definition event_calls :: "Event \<Rightarrow> ws_call list" where
  "event_calls ev =
     (case ev_Kind ev of
        EventMetricsUpdate \<Rightarrow> (case ev_VLLMMetrics ev of Some m \<Rightarrow> [CallUpdateVLLMMetrics m] | None \<Rightarrow> [])
      | EventClusterEvent \<Rightarrow> (case ev_ClusterEvent ev of
            Some ce \<Rightarrow> (case ce_Kind ce of
                ClusterEventNodeUp \<Rightarrow>
                  [CallUpsertNode \<lparr>nd_NodeID = ce_NodeID ce, nd_ClusterID = ce_ClusterID ce, nd_TotalGPUs = ce_TotalGPUs ce,
                     nd_AllocatedGPUs = 0, nd_FreeGPUs = ce_TotalGPUs ce, nd_Pods = [], nd_CachedModels = [],
                     nd_Status = NodeStatusReady\<rparr>]
              | ClusterEventNodeDown \<Rightarrow> [CallRemoveNode (ce_ClusterID ce) (ce_NodeID ce)]
              | ClusterEventPodRunning \<Rightarrow>
                  (if ce_ReplicaID ce \<noteq> ''''
                   then [CallUpsertReplica \<lparr>rp_ReplicaID = ce_ReplicaID ce, rp_AppID = ce_AppID ce,
                           rp_ClusterID = ce_ClusterID ce, rp_NodeID = ce_NodeID ce, rp_GPUs = ce_GPUs ce,
                           rp_Status = ReplicaStatusRunning, rp_CreatedAt = ce_Timestamp ce\<rparr>]
                   else [])
              | ClusterEventPodTerminated \<Rightarrow>
                  (if ce_ReplicaID ce \<noteq> '''' then [CallDeleteReplica (ce_ReplicaID ce)] else []))
          | None \<Rightarrow> [])
      | EventAppConfigUpdate \<Rightarrow> (case ev_Application ev of Some app \<Rightarrow> [CallUpsertApplication app] | None \<Rightarrow> [])
      | _ \<Rightarrow> [])"

definition decision_calls :: "AppID \<times> ScalingDecision \<Rightarrow> ws_call list" where
  "decision_calls p = (let (appID, d) = p in
     if sl_ScaleActionApproved d then [CallRecordScaleEvent appID (direction_string (sl_Direction d)) (sl_ActionAt d)]
     else if sl_ScaleDownSignalObserved d then [CallIncrementScaleDownSignal appID] else [])"

fun action_calls :: "action \<Rightarrow> ws_call list" where
  "action_calls (ActFulfillReservation i) = [CallFulfillReservation i]"
| "action_calls (ActExpireReservation i) = [CallExpireReservation i]"
| "action_calls _ = []"

lemma ws_run_simps [simp]:
  "ws_run [] ws = ws" "ws_run (c # cs) ws = ws_run cs (ws_step c ws)" "ws_run (cs @ cs') ws = ws_run cs' (ws_run cs ws)"
  by (simp_all add: ws_run_def)

lemma fold_calls: "(\<And>x ws. f x ws = ws_run (calls x) ws) \<Longrightarrow> fold f xs ws = ws_run (concat (map calls xs)) ws"
  by (induction xs arbitrary: ws) simp_all

lemma applyEvent_calls: "applyEvent ev ws = ws_run (event_calls ev) ws"
  by (simp add: applyEvent_def event_calls_def applyClusterEvent_def split: EventKind.split option.split ClusterEventKind.split)

lemma applyEvents_calls: "applyEvents evs ws = ws_run (concat (map event_calls evs)) ws"
  unfolding applyEvents_def by (rule fold_calls) (rule applyEvent_calls)

lemma applyScalingDecision_calls: "applyScalingDecision p ws = ws_run (decision_calls p) ws"
  by (simp add: applyScalingDecision_def decision_calls_def split: prod.split)

lemma applyScalingDecisions_calls:
  "applyScalingDecisions od ds ws = ws_run (concat (map decision_calls (range_order od ds))) ws"
  unfolding applyScalingDecisions_def by (rule fold_calls) (rule applyScalingDecision_calls)

lemma create_all_calls: "create_all rs ws = ws_run (map CallCreateReservation rs) ws"
  unfolding create_all_def by (induction rs arbitrary: ws) simp_all

lemma run_actions_calls:
  "run_actions FulfillReservation ExpireReservation acts ws = ws_run (concat (map action_calls acts)) ws"
  unfolding run_actions_def
proof (rule fold_calls)
  show "apply_action FulfillReservation ExpireReservation a ws = ws_run (action_calls a) ws" for a ws
    by (cases a) (simp_all add: keep_on_error_def)
qed

definition op_calls :: "'e ControlLoop \<Rightarrow> 'e CycleEnv \<Rightarrow> WorldStateSnapshot \<Rightarrow> Operation \<Rightarrow> ws_call list" where
  "op_calls cl env snap op = concat (map action_calls (snd (op_outcome cl env snap op)))"

lemma op_effect_calls: "op_effect cl env snap op ws = ws_run (op_calls cl env snap op) ws"
  by (simp add: op_effect_def op_calls_def run_actions_calls)

definition cycle_calls :: "'e ControlLoop \<Rightarrow> 'e CycleEnv \<Rightarrow> Event list \<Rightarrow> WorldState \<Rightarrow> ws_call list" where
  "cycle_calls cl env events ws =
     (let snap = cycle_snap env events ws;
          plan = cycle_plan cl env snap
      in concat (map event_calls events)
         @ concat (map decision_calls (range_order (sub (en_od env) 1) (ComputeTargets (lc_scaling cl) snap)))
         @ map CallCreateReservation (pl_Reservations (cycle_placements cl env snap))
         @ (if validatePlan (sub (en_od env) 4) plan snap \<noteq> [] then []
            else concat (map (op_calls cl env snap) (shuffle (en_arrival env) (started_ops plan (cycle_result cl env snap))))))"

lemma runCycle_calls: "snd (runCycle cl env events ws) = ws_run (cycle_calls cl env events ws) ws"
  unfolding runCycle_def cycle_calls_def Let_def
  by (simp add: applyEvents_calls applyScalingDecisions_calls create_all_calls fold_calls [OF op_effect_calls])

text \<open>No call of a cycle registers a cluster as a whole, so all are well formed.\<close>

lemma event_calls_wf: "c \<in> set (event_calls ev) \<Longrightarrow> wf_call c"
proof -
  have "list_all wf_call (event_calls ev)"
    by (cases "ev_Kind ev"; cases "ev_VLLMMetrics ev"; cases "ev_ClusterEvent ev"; cases "ev_Application ev")
      (simp_all add: event_calls_def wf_call_def split: ClusterEventKind.split)
  then show "c \<in> set (event_calls ev) \<Longrightarrow> wf_call c" by (metis list_all_iff)
qed

lemma decision_calls_wf: "c \<in> set (decision_calls p) \<Longrightarrow> wf_call c"
  by (auto simp: decision_calls_def wf_call_def split: prod.splits if_splits)

lemma op_calls_wf: "c \<in> set (op_calls cl env snap op) \<Longrightarrow> wf_call c"
proof -
  have "c \<in> set (action_calls a) \<Longrightarrow> wf_call c" for a
    by (cases a) (auto simp: wf_call_def)
  then show "c \<in> set (op_calls cl env snap op) \<Longrightarrow> wf_call c" by (auto simp: op_calls_def)
qed

lemma cycle_calls_wf: "c \<in> set (cycle_calls cl env events ws) \<Longrightarrow> wf_call c"
  using event_calls_wf decision_calls_wf op_calls_wf
  by (auto simp: cycle_calls_def Let_def wf_call_def split: if_splits)

lemma ws_run_wf: "ws_wf ws \<Longrightarrow> (\<And>c. c \<in> set calls \<Longrightarrow> wf_call c) \<Longrightarrow> ws_wf (ws_run calls ws)"
  by (induction calls arbitrary: ws) (simp_all add: ws_step_wf)

lemma loop_step_wf: "ws_wf ws \<Longrightarrow> ws_wf (loop_step cl i ws)"
proof (cases i)
  case (Batch events isLeader env)
  assume "ws_wf ws"
  then have "ws_wf (snd (runCycle cl env events ws))"
    unfolding runCycle_calls by (rule ws_run_wf) (rule cycle_calls_wf)
  then show ?thesis using Batch \<open>ws_wf ws\<close> by (simp add: loop_step_def)
next
  case (ExpiryTick now)
  assume "ws_wf ws"
  then have "ws_wf (ws_step (CallExpireStaleReservations now) ws)" by (rule ws_step_wf) (simp add: wf_call_def)
  then show ?thesis using ExpiryTick by (simp add: loop_step_def)
qed

section \<open>Debouncing does not change what a batch does\<close>

text \<open>
  Equal up to the order in which the metrics and application tables list their entries.
\<close>

definition same_world :: "WorldState \<Rightarrow> WorldState \<Rightarrow> bool" where
  "same_world ws ws' \<longleftrightarrow> (\<forall>a. gget (ws_vllmMetrics ws) a = gget (ws_vllmMetrics ws') a)
     \<and> (\<forall>a. gget (ws_applications ws) a = gget (ws_applications ws') a)
     \<and> ws\<lparr>ws_vllmMetrics := [], ws_applications := []\<rparr> = ws'\<lparr>ws_vllmMetrics := [], ws_applications := []\<rparr>"

abbreviation rest :: "WorldState \<Rightarrow> WorldState" where
  "rest ws \<equiv> ws\<lparr>ws_vllmMetrics := [], ws_applications := []\<rparr>"

text \<open>The mutators of cluster events neither read nor write the two tables.\<close>

lemma rest_helpers:
  "rest (restoreNodeGPUs r ws) = restoreNodeGPUs r (rest ws)"
  "rest (allocateNodeGPUs r ws) = allocateNodeGPUs r (rest ws)"
  "rest (refreshFragmentation c ws) = refreshFragmentation c (rest ws)"
  "rest (gauge_add s d ws) = gauge_add s d (rest ws)"
  by (auto simp: restoreNodeGPUs_def allocateNodeGPUs_def refreshFragmentation_def gauge_add_def Let_def split: option.split)

lemma rest_replicas: "rest (ws\<lparr>ws_replicas := m\<rparr>) = (rest ws)\<lparr>ws_replicas := m\<rparr>"
  by simp

lemma replicas_helpers [simp]:
  "ws_replicas (allocateNodeGPUs r (rest ws)) = ws_replicas (allocateNodeGPUs r ws)"
  "ws_replicas (restoreNodeGPUs r (rest ws)) = ws_replicas (restoreNodeGPUs r ws)"
  by (auto simp: restoreNodeGPUs_def allocateNodeGPUs_def Let_def split: option.split)

lemma rest_UpsertReplica: "rest (UpsertReplica r ws) = UpsertReplica r (rest ws)"
  by (auto simp: UpsertReplica_def Let_def rest_helpers rest_replicas allocate_frame restore_frame gauge_add_frame
      simp del: WorldState.update_convs split: option.split)

lemma rest_DeleteReplica: "rest (DeleteReplica rid ws) = DeleteReplica rid (rest ws)"
  by (auto simp: DeleteReplica_def Let_def rest_helpers rest_replicas allocate_frame restore_frame gauge_add_frame
      simp del: WorldState.update_convs split: option.split)

lemma rest_nodes:
  "rest (UpsertNode n ws) = UpsertNode n (rest ws)"
  "rest (RemoveNode c nid ws) = RemoveNode c nid (rest ws)"
  by (auto simp: UpsertNode_def RemoveNode_def Let_def split: option.split)

lemma rest_applyClusterEvent: "rest (applyClusterEvent ce ws) = applyClusterEvent ce (rest ws)"
  by (simp add: applyClusterEvent_def rest_UpsertReplica rest_DeleteReplica rest_nodes split: ClusterEventKind.split)

lemma tables_applyClusterEvent:
  "ws_vllmMetrics (applyClusterEvent ce ws) = ws_vllmMetrics ws"
  "ws_applications (applyClusterEvent ce ws) = ws_applications ws"
  by (simp_all add: applyClusterEvent_def UpsertNode_def RemoveNode_def Let_def
      split: ClusterEventKind.split option.split)

lemma rest_applyEvent:
  "rest (applyEvent ev ws) = (if ev_Kind ev = EventClusterEvent then applyEvent ev (rest ws) else rest ws)"
  by (simp add: applyEvent_def rest_applyClusterEvent UpdateVLLMMetrics_def UpsertApplication_def
      split: EventKind.split option.split)

lemma rest_applyEvents:
  "rest (applyEvents evs ws) = applyEvents (filter (\<lambda>e. ev_Kind e = EventClusterEvent) evs) (rest ws)"
  unfolding applyEvents_def by (induction evs arbitrary: ws) (simp_all add: rest_applyEvent)

text \<open>What the tables hold afterwards is what the last event for the application carried.\<close>

lemma metrics_applyEvents:
  "\<forall>e \<in> set evs. well_tagged e \<Longrightarrow> gget (ws_vllmMetrics (applyEvents evs ws)) a =
     (case latest (about EventMetricsUpdate a) evs of Some e \<Rightarrow> ev_VLLMMetrics e | None \<Rightarrow> gget (ws_vllmMetrics ws) a)"
proof (induction evs rule: rev_induct)
  case (snoc e evs)
  have "applyEvents (evs @ [e]) ws = applyEvent e (applyEvents evs ws)" by (simp add: applyEvents_def)
  moreover have "well_tagged e" using snoc.prems by simp
  ultimately show ?case
    using snoc by (cases "ev_Kind e"; cases "ev_VLLMMetrics e"; cases "ev_ClusterEvent e"; cases "ev_Application e")
      (simp_all add: latest_snoc about_def applyEvent_def well_tagged_def UpdateVLLMMetrics_def UpsertApplication_def
        tables_applyClusterEvent)
qed (simp add: applyEvents_def)

lemma applications_applyEvents:
  "\<forall>e \<in> set evs. well_tagged e \<Longrightarrow> gget (ws_applications (applyEvents evs ws)) a =
     (case latest (about EventAppConfigUpdate a) evs of Some e \<Rightarrow> ev_Application e | None \<Rightarrow> gget (ws_applications ws) a)"
proof (induction evs rule: rev_induct)
  case (snoc e evs)
  have "applyEvents (evs @ [e]) ws = applyEvent e (applyEvents evs ws)" by (simp add: applyEvents_def)
  moreover have "well_tagged e" using snoc.prems by simp
  ultimately show ?case
    using snoc by (cases "ev_Kind e"; cases "ev_VLLMMetrics e"; cases "ev_ClusterEvent e"; cases "ev_Application e")
      (simp_all add: latest_snoc about_def applyEvent_def well_tagged_def UpdateVLLMMetrics_def UpsertApplication_def
        tables_applyClusterEvent)
qed (simp add: applyEvents_def)

lemma applyEvents_determined:
  assumes "\<forall>e \<in> set evs. well_tagged e" and "\<forall>e \<in> set evs'. well_tagged e"
    and "filter (\<lambda>e. ev_Kind e = EventClusterEvent) evs = filter (\<lambda>e. ev_Kind e = EventClusterEvent) evs'"
    and "\<And>k a. k \<noteq> EventClusterEvent \<Longrightarrow> latest (about k a) evs = latest (about k a) evs'"
  shows "same_world (applyEvents evs ws) (applyEvents evs' ws)"
  unfolding same_world_def rest_applyEvents assms(3) metrics_applyEvents [OF assms(1)] metrics_applyEvents [OF assms(2)]
    applications_applyEvents [OF assms(1)] applications_applyEvents [OF assms(2)]
  by (simp add: assms(4))

lemma applyEvents_concat: "fold applyEvents batches ws = applyEvents (concat batches) ws"
  unfolding applyEvents_def by (induction batches arbitrary: ws) simp_all

section \<open>Properties\<close>

text \<open>The debouncer is transparent: applying the batches it makes of a stream of events leaves the
  world state as applying every event one by one in the order of arrival does, up to the order of
  entries in the metrics and application tables, although batches reorder and drop events.\<close>

theorem debouncing_is_transparent:
  assumes "undisturbed ins" and "flushing i" and "\<forall>e \<in> set (arrivals ins). well_tagged e"
  shows "same_world (fold applyEvents (db_out (deb_run od 0 (ins @ [i]) new_debouncer)) ws)
    (applyEvents (arrivals ins) ws)"
  unfolding applyEvents_concat sent_events_def [symmetric]
proof (rule applyEvents_determined)
  show "\<forall>e \<in> set (sent_events od ins i). well_tagged e" using deb_complete(3) [OF assms(1,2)] assms(3) by blast
  show "filter (\<lambda>e. ev_Kind e = EventClusterEvent) (sent_events od ins i)
      = filter (\<lambda>e. ev_Kind e = EventClusterEvent) (arrivals ins)"
    using deb_complete(1) [OF assms(1,2), of od] by (simp add: cluster_events_def isMergeable_def)
qed (rule assms(3), rule latest_about_sent [OF assms(1,2)])

text \<open>However long the control loop runs, on whatever batches of events, with whatever answers,
  failures, cancellations and expiry sweeps, the world state stays well formed: every table keyed
  by the identifier its values carry, every node under its cluster, and every gauge equal to the
  size it reports.\<close>

theorem control_loop_keeps_world_well_formed:
  "ws_wf (loop_run cl ins New)"
proof -
  have "ws_wf ws \<Longrightarrow> ws_wf (fold (loop_step cl) ins ws)" for ws
    by (induction ins arbitrary: ws) (simp_all add: loop_step_wf)
  then show ?thesis unfolding loop_run_def using ws_wf_New by blast
qed

text \<open>A node that is announced again loses its accounting: after \<open>NodeUp\<close> for a node that replicas are
  placed on, announcing such a replica again does not allocate its GPUs, and when it terminates
  the node is left with a negative allocation and with more free GPUs than it has.\<close>

lemma node_up_forgets_allocations:
  assumes "gget (ws_replicas ws) rid = Some r" and "rp_ClusterID r = cid" and "rp_NodeID r = nid" and "rid \<noteq> ''''"
    and "ce_Kind up = ClusterEventNodeUp" and "ce_ClusterID up = cid" and "ce_NodeID up = nid"
    and "ce_Kind run = ClusterEventPodRunning" and "ce_ReplicaID run = rid" and "ce_ClusterID run = cid" and "ce_NodeID run = nid"
    and "ce_Kind stop = ClusterEventPodTerminated" and "ce_ReplicaID stop = rid"
  shows "\<exists>n. node_at (applyClusterEvent stop (applyClusterEvent run (applyClusterEvent up ws))) cid nid = Some n
    \<and> nd_AllocatedGPUs n = - ce_GPUs run \<and> nd_FreeGPUs n = nd_TotalGPUs n + ce_GPUs run"
  using assms
  by (simp add: applyClusterEvent_def node_at_simps node_at_UpsertReplica node_at_DeleteReplica UpsertNode_frame
      ws_replicas_UpsertReplica located_def same_place_def release_def)

end
