(* ===== verification/Cycle.thy ===== *)
theory Cycle
  imports ControlLoop ExecutorInv
begin

text \<open>
  Properties of a whole scheduling cycle that span its components: placement, plan generation,
  execution, operations and the world state.
\<close>

section \<open>What an operation does to the reservations\<close>

text \<open>The reservation an operation closes, and how, if it comes to that.\<close>

definition settles :: "'e ControlLoop \<Rightarrow> 'e CycleEnv \<Rightarrow> WorldStateSnapshot \<Rightarrow> Operation \<Rightarrow> (ReservationID \<times> ReservationStatus) option" where
  "settles cl env snap op =
     (case op_Payload op of
        PayloadScaleUp d \<Rightarrow>
          (case gget (en_clients env op) (su_ClusterID d) of
             None \<Rightarrow> None
           | Some r \<Rightarrow> (case rsp_create r of
               Inl _ \<Rightarrow> None
             | Inr _ \<Rightarrow> Some (su_ReservationID d, if fst (op_outcome cl env snap op) = None
                              then ReservationStatusFulfilled else ReservationStatusExpired)))
      | _ \<Rightarrow> None)"

definition settled :: "(ReservationID \<times> ReservationStatus) option \<Rightarrow> ReservationID \<Rightarrow> ReservationStatus option \<Rightarrow> ReservationStatus option" where
  "settled x j status = (case x of Some (i, st) \<Rightarrow> if j = i \<and> status = Some ReservationStatusActive then Some st else status
     | None \<Rightarrow> status)"

lemma op_effect_status:
  "reservation_status (op_effect cl env snap op ws) j = settled (settles cl env snap op) j (reservation_status ws j)"
proof (cases "op_Payload op")
  case (PayloadScaleUp d)
  show ?thesis
  proof (cases "gget (en_clients env op) (su_ClusterID d)")
    case None
    then show ?thesis using PayloadScaleUp
      by (simp add: op_effect_def op_outcome_def dispatchOp_def clusterClientFor_def settles_def settled_def)
  next
    case (Some r)
    let ?ttl = "reservationTTL (lc_executor cl) (su_ReservationID d) snap"
    have o: "op_outcome cl env snap op = scaleUp r d ?ttl"
      using PayloadScaleUp Some by (simp add: op_outcome_def dispatchOp_def clusterClientFor_def)
    show ?thesis
    proof (cases "rsp_create r")
      case (Inl e)
      then show ?thesis using PayloadScaleUp Some store.scale_up_not_created [OF Inl, of d ?ttl ws]
        by (simp add: op_effect_def o settles_def settled_def)
    next
      case (Inr rid)
      show ?thesis
        using PayloadScaleUp Some Inr
        unfolding op_effect_def o store.scale_up_closes [OF Inr, of d ?ttl ws j]
        by (simp add: settles_def settled_def o)
    qed
  qed
next
  case (PayloadScaleDown d)
  then show ?thesis
    by (simp add: op_effect_def op_outcome_def dispatchOp_def clusterClientFor_def settles_def settled_def
        removal_no_effect split: option.split)
next
  case (PayloadPreempt d)
  then show ?thesis
    by (simp add: op_effect_def op_outcome_def dispatchOp_def clusterClientFor_def settles_def settled_def
        removal_no_effect split: option.split)
next
  case PayloadOther
  then show ?thesis by (simp add: op_effect_def op_outcome_def dispatchOp_def settles_def settled_def)
qed

text \<open>An operation names the reservation it may close.\<close>

definition names_res :: "ReservationID \<Rightarrow> Payload \<Rightarrow> bool" where
  "names_res j p = (case p of PayloadScaleUp d \<Rightarrow> su_ReservationID d = j | _ \<Rightarrow> False)"

lemma settled_other: "\<not> names_res j (op_Payload op) \<Longrightarrow> settled (settles cl env snap op) j x = x"
  by (auto simp: names_res_def settles_def settled_def split: Payload.splits option.splits sum.splits)

text \<open>What a sequence of operations does to one reservation.\<close>

abbreviation settle_all :: "'e ControlLoop \<Rightarrow> 'e CycleEnv \<Rightarrow> WorldStateSnapshot \<Rightarrow> ReservationID \<Rightarrow> Operation list
    \<Rightarrow> ReservationStatus option \<Rightarrow> ReservationStatus option" where
  "settle_all cl env snap j ops \<equiv> fold (\<lambda>op. settled (settles cl env snap op) j) ops"

lemma fold_op_effect_status:
  "reservation_status (fold (op_effect cl env snap) ops ws) j = settle_all cl env snap j ops (reservation_status ws j)"
  by (induction ops arbitrary: ws) (simp_all add: op_effect_status)

lemma settle_all_none: "\<forall>op \<in> set ops. \<not> names_res j (op_Payload op) \<Longrightarrow> settle_all cl env snap j ops x = x"
  by (induction ops arbitrary: x) (simp_all add: settled_other)

lemma settle_all_one:
  assumes "distinct ops" and "op \<in> set ops" and "\<forall>op' \<in> set ops. names_res j (op_Payload op') \<longrightarrow> op' = op"
  shows "settle_all cl env snap j ops x = settled (settles cl env snap op) j x"
proof -
  obtain xs ys where ops: "ops = xs @ op # ys" "op \<notin> set xs" "op \<notin> set ys"
    using split_list [OF assms(2)] assms(1) by auto
  have "\<forall>op' \<in> set xs \<union> set ys. \<not> names_res j (op_Payload op')" using assms(3) ops by auto
  then show ?thesis unfolding ops(1) by (simp add: settle_all_none)
qed

section \<open>The reservations before the execution\<close>

lemma node_calls_reservations:
  "ws_reservations (UpsertNode n ws) = ws_reservations ws"
  "ws_reservations (RemoveNode c nid ws) = ws_reservations ws"
  by (simp_all add: UpsertNode_def RemoveNode_def Let_def split: option.split)

lemma applyEvents_reservations: "ws_reservations (applyEvents evs ws) = ws_reservations ws"
proof -
  have "ws_reservations (applyEvent ev ws) = ws_reservations ws" for ev ws
    by (simp add: applyEvent_def applyClusterEvent_def node_calls_reservations
        split: EventKind.split option.split ClusterEventKind.split)
  then show ?thesis unfolding applyEvents_def by (induction evs arbitrary: ws) simp_all
qed

lemma applyScalingDecisions_reservations: "ws_reservations (applyScalingDecisions od ds ws) = ws_reservations ws"
proof -
  have "ws_reservations (applyScalingDecision p ws) = ws_reservations ws" for p ws
    by (simp add: applyScalingDecision_def split: prod.split)
  then have "ws_reservations (fold applyScalingDecision ps ws) = ws_reservations ws" for ps
    by (induction ps arbitrary: ws) simp_all
  then show ?thesis by (simp add: applyScalingDecisions_def)
qed

lemma create_all_other:
  "j \<notin> rs_ReservationID ` set rs \<Longrightarrow> gget (ws_reservations (create_all rs ws)) j = gget (ws_reservations ws) j"
  unfolding create_all_def
  by (induction rs arbitrary: ws) (auto simp: CreateReservation_def keep_on_error_def split: option.split)

lemma create_all_gget:
  "distinct (map rs_ReservationID rs) \<Longrightarrow> \<forall>r \<in> set rs. gget (ws_reservations ws) (rs_ReservationID r) = None \<Longrightarrow>
   r \<in> set rs \<Longrightarrow> gget (ws_reservations (create_all rs ws)) (rs_ReservationID r) = Some r"
proof (induction rs arbitrary: ws rule: rev_induct)
  case (snoc x rs)
  have c: "create_all (rs @ [x]) ws = keep_on_error (create_all rs ws) (CreateReservation x (create_all rs ws))"
    by (simp add: create_all_def)
  have x: "rs_ReservationID x \<notin> rs_ReservationID ` set rs" using snoc.prems(1) by auto
  then have n: "gget (ws_reservations (create_all rs ws)) (rs_ReservationID x) = None"
    using create_all_other [OF x, of ws] snoc.prems(2) by simp
  show ?case
  proof (cases "r = x")
    case True
    then show ?thesis using n by (simp add: c CreateReservation_def keep_on_error_def)
  next
    case False
    then have "r \<in> set rs" using snoc.prems(3) by simp
    then have "rs_ReservationID r \<noteq> rs_ReservationID x" using x by (metis imageI)
    then show ?thesis using snoc.IH snoc.prems \<open>r \<in> set rs\<close> n
      by (simp add: c CreateReservation_def keep_on_error_def)
  qed
qed simp

lemma create_all_status:
  "distinct (map rs_ReservationID rs) \<Longrightarrow> \<forall>r \<in> set rs. gget (ws_reservations ws) (rs_ReservationID r) = None \<Longrightarrow>
   r \<in> set rs \<Longrightarrow> reservation_status (create_all rs ws) (rs_ReservationID r) = Some (rs_Status r)"
  using create_all_gget by (simp add: reservation_status_def)

section \<open>A scale-up of a cycle and its reservation\<close>

lemma filter_one_unique:
  assumes "length (filter P (map f xs)) \<le> 1" and "x \<in> set xs" and "y \<in> set xs" and "P (f x)" and "P (f y)"
  shows "x = y"
proof -
  have "length (filter (\<lambda>x. P (f x)) xs) \<le> 1" using assms(1) by (simp add: filter_map comp_def)
  moreover have "x \<in> set (filter (\<lambda>x. P (f x)) xs)" "y \<in> set (filter (\<lambda>x. P (f x)) xs)" using assms by simp_all
  ultimately show ?thesis by (cases "filter (\<lambda>x. P (f x)) xs") auto
qed

lemma filter_key_one: "distinct (map f xs) \<Longrightarrow> length (filter (\<lambda>x. f x = j) xs) \<le> 1"
proof (induction xs)
  case (Cons x xs)
  show ?case
  proof (cases "f x = j")
    case True
    then have "f y \<noteq> j" if "y \<in> set xs" for y using Cons.prems that by (metis distinct.simps(2) imageI list.set_map list.simps(9))
    then have "filter (\<lambda>x. f x = j) xs = []" by (simp add: filter_empty_conv)
    then show ?thesis by simp
  next
    case False
    then show ?thesis using Cons by simp
  qed
qed simp

lemma plan_names_res_once:
  assumes "distinct (map su_ReservationID (pl_ScaleUps d))" and "j \<noteq> ''''"
    and "op \<in> set (GeneratePlan uid d ms)" and "op' \<in> set (GeneratePlan uid d ms)"
    and "names_res j (op_Payload op)" and "names_res j (op_Payload op')"
  shows "op' = op"
proof (rule filter_one_unique [where P = "names_res j" and f = op_Payload, OF _ assms(4,3,6,5)])
  have "filter (names_res j) (concat (map (\<lambda>m. [PayloadScaleUp (migration_up m), PayloadScaleDown (migration_down m)]) ms)) = []"
    using assms(2) by (induction ms) (simp_all add: names_res_def migration_up_def)
  moreover have "length (filter (names_res j) (map PayloadScaleUp (pl_ScaleUps d))) \<le> 1"
    using filter_key_one [OF assms(1), of j] by (simp add: filter_map comp_def names_res_def)
  ultimately show "length (filter (names_res j) (map op_Payload (GeneratePlan uid d ms))) \<le> 1"
    by (simp add: GeneratePlan_payloads plan_payloads_def filter_map comp_def) (simp add: names_res_def)
qed

lemma paired_ids:
  assumes "paired cfg uid snap d"
  shows "map su_ReservationID (pl_ScaleUps d) = map uid [0..<length (pl_Reservations d)]"
    and "map rs_ReservationID (pl_Reservations d) = map uid [0..<length (pl_Reservations d)]"
    and "r \<in> set (pl_Reservations d) \<Longrightarrow> rs_Status r = ReservationStatusActive"
  using assms by (auto simp: paired_def reservation_for_def in_set_conv_nth intro!: nth_equalityI)

lemma placement_reservations:
  fixes cl :: "'e ControlLoop"
  assumes "inj (en_resID env)" and "\<forall>n. gget (ws_reservations ws) (en_resID env n) = None"
    and "su \<in> set (pl_ScaleUps (cycle_placements cl env snap))"
  shows "reservation_status (create_all (pl_Reservations (cycle_placements cl env snap)) ws) (su_ReservationID su)
      = Some ReservationStatusActive"
    and "distinct (map su_ReservationID (pl_ScaleUps (cycle_placements cl env snap)))"
    and "\<exists>n. su_ReservationID su = en_resID env n"
proof -
  let ?d = "cycle_placements cl env snap"
  have p: "paired (lc_placement cl) (en_resID env) snap ?d"
    unfolding cycle_placements_def by (rule ComputePlacement_paired)
  note ids = paired_ids [OF p]
  have dist: "distinct (map (en_resID env) [0..<length (pl_Reservations ?d)])"
    using inj_on_subset [OF assms(1) subset_UNIV] by (simp add: distinct_map)
  show "distinct (map su_ReservationID (pl_ScaleUps ?d))" using dist by (simp only: ids(1))
  have fresh: "\<forall>r \<in> set (pl_Reservations ?d). gget (ws_reservations ws) (rs_ReservationID r) = None"
  proof
    fix r assume "r \<in> set (pl_Reservations ?d)"
    then have "rs_ReservationID r \<in> set (map rs_ReservationID (pl_Reservations ?d))" by simp
    then show "gget (ws_reservations ws) (rs_ReservationID r) = None" unfolding ids(2) using assms(2) by auto
  qed
  have "su_ReservationID su \<in> set (map su_ReservationID (pl_ScaleUps ?d))" using assms(3) by simp
  then have j: "su_ReservationID su \<in> set (map (en_resID env) [0..<length (pl_Reservations ?d)])"
    unfolding ids(1) .
  then show "\<exists>n. su_ReservationID su = en_resID env n" by auto
  from j have "su_ReservationID su \<in> set (map rs_ReservationID (pl_Reservations ?d))" unfolding ids(2) .
  then obtain r where r: "r \<in> set (pl_Reservations ?d)" "rs_ReservationID r = su_ReservationID su" by auto
  have "distinct (map rs_ReservationID (pl_Reservations ?d))" using dist by (simp only: ids(2))
  from create_all_status [OF this fresh r(1)] show
    "reservation_status (create_all (pl_Reservations ?d) ws) (su_ReservationID su) = Some ReservationStatusActive"
    using r(2) ids(3) [OF r(1)] by simp
qed

text \<open>In the state the execution starts from, the \<open>k\<close>-th scale-up finds the \<open>k\<close>-th reservation.\<close>

lemma created_reservation:
  assumes p: "paired cfg uid snap d" and "inj uid" and fresh: "\<forall>n. gget (ws_reservations ws) (uid n) = None"
  shows "map (\<lambda>su. gget (ws_reservations (create_all (pl_Reservations d) ws)) (su_ReservationID su)) (pl_ScaleUps d)
      = map Some (pl_Reservations d)"
    and "\<forall>n. uid n \<noteq> j \<Longrightarrow>
      gget (ws_reservations (create_all (pl_Reservations d) ws)) j = gget (ws_reservations ws) j"
proof -
  note ids = paired_ids [OF p]
  have dist: "distinct (map rs_ReservationID (pl_Reservations d))"
    unfolding ids(2) using inj_on_subset [OF assms(2) subset_UNIV] by (simp add: distinct_map)
  have id: "rs_ReservationID (pl_Reservations d ! k) = uid k" if "k < length (pl_Reservations d)" for k
    using arg_cong [OF ids(2), of "\<lambda>xs. xs ! k"] that by simp
  have len: "length (pl_ScaleUps d) = length (pl_Reservations d)" using p by (simp add: paired_def)
  have su: "su_ReservationID (pl_ScaleUps d ! k) = uid k" if "k < length (pl_Reservations d)" for k
    using arg_cong [OF ids(1), of "\<lambda>xs. xs ! k"] that len by simp
  have all: "\<forall>r \<in> set (pl_Reservations d). gget (ws_reservations ws) (rs_ReservationID r) = None"
    using id fresh by (auto simp: in_set_conv_nth)
  show "map (\<lambda>su. gget (ws_reservations (create_all (pl_Reservations d) ws)) (su_ReservationID su)) (pl_ScaleUps d)
      = map Some (pl_Reservations d)"
  proof (rule nth_equalityI)
    fix k assume "k < length (map (\<lambda>su. gget (ws_reservations (create_all (pl_Reservations d) ws)) (su_ReservationID su)) (pl_ScaleUps d))"
    then have k: "k < length (pl_Reservations d)" using len by simp
    have "gget (ws_reservations (create_all (pl_Reservations d) ws)) (rs_ReservationID (pl_Reservations d ! k))
        = Some (pl_Reservations d ! k)"
      by (rule create_all_gget [OF dist all]) (simp add: k)
    then show "map (\<lambda>su. gget (ws_reservations (create_all (pl_Reservations d) ws)) (su_ReservationID su)) (pl_ScaleUps d) ! k
        = map Some (pl_Reservations d) ! k" using k len by (simp add: id su)
  qed (simp add: len)
  show "gget (ws_reservations (create_all (pl_Reservations d) ws)) j = gget (ws_reservations ws) j"
    if none: "\<forall>n. uid n \<noteq> j"
  proof (rule create_all_other)
    have "rs_ReservationID r \<noteq> j" if "r \<in> set (pl_Reservations d)" for r
      using that none id by (metis in_set_conv_nth)
    then show "j \<notin> rs_ReservationID ` set (pl_Reservations d)" by blast
  qed
qed

text \<open>What the capacity check counts in a snapshot that has the reservations.\<close>

lemma seen_reservations_sum:
  assumes types: "\<And>op. op \<in> set plan \<Longrightarrow> op_Type op = (case op_Payload op of PayloadPreempt p \<Rightarrow> OperationPreempt
      | PayloadScaleDown sd \<Rightarrow> OperationScaleDown | _ \<Rightarrow> OperationScaleUp)"
    and payloads: "map op_Payload plan = plan_payloads d ms"
    and found: "map (\<lambda>su. gget (sn_Reservations snap) (su_ReservationID su)) (pl_ScaleUps d) = map Some (pl_Reservations d)"
    and empty: "gget (sn_Reservations snap) '''' = None"
  shows "sum_list (map (reserved_by snap cid) plan) = reserved_in cid (pl_Reservations d)"
proof -
  define g where "g o' = (case o' of Some r \<Rightarrow> if rs_ClusterID r = cid then rs_GPUs r else 0 | None \<Rightarrow> (0 :: int))"
    for o' :: "GPUReservation option"
  define f where "f p = (case p of PayloadScaleUp su \<Rightarrow> g (gget (sn_Reservations snap) (su_ReservationID su)) | _ \<Rightarrow> 0)"
    for p :: Payload
  have "reserved_by snap cid op = f (op_Payload op)" if "op \<in> set plan" for op
    using types [OF that] by (simp add: reserved_by_def f_def g_def split: Payload.split)
  then have "map (reserved_by snap cid) plan = map f (map op_Payload plan)" by simp
  also have "\<dots> = map f (plan_payloads d ms)" by (simp only: payloads)
  finally have "sum_list (map (reserved_by snap cid) plan) = sum_list (map f (plan_payloads d ms))" by (simp only:)
  also have "\<dots> = sum_list (map f (map PayloadScaleUp (pl_ScaleUps d)))"
  proof -
    have "sum_list (map f (concat (map (\<lambda>m. [PayloadScaleUp (migration_up m), PayloadScaleDown (migration_down m)]) ms))) = 0"
      using empty by (induction ms) (simp_all add: f_def g_def migration_up_def)
    then show ?thesis by (simp add: plan_payloads_def comp_def) (simp add: f_def)
  qed
  also have "map f (map PayloadScaleUp (pl_ScaleUps d))
      = map g (map (\<lambda>su. gget (sn_Reservations snap) (su_ReservationID su)) (pl_ScaleUps d))"
    by (simp add: f_def)
  also have "sum_list \<dots> = sum_list (map (\<lambda>r. if rs_ClusterID r = cid then rs_GPUs r else 0) (pl_Reservations d))"
    unfolding found by (simp add: g_def comp_def)
  also have "\<dots> = reserved_in cid (pl_Reservations d)"
    by (simp add: reserved_in_def sum_list_map_filter')
  finally show ?thesis .
qed

lemma executed_status:
  assumes "distinct (map op_ID plan)" and "op \<in> set plan"
  shows "op_ID op \<in> set (er_Completed (Execute od turns outcome plan)) \<Longrightarrow> outcome op = None"
    and "op_ID op \<in> fo_OperationID ` set (er_Failed (Execute od turns outcome plan)) \<Longrightarrow> outcome op \<noteq> None"
proof -
  obtain st where E: "Execute od turns outcome plan = exec_result st" and I: "exec_inv plan outcome st"
    using Execute_end [OF assms(1)] by metis
  have B: "books plan st" and R: "results_ok plan outcome st" using I by (simp_all add: exec_inv_def)
  show "outcome op = None" if c: "op_ID op \<in> set (er_Completed (Execute od turns outcome plan))"
  proof -
    obtain k where "k < length (ex_completed st)" "op_ID op = ex_completed st ! k"
      using c unfolding E exec_result_def by (force simp: in_set_conv_nth)
    then show ?thesis using R assms(2) unfolding results_ok_def by blast
  qed
  show "outcome op \<noteq> None" if "op_ID op \<in> fo_OperationID ` set (er_Failed (Execute od turns outcome plan))"
    using that books_lists(2) [OF B, of "op_ID op"] failed_outcome [OF assms(1) I assms(2)]
    unfolding E exec_result_def by simp
qed

section \<open>What the result of a cycle says of a reservation\<close>

text \<open>The cluster of the operation answered the creation of its replica with the new replica.\<close>

definition replica_created :: "'e CycleEnv \<Rightarrow> Operation \<Rightarrow> ScaleUpDecision \<Rightarrow> bool" where
  "replica_created env op su =
     (case gget (en_clients env op) (su_ClusterID su) of None \<Rightarrow> False
      | Some r \<Rightarrow> (case rsp_create r of Inl _ \<Rightarrow> False | Inr _ \<Rightarrow> True))"

definition expected_status :: "'e CycleEnv \<Rightarrow> 'x ExecutionResult \<Rightarrow> Operation \<Rightarrow> ScaleUpDecision \<Rightarrow> ReservationStatus" where
  "expected_status env result op su =
     (if op_ID op \<in> set (er_Completed result) then ReservationStatusFulfilled
      else if op_ID op \<in> fo_OperationID ` set (er_Failed result) \<and> replica_created env op su
      then ReservationStatusExpired else ReservationStatusActive)"

lemma scale_up_settles:
  assumes "op_Payload op = PayloadScaleUp su"
  shows "settled (settles cl env snap op) (su_ReservationID su) (Some ReservationStatusActive)
      = Some (if \<not> replica_created env op su then ReservationStatusActive
          else if fst (op_outcome cl env snap op) = None then ReservationStatusFulfilled else ReservationStatusExpired)"
    and "fst (op_outcome cl env snap op) = None \<Longrightarrow> replica_created env op su"
  using assms
  by (cases "gget (en_clients env op) (su_ClusterID su)"; cases "rsp_create (the (gget (en_clients env op) (su_ClusterID su)))";
      force simp: settled_def settles_def replica_created_def op_outcome_def dispatchOp_def clusterClientFor_def scaleUp_def)+

text \<open>
  In whatever order the operations of a cycle reach the world state, its result tells what becomes
  of an active reservation.
\<close>

lemma started_settle:
  fixes cl :: "'e ControlLoop"
  assumes "inj (en_opID env)" and "distinct (map su_ReservationID (pl_ScaleUps (cycle_placements cl env snap)))"
    and "su_ReservationID su \<noteq> ''''" and "op \<in> set (cycle_plan cl env snap)" and "op_Payload op = PayloadScaleUp su"
    and "mset ops = mset (started_ops (cycle_plan cl env snap) (cycle_result cl env snap))"
  shows "settle_all cl env snap (su_ReservationID su) ops (Some ReservationStatusActive)
    = Some (expected_status env (cycle_result cl env snap) op su)"
proof -
  let ?j = "su_ReservationID su" and ?plan = "cycle_plan cl env snap" and ?result = "cycle_result cl env snap"
  have ids: "distinct (map op_ID ?plan)"
    unfolding cycle_plan_def by (rule plan_ok_distinct [OF GeneratePlan_ok [OF assms(1)]])
  then have "distinct (started_ops ?plan ?result)" by (simp add: started_ops_def distinct_map)
  then have ops: "distinct ops" "set ops = set (started_ops ?plan ?result)"
    using assms(6) mset_eq_imp_distinct_iff mset_eq_setD by blast+
  have names: "names_res ?j (op_Payload op)" using assms(5) by (simp add: names_res_def)
  have only: "op' = op" if "op' \<in> set ?plan" "names_res ?j (op_Payload op')" for op'
    using plan_names_res_once [OF assms(2,3)] assms(4) that names unfolding cycle_plan_def by blast
  note outcome = executed_status [OF ids assms(4), where outcome = "\<lambda>op. fst (op_outcome cl env snap op)"
      and od = "sub (en_od env) 5" and turns = "en_turns env", folded cycle_result_def]
  show ?thesis
  proof (cases "op \<in> set ops")
    case True
    then have "op_ID op \<in> set (er_Completed ?result) \<or> op_ID op \<in> fo_OperationID ` set (er_Failed ?result)"
      unfolding ops(2) by (auto simp: started_ops_def)
    then have "settled (settles cl env snap op) ?j (Some ReservationStatusActive) = Some (expected_status env ?result op su)"
      using outcome scale_up_settles [OF assms(5), of cl env snap] by (auto simp: expected_status_def)
    moreover have "\<forall>op' \<in> set ops. names_res ?j (op_Payload op') \<longrightarrow> op' = op"
      using only ops(2) by (auto simp: started_ops_def)
    ultimately show ?thesis by (simp only: settle_all_one [OF ops(1) True])
  next
    case False
    then have "\<forall>op' \<in> set ops. \<not> names_res ?j (op_Payload op')" using only ops(2) by (auto simp: started_ops_def)
    then show ?thesis using False assms(4) ops(2)
      by (simp only: settle_all_none) (auto simp: started_ops_def expected_status_def)
  qed
qed

section \<open>Properties\<close>

text \<open>C26: A cycle settles the capacity it reserves: after a cycle that was executed, the reservation of a
  scale-up that completed is fulfilled, that of one that failed after its replica was created is
  expired, and in every other case it is still active and holds its GPUs until its TTL passes. This
  holds for all answers of the clusters, schedules, cancellations and orders of the effects.\<close>

theorem cycle_settles_its_reservations:
  fixes cl :: "'e ControlLoop"
  assumes "runCycle cl env events ws = (Inr result, ws')"
    and "inj (en_resID env)" and "inj (en_opID env)"
    and "\<forall>n. en_resID env n \<noteq> '''' \<and> gget (ws_reservations ws) (en_resID env n) = None"
    and "op \<in> set (cycle_plan cl env (cycle_snap env events ws))" and "op_Payload op = PayloadScaleUp su"
    and "su \<in> set (pl_ScaleUps (cycle_placements cl env (cycle_snap env events ws)))"
  shows "reservation_status ws' (su_ReservationID su) = Some
    (if op_ID op \<in> set (er_Completed result) then ReservationStatusFulfilled
     else if op_ID op \<in> fo_OperationID ` set (er_Failed result)
       \<and> (\<exists>r rid. gget (en_clients env op) (su_ClusterID su) = Some r \<and> rsp_create r = Inr rid)
     then ReservationStatusExpired else ReservationStatusActive)"
proof -
  let ?snap = "cycle_snap env events ws" and ?j = "su_ReservationID su"
  let ?d = "cycle_placements cl env ?snap" and ?started = "started_ops (cycle_plan cl env ?snap) result"
  let ?ws2 = "applyScalingDecisions (sub (en_od env) 1) (ComputeTargets (lc_scaling cl) ?snap) (applyEvents events ws)"
  have result: "result = cycle_result cl env ?snap"
    and ws': "ws' = fold (op_effect cl env ?snap) (shuffle (en_arrival env) ?started) (create_all (pl_Reservations ?d) ?ws2)"
    using assms(1) by (auto simp: runCycle_def Let_def split: if_splits)
  have "\<forall>n. gget (ws_reservations ?ws2) (en_resID env n) = None"
    using assms(4) by (simp add: applyScalingDecisions_reservations applyEvents_reservations)
  note pr = placement_reservations [OF assms(2) this assms(7)]
  have "?j \<noteq> ''''" using pr(3) assms(4) by metis
  from started_settle [OF assms(3) pr(2) this assms(5,6), of "shuffle (en_arrival env) ?started"]
  have "reservation_status ws' ?j = Some (expected_status env result op su)"
    unfolding ws' fold_op_effect_status pr(1) by (simp add: result)
  moreover have "replica_created env op su
      \<longleftrightarrow> (\<exists>r rid. gget (en_clients env op) (su_ClusterID su) = Some r \<and> rsp_create r = Inr rid)"
    by (auto simp: replica_created_def split: option.split sum.split)
  ultimately show ?thesis by (simp add: expected_status_def)
qed


end
