(* ===== verification/CycleExamples.thy ===== *)
theory CycleExamples
  imports PlacementExamples Cycle
begin

text \<open>
  Concrete cycles: the properties of validation, of the control loop and of a whole cycle at work.
\<close>

section \<open>Validation\<close>

definition busy_op :: Operation where
  "busy_op = \<lparr>op_ID = ''o1'', op_Type = OperationPreempt,
     op_Payload = PayloadPreempt \<lparr>pd_VictimReplicaID = ''r1'', pd_VictimAppID = ''app'', pd_NodeID = ''n1'', pd_ClusterID = ''c1'',
       pd_GracePeriodSeconds = 30, pd_Reason = ''''\<rparr>, op_DependsOn = []\<rparr>"

definition conflicting_plan :: ExecutionPlan where
  "conflicting_plan = [busy_op, \<lparr>op_ID = ''o2'', op_Type = OperationScaleUp, op_Payload = PayloadScaleUp sample_scale_up,
     op_DependsOn = [''o1'']\<rparr>]"

text \<open>An application that is scaled up and preempted in the same plan is refused.\<close>

lemma validation_accepts_exactly_witness: "validatePlan (\<lambda>_. []) conflicting_plan place_snap \<noteq> []"
  unfolding validation_accepts_exactly
  by (simp add: conflicting_plan_def busy_op_def sample_scale_up_def)

section \<open>The control loop\<close>

lemma debouncing_is_transparent_witness:
  "same_world (fold applyEvents (db_out (deb_run (\<lambda>_. []) 0 (sample_inputs @ [InClosed]) new_debouncer)) New)
     (applyEvents (arrivals sample_inputs) New)"
  by (rule debouncing_is_transparent) (simp_all add: undisturbed_def flushing_def sample_inputs_def event_def well_tagged_def)

definition placed_state :: WorldState where
  "placed_state = ws_run [CallUpsertNode sample_node, CallUpsertReplica sample_replica] New"

lemma node_up_example:
  "\<exists>n. node_at (applyClusterEvent (sample_cluster_event\<lparr>ce_Kind := ClusterEventPodTerminated, ce_ReplicaID := ''r1''\<rparr>)
      (applyClusterEvent (sample_cluster_event\<lparr>ce_Kind := ClusterEventPodRunning, ce_ReplicaID := ''r1'', ce_GPUs := 4\<rparr>)
        (applyClusterEvent sample_cluster_event placed_state))) ''c1'' ''n1'' = Some n
    \<and> nd_AllocatedGPUs n = - 4 \<and> nd_FreeGPUs n = nd_TotalGPUs n + 4"
proof -
  have r: "gget (ws_replicas placed_state) ''r1'' = Some sample_replica" by code_simp
  show ?thesis
    using node_up_forgets_allocations [OF r, of "''c1''" "''n1''" sample_cluster_event
        "sample_cluster_event\<lparr>ce_Kind := ClusterEventPodRunning, ce_ReplicaID := ''r1'', ce_GPUs := 4\<rparr>"
        "sample_cluster_event\<lparr>ce_Kind := ClusterEventPodTerminated, ce_ReplicaID := ''r1''\<rparr>"]
    by (simp add: sample_replica_def sample_cluster_event_def)
qed

section \<open>A whole cycle\<close>

text \<open>An application without a replica has a long queue; its first replica is placed and started.\<close>

definition sample_loop :: "string ControlLoop" where
  "sample_loop = \<lparr>lc_scaling = DefaultScalingConfig, lc_placement = DefaultPlacementConfig, lc_finder = None,
     lc_rebalancing = DefaultRebalancingConfig, lc_executor = DefaultExecutorConfig\<rparr>"

definition sample_env :: "string CycleEnv" where
  "sample_env = \<lparr>en_now = 100, en_od = (\<lambda>_. []), en_resID = (\<lambda>n. CHR ''v'' # sample_uid n),
     en_opID = sample_uid, en_clients = (\<lambda>_. [(''c1'', sample_responses)]), en_turns = (\<lambda>_. Receive 0),
     en_arrival = [], en_durationMs = 5\<rparr>"

definition sample_events :: "Event list" where
  "sample_events = [(event EventMetricsUpdate 100)\<lparr>ev_AppID := ''a'', ev_VLLMMetrics := Some sample_metrics\<rparr>]"

abbreviation sample_cycle :: "(plan_error list + string op_error ExecutionResult) \<times> WorldState" where
  "sample_cycle \<equiv> runCycle sample_loop sample_env sample_events place_state"

lemma sample_cycle_value:
  "(case fst sample_cycle of Inl _ \<Rightarrow> False | Inr result \<Rightarrow> er_Completed result = [''''])"
  by code_simp

lemma sample_cycle_names:
  "su_ReservationID (hd (pl_ScaleUps (cycle_placements sample_loop sample_env (cycle_snap sample_env sample_events place_state)))) = ''v''
   \<and> length (pl_ScaleUps (cycle_placements sample_loop sample_env (cycle_snap sample_env sample_events place_state))) = 1"
  by code_simp

lemma sample_cycle_op:
  "case cycle_plan sample_loop sample_env (cycle_snap sample_env sample_events place_state) of
     [op] \<Rightarrow> (case op_Payload op of PayloadScaleUp su \<Rightarrow> op_ID op = [] \<and>
        su = hd (pl_ScaleUps (cycle_placements sample_loop sample_env (cycle_snap sample_env sample_events place_state)))
      | _ \<Rightarrow> False)
   | _ \<Rightarrow> False"
  by code_simp

lemma sample_reservations: "ws_reservations place_state = []"
  by code_simp

lemma cycle_settles_its_reservations_witness:
  "reservation_status (snd sample_cycle) ''v'' = Some ReservationStatusFulfilled"
proof -
  let ?snap = "cycle_snap sample_env sample_events place_state"
  let ?ups = "pl_ScaleUps (cycle_placements sample_loop sample_env ?snap)"
  obtain result ws' where r: "sample_cycle = (Inr result, ws')" and c: "er_Completed result = [[]]"
    using sample_cycle_value by (cases sample_cycle) (auto split: sum.splits)
  have su: "hd ?ups \<in> set ?ups" "su_ReservationID (hd ?ups) = ''v''"
    using sample_cycle_names by (cases ?ups; simp)+
  obtain op where op: "op \<in> set (cycle_plan sample_loop sample_env ?snap)" "op_Payload op = PayloadScaleUp (hd ?ups)" "op_ID op = []"
    using sample_cycle_op by (auto split: list.splits Payload.splits)
  have inj: "inj (en_resID sample_env)" "inj (en_opID sample_env)"
    using inj_sample_uid by (simp_all add: sample_env_def inj_def)
  have fresh: "\<forall>n. en_resID sample_env n \<noteq> [] \<and> gget (ws_reservations place_state) (en_resID sample_env n) = None"
    by (simp add: sample_reservations) (simp add: sample_env_def)
  show ?thesis
    using cycle_settles_its_reservations [OF r inj fresh op(1,2) su(1)] op(3) c r su(2) by simp
qed


end
