(* ===== verification/EventBus.thy ===== *)
theory EventBus
  imports GoPrelude "HOL-Library.Sublist"
begin

text \<open>
  \<open>internal/apiserver/eventbus.go\<close>: publish and subscribe for the event stream. Every method holds
  the lock for its whole body, so it is one step. A channel is a buffer of 32 places that outlives
  its subscription; a send on a closed channel and a second close are panics (\<open>None\<close>).
\<close>

section \<open>The bus\<close>

record 'd BusEvent =
  be_Type :: string
  be_Timestamp :: time
  be_Data :: 'd

record 'd chan =
  ch_buf :: "'d BusEvent list"
  ch_closed :: bool

text \<open>The subscribers by their number; \<open>eb_chans\<close> are all channels ever made, under the same number.\<close>

record 'd EventBus =
  eb_subscribers :: "nat list"
  eb_nextID :: nat
  eb_chans :: "nat \<Rightarrow> 'd chan"

definition NewEventBus :: "'d EventBus" where
  "NewEventBus = \<lparr>eb_subscribers = [], eb_nextID = 0, eb_chans = (\<lambda>_. \<lparr>ch_buf = [], ch_closed = False\<rparr>)\<rparr>"

definition Subscribe :: "'d EventBus \<Rightarrow> nat \<times> 'd EventBus" where
  "Subscribe eb =
     (let sid = eb_nextID eb
      in (sid, eb\<lparr>eb_nextID := sid + 1, eb_subscribers := eb_subscribers eb @ [sid],
                 eb_chans := (eb_chans eb)(sid := \<lparr>ch_buf = [], ch_closed = False\<rparr>)\<rparr>))"

text \<open>The function \<open>Subscribe\<close> returns to unsubscribe.\<close>

definition Unsubscribe :: "nat \<Rightarrow> 'd EventBus \<Rightarrow> 'd EventBus option" where
  "Unsubscribe sid eb =
     (let ch = eb_chans eb sid
      in if ch_closed ch then None
         else Some (eb\<lparr>eb_subscribers := removeAll sid (eb_subscribers eb),
                       eb_chans := (eb_chans eb)(sid := ch\<lparr>ch_closed := True\<rparr>)\<rparr>))"

definition offer :: "'d BusEvent \<Rightarrow> 'd chan \<Rightarrow> 'd chan option" where
  "offer e ch = (if ch_closed ch then None
     else Some (if length (ch_buf ch) < 32 then ch\<lparr>ch_buf := ch_buf ch @ [e]\<rparr> else ch))"

fun publish_to :: "nat list \<Rightarrow> 'd BusEvent \<Rightarrow> 'd EventBus \<Rightarrow> 'd EventBus option" where
  "publish_to [] e eb = Some eb"
| "publish_to (sid # ids) e eb =
     (case offer e (eb_chans eb sid) of
        None \<Rightarrow> None
      | Some ch \<Rightarrow> publish_to ids e (eb\<lparr>eb_chans := (eb_chans eb)(sid := ch)\<rparr>))"

definition Publish :: "nat list \<Rightarrow> 'd BusEvent \<Rightarrow> 'd EventBus \<Rightarrow> 'd EventBus option" where
  "Publish choices e eb = publish_to (shuffle choices (eb_subscribers eb)) e eb"

text \<open>A receive from a channel: the next event, or none when it is empty (and then blocks or reports the close).\<close>

definition receive_from :: "nat \<Rightarrow> 'd EventBus \<Rightarrow> 'd BusEvent option \<times> 'd EventBus" where
  "receive_from sid eb =
     (case ch_buf (eb_chans eb sid) of
        [] \<Rightarrow> (None, eb)
      | e # es \<Rightarrow> (Some e, eb\<lparr>eb_chans := (eb_chans eb)(sid := (eb_chans eb sid)\<lparr>ch_buf := es\<rparr>)\<rparr>))"

section \<open>Runs\<close>

datatype 'd bus_call = DoSubscribe | DoUnsubscribe nat | DoPublish "nat list" "'d BusEvent" | DoReceive nat

fun bus_step :: "'d bus_call \<Rightarrow> 'd EventBus \<Rightarrow> 'd EventBus option" where
  "bus_step DoSubscribe eb = Some (snd (Subscribe eb))"
| "bus_step (DoUnsubscribe sid) eb = Unsubscribe sid eb"
| "bus_step (DoPublish choices e) eb = Publish choices e eb"
| "bus_step (DoReceive sid) eb = Some (snd (receive_from sid eb))"

fun bus_run :: "'d bus_call list \<Rightarrow> 'd EventBus \<Rightarrow> 'd EventBus option" where
  "bus_run [] eb = Some eb"
| "bus_run (c # cs) eb = (case bus_step c eb of None \<Rightarrow> None | Some eb' \<Rightarrow> bus_run cs eb')"

section \<open>Invariant\<close>

definition bus_ok :: "'d EventBus \<Rightarrow> bool" where
  "bus_ok eb \<longleftrightarrow> distinct (eb_subscribers eb)
     \<and> (\<forall>sid \<in> set (eb_subscribers eb). sid < eb_nextID eb)
     \<and> (\<forall>sid < eb_nextID eb. ch_closed (eb_chans eb sid) \<longleftrightarrow> sid \<notin> set (eb_subscribers eb))
     \<and> (\<forall>sid. length (ch_buf (eb_chans eb sid)) \<le> 32)"

text \<open>What publishing does to each channel.\<close>

definition enqueue :: "'d BusEvent \<Rightarrow> 'd chan \<Rightarrow> 'd chan" where
  "enqueue e ch = (if length (ch_buf ch) < 32 then ch\<lparr>ch_buf := ch_buf ch @ [e]\<rparr> else ch)"

lemma enqueue_facts [simp]:
  "ch_closed (enqueue e ch) = ch_closed ch"
  "length (ch_buf ch) \<le> 32 \<Longrightarrow> length (ch_buf (enqueue e ch)) \<le> 32"
  by (simp_all add: enqueue_def)

lemma publish_to_eq:
  "distinct ids \<Longrightarrow> \<forall>sid \<in> set ids. \<not> ch_closed (eb_chans eb sid) \<Longrightarrow>
     publish_to ids e eb = Some (eb\<lparr>eb_chans := (\<lambda>sid. if sid \<in> set ids then enqueue e (eb_chans eb sid) else eb_chans eb sid)\<rparr>)"
proof (induction ids e eb rule: publish_to.induct)
  case (2 i ids e eb)
  have o: "offer e (eb_chans eb i) = Some (enqueue e (eb_chans eb i))"
    using "2.prems" by (simp add: offer_def enqueue_def)
  let ?eb = "eb\<lparr>eb_chans := (eb_chans eb)(i := enqueue e (eb_chans eb i))\<rparr>"
  have "publish_to ids e ?eb = Some (?eb\<lparr>eb_chans := (\<lambda>sid. if sid \<in> set ids then enqueue e (eb_chans ?eb sid) else eb_chans ?eb sid)\<rparr>)"
    by (rule "2.IH" [OF o]) (use "2.prems" in auto)
  moreover have "(\<lambda>sid. if sid \<in> set ids then enqueue e (eb_chans ?eb sid) else eb_chans ?eb sid)
      = (\<lambda>sid. if sid \<in> set (i # ids) then enqueue e (eb_chans eb sid) else eb_chans eb sid)"
    using "2.prems"(1) by auto
  ultimately show ?case using o by simp
qed (simp add: fun_eq_iff)

text \<open>Publishing never panics: the channel of every subscriber is open.\<close>

lemma Publish_eq:
  assumes "bus_ok eb"
  shows "Publish choices e eb = Some (eb\<lparr>eb_chans :=
    (\<lambda>sid. if sid \<in> set (eb_subscribers eb) then enqueue e (eb_chans eb sid) else eb_chans eb sid)\<rparr>)"
  using publish_to_eq [of "shuffle choices (eb_subscribers eb)" eb e] assms by (simp add: Publish_def bus_ok_def)

lemma bus_ok_Publish: "bus_ok eb \<Longrightarrow> Publish choices e eb = Some eb' \<Longrightarrow> bus_ok eb'"
  by (auto simp: Publish_eq bus_ok_def)

lemma bus_ok_Subscribe: "bus_ok eb \<Longrightarrow> bus_ok (snd (Subscribe eb))"
  unfolding bus_ok_def Subscribe_def Let_def by (auto simp: less_Suc_eq)

lemma bus_ok_Unsubscribe: "bus_ok eb \<Longrightarrow> Unsubscribe sid eb = Some eb' \<Longrightarrow> bus_ok eb'"
  by (auto simp: bus_ok_def Unsubscribe_def Let_def distinct_removeAll split: if_splits)

lemma bus_ok_receive: "bus_ok eb \<Longrightarrow> bus_ok (snd (receive_from sid eb))"
proof (cases "ch_buf (eb_chans eb sid)")
  case (Cons e es)
  assume "bus_ok eb"
  moreover from this have "length (e # es) \<le> 32" unfolding bus_ok_def Cons [symmetric] by blast
  ultimately show ?thesis using Cons by (auto simp: bus_ok_def receive_from_def)
qed (simp add: receive_from_def)

lemma bus_step_ok: "bus_ok eb \<Longrightarrow> bus_step c eb = Some eb' \<Longrightarrow> bus_ok eb'"
  using bus_ok_Publish bus_ok_Subscribe bus_ok_Unsubscribe bus_ok_receive by (cases c) auto

text \<open>The only panic is to unsubscribe a channel that is closed.\<close>

lemma bus_step_panics:
  assumes "bus_ok eb"
  shows "bus_step c eb = None \<longleftrightarrow> (\<exists>sid. c = DoUnsubscribe sid \<and> ch_closed (eb_chans eb sid))"
  by (cases c) (simp_all add: Publish_eq [OF assms] Unsubscribe_def Let_def)

section \<open>What a subscriber gets\<close>

text \<open>What subscriber \<open>sid\<close> has received in a run, and what was published while it was subscribed.\<close>

fun received :: "nat \<Rightarrow> 'd bus_call list \<Rightarrow> 'd EventBus \<Rightarrow> 'd BusEvent list" where
  "received sid [] eb = []"
| "received sid (c # cs) eb =
     (case bus_step c eb of
        None \<Rightarrow> []
      | Some eb' \<Rightarrow>
          (case c of
             DoReceive i \<Rightarrow> if i = sid then (case fst (receive_from sid eb) of None \<Rightarrow> [] | Some e \<Rightarrow> [e]) else []
           | _ \<Rightarrow> []) @ received sid cs eb')"

fun published :: "nat \<Rightarrow> 'd bus_call list \<Rightarrow> 'd EventBus \<Rightarrow> 'd BusEvent list" where
  "published sid [] eb = []"
| "published sid (c # cs) eb =
     (case bus_step c eb of
        None \<Rightarrow> []
      | Some eb' \<Rightarrow>
          (case c of DoPublish _ e \<Rightarrow> if sid \<in> set (eb_subscribers eb) then [e] else [] | _ \<Rightarrow> []) @ published sid cs eb')"

text \<open>
  Received events are a subsequence of the published ones, in order and without repetition; and
  the buffer holds the rest but for those dropped when it was full.
\<close>

lemma stream_is_subsequence:
  assumes "bus_ok eb" and "bus_run cs eb = Some eb'" and "sid < eb_nextID eb"
  shows "subseq (received sid cs eb @ ch_buf (eb_chans eb' sid)) (ch_buf (eb_chans eb sid) @ published sid cs eb)"
  using assms
proof (induction cs eb rule: bus_run.induct)
  case (2 c cs eb)
  then obtain eb1 where s: "bus_step c eb = Some eb1" and r: "bus_run cs eb1 = Some eb'" by (auto split: option.splits)
  have ok: "bus_ok eb1" by (rule bus_step_ok [OF "2.prems"(1) s])
  have lt: "sid < eb_nextID eb1"
    using s "2.prems" by (cases c) (auto simp: Subscribe_def Unsubscribe_def Publish_eq receive_from_def Let_def split: if_splits list.splits)
  have IH: "subseq (received sid cs eb1 @ ch_buf (eb_chans eb' sid)) (ch_buf (eb_chans eb1 sid) @ published sid cs eb1)"
    by (rule "2.IH" [OF s ok r lt])
  show ?case
  proof (cases c)
    case DoSubscribe
    then have "ch_buf (eb_chans eb1 sid) = ch_buf (eb_chans eb sid)"
      using s "2.prems"(3) by (auto simp: Subscribe_def Let_def)
    then show ?thesis using IH s DoSubscribe by simp
  next
    case (DoUnsubscribe i)
    then have "ch_buf (eb_chans eb1 sid) = ch_buf (eb_chans eb sid)"
      using s by (auto simp: Unsubscribe_def Let_def split: if_splits)
    then show ?thesis using IH s DoUnsubscribe by simp
  next
    case (DoPublish choices e)
    then have eb1: "eb_chans eb1 sid = (if sid \<in> set (eb_subscribers eb) then enqueue e (eb_chans eb sid) else eb_chans eb sid)"
      using s Publish_eq [OF "2.prems"(1)] by auto
    have "subseq (ch_buf (eb_chans eb1 sid) @ published sid cs eb1)
      (ch_buf (eb_chans eb sid) @ (if sid \<in> set (eb_subscribers eb) then [e] else []) @ published sid cs eb1)"
      by (simp add: eb1 enqueue_def subseq_append' list_emb_Cons)
    then have "subseq (received sid cs eb1 @ ch_buf (eb_chans eb' sid))
      (ch_buf (eb_chans eb sid) @ (if sid \<in> set (eb_subscribers eb) then [e] else []) @ published sid cs eb1)"
      using IH subseq_order.trans by blast
    then show ?thesis using s DoPublish by simp
  next
    case (DoReceive i)
    then show ?thesis
      using IH s by (cases "i = sid"; cases "ch_buf (eb_chans eb i)") (auto simp: receive_from_def)
  qed
qed simp

text \<open>A subscriber whose buffer is never full when something is published misses nothing.\<close>

fun keeps_up :: "nat \<Rightarrow> 'd bus_call list \<Rightarrow> 'd EventBus \<Rightarrow> bool" where
  "keeps_up sid [] eb = True"
| "keeps_up sid (c # cs) eb =
     (case bus_step c eb of
        None \<Rightarrow> True
      | Some eb' \<Rightarrow>
          (case c of DoPublish _ _ \<Rightarrow> sid \<in> set (eb_subscribers eb) \<longrightarrow> length (ch_buf (eb_chans eb sid)) < 32 | _ \<Rightarrow> True)
          \<and> keeps_up sid cs eb')"

lemma stream_is_complete:
  assumes "bus_ok eb" and "bus_run cs eb = Some eb'" and "sid < eb_nextID eb" and "keeps_up sid cs eb"
  shows "received sid cs eb @ ch_buf (eb_chans eb' sid) = ch_buf (eb_chans eb sid) @ published sid cs eb"
  using assms
proof (induction cs eb rule: bus_run.induct)
  case (2 c cs eb)
  then obtain eb1 where s: "bus_step c eb = Some eb1" and r: "bus_run cs eb1 = Some eb'" by (auto split: option.splits)
  have ok: "bus_ok eb1" by (rule bus_step_ok [OF "2.prems"(1) s])
  have lt: "sid < eb_nextID eb1"
    using s "2.prems" by (cases c) (auto simp: Subscribe_def Unsubscribe_def Publish_eq receive_from_def Let_def split: if_splits list.splits)
  have IH: "received sid cs eb1 @ ch_buf (eb_chans eb' sid) = ch_buf (eb_chans eb1 sid) @ published sid cs eb1"
    by (rule "2.IH" [OF s ok r lt]) (use "2.prems"(4) s in simp)
  show ?case
  proof (cases c)
    case DoSubscribe
    then show ?thesis using IH s "2.prems"(3) by (auto simp: Subscribe_def Let_def)
  next
    case (DoUnsubscribe i)
    then show ?thesis using IH s by (auto simp: Unsubscribe_def Let_def split: if_splits)
  next
    case (DoPublish choices e)
    then show ?thesis using IH s "2.prems"(4) Publish_eq [OF "2.prems"(1)] by (auto simp: enqueue_def)
  next
    case (DoReceive i)
    then show ?thesis
      using IH s by (cases "i = sid"; cases "ch_buf (eb_chans eb i)") (auto simp: receive_from_def)
  qed
qed simp

text \<open>From the start, a run panics only by unsubscribing a second time.\<close>

lemma bus_ok_New: "bus_ok NewEventBus"
  by (simp add: bus_ok_def NewEventBus_def)

lemma bus_run_panics:
  "bus_ok eb \<Longrightarrow> bus_run cs eb = None \<Longrightarrow>
     \<exists>pre sid post eb'. cs = pre @ DoUnsubscribe sid # post \<and> bus_run pre eb = Some eb' \<and> ch_closed (eb_chans eb' sid)"
proof (induction cs eb rule: bus_run.induct)
  case (2 c cs eb)
  show ?case
  proof (cases "bus_step c eb")
    case None
    then obtain sid where "c = DoUnsubscribe sid" "ch_closed (eb_chans eb sid)"
      using bus_step_panics [OF "2.prems"(1)] by blast
    then show ?thesis by (intro exI [of _ "[]"]) simp
  next
    case (Some eb1)
    then obtain pre sid post eb' where "cs = pre @ DoUnsubscribe sid # post" "bus_run pre eb1 = Some eb'" "ch_closed (eb_chans eb' sid)"
      using "2.IH" [OF Some bus_step_ok [OF "2.prems"(1) Some]] "2.prems"(2) by auto
    then show ?thesis using Some by (intro exI [of _ "c # pre"]) auto
  qed
qed simp

end
