(* ===== verification/GoText.thy ===== *)
theory GoText
  imports GoPrelude "HOL-Library.Word"
begin

text \<open>
  Texts the code reads and writes: \<open>strconv.Atoi\<close>, \<open>hex.EncodeToString\<close> and the functions of
  package \<open>strings\<close> it uses, with their round trips. A string is the list of its bytes.
\<close>

section \<open>Decimal numbers\<close>

definition digit_value :: "char \<Rightarrow> nat option" where
  "digit_value c = (let n = of_char c in if 48 \<le> n \<and> n \<le> 57 then Some (n - 48) else None)"

primrec read_digits :: "nat \<Rightarrow> string \<Rightarrow> nat option" where
  "read_digits acc [] = Some acc"
| "read_digits acc (c # cs) = (case digit_value c of None \<Rightarrow> None | Some d \<Rightarrow> read_digits (10 * acc + d) cs)"

text \<open>\<open>strconv.Atoi\<close>: an optional sign and at least one digit, in the range of \<open>int64\<close>; any error is \<open>None\<close>.\<close>

definition atoi_sign :: "string \<Rightarrow> bool \<times> string" where
  "atoi_sign s = (case s of [] \<Rightarrow> (False, [])
     | c # cs \<Rightarrow> if c = CHR ''-'' then (True, cs) else if c = CHR ''+'' then (False, cs) else (False, s))"

definition atoi :: "string \<Rightarrow> int option" where
  "atoi s =
     (let (neg, ds) = atoi_sign s
      in if ds = [] then None
         else (case read_digits 0 ds of
             None \<Rightarrow> None
           | Some n \<Rightarrow> (let v = (if neg then - int n else int n)
               in if min_int64 \<le> v \<and> v \<le> max_int64 then Some v else None)))"

lemma digit_value_char_of: "d < 10 \<Longrightarrow> digit_value (char_of (48 + d :: nat)) = Some d"
  by (simp add: digit_value_def)

lemma read_digits_append:
  "read_digits acc (xs @ ys) = (case read_digits acc xs of None \<Rightarrow> None | Some n \<Rightarrow> read_digits n ys)"
  by (induction xs arbitrary: acc) (simp_all split: option.split)

lemma read_digits_digits: "read_digits 0 (digits n) = Some n"
proof (induction n rule: digits.induct)
  case (1 n)
  show ?case
  proof (cases "n < 10")
    case True
    then show ?thesis by (simp add: digits.simps [of n] digit_value_char_of)
  next
    case False
    then have "read_digits 0 (digits (n div 10)) = Some (n div 10)" using 1 by blast
    then show ?thesis using False
      by (simp add: digits.simps [of n] read_digits_append digit_value_char_of)
  qed
qed

lemma digits_ne [simp]: "digits n \<noteq> []"
  by (subst digits.simps) simp

lemma hd_digits: "digit_value (hd (digits n)) \<noteq> None"
proof (induction n rule: digits.induct)
  case (1 n)
  then show ?case by (cases "n < 10") (simp_all add: digits.simps [of n] digit_value_char_of del: not_None_eq)
qed

lemma atoi_sign_digits: "atoi_sign (digits n) = (False, digits n)"
proof -
  obtain c cs where d: "digits n = c # cs" by (cases "digits n") simp_all
  then have "digit_value c \<noteq> None" using hd_digits [of n] by simp
  then have "c \<noteq> CHR ''-''" "c \<noteq> CHR ''+''" by (auto simp: digit_value_def)
  then show ?thesis by (simp add: atoi_sign_def d)
qed

text \<open>What \<open>%d\<close> prints is read back.\<close>

lemma atoi_fmt_d:
  assumes "min_int64 \<le> n" and "n \<le> max_int64"
  shows "atoi (fmt_d n) = Some n"
proof (cases "n < 0")
  case True
  then have "atoi_sign (fmt_d n) = (True, digits (nat (- n)))" by (simp add: fmt_d_def atoi_sign_def)
  then show ?thesis using True assms by (simp add: atoi_def read_digits_digits)
next
  case False
  then have "atoi_sign (fmt_d n) = (False, digits (nat n))" by (simp add: fmt_d_def atoi_sign_digits)
  then show ?thesis using False assms by (simp add: atoi_def read_digits_digits)
qed

section \<open>Hexadecimal text of bytes\<close>

definition hex_digit :: "nat \<Rightarrow> char" where
  "hex_digit n = (if n < 10 then char_of (48 + n) else char_of (87 + n))"

definition hex_byte :: "8 word \<Rightarrow> string" where
  "hex_byte b = [hex_digit (unat b div 16), hex_digit (unat b mod 16)]"

definition EncodeToString :: "8 word list \<Rightarrow> string" where
  "EncodeToString bs = concat (map hex_byte bs)"

lemma hex_digit_inj: "m < 16 \<Longrightarrow> n < 16 \<Longrightarrow> hex_digit m = hex_digit n \<longleftrightarrow> m = n"
proof -
  have "inj_on hex_digit {..<16}" by (simp add: inj_on_def lessThan_nat_numeral hex_digit_def lessThan_Suc)
  then show "m < 16 \<Longrightarrow> n < 16 \<Longrightarrow> hex_digit m = hex_digit n \<longleftrightarrow> m = n" by (auto dest: inj_onD)
qed

lemma hex_byte_inj: "hex_byte a = hex_byte b \<Longrightarrow> a = b"
proof -
  assume "hex_byte a = hex_byte b"
  moreover have "unat x < 256" for x :: "8 word"
  proof -
    have "unat x < 2 ^ LENGTH(8)" by (rule unsigned_less)
    then show ?thesis by simp
  qed
  from this [of a] this [of b] have "unat a div 16 < 16" "unat b div 16 < 16" by simp_all
  ultimately have "unat a div 16 = unat b div 16" "unat a mod 16 = unat b mod 16"
    by (simp_all add: hex_byte_def hex_digit_inj)
  then have "unat a = unat b" by (metis div_mod_decomp)
  then show "a = b" by (simp add: word_unat_eq_iff)
qed

lemma length_EncodeToString [simp]: "length (EncodeToString bs) = 2 * length bs"
  by (induction bs) (simp_all add: EncodeToString_def hex_byte_def)

lemma EncodeToString_Cons: "EncodeToString (b # bs) = hex_byte b @ EncodeToString bs"
  by (simp add: EncodeToString_def)

lemma EncodeToString_inj: "EncodeToString as = EncodeToString bs \<longleftrightarrow> as = bs"
proof
  show "EncodeToString as = EncodeToString bs \<Longrightarrow> as = bs"
  proof (induction as arbitrary: bs)
    case Nil
    then show ?case by (cases bs) (simp_all add: EncodeToString_Cons, simp_all add: EncodeToString_def hex_byte_def)
  next
    case (Cons a as)
    then obtain b bs' where bs: "bs = b # bs'"
      by (cases bs) (auto simp: EncodeToString_def hex_byte_def)
    have "length (hex_byte a) = length (hex_byte b)" by (simp add: hex_byte_def)
    then have "hex_byte a = hex_byte b" "EncodeToString as = EncodeToString bs'"
      using Cons.prems unfolding bs EncodeToString_Cons by simp_all
    then show ?case using Cons.IH hex_byte_inj bs by blast
  qed
qed simp

section \<open>Package strings\<close>

definition HasPrefix :: "string \<Rightarrow> string \<Rightarrow> bool" where
  "HasPrefix s p \<longleftrightarrow> take (length p) s = p"

definition TrimPrefix :: "string \<Rightarrow> string \<Rightarrow> string" where
  "TrimPrefix s p = (if HasPrefix s p then drop (length p) s else s)"

text \<open>\<open>strings.ReplaceAll\<close> and \<open>strings.SplitN (s, sep, 2)\<close> for a pattern of one byte.\<close>

definition ReplaceAll :: "string \<Rightarrow> char \<Rightarrow> char \<Rightarrow> string" where
  "ReplaceAll s old new = map (\<lambda>c. if c = old then new else c) s"

definition SplitN2 :: "string \<Rightarrow> char \<Rightarrow> string list" where
  "SplitN2 s sep = (if sep \<in> set s
     then [takeWhile (\<lambda>c. c \<noteq> sep) s, tl (dropWhile (\<lambda>c. c \<noteq> sep) s)] else [s])"

text \<open>\<open>strings.ToLower\<close> on ASCII text.\<close>

definition lower :: "char \<Rightarrow> char" where
  "lower c = (let n = of_char c :: nat in if 65 \<le> n \<and> n \<le> 90 then char_of (n + 32) else c)"

definition ToLower :: "string \<Rightarrow> string" where
  "ToLower s = map lower s"

end
