(* ===== verification/GoTime.thy ===== *)
theory GoTime
  imports GoText
begin

text \<open>
  The calendar of package \<open>time\<close>: an instant, the number of nanoseconds since the year 1 (theory
  \<open>GoPrelude\<close>), written in the layout RFC3339Nano and read back. A zone is its offset from UTC in
  minutes. Written are the years 1 to 9999; read is the strict form only.
\<close>

section \<open>Civil days\<close>

definition leap :: "int \<Rightarrow> bool" where
  "leap y \<longleftrightarrow> y mod 4 = 0 \<and> (y mod 100 \<noteq> 0 \<or> y mod 400 = 0)"

definition days_before_year :: "int \<Rightarrow> int" where
  "days_before_year y = 365 * (y - 1) + (y - 1) div 4 - (y - 1) div 100 + (y - 1) div 400"

text \<open>The year of a day since the first of January of year 1, by cycles of 400, 100, 4 and 1 years.\<close>

definition year_of_day :: "int \<Rightarrow> int" where
  "year_of_day d =
     (let n400 = d div 146097; d1 = d mod 146097;
          n100 = min 3 (d1 div 36524); d2 = d1 - n100 * 36524;
          n4 = d2 div 1461; d3 = d2 mod 1461;
          n1 = min 3 (d3 div 365)
      in 400 * n400 + 100 * n100 + 4 * n4 + n1 + 1)"

definition month_starts :: "bool \<Rightarrow> int list" where
  "month_starts lp = (if lp then [0, 31, 60, 91, 121, 152, 182, 213, 244, 274, 305, 335]
     else [0, 31, 59, 90, 120, 151, 181, 212, 243, 273, 304, 334])"

definition days_in_month :: "bool \<Rightarrow> int \<Rightarrow> int" where
  "days_in_month lp m = (if m = 2 then (if lp then 29 else 28) else if m \<in> {4, 6, 9, 11} then 30 else 31)"

definition month_of_yday :: "bool \<Rightarrow> int \<Rightarrow> int" where
  "month_of_yday lp yd = int (length (takeWhile (\<lambda>s. s \<le> yd) (month_starts lp)))"

definition civil_of_day :: "int \<Rightarrow> int \<times> int \<times> int" where
  "civil_of_day d =
     (let y = year_of_day d;
          yd = d - days_before_year y;
          m = month_of_yday (leap y) yd
      in (y, m, yd - month_starts (leap y) ! nat (m - 1) + 1))"

definition day_of_civil :: "int \<times> int \<times> int \<Rightarrow> int" where
  "day_of_civil c = (let (y, m, d) = c in days_before_year y + month_starts (leap y) ! nat (m - 1) + d - 1)"

lemma year_bounds:
  assumes "0 \<le> d"
  shows "1 \<le> year_of_day d" and "days_before_year (year_of_day d) \<le> d"
    and "d < days_before_year (year_of_day d) + (if leap (year_of_day d) then 366 else 365)"
proof -
  define n400 where "n400 = d div 146097"
  define d1 where "d1 = d mod 146097"
  define n100 where "n100 = min 3 (d1 div 36524)"
  define d2 where "d2 = d1 - n100 * 36524"
  define n4 where "n4 = d2 div 1461"
  define d3 where "d3 = d2 mod 1461"
  define n1 where "n1 = min 3 (d3 div 365)"
  have y: "year_of_day d = 400 * n400 + 100 * n100 + 4 * n4 + n1 + 1"
    by (simp add: year_of_day_def Let_def n400_def d1_def n100_def d2_def n4_def d3_def n1_def)
  have b: "0 \<le> n400" "0 \<le> n100" "n100 \<le> 3" "0 \<le> d2" "d2 \<le> 36524" "n100 < 3 \<Longrightarrow> d2 < 36524"
    "d = 146097 * n400 + 36524 * n100 + d2"
    using assms unfolding n400_def n100_def d2_def d1_def by auto
  have c: "0 \<le> n4" "n4 \<le> 24" "0 \<le> d3" "d3 \<le> 1460" "d2 = 1461 * n4 + d3"
    using b unfolding n4_def d3_def by auto
  have c6: "n4 = 24 \<Longrightarrow> n100 < 3 \<Longrightarrow> d3 < 1460" using b(6) c(5) by linarith
  have e: "0 \<le> n1" "n1 \<le> 3" "365 * n1 \<le> d3" "n1 < 3 \<Longrightarrow> d3 < 365 * n1 + 365"
    using c unfolding n1_def by auto
  show "1 \<le> year_of_day d" using y b c e by linarith
  have "(year_of_day d - 1) div 4 = 100 * n400 + 25 * n100 + n4"
    by (rule int_div_pos_eq [of _ _ _ n1]) (use y e in auto)
  moreover have "(year_of_day d - 1) div 100 = 4 * n400 + n100"
    by (rule int_div_pos_eq [of _ _ _ "4 * n4 + n1"]) (use y c e in auto)
  moreover have "(year_of_day d - 1) div 400 = n400"
    by (rule int_div_pos_eq [of _ _ _ "100 * n100 + 4 * n4 + n1"]) (use y b c e in auto)
  ultimately have before: "days_before_year (year_of_day d) = 146097 * n400 + 36524 * n100 + 1461 * n4 + 365 * n1"
    unfolding days_before_year_def y by simp
  show "days_before_year (year_of_day d) \<le> d" unfolding before using b c e by linarith
  show "d < days_before_year (year_of_day d) + (if leap (year_of_day d) then 366 else 365)"
  proof (cases "n1 = 3 \<and> d3 = 1460")
    case True
    then have "year_of_day d mod 4 = 0" unfolding y by simp
    moreover have n4: "n4 < 24 \<or> n100 = 3"
    proof (cases "n4 = 24")
      case True
      then show ?thesis using c6 b(3) \<open>n1 = 3 \<and> d3 = 1460\<close> by linarith
    qed (use c(2) in simp)
    moreover have "year_of_day d mod 100 \<noteq> 0 \<or> year_of_day d mod 400 = 0"
    proof (cases "n4 < 24")
      case True
      then have "year_of_day d mod 100 = 4 * n4 + 4"
        by (intro int_mod_pos_eq [of _ _ "4 * n400 + n100"]) (use \<open>n1 = 3 \<and> d3 = 1460\<close> c in \<open>auto simp: y\<close>)
      then show ?thesis using c by simp
    next
      case False
      then have "n4 = 24" "n100 = 3" using c(2) n4 by auto
      then have "year_of_day d = 400 * (n400 + 1)" using \<open>n1 = 3 \<and> d3 = 1460\<close> unfolding y by simp
      then show ?thesis by simp
    qed
    ultimately have "leap (year_of_day d)" by (simp add: leap_def)
    then show ?thesis unfolding before using b c e True by simp
  next
    case False
    then have "d3 < 365 * n1 + 365" using c e by (cases "n1 = 3") auto
    then show ?thesis unfolding before using b c by auto
  qed
qed

lemma month_of_yday_start:
  assumes "0 \<le> yd" and "yd < (if lp then 366 else 365)"
  shows "1 \<le> month_of_yday lp yd" and "month_of_yday lp yd \<le> 12"
    and "month_starts lp ! nat (month_of_yday lp yd - 1) \<le> yd"
    and "yd < month_starts lp ! nat (month_of_yday lp yd - 1) + days_in_month lp (month_of_yday lp yd)"
proof -
  have all: "list_all (\<lambda>lp. list_all (\<lambda>yd. 1 \<le> month_of_yday lp yd \<and> month_of_yday lp yd \<le> 12
      \<and> month_starts lp ! nat (month_of_yday lp yd - 1) \<le> yd
      \<and> yd < month_starts lp ! nat (month_of_yday lp yd - 1) + days_in_month lp (month_of_yday lp yd)) [0..(if lp then 365 else 364)]) [True, False]"
    by code_simp
  have "lp \<in> set [True, False]" "yd \<in> set [0..(if lp then 365 else 364)]" using assms by auto
  with all have "1 \<le> month_of_yday lp yd \<and> month_of_yday lp yd \<le> 12
      \<and> month_starts lp ! nat (month_of_yday lp yd - 1) \<le> yd
      \<and> yd < month_starts lp ! nat (month_of_yday lp yd - 1) + days_in_month lp (month_of_yday lp yd)" unfolding list_all_iff by blast
  then show "1 \<le> month_of_yday lp yd" "month_of_yday lp yd \<le> 12"
    "month_starts lp ! nat (month_of_yday lp yd - 1) \<le> yd"
    "yd < month_starts lp ! nat (month_of_yday lp yd - 1) + days_in_month lp (month_of_yday lp yd)" by blast+
qed

lemma day_of_civil_of_day: "day_of_civil (civil_of_day d) = d"
  by (simp add: day_of_civil_def civil_of_day_def Let_def)

lemma civil_of_day_bounds:
  assumes "0 \<le> d" and "civil_of_day d = (y, m, dd)"
  shows "1 \<le> y" and "1 \<le> m" "m \<le> 12" and "1 \<le> dd" "dd \<le> days_in_month (leap y) m"
proof -
  note Y = year_bounds [OF assms(1)]
  have yd: "0 \<le> d - days_before_year y" "d - days_before_year y < (if leap y then 366 else 365)" and "1 \<le> y"
    using Y assms(2) by (auto simp: civil_of_day_def Let_def)
  note M = month_of_yday_start [OF yd]
  show "1 \<le> y" by fact
  show "1 \<le> m" "m \<le> 12" "1 \<le> dd" "dd \<le> days_in_month (leap y) m" using M assms(2) by (auto simp: civil_of_day_def Let_def)
qed

section \<open>Padded numbers\<close>

definition pad :: "nat \<Rightarrow> int \<Rightarrow> string" where
  "pad w n = (let s = digits (nat n) in replicate (w - length s) CHR ''0'' @ s)"

lemma length_digits: "n < 10 ^ k \<Longrightarrow> 0 < k \<Longrightarrow> length (digits n) \<le> k"
proof (induction n arbitrary: k rule: digits.induct)
  case (1 n)
  show ?case
  proof (cases "n < 10")
    case True
    then show ?thesis using "1.prems" by (simp add: digits.simps [of n])
  next
    case False
    then have "k \<noteq> 1" using "1.prems"(1) by auto
    then obtain k' where k: "k = Suc k'" "0 < k'" using "1.prems"(2) by (metis One_nat_def neq0_conv not0_implies_Suc)
    have "n div 10 < 10 ^ k'" using "1.prems"(1) unfolding k by (simp add: less_mult_imp_div_less mult.commute)
    then have "length (digits (n div 10)) \<le> k'" using "1.IH" False k(2) by blast
    then show ?thesis using False k by (simp add: digits.simps [of n])
  qed
qed

lemma length_pad:
  assumes "0 \<le> n" and "n < 10 ^ w" and "0 < w"
  shows "length (pad w n) = w"
proof -
  have "nat n < 10 ^ w" using assms(1,2) by (simp add: nat_less_iff)
  from length_digits [OF this assms(3)] show ?thesis by (simp add: pad_def Let_def)
qed

lemma read_zeros: "read_digits 0 (replicate k CHR ''0'' @ s) = read_digits 0 s"
  by (induction k) (simp_all add: digit_value_def)

lemma read_pad: "read_digits 0 (pad w n) = Some (nat n)"
  by (simp add: pad_def Let_def read_zeros read_digits_digits)

lemma pad_ne [simp]: "pad w n \<noteq> []"
  by (simp add: pad_def Let_def)

section \<open>Fractions of a second\<close>

text \<open>Nine digits without the trailing zeros, and nothing at all for a whole second.\<close>

definition drop_zeros :: "string \<Rightarrow> string" where
  "drop_zeros s = rev (dropWhile (\<lambda>c. c = CHR ''0'') (rev s))"

definition fraction :: "int \<Rightarrow> string" where
  "fraction nanos = (if nanos = 0 then [] else CHR ''.'' # drop_zeros (pad 9 nanos))"

definition is_digit :: "char \<Rightarrow> bool" where
  "is_digit c \<longleftrightarrow> digit_value c \<noteq> None"

text \<open>The nanoseconds of an optional fraction, of which nine digits count, and the text behind it.\<close>

definition read_fraction :: "string \<Rightarrow> (int \<times> string) option" where
  "read_fraction s =
     (case s of
        c # cs \<Rightarrow>
          if c = CHR ''.''
          then (let ds = takeWhile is_digit cs;
                    ns = take 9 (ds @ replicate 9 CHR ''0'')
                in if ds = [] then None
                   else map_option (\<lambda>n. (int n, dropWhile is_digit cs)) (read_digits 0 ns))
          else Some (0, s)
      | [] \<Rightarrow> Some (0, s))"

lemma drop_zeros_refill: "length s = w \<Longrightarrow> take w (drop_zeros s @ replicate w CHR ''0'') = s"
proof -
  assume w: "length s = w"
  define z where "z = takeWhile (\<lambda>c. c = CHR ''0'') (rev s)"
  have "rev s = z @ rev (drop_zeros s)" by (simp add: z_def drop_zeros_def)
  then have "s = drop_zeros s @ rev z" by (metis rev_append rev_rev_ident)
  moreover have "z = replicate (length z) CHR ''0''"
    unfolding z_def by (metis (full_types) set_takeWhileD replicate_length_same)
  ultimately have s: "s = drop_zeros s @ replicate (length z) CHR ''0''" by (metis rev_replicate)
  then have len: "length (drop_zeros s) + length z = w" using w by (metis length_append length_replicate)
  then have "take w (drop_zeros s @ replicate w CHR ''0'') = drop_zeros s @ replicate (length z) CHR ''0''"
    by (simp add: take_replicate flip: len)
  then show ?thesis using s by simp
qed

lemma digits_are_digits: "list_all is_digit (digits n)"
proof (induction n rule: digits.induct)
  case (1 n)
  then show ?case by (cases "n < 10") (simp_all add: digits.simps [of n] is_digit_def digit_value_char_of)
qed

lemma pad_is_digits: "list_all is_digit (pad w n)"
proof -
  have "list_all is_digit (replicate k CHR ''0'')" for k
    by (induction k) (simp_all add: is_digit_def digit_value_def)
  then show ?thesis by (simp add: pad_def Let_def digits_are_digits)
qed

lemma drop_zeros_is_digits: "list_all is_digit s \<Longrightarrow> list_all is_digit (drop_zeros s)"
  by (auto simp: drop_zeros_def list_all_iff dest: set_dropWhileD)

lemma drop_zeros_Nil: "drop_zeros s = [] \<Longrightarrow> s = replicate (length s) CHR ''0''"
  by (metis append_Nil drop_zeros_refill take_replicate min.idem)

lemma read_fraction_fraction:
  assumes "0 \<le> nanos" and "nanos < 1000000000" and "\<forall>c cs. s = c # cs \<longrightarrow> \<not> is_digit c \<and> c \<noteq> CHR ''.''"
  shows "read_fraction (fraction nanos @ s) = Some (nanos, s)"
proof (cases "nanos = 0")
  case True
  then show ?thesis using assms(3) by (cases s) (simp_all add: fraction_def read_fraction_def)
next
  case False
  have len: "length (pad 9 nanos) = 9" by (rule length_pad) (use assms in simp_all)
  let ?d = "drop_zeros (pad 9 nanos)"
  have ds: "takeWhile is_digit (?d @ s) = ?d" "dropWhile is_digit (?d @ s) = s"
  proof -
    have "list_all is_digit ?d" by (rule drop_zeros_is_digits [OF pad_is_digits])
    then show "takeWhile is_digit (?d @ s) = ?d" "dropWhile is_digit (?d @ s) = s"
      using assms(3) by (cases s; simp add: list_all_iff takeWhile_append dropWhile_append)+
  qed
  have "?d \<noteq> []"
  proof
    assume "?d = []"
    then have "pad 9 nanos = replicate 9 CHR ''0'' @ []" using drop_zeros_Nil len by fastforce
    then have "read_digits 0 (pad 9 nanos) = Some 0" by (simp only: read_zeros) simp
    then show False using read_pad [of 9 nanos] False assms(1) by simp
  qed
  then show ?thesis
    using False ds drop_zeros_refill [OF len] assms(1)
    by (simp add: fraction_def read_fraction_def Let_def read_pad)
qed

section \<open>RFC 3339\<close>

definition zone_text :: "int \<Rightarrow> string" where
  "zone_text zone = (if zone = 0 then ''Z''
     else (if zone < 0 then CHR ''-'' else CHR ''+'') # pad 2 (\<bar>zone\<bar> div 60) @ CHR '':'' # pad 2 (\<bar>zone\<bar> mod 60))"

abbreviation day_ns :: int where "day_ns \<equiv> 86400000000000"
abbreviation second_ns :: int where "second_ns \<equiv> 1000000000"

definition FormatRFC3339Nano :: "int \<Rightarrow> time \<Rightarrow> string" where
  "FormatRFC3339Nano zone t =
     (let local = t + zone * 60 * second_ns;
          n = local mod day_ns; sec = n div second_ns;
          (y, m, d) = civil_of_day (local div day_ns)
      in pad 4 y @ CHR ''-'' # pad 2 m @ CHR ''-'' # pad 2 d @ CHR ''T'' # pad 2 (sec div 3600) @ CHR '':''
         # pad 2 (sec div 60 mod 60) @ CHR '':'' # pad 2 (sec mod 60) @ fraction (n mod second_ns) @ zone_text zone)"

text \<open>A field of digits with its range.\<close>

definition read_uint :: "string \<Rightarrow> nat \<Rightarrow> nat \<Rightarrow> int option" where
  "read_uint s lo hi = (case read_digits 0 s of
     None \<Rightarrow> None | Some n \<Rightarrow> if s \<noteq> [] \<and> lo \<le> n \<and> n \<le> hi then Some (int n) else None)"

definition read_zone :: "string \<Rightarrow> int option" where
  "read_zone s =
     (if s = ''Z'' then Some 0
      else if length s = 6 \<and> (s ! 0 = CHR ''+'' \<or> s ! 0 = CHR ''-'') \<and> s ! 3 = CHR '':''
      then (case (read_uint (take 2 (drop 1 s)) 0 23, read_uint (drop 4 s) 0 59) of
              (Some h, Some mi) \<Rightarrow> Some (if s ! 0 = CHR ''-'' then - (60 * h + mi) else 60 * h + mi)
            | _ \<Rightarrow> None)
      else None)"

definition ParseRFC3339 :: "string \<Rightarrow> time option" where
  "ParseRFC3339 s =
     (if length s < 20 \<or> s ! 4 \<noteq> CHR ''-'' \<or> s ! 7 \<noteq> CHR ''-'' \<or> s ! 10 \<noteq> CHR ''T'' \<or> s ! 13 \<noteq> CHR '':'' \<or> s ! 16 \<noteq> CHR '':''
      then None
      else case (read_uint (take 4 s) 0 9999, read_uint (take 2 (drop 5 s)) 1 12, read_uint (take 2 (drop 8 s)) 1 31,
                 read_uint (take 2 (drop 11 s)) 0 23, read_uint (take 2 (drop 14 s)) 0 59, read_uint (take 2 (drop 17 s)) 0 59) of
             (Some y, Some m, Some d, Some h, Some mi, Some sec) \<Rightarrow>
               (case read_fraction (drop 19 s) of
                  None \<Rightarrow> None
                | Some (nanos, rest) \<Rightarrow>
                    (case read_zone rest of
                       None \<Rightarrow> None
                     | Some zone \<Rightarrow>
                         if days_in_month (leap y) m < d then None
                         else Some (day_of_civil (y, m, d) * day_ns + ((h * 60 + mi) * 60 + sec) * second_ns + nanos
                                    - zone * 60 * second_ns)))
           | _ \<Rightarrow> None)"

lemma read_uint_pad: "0 \<le> n \<Longrightarrow> int lo \<le> n \<Longrightarrow> n \<le> int hi \<Longrightarrow> read_uint (pad w n) lo hi = Some n"
  by (simp add: read_uint_def read_pad le_nat_iff nat_le_iff)

lemma pad2:
  assumes "0 \<le> n" and "n < 100"
  obtains a b where "pad 2 n = [a, b]"
  using length_pad [of n 2] assms by (auto simp: length_Suc_conv numeral_2_eq_2)

lemma pad4:
  assumes "0 \<le> n" and "n < 10000"
  obtains a b c d where "pad 4 n = [a, b, c, d]"
  using length_pad [of n 4] assms by (auto simp: length_Suc_conv numeral_eq_Suc)

lemma read_zone_text:
  assumes "\<bar>zone\<bar> < 1440"
  shows "read_zone (zone_text zone) = Some zone"
proof (cases "zone = 0")
  case True
  then show ?thesis by (simp add: zone_text_def read_zone_def)
next
  case False
  have r: "0 \<le> \<bar>zone\<bar> div 60" "\<bar>zone\<bar> div 60 \<le> 23" "0 \<le> \<bar>zone\<bar> mod 60" "\<bar>zone\<bar> mod 60 \<le> 59" using assms by auto
  obtain a b where ab: "pad 2 (\<bar>zone\<bar> div 60) = [a, b]" by (rule pad2 [of "\<bar>zone\<bar> div 60"]) (use r in auto)
  obtain c d where cd: "pad 2 (\<bar>zone\<bar> mod 60) = [c, d]" by (rule pad2 [of "\<bar>zone\<bar> mod 60"]) (use r in auto)
  have h: "read_uint [a, b] 0 23 = Some (\<bar>zone\<bar> div 60)" unfolding ab [symmetric] by (rule read_uint_pad) (use r in auto)
  have m: "read_uint [c, d] 0 59 = Some (\<bar>zone\<bar> mod 60)" unfolding cd [symmetric] by (rule read_uint_pad) (use r in auto)
  have "60 * (\<bar>zone\<bar> div 60) + \<bar>zone\<bar> mod 60 = \<bar>zone\<bar>" by simp
  then show ?thesis using False by (auto simp: zone_text_def ab cd read_zone_def h m)
qed

lemma zone_text_starts: "\<forall>c cs. zone_text zone = c # cs \<longrightarrow> \<not> is_digit c \<and> c \<noteq> CHR ''.''"
  by (auto simp: zone_text_def is_digit_def digit_value_def)

lemma length_zone_text: "1 \<le> length (zone_text zone)"
  by (simp add: zone_text_def)

text \<open>What is written is read back, the instant to the nanosecond.\<close>

lemma ParseRFC3339_Format:
  assumes "\<bar>zone\<bar> < 1440" and "0 \<le> t + zone * 60 * second_ns" and "fst (civil_of_day ((t + zone * 60 * second_ns) div day_ns)) \<le> 9999"
  shows "ParseRFC3339 (FormatRFC3339Nano zone t) = Some t"
proof -
  define local where "local = t + zone * 60 * second_ns"
  define n where "n = local mod day_ns"
  define sec where "sec = n div second_ns"
  define nanos where "nanos = n mod second_ns"
  obtain y m d where civil: "civil_of_day (local div day_ns) = (y, m, d)" by (cases "civil_of_day (local div day_ns)")
  have "0 \<le> local div day_ns" using assms(2) by (simp add: local_def pos_imp_zdiv_nonneg_iff)
  note B = civil_of_day_bounds [OF this civil]
  have y: "y \<le> 9999" using assms(3) civil by (simp add: local_def)
  have d31: "d \<le> 31" using B(4,5) by (auto simp: days_in_month_def split: if_splits)
  have n: "0 \<le> n" "n < day_ns" unfolding n_def by simp_all
  have sec: "0 \<le> sec" "sec < 86400" using n by (auto simp: sec_def)
  have nanos: "0 \<le> nanos" "nanos < 1000000000" unfolding nanos_def by simp_all
  define h where "h = sec div 3600"
  define mi where "mi = sec div 60 mod 60"
  define s where "s = sec mod 60"
  have hms: "0 \<le> h" "h \<le> 23" "0 \<le> mi" "mi \<le> 59" "0 \<le> s" "s \<le> 59" "(h * 60 + mi) * 60 + s = sec"
  proof -
    show "0 \<le> h" "h \<le> 23" "0 \<le> mi" "mi \<le> 59" "0 \<le> s" "s \<le> 59" using sec by (auto simp: h_def mi_def s_def)
    have "sec div 3600 = sec div 60 div 60" by (simp flip: zdiv_zmult2_eq)
    then show "(h * 60 + mi) * 60 + s = sec" by (simp add: h_def mi_def s_def)
  qed
  obtain y1 y2 y3 y4 where Y: "pad 4 y = [y1, y2, y3, y4]" by (rule pad4 [of y]) (use B y in auto)
  obtain m1 m2 where M: "pad 2 m = [m1, m2]" by (rule pad2 [of m]) (use B in auto)
  obtain d1 d2 where D: "pad 2 d = [d1, d2]" by (rule pad2 [of d]) (use B d31 in auto)
  obtain h1 h2 where H: "pad 2 h = [h1, h2]" by (rule pad2 [of h]) (use hms in auto)
  obtain i1 i2 where I: "pad 2 mi = [i1, i2]" by (rule pad2 [of mi]) (use hms in auto)
  obtain s1 s2 where S: "pad 2 s = [s1, s2]" by (rule pad2 [of s]) (use hms in auto)
  have F: "FormatRFC3339Nano zone t = [y1, y2, y3, y4, CHR ''-'', m1, m2, CHR ''-'', d1, d2, CHR ''T'', h1, h2, CHR '':'',
      i1, i2, CHR '':'', s1, s2] @ fraction nanos @ zone_text zone"
    using Y M D H I S civil
    by (simp add: FormatRFC3339Nano_def Let_def local_def n_def sec_def nanos_def h_def mi_def s_def)
  have r: "read_uint [y1, y2, y3, y4] 0 9999 = Some y" "read_uint [m1, m2] 1 12 = Some m" "read_uint [d1, d2] 1 31 = Some d"
    "read_uint [h1, h2] 0 23 = Some h" "read_uint [i1, i2] 0 59 = Some mi" "read_uint [s1, s2] 0 59 = Some s"
    unfolding Y [symmetric] M [symmetric] D [symmetric] H [symmetric] I [symmetric] S [symmetric]
    by (rule read_uint_pad; use B y d31 hms in simp)+
  have frac: "read_fraction (fraction nanos @ zone_text zone) = Some (nanos, zone_text zone)"
    by (rule read_fraction_fraction [OF nanos zone_text_starts])
  have day: "day_of_civil (y, m, d) = local div day_ns" using day_of_civil_of_day [of "local div day_ns"] civil by simp
  have "local div day_ns * day_ns + sec * second_ns + nanos = local"
  proof -
    have "sec * second_ns + nanos = n" by (simp add: sec_def nanos_def)
    moreover have "local div day_ns * day_ns + n = local" by (simp add: n_def)
    ultimately show ?thesis by linarith
  qed
  then have total: "day_of_civil (y, m, d) * day_ns + ((h * 60 + mi) * 60 + s) * second_ns + nanos - zone * 60 * second_ns = t"
    unfolding day hms(7) by (simp add: local_def)
  have "\<not> days_in_month (leap y) m < d" using B(5) by simp
  moreover have "\<not> length (FormatRFC3339Nano zone t) < 20" using length_zone_text [of zone] by (auto simp: F)
  ultimately show ?thesis
    unfolding ParseRFC3339_def using r frac total read_zone_text [OF assms(1)] by (simp add: F numeral_eq_Suc)
qed

end
