(* ===== verification/EventStore.thy ===== *)
theory EventStore
  imports EventLog GoTime "HOL-Library.List_Lexorder" "HOL-Library.Char_ord"
begin

text \<open>
  \<open>internal/eventlog/store.go\<close>: the two tables of the event log and the statements on them. SQLite
  compares texts byte by byte, which is the lexicographic order on strings here; it hands out
  increasing row numbers (\<open>AUTOINCREMENT\<close>); and it leaves open in which order rows with equal
  sort keys come (\<open>choices\<close>). An error of the database is an argument and changes nothing.
  Timestamps are texts in the zone of the process, an argument.
\<close>

section \<open>Tables\<close>

record ClusterSnapshot =
  cn_ID :: int
  cn_Timestamp :: time
  cn_ClusterID :: string
  cn_TotalGPUs :: int
  cn_AllocatedGPUs :: int
  cn_FreeGPUs :: int
  cn_ReplicaCount :: int

record event_row =
  ew_id :: int
  ew_timestamp :: string
  ew_type :: string
  ew_app_id :: string
  ew_cluster_id :: string
  ew_summary :: string
  ew_detail_json :: string

record snapshot_row =
  nw_id :: int
  nw_timestamp :: string
  nw_cluster_id :: string
  nw_total_gpus :: int
  nw_allocated_gpus :: int
  nw_free_gpus :: int
  nw_replica_count :: int

record Store =
  st_events :: "event_row list"
  st_lastEvent :: int
  st_snapshots :: "snapshot_row list"
  st_lastSnapshot :: int

definition empty_store :: Store where
  "empty_store = \<lparr>st_events = [], st_lastEvent = 0, st_snapshots = [], st_lastSnapshot = 0\<rparr>"

definition retentionHours :: int where "retentionHours = 24"

section \<open>Writing\<close>

definition event_row_of :: "int \<Rightarrow> int \<Rightarrow> EventRecord \<Rightarrow> event_row" where
  "event_row_of zone rowid e =
     \<lparr>ew_id = rowid, ew_timestamp = FormatRFC3339Nano zone (el_Timestamp e), ew_type = el_Type e, ew_app_id = el_AppID e,
      ew_cluster_id = el_ClusterID e, ew_summary = el_Summary e, ew_detail_json = el_DetailJSON e\<rparr>"

definition LogEvent :: "'x option \<Rightarrow> int \<Rightarrow> EventRecord \<Rightarrow> Store \<Rightarrow> 'x option \<times> Store" where
  "LogEvent err zone e st =
     (case err of
        Some x \<Rightarrow> (Some x, st)
      | None \<Rightarrow> (let rowid = st_lastEvent st + 1
                 in (None, st\<lparr>st_events := st_events st @ [event_row_of zone rowid e], st_lastEvent := rowid\<rparr>)))"

definition insert_snapshot :: "int \<Rightarrow> ClusterSnapshot \<Rightarrow> Store \<Rightarrow> Store" where
  "insert_snapshot zone s st =
     (let rowid = st_lastSnapshot st + 1
      in st\<lparr>st_snapshots := st_snapshots st @
               [\<lparr>nw_id = rowid, nw_timestamp = FormatRFC3339Nano zone (cn_Timestamp s), nw_cluster_id = cn_ClusterID s,
                 nw_total_gpus = cn_TotalGPUs s, nw_allocated_gpus = cn_AllocatedGPUs s,
                 nw_free_gpus = cn_FreeGPUs s, nw_replica_count = cn_ReplicaCount s\<rparr>],
            st_lastSnapshot := rowid\<rparr>)"

text \<open>The batch is one transaction: any error rolls all of it back.\<close>

definition LogStateSnapshot :: "'x option \<Rightarrow> int \<Rightarrow> ClusterSnapshot list \<Rightarrow> Store \<Rightarrow> 'x option \<times> Store" where
  "LogStateSnapshot err zone snaps st =
     (case err of Some x \<Rightarrow> (Some x, st) | None \<Rightarrow> (None, fold (insert_snapshot zone) snaps st))"

definition pruneOldEvents :: "int \<Rightarrow> time \<Rightarrow> Store \<Rightarrow> Store" where
  "pruneOldEvents zone now st =
     (let cutoff = FormatRFC3339Nano zone (now - retentionHours * 3600 * second_ns)
      in st\<lparr>st_events := filter (\<lambda>r. \<not> ew_timestamp r < cutoff) (st_events st),
            st_snapshots := filter (\<lambda>r. \<not> nw_timestamp r < cutoff) (st_snapshots st)\<rparr>)"

text \<open>Opening the file creates missing tables and prunes what the file holds (\<open>disk\<close>).\<close>

definition NewStore :: "'x option \<Rightarrow> int \<Rightarrow> time \<Rightarrow> Store \<Rightarrow> 'x + Store" where
  "NewStore err zone now disk =
     (case err of Some x \<Rightarrow> Inl x | None \<Rightarrow> Inr (pruneOldEvents zone now disk))"

section \<open>Reading\<close>

text \<open>A timestamp that cannot be parsed is the zero time: the error is dropped.\<close>

definition parsed :: "string \<Rightarrow> time" where
  "parsed ts = (case ParseRFC3339 ts of None \<Rightarrow> 0 | Some t \<Rightarrow> t)"

definition scan_event :: "event_row \<Rightarrow> EventRecord" where
  "scan_event r =
     \<lparr>el_ID = ew_id r, el_Timestamp = parsed (ew_timestamp r), el_Type = ew_type r, el_AppID = ew_app_id r,
      el_ClusterID = ew_cluster_id r, el_Summary = ew_summary r, el_DetailJSON = ew_detail_json r\<rparr>"

definition scan_snapshot :: "snapshot_row \<Rightarrow> ClusterSnapshot" where
  "scan_snapshot r =
     \<lparr>cn_ID = nw_id r, cn_Timestamp = parsed (nw_timestamp r), cn_ClusterID = nw_cluster_id r,
      cn_TotalGPUs = nw_total_gpus r, cn_AllocatedGPUs = nw_allocated_gpus r, cn_FreeGPUs = nw_free_gpus r,
      cn_ReplicaCount = nw_replica_count r\<rparr>"

text \<open>\<open>ORDER BY timestamp DESC LIMIT n\<close>; a negative limit is none.\<close>

definition newest_first :: "nat list \<Rightarrow> int \<Rightarrow> event_row list \<Rightarrow> event_row list" where
  "newest_first choices limit rows =
     (let sorted = rev (sort_key ew_timestamp (shuffle choices rows))
      in if limit < 0 then sorted else take (nat limit) sorted)"

definition QueryEvents :: "nat list \<Rightarrow> int \<Rightarrow> time \<Rightarrow> int \<Rightarrow> Store \<Rightarrow> EventRecord list" where
  "QueryEvents choices zone since limit st =
     map scan_event (newest_first choices limit
       (filter (\<lambda>r. FormatRFC3339Nano zone since \<le> ew_timestamp r) (st_events st)))"

definition QueryEventsByType :: "nat list \<Rightarrow> string \<Rightarrow> int \<Rightarrow> Store \<Rightarrow> EventRecord list" where
  "QueryEventsByType choices eventType limit st =
     map scan_event (newest_first choices limit (filter (\<lambda>r. ew_type r = eventType) (st_events st)))"

definition QuerySnapshots :: "nat list \<Rightarrow> int \<Rightarrow> string \<Rightarrow> time \<Rightarrow> Store \<Rightarrow> ClusterSnapshot list" where
  "QuerySnapshots choices zone clusterID since st =
     map scan_snapshot (sort_key nw_timestamp (shuffle choices
       (filter (\<lambda>r. nw_cluster_id r = clusterID \<and> FormatRFC3339Nano zone since \<le> nw_timestamp r) (st_snapshots st))))"

section \<open>Lemmas\<close>

text \<open>Row numbers are never given twice, also after rows have been pruned.\<close>

definition store_ok :: "Store \<Rightarrow> bool" where
  "store_ok st \<longleftrightarrow> distinct (map ew_id (st_events st)) \<and> (\<forall>r \<in> set (st_events st). ew_id r \<le> st_lastEvent st)
     \<and> distinct (map nw_id (st_snapshots st)) \<and> (\<forall>r \<in> set (st_snapshots st). nw_id r \<le> st_lastSnapshot st)"

lemma store_ok_empty: "store_ok empty_store"
  by (simp add: store_ok_def empty_store_def)

lemma store_ok_LogEvent: "store_ok st \<Longrightarrow> store_ok (snd (LogEvent err zone e st))"
  by (auto simp: store_ok_def LogEvent_def event_row_of_def Let_def split: option.split)

lemma store_ok_insert_snapshot: "store_ok st \<Longrightarrow> store_ok (insert_snapshot zone s st)"
  by (auto simp: store_ok_def insert_snapshot_def Let_def)

lemma store_ok_LogStateSnapshot: "store_ok st \<Longrightarrow> store_ok (snd (LogStateSnapshot err zone snaps st))"
proof -
  assume "store_ok st"
  then have "store_ok (fold (insert_snapshot zone) snaps st)"
    by (induction snaps arbitrary: st) (simp_all add: store_ok_insert_snapshot)
  then show ?thesis using \<open>store_ok st\<close> by (simp add: LogStateSnapshot_def split: option.split)
qed

lemma store_ok_prune: "store_ok st \<Longrightarrow> store_ok (pruneOldEvents zone now st)"
  by (simp add: store_ok_def pruneOldEvents_def Let_def distinct_map_filter)

lemma newest_first_facts:
  "sorted_wrt (\<lambda>a b. ew_timestamp b \<le> ew_timestamp a) (newest_first choices limit rows)"
  "set (newest_first choices limit rows) \<subseteq> set rows"
  "int (length rows) \<le> limit \<or> limit < 0 \<Longrightarrow> mset (newest_first choices limit rows) = mset rows"
proof -
  let ?s = "rev (sort_key ew_timestamp (shuffle choices rows))"
  have "sorted (map ew_timestamp (sort_key ew_timestamp (shuffle choices rows)))" by (rule sorted_sort_key)
  then have "sorted_wrt (\<lambda>a b. ew_timestamp b \<le> ew_timestamp a) ?s" by (simp add: sorted_wrt_rev sorted_wrt_map)
  then show "sorted_wrt (\<lambda>a b. ew_timestamp b \<le> ew_timestamp a) (newest_first choices limit rows)"
    by (simp add: newest_first_def Let_def sorted_wrt_take)
  have "set ?s = set rows" by simp
  then show "set (newest_first choices limit rows) \<subseteq> set rows"
    using set_take_subset [of "nat limit" ?s] by (auto simp: newest_first_def Let_def simp del: set_rev)
  have "mset ?s = mset rows" by simp
  then show "mset (newest_first choices limit rows) = mset rows" if "int (length rows) \<le> limit \<or> limit < 0"
    using that by (auto simp: newest_first_def Let_def)
qed

text \<open>
  Instants the log can write: the local year is between 1 and 9999.
\<close>

definition writable :: "int \<Rightarrow> time \<Rightarrow> bool" where
  "writable zone t \<longleftrightarrow> \<bar>zone\<bar> < 1440 \<and> 0 \<le> t + zone * 60 * second_ns
     \<and> fst (civil_of_day ((t + zone * 60 * second_ns) div day_ns)) \<le> 9999"

lemma scan_event_row:
  "writable zone (el_Timestamp e) \<Longrightarrow> scan_event (event_row_of zone rowid e) = e\<lparr>el_ID := rowid\<rparr>"
  by (simp add: scan_event_def event_row_of_def parsed_def writable_def ParseRFC3339_Format)

text \<open>What is logged comes back: a query by type with room for all finds the event unchanged but for its number.\<close>

lemma logged_event_comes_back:
  assumes "writable zone (el_Timestamp e)" and "LogEvent err zone e st = (None, st')"
    and "int (length (st_events st')) \<le> limit \<or> limit < 0"
  shows "e\<lparr>el_ID := st_lastEvent st + 1\<rparr> \<in> set (QueryEventsByType choices (el_Type e) limit st')"
proof -
  let ?row = "event_row_of zone (st_lastEvent st + 1) e"
  let ?rows = "filter (\<lambda>r. ew_type r = el_Type e) (st_events st')"
  have "?row \<in> set ?rows"
    using assms(2) by (auto simp: LogEvent_def Let_def event_row_of_def split: option.splits)
  moreover have "int (length ?rows) \<le> limit \<or> limit < 0" using assms(3) length_filter_le [of "\<lambda>r. ew_type r = el_Type e" "st_events st'"] by linarith
  then have "set (newest_first choices limit ?rows) = set ?rows" using newest_first_facts(3) by (metis mset_eq_setD)
  ultimately have "?row \<in> set (newest_first choices limit ?rows)" by blast
  then have "scan_event ?row \<in> set (QueryEventsByType choices (el_Type e) limit st')" by (simp add: QueryEventsByType_def)
  then show ?thesis by (simp add: scan_event_row [OF assms(1)])
qed

section \<open>The order of timestamps\<close>

text \<open>
  Trailing zeros are not written and \<open>.\<close> comes before \<open>Z\<close>, so in UTC the texts of instants within one
  second do not sort like the instants: half a second after the query's instant an event is
  logged that the query then does not find, and a later event sorts before an earlier one.
\<close>

definition noon :: time where
  "noon = 63851544000000000000"

lemma digit_chars:
  "char_of (48 :: nat) = CHR ''0''" "char_of (49 :: nat) = CHR ''1''" "char_of (50 :: nat) = CHR ''2''"
  "char_of (52 :: nat) = CHR ''4''" "char_of (53 :: nat) = CHR ''5''" "char_of (55 :: nat) = CHR ''7''"
  by code_simp+

lemma noon_parts:
  "civil_of_day 739022 = (2024, 5, 17)" "pad 4 2024 = ''2024''" "pad 2 5 = ''05''" "pad 2 17 = ''17''" "pad 2 12 = ''12''"
  "pad 2 0 = ''00''" "fraction 500000000 = ''.5''" "fraction 0 = []"
  by (code_simp, simp_all add: fraction_def pad_def digits.simps drop_zeros_def digit_chars)

lemma noon_texts:
  "FormatRFC3339Nano 0 noon = ''2024-05-17T12:00:00Z''"
  "FormatRFC3339Nano 0 (noon + 500000000) = ''2024-05-17T12:00:00.5Z''"
  by (simp_all add: FormatRFC3339Nano_def noon_def zone_text_def noon_parts)

definition late_event :: EventRecord where
  "late_event = \<lparr>el_ID = 0, el_Timestamp = noon + 500000000, el_Type = ''scale_up'', el_AppID = ''a'',
     el_ClusterID = ''c1'', el_Summary = '''', el_DetailJSON = ''''\<rparr>"

lemma recent_event_is_hidden:
  "QueryEvents [] 0 noon 100 (snd (LogEvent (None :: unit option) 0 late_event empty_store)) = []"
proof -
  have "\<not> FormatRFC3339Nano 0 noon \<le> FormatRFC3339Nano 0 (noon + 500000000)"
    unfolding noon_texts by (simp add: less_eq_list_code less_char_def less_eq_char_def)
  then show ?thesis
    by (simp add: QueryEvents_def LogEvent_def Let_def empty_store_def event_row_of_def late_event_def newest_first_def)
qed

end
