(* ===== verification/ApiServer.thy ===== *)
theory ApiServer
  imports Accounting ControlLoop EventBus EventStore "HOL-Library.Signed_Division"
begin

text \<open>
  \<open>internal/apiserver/server.go\<close>: what each HTTP handler answers, and the periodic publication of the
  world state. The request's parts are arguments, package \<open>net/http\<close>'s work is left out, and a JSON
  body is the value that is encoded. \<open>http.Error\<close> is a status with an error text.
\<close>

section \<open>Answers\<close>

record scalingConfigResponse =
  sr_QueueHighWatermark :: f64
  sr_QueueTarget :: f64
  sr_QueueLowWatermark :: f64
  sr_KVCacheHighWatermark :: f64
  sr_KVCacheTarget :: f64
  sr_KVCacheLowWatermark :: f64
  sr_BatchLowWatermark :: f64
  sr_MaxScaleDownPerCycle :: int
  sr_MaxScaleUpPerCycle :: int
  sr_ScaleUpCooldownSeconds :: int
  sr_ScaleDownCooldownSeconds :: int
  sr_StabilizationCycles :: int

record appResponse =
  ar_App :: Application
  ar_ReplicaCount :: int
  ar_Replicas :: "Replica list"

datatype body =
  NoBody
| ErrorText string
| JsonState WorldStateSnapshot
| JsonClusters "(ClusterID, Cluster) gomap"
| JsonApplications "(AppID, appResponse) gomap"
| JsonEvents "EventRecord list"
| JsonSnapshots "ClusterSnapshot list"
| JsonScalingConfig scalingConfigResponse

record response =
  hr_Status :: int
  hr_Body :: body

definition writeJSON :: "body \<Rightarrow> response" where
  "writeJSON b = \<lparr>hr_Status = 200, hr_Body = b\<rparr>"

definition http_error :: "string \<Rightarrow> int \<Rightarrow> response" where
  "http_error msg status = \<lparr>hr_Status = status, hr_Body = ErrorText msg\<rparr>"

section \<open>The scaling configuration\<close>

text \<open>\<open>Duration.Seconds\<close>, a \<open>float64\<close>, and its conversion to \<open>int\<close>.\<close>

definition Seconds :: "duration \<Rightarrow> f64" where
  "Seconds d = f_add (f_of_int (d sdiv 1000000000)) (f_div (f_of_int (d smod 1000000000)) (Fin 1000000000))"

definition SetScalingConfig :: "ScalingConfig \<Rightarrow> scalingConfigResponse" where
  "SetScalingConfig cfg =
     \<lparr>sr_QueueHighWatermark = sg_QueueHighWatermark cfg, sr_QueueTarget = sg_QueueTarget cfg,
      sr_QueueLowWatermark = sg_QueueLowWatermark cfg, sr_KVCacheHighWatermark = sg_KVCacheHighWatermark cfg,
      sr_KVCacheTarget = sg_KVCacheTarget cfg, sr_KVCacheLowWatermark = sg_KVCacheLowWatermark cfg,
      sr_BatchLowWatermark = sg_BatchLowWatermark cfg, sr_MaxScaleDownPerCycle = sg_MaxScaleDownPerCycle cfg,
      sr_MaxScaleUpPerCycle = sg_MaxScaleUpPerCycle cfg,
      sr_ScaleUpCooldownSeconds = f_to_int (Seconds (sg_ScaleUpCooldown cfg)),
      sr_ScaleDownCooldownSeconds = f_to_int (Seconds (sg_ScaleDownCooldown cfg)),
      sr_StabilizationCycles = sg_StabilizationCycles cfg\<rparr>"

definition handleScalingConfig :: "scalingConfigResponse option \<Rightarrow> response" where
  "handleScalingConfig cfg =
     (case cfg of None \<Rightarrow> http_error ''scaling config not set'' 503 | Some c \<Rightarrow> writeJSON (JsonScalingConfig c))"

section \<open>The state\<close>

definition handleState :: "orders \<Rightarrow> time \<Rightarrow> WorldState \<Rightarrow> response" where
  "handleState od now ws = writeJSON (JsonState (Snapshot od now ws))"

definition handleClusters :: "orders \<Rightarrow> time \<Rightarrow> WorldState \<Rightarrow> response" where
  "handleClusters od now ws = writeJSON (JsonClusters (sn_Clusters (Snapshot od now ws)))"

definition app_response :: "orders \<Rightarrow> WorldStateSnapshot \<Rightarrow> AppID \<Rightarrow> Application \<Rightarrow> appResponse" where
  "app_response od snap appID app =
     (let (replicas, count) = fold (\<lambda>(_, r) (rs, n). if rp_AppID r = appID then (rs @ [r], n + 1) else (rs, n))
            (range_order od (sn_Replicas snap)) ([], 0)
      in \<lparr>ar_App = app, ar_ReplicaCount = count, ar_Replicas = replicas\<rparr>)"

definition handleApplications :: "orders \<Rightarrow> time \<Rightarrow> WorldState \<Rightarrow> response" where
  "handleApplications od now ws =
     (let snap = Snapshot (sub od 0) now ws
      in writeJSON (JsonApplications (fold (\<lambda>(i, appID, app) m. gput appID (app_response (sub od (Suc i)) snap appID app) m)
           (enumerate 1 (range_order od (sn_Applications snap))) [])))"

section \<open>The event log\<close>

text \<open>Query parameters are empty when absent; what does not parse leaves the default.\<close>

definition since_param :: "time \<Rightarrow> string \<Rightarrow> time" where
  "since_param now s =
     (let since = now - 3600 * second_ns
      in if s \<noteq> '''' then (case ParseRFC3339 s of Some t \<Rightarrow> t | None \<Rightarrow> since) else since)"

definition limit_param :: "int \<Rightarrow> string \<Rightarrow> int" where
  "limit_param limit s =
     (if s \<noteq> '''' then (case atoi s of Some n \<Rightarrow> if 0 < n then n else limit | None \<Rightarrow> limit) else limit)"

definition handleEventHistory ::
  "string option \<Rightarrow> nat list \<Rightarrow> int \<Rightarrow> time \<Rightarrow> string \<Rightarrow> string \<Rightarrow> Store \<Rightarrow> response" where
  "handleEventHistory dbErr choices zone now sinceStr limitStr st =
     (case dbErr of
        Some e \<Rightarrow> http_error e 500
      | None \<Rightarrow> writeJSON (JsonEvents (QueryEvents choices zone (since_param now sinceStr) (limit_param 100 limitStr) st)))"

definition handleSnapshots ::
  "string option \<Rightarrow> nat list \<Rightarrow> int \<Rightarrow> time \<Rightarrow> string \<Rightarrow> string \<Rightarrow> Store \<Rightarrow> response" where
  "handleSnapshots dbErr choices zone now clusterID sinceStr st =
     (if clusterID = '''' then http_error ''cluster_id is required'' 400
      else case dbErr of
             Some e \<Rightarrow> http_error e 500
           | None \<Rightarrow> writeJSON (JsonSnapshots (QuerySnapshots choices zone clusterID (since_param now sinceStr) st)))"

definition handleCycleHistory :: "string option \<Rightarrow> nat list \<Rightarrow> string \<Rightarrow> Store \<Rightarrow> response" where
  "handleCycleHistory dbErr choices limitStr st =
     (case dbErr of
        Some e \<Rightarrow> http_error e 500
      | None \<Rightarrow> writeJSON (JsonEvents (QueryEventsByType choices ''cycle_complete'' (limit_param 50 limitStr) st)))"

section \<open>Injected events\<close>

text \<open>\<open>decoded\<close> is what \<open>json\<close> makes of the body; the event, if any, is handed to the ingester.\<close>

definition handleInjectEvent :: "time \<Rightarrow> string + Event \<Rightarrow> response \<times> Event option" where
  "handleInjectEvent now decoded =
     (case decoded of
        Inl e \<Rightarrow> (http_error e 400, None)
      | Inr ev \<Rightarrow> (\<lparr>hr_Status = 202, hr_Body = NoBody\<rparr>,
                   Some (if is_zero_time (ev_Timestamp ev) then ev\<lparr>ev_Timestamp := now\<rparr> else ev)))"

definition handleInjectMetrics :: "time \<Rightarrow> string + VLLMMetrics \<Rightarrow> response \<times> Event option" where
  "handleInjectMetrics now decoded =
     (case decoded of
        Inl e \<Rightarrow> (http_error e 400, None)
      | Inr m0 \<Rightarrow>
          (let m = (if is_zero_time (vm_MeasuredAt m0) then m0\<lparr>vm_MeasuredAt := now\<rparr> else m0)
           in (\<lparr>hr_Status = 202, hr_Body = NoBody\<rparr>,
               Some ((event EventMetricsUpdate (vm_MeasuredAt m))\<lparr>ev_AppID := vm_AppID m, ev_VLLMMetrics := Some m\<rparr>))))"

section \<open>The event stream\<close>

text \<open>What is written for an event; \<open>marshal\<close> is \<open>json.Marshal\<close>, whose failures (\<open>None\<close>) are skipped.\<close>

definition sse_frame :: "('d BusEvent \<Rightarrow> string option) \<Rightarrow> 'd BusEvent \<Rightarrow> string" where
  "sse_frame marshal e =
     (case marshal e of
        None \<Rightarrow> []
      | Some data \<Rightarrow> ''data: '' @ data @ [char_of (10 :: nat), char_of (10 :: nat)])"

text \<open>
  The handler's turns: the request ends, the handler takes its channel's case of the \<open>select\<close>, or
  another goroutine uses the bus. When it returns, \<open>defer unsub ()\<close> runs; a bus that has panicked
  is \<open>None\<close>. Without turns left it waits.
\<close>

datatype 'd stream_turn = StreamDone | StreamReady | StreamOther "'d bus_call"

fun stream_loop ::
  "('d BusEvent \<Rightarrow> string option) \<Rightarrow> nat \<Rightarrow> 'd stream_turn list \<Rightarrow> 'd EventBus \<Rightarrow> string \<Rightarrow> string \<times> 'd EventBus option" where
  "stream_loop marshal sid [] eb out = (out, Some eb)"
| "stream_loop marshal sid (StreamDone # ts) eb out = (out, Unsubscribe sid eb)"
| "stream_loop marshal sid (StreamReady # ts) eb out =
     (case receive_from sid eb of
        (Some e, eb') \<Rightarrow> stream_loop marshal sid ts eb' (out @ sse_frame marshal e)
      | (None, _) \<Rightarrow> if ch_closed (eb_chans eb sid) then (out, Unsubscribe sid eb) else stream_loop marshal sid ts eb out)"
| "stream_loop marshal sid (StreamOther c # ts) eb out =
     (case bus_step c eb of None \<Rightarrow> (out, None) | Some eb' \<Rightarrow> stream_loop marshal sid ts eb' out)"

definition handleEventStream ::
  "bool \<Rightarrow> ('d BusEvent \<Rightarrow> string option) \<Rightarrow> 'd stream_turn list \<Rightarrow> 'd EventBus \<Rightarrow> response + string \<times> 'd EventBus option" where
  "handleEventStream flusher marshal turns eb =
     (if \<not> flusher then Inl (http_error ''streaming not supported'' 500)
      else let (sid, eb') = Subscribe eb in Inr (stream_loop marshal sid turns eb' []))"

section \<open>The published state\<close>

definition cluster_snapshot :: "time \<Rightarrow> WorldStateSnapshot \<Rightarrow> ClusterID \<times> Cluster \<Rightarrow> ClusterSnapshot" where
  "cluster_snapshot now snap p =
     (let (clusterID, cluster) = p
      in \<lparr>cn_ID = 0, cn_Timestamp = now, cn_ClusterID = clusterID,
          cn_TotalGPUs = sum_vals nd_TotalGPUs (cl_Nodes cluster),
          cn_AllocatedGPUs = sum_vals nd_AllocatedGPUs (cl_Nodes cluster),
          cn_FreeGPUs = sum_vals nd_FreeGPUs (cl_Nodes cluster),
          cn_ReplicaCount = count_vals (\<lambda>r. rp_ClusterID r = clusterID) (sn_Replicas snap)\<rparr>)"

text \<open>What the program publishes: summaries of cycles and snapshots.\<close>

datatype EventData = SummaryData CycleSummary | StateData WorldStateSnapshot

definition PublishWorldStateSnapshot ::
  "'x option \<Rightarrow> int \<Rightarrow> orders \<Rightarrow> nat list \<Rightarrow> time \<Rightarrow> time \<Rightarrow> WorldState \<Rightarrow> Store \<Rightarrow> EventData EventBus
     \<Rightarrow> Store \<times> EventData EventBus option" where
  "PublishWorldStateSnapshot dbErr zone od choices taken now ws st eb =
     (let snap = Snapshot (sub od 0) taken ws;
          snaps = map (cluster_snapshot now snap) (range_order od (sn_Clusters snap));
          st' = (if snaps \<noteq> [] then snd (LogStateSnapshot dbErr zone snaps st) else st)
      in (st', Publish choices \<lparr>be_Type = ''state_update'', be_Timestamp = now, be_Data = StateData snap\<rparr> eb))"

text \<open>\<open>corsMiddleware\<close>: a preflight request is answered without its handler.\<close>

definition corsMiddleware :: "('r \<Rightarrow> string) \<Rightarrow> ('r \<Rightarrow> response) \<Rightarrow> 'r \<Rightarrow> response" where
  "corsMiddleware Method next_handler r =
     (if Method r = ''OPTIONS'' then \<lparr>hr_Status = 204, hr_Body = NoBody\<rparr> else next_handler r)"

section \<open>Lemmas\<close>

lemma app_response_facts:
  "ar_ReplicaCount (app_response od snap a app) = int (length (ar_Replicas (app_response od snap a app)))"
  "ar_ReplicaCount (app_response od snap a app) = count_vals (\<lambda>r. rp_AppID r = a) (sn_Replicas snap)"
proof -
  have f: "fold (\<lambda>(_ :: ReplicaID, r) (rs, n). if rp_AppID r = a then (rs @ [r], n + 1) else (rs, n)) ps (rs, n)
      = (rs @ map snd (filter (\<lambda>p. rp_AppID (snd p) = a) ps), n + count_vals (\<lambda>r. rp_AppID r = a) ps)" for ps rs n
    by (induction ps arbitrary: rs n) (auto simp: count_vals_def)
  have len: "int (length (map snd (filter (\<lambda>p. rp_AppID (snd p) = a) ps))) = count_vals (\<lambda>r. rp_AppID r = a) ps" for ps
    by (induction ps) (auto simp: count_vals_def)
  show "ar_ReplicaCount (app_response od snap a app) = int (length (ar_Replicas (app_response od snap a app)))"
    by (simp add: app_response_def f flip: len)
  show "ar_ReplicaCount (app_response od snap a app) = count_vals (\<lambda>r. rp_AppID r = a) (sn_Replicas snap)"
    by (simp add: app_response_def f count_vals_def)
qed

text \<open>However the limit is asked for, one is applied.\<close>

lemma limit_param_positive: "0 < limit \<Longrightarrow> 0 < limit_param limit s"
  by (simp add: limit_param_def split: option.split)

lemma history_is_bounded:
  "handleEventHistory None choices zone now sinceStr '''' st = writeJSON (JsonEvents es) \<Longrightarrow> length es \<le> 100"
  by (auto simp: handleEventHistory_def writeJSON_def limit_param_def QueryEvents_def newest_first_def Let_def)

lemma injected_metrics_are_tagged: "snd (handleInjectMetrics now decoded) = Some e \<Longrightarrow> well_tagged e"
  by (auto simp: handleInjectMetrics_def well_tagged_def event_def Let_def split: sum.splits)

text \<open>While nodes balance, so do the numbers that are logged for each cluster.\<close>

lemma logged_gpus_balance:
  assumes "all_nodes balanced ws" and "gwf (ws_clusters ws)" and "(cid, c) \<in> set (ws_clusters ws)" and "gwf (cl_Nodes c)"
  shows "cn_AllocatedGPUs (cluster_snapshot now snap (cid, c)) + cn_FreeGPUs (cluster_snapshot now snap (cid, c))
    = cn_TotalGPUs (cluster_snapshot now snap (cid, c))"
proof -
  have "balanced n" if "(nid, n) \<in> set (cl_Nodes c)" for nid n
    using all_nodesD [OF assms(1), of cid nid n] assms(2-4) that by (simp add: node_at_def mem_gget)
  then have "sum_vals (\<lambda>n. nd_AllocatedGPUs n + nd_FreeGPUs n) (cl_Nodes c) = sum_vals nd_TotalGPUs (cl_Nodes c)"
    by (intro sum_vals_cong) (auto simp: balanced_def)
  then show ?thesis by (simp add: cluster_snapshot_def sum_vals_add)
qed

text \<open>
  What a stream writes are the frames of what its subscription receives, and its end unsubscribes
  exactly once, as long as nobody else uses its number.
\<close>

definition stream_calls :: "nat \<Rightarrow> 'd stream_turn list \<Rightarrow> 'd bus_call list" where
  "stream_calls sid ts =
     map (\<lambda>t. case t of StreamOther c \<Rightarrow> c | _ \<Rightarrow> DoReceive sid) (takeWhile (\<lambda>t. t \<noteq> StreamDone) ts)"

definition leaves_alone :: "nat \<Rightarrow> 'd stream_turn list \<Rightarrow> bool" where
  "leaves_alone sid ts \<longleftrightarrow> (\<forall>c. StreamOther c \<in> set ts \<longrightarrow> c \<noteq> DoUnsubscribe sid \<and> c \<noteq> DoReceive sid)"

lemma leaves_alone_Cons [simp]:
  "leaves_alone sid (t # ts) \<longleftrightarrow> leaves_alone sid ts \<and> t \<noteq> StreamOther (DoUnsubscribe sid) \<and> t \<noteq> StreamOther (DoReceive sid)"
  by (auto simp: leaves_alone_def)

lemma stream_calls_simps [simp]:
  "stream_calls sid [] = []"
  "stream_calls sid (StreamDone # ts) = []"
  "stream_calls sid (StreamReady # ts) = DoReceive sid # stream_calls sid ts"
  "stream_calls sid (StreamOther c # ts) = c # stream_calls sid ts"
  by (simp_all add: stream_calls_def)

lemma bus_step_keeps_subscriber:
  "bus_ok eb \<Longrightarrow> bus_step c eb = Some eb' \<Longrightarrow> sid \<in> set (eb_subscribers eb) \<Longrightarrow> c \<noteq> DoUnsubscribe sid \<Longrightarrow> sid \<in> set (eb_subscribers eb')"
  by (cases c) (auto simp: Subscribe_def Unsubscribe_def Publish_eq receive_from_def Let_def split: if_splits list.splits)

lemma stream_loop_facts:
  assumes "bus_ok eb" and "sid \<in> set (eb_subscribers eb)" and "leaves_alone sid ts"
  shows "stream_loop marshal sid ts eb out =
    (out @ concat (map (sse_frame marshal) (received sid (stream_calls sid ts) eb)),
     Option.bind (bus_run (stream_calls sid ts) eb) (\<lambda>eb'. if StreamDone \<in> set ts then Unsubscribe sid eb' else Some eb'))"
  using assms
proof (induction marshal sid ts eb out rule: stream_loop.induct)
  case (3 marshal sid ts eb out)
  have open_ch: "\<not> ch_closed (eb_chans eb sid)" using "3.prems"(1,2) by (auto simp: bus_ok_def)
  show ?case
  proof (cases "ch_buf (eb_chans eb sid)")
    case Nil
    then have r: "receive_from sid eb = (None, eb)" by (simp add: receive_from_def)
    show ?thesis using "3.IH"(1) [OF r [symmetric] refl open_ch] "3.prems" r open_ch by simp
  next
    case (Cons e es)
    let ?eb = "snd (receive_from sid eb)"
    have r: "receive_from sid eb = (Some e, ?eb)" by (simp add: receive_from_def Cons)
    have ok: "bus_ok ?eb" by (rule bus_ok_receive [OF "3.prems"(1)])
    have sub: "sid \<in> set (eb_subscribers ?eb)" using "3.prems"(2) by (simp add: receive_from_def Cons)
    have IH: "stream_loop marshal sid ts ?eb (out @ sse_frame marshal e) =
      ((out @ sse_frame marshal e) @ concat (map (sse_frame marshal) (received sid (stream_calls sid ts) ?eb)),
       Option.bind (bus_run (stream_calls sid ts) ?eb) (\<lambda>eb'. if StreamDone \<in> set ts then Unsubscribe sid eb' else Some eb'))"
      using "3.IH"(2) [OF r [symmetric] refl ok sub] "3.prems"(3) by simp
    have "fst (receive_from sid eb) = Some e" by (subst r) simp
    then show ?thesis by (subst stream_loop.simps, subst r) (simp add: IH)
  qed
next
  case (4 marshal sid c ts eb out)
  show ?case
  proof (cases "bus_step c eb")
    case None
    then show ?thesis by simp
  next
    case (Some eb')
    have ok: "bus_ok eb'" by (rule bus_step_ok [OF "4.prems"(1) Some])
    have sub: "sid \<in> set (eb_subscribers eb')"
      using bus_step_keeps_subscriber [OF "4.prems"(1) Some "4.prems"(2)] "4.prems"(3) by simp
    have "(case c of DoReceive i \<Rightarrow> if i = sid then (case fst (receive_from sid eb) of None \<Rightarrow> [] | Some e \<Rightarrow> [e]) else [] | _ \<Rightarrow> []) = []"
      using "4.prems"(3) by (cases c) auto
    then show ?thesis using "4.IH" [OF Some ok sub] "4.prems"(3) Some by simp
  qed
qed simp_all

text \<open>A client reads published events in order, each at most once.\<close>

lemma stream_in_order:
  assumes "bus_ok eb" and "handleEventStream True marshal turns eb = Inr (text, Some eb')"
    and "leaves_alone (eb_nextID eb) turns"
  shows "\<exists>events. text = concat (map (sse_frame marshal) events)
    \<and> subseq events (published (eb_nextID eb) (stream_calls (eb_nextID eb) turns) (snd (Subscribe eb)))"
proof -
  let ?sid = "eb_nextID eb" and ?eb = "snd (Subscribe eb)"
  have ok: "bus_ok ?eb" by (rule bus_ok_Subscribe [OF assms(1)])
  have sub: "?sid \<in> set (eb_subscribers ?eb)" and lt: "?sid < eb_nextID ?eb" and "ch_buf (eb_chans ?eb ?sid) = []"
    by (simp_all add: Subscribe_def Let_def)
  have "stream_loop marshal ?sid turns ?eb [] = (text, Some eb')"
    using assms(2) by (simp add: handleEventStream_def Subscribe_def Let_def)
  then have written: "text = concat (map (sse_frame marshal) (received ?sid (stream_calls ?sid turns) ?eb))"
    and "Option.bind (bus_run (stream_calls ?sid turns) ?eb) (\<lambda>eb'. if StreamDone \<in> set turns then Unsubscribe ?sid eb' else Some eb') = Some eb'"
    unfolding stream_loop_facts [OF ok sub assms(3)] by simp_all
  then obtain eb1 where "bus_run (stream_calls ?sid turns) ?eb = Some eb1" by (cases "bus_run (stream_calls ?sid turns) ?eb") auto
  from stream_is_subsequence [OF ok this lt] \<open>ch_buf (eb_chans ?eb ?sid) = []\<close>
  have "subseq (received ?sid (stream_calls ?sid turns) ?eb) (published ?sid (stream_calls ?sid turns) ?eb)"
    by (metis append_Nil list_emb_appendD subseq_order.trans subseq_rev_drop_many subseq_order.refl)
  then show ?thesis using written by blast
qed

end
