(* ===== verification/K8sClient.thy ===== *)
theory K8sClient
  imports GoText Operations
begin

text \<open>
  \<open>internal/k8sclient/client.go\<close>: the cluster client, which keeps one Deployment per replica. The
  Kubernetes API and its types' functions are third-party code: what they answer is the argument
  \<open>kube\<close>. What the calls count is in theory \<open>Counters\<close>, spans are left out; the texts of errors are constructors.
\<close>

section \<open>Deployments\<close>

definition labelAppID :: string where "labelAppID = ''app.schedulator.io/app-id''"
definition labelReplicaID :: string where "labelReplicaID = ''app.schedulator.io/replica-id''"
definition annotationCacheAffinityModel :: string where
  "annotationCacheAffinityModel = ''schedulator.io/cache-affinity-model''"
definition defaultContainerImage :: string where "defaultContainerImage = ''registry.k8s.io/pause:3.9''"
definition gpuResource :: string where "gpuResource = ''nvidia.com/gpu''"

text \<open>The constants of package \<open>corev1\<close> the client uses.\<close>

datatype k8s_operator = TolerationOpExists | NodeSelectorOpIn
datatype k8s_effect = TaintEffectNoSchedule

record Toleration =
  tl_Key :: string
  tl_Operator :: k8s_operator
  tl_Effect :: k8s_effect

record PreferredSchedulingTerm =
  pt_Weight :: int
  pt_Key :: string
  pt_Operator :: k8s_operator
  pt_Values :: "string list"

record 'q Container =
  ct_Name :: string
  ct_Image :: string
  ct_Requests :: "(string, 'q) gomap"
  ct_Limits :: "(string, 'q) gomap"

record 'q PodTemplate =
  tp_Labels :: "(string, string) gomap"
  tp_Containers :: "'q Container list"
  tp_Tolerations :: "Toleration list"
  tp_Affinity :: "PreferredSchedulingTerm list"
  tp_NodeSelector :: "(string, string) gomap"

record 'q Deployment =
  dp_Name :: string
  dp_Labels :: "(string, string) gomap"
  dp_Annotations :: "(string, string) gomap"
  dp_Replicas :: "32 word"
  dp_MatchLabels :: "(string, string) gomap"
  dp_Template :: "'q PodTemplate"

section \<open>The API\<close>

text \<open>
  What the API server, the random source and \<open>resource.MustParse\<close> answer to one call of the client.
  \<open>kube_Get\<close> answers the number of available replicas of a deployment. A patch is given as the
  labels it merges into the metadata; marshalling a map of strings does not fail.
\<close>

record ('q, 'e) kube =
  kube_rand :: "nat \<Rightarrow> 'e + 8 word list"
  kube_MustParse :: "string \<Rightarrow> 'q"
  kube_Create :: "string \<Rightarrow> 'q Deployment \<Rightarrow> 'e option"
  kube_Delete :: "string \<Rightarrow> string \<Rightarrow> 'e option"
  kube_Get :: "string \<Rightarrow> string \<Rightarrow> 'e + int"
  kube_Patch :: "string \<Rightarrow> string \<Rightarrow> (string, string) gomap \<Rightarrow> 'e option"
  kube_IsNotFound :: "'e \<Rightarrow> bool"

datatype 'e client_error =
  GeneratingReplicaID 'e
| CreatingDeployment ReplicaID 'e
| DeletingDeployment ReplicaID 'e
| GettingDeployment ReplicaID 'e
| PatchingDeployment ReplicaID 'e

record Client =
  kc_namespace :: string
  kc_clusterID :: ClusterID
  kc_containerImage :: string

definition NewClient :: "string \<Rightarrow> ClusterID \<Rightarrow> Client" where
  "NewClient namespace clusterID =
     \<lparr>kc_namespace = namespace, kc_clusterID = clusterID, kc_containerImage = defaultContainerImage\<rparr>"

section \<open>The operations\<close>

definition randomSuffix :: "('q, 'e) kube \<Rightarrow> nat \<Rightarrow> 'e + string" where
  "randomSuffix k bytes =
     (case kube_rand k bytes of Inl e \<Rightarrow> Inl e | Inr b \<Rightarrow> Inr (take (bytes * 2) (EncodeToString b)))"

definition replica_id :: "AppID \<Rightarrow> string \<Rightarrow> ReplicaID" where
  "replica_id appID suffix = appID @ ''-replica-'' @ suffix"

definition replica_labels :: "AppID \<Rightarrow> ReplicaID \<Rightarrow> (string, string) gomap" where
  "replica_labels appID replicaID = [(labelAppID, appID), (labelReplicaID, replicaID)]"

definition gpu_quantity :: "(string \<Rightarrow> 'q) \<Rightarrow> SchedulingConstraints \<Rightarrow> (string, 'q) gomap" where
  "gpu_quantity MustParse constraints = [(gpuResource, MustParse (fmt_d (sc_RequiredGPUs constraints)))]"

definition replica_deployment ::
  "Client \<Rightarrow> (string \<Rightarrow> 'q) \<Rightarrow> AppID \<Rightarrow> ReplicaID \<Rightarrow> SchedulingConstraints \<Rightarrow> 'q Deployment" where
  "replica_deployment c MustParse appID replicaID constraints =
     \<lparr>dp_Name = replicaID,
      dp_Labels = replica_labels appID replicaID,
      dp_Annotations = (if sc_CacheAffinityModel constraints \<noteq> ''''
        then [(annotationCacheAffinityModel, sc_CacheAffinityModel constraints)] else []),
      dp_Replicas = 1,
      dp_MatchLabels = replica_labels appID replicaID,
      dp_Template =
        \<lparr>tp_Labels = replica_labels appID replicaID,
         tp_Containers = [\<lparr>ct_Name = ''model'', ct_Image = kc_containerImage c,
           ct_Requests = gpu_quantity MustParse constraints, ct_Limits = gpu_quantity MustParse constraints\<rparr>],
         tp_Tolerations =
           [\<lparr>tl_Key = ''kwok.x-k8s.io/node'', tl_Operator = TolerationOpExists, tl_Effect = TaintEffectNoSchedule\<rparr>,
            \<lparr>tl_Key = gpuResource, tl_Operator = TolerationOpExists, tl_Effect = TaintEffectNoSchedule\<rparr>],
         tp_Affinity = (if sc_PreferredNodes constraints \<noteq> []
           then [\<lparr>pt_Weight = 100, pt_Key = ''kubernetes.io/hostname'', pt_Operator = NodeSelectorOpIn,
                   pt_Values = sc_PreferredNodes constraints\<rparr>]
           else []),
         tp_NodeSelector = sc_RequiredNodeLabels constraints\<rparr>\<rparr>"

definition createReplica ::
  "Client \<Rightarrow> ('q, 'e) kube \<Rightarrow> AppID \<Rightarrow> SchedulingConstraints \<Rightarrow> 'e client_error + ReplicaID" where
  "createReplica c k appID constraints =
     (case randomSuffix k 4 of
        Inl e \<Rightarrow> Inl (GeneratingReplicaID e)
      | Inr suffix \<Rightarrow>
          (let replicaID = replica_id appID suffix
           in case kube_Create k (kc_namespace c)
                     (replica_deployment c (kube_MustParse k) appID replicaID constraints) of
                Some e \<Rightarrow> Inl (CreatingDeployment replicaID e)
              | None \<Rightarrow> Inr replicaID))"

definition DeleteDeployment :: "Client \<Rightarrow> ('q, 'e) kube \<Rightarrow> ReplicaID \<Rightarrow> 'e client_error option" where
  "DeleteDeployment c k replicaID =
     (case kube_Delete k (kc_namespace c) replicaID of
        Some e \<Rightarrow> if kube_IsNotFound k e then None else Some (DeletingDeployment replicaID e)
      | None \<Rightarrow> None)"

definition getReplicaStatus :: "Client \<Rightarrow> ('q, 'e) kube \<Rightarrow> ReplicaID \<Rightarrow> 'e client_error + ReplicaStatus" where
  "getReplicaStatus c k replicaID =
     (case kube_Get k (kc_namespace c) replicaID of
        Inl e \<Rightarrow> if kube_IsNotFound k e then Inr ReplicaStatusTerminated else Inl (GettingDeployment replicaID e)
      | Inr available \<Rightarrow> if available \<ge> 1 then Inr ReplicaStatusRunning else Inr ReplicaStatusPending)"

definition labelReplica ::
  "Client \<Rightarrow> ('q, 'e) kube \<Rightarrow> ReplicaID \<Rightarrow> (string, string) gomap \<Rightarrow> 'e client_error option" where
  "labelReplica c k replicaID labels =
     map_option (PatchingDeployment replicaID) (kube_Patch k (kc_namespace c) replicaID labels)"

section \<open>The client as the executor sees it\<close>

text \<open>
  The answers of this client to the goroutine of one operation: \<open>k\<close> is the API at its writing
  call, \<open>polls n\<close> the API at its poll number \<open>n\<close>, and \<open>replicaID\<close> the replica it polls.
\<close>

definition client_responses ::
  "Client \<Rightarrow> ('q, 'e) kube \<Rightarrow> (nat \<Rightarrow> ('q, 'e) kube) \<Rightarrow> nat \<Rightarrow> 'e client_error \<Rightarrow> AppID \<Rightarrow> SchedulingConstraints
     \<Rightarrow> ReplicaID \<Rightarrow> 'e client_error responses" where
  "client_responses c k polls ticks ctx_err appID constraints replicaID =
     \<lparr>rsp_create = createReplica c k appID constraints,
      rsp_status = (\<lambda>n. getReplicaStatus c (polls n) replicaID),
      rsp_delete = DeleteDeployment c k replicaID,
      rsp_label = labelReplica c k replicaID [(''draining'', ''true'')],
      rsp_ticks = ticks, rsp_ctx_err = ctx_err\<rparr>"

section \<open>Replica identifiers\<close>

lemma replica_id_inj:
  assumes "length s = length t"
  shows "replica_id a s = replica_id b t \<longleftrightarrow> a = b \<and> s = t"
  using assms by (auto simp: replica_id_def)

lemma randomSuffix_bytes:
  assumes "kube_rand k 4 = Inr b" and "length b = 4"
  shows "randomSuffix k 4 = Inr (EncodeToString b)"
  using assms by (simp add: randomSuffix_def)

text \<open>Different random bytes or applications give different replicas: the name tells both.\<close>

lemma createReplica_names_apart:
  assumes "createReplica c k a cs = Inr rid" and "createReplica c' k' a' cs' = Inr rid'"
    and "kube_rand k 4 = Inr b" "length b = 4" and "kube_rand k' 4 = Inr b'" "length b' = 4"
  shows "rid = rid' \<longleftrightarrow> a = a' \<and> b = b'"
proof -
  have "rid = replica_id a (EncodeToString b)" "rid' = replica_id a' (EncodeToString b')"
    using assms by (auto simp: createReplica_def randomSuffix_bytes Let_def split: option.splits)
  then show ?thesis using assms(4,6) by (simp add: replica_id_inj EncodeToString_inj)
qed

section \<open>Properties\<close>

text \<open>A poll counts as the end of the replica exactly when the API could not be read.\<close>

lemma gone_getReplicaStatus:
  "gone (getReplicaStatus c k rid) \<longleftrightarrow> (\<exists>e. kube_Get k (kc_namespace c) rid = Inl e)"
  by (auto simp: gone_def getReplicaStatus_def split: sum.split)

text \<open>The deletion was accepted, or there was nothing to delete.\<close>

definition deletion_accepted :: "Client \<Rightarrow> ('q, 'e) kube \<Rightarrow> ReplicaID \<Rightarrow> bool" where
  "deletion_accepted c k rid \<longleftrightarrow> (case kube_Delete k (kc_namespace c) rid of None \<Rightarrow> True | Some e \<Rightarrow> kube_IsNotFound k e)"

lemma DeleteDeployment_None: "DeleteDeployment c k rid = None \<longleftrightarrow> deletion_accepted c k rid"
  by (simp add: DeleteDeployment_def deletion_accepted_def split: option.split)

lemma client_waitForDeletion:
  "fst (waitForDeletion (client_responses c k polls ticks ctx_err appID constraints rid) rid 0 ticks) = None
     \<longleftrightarrow> (\<exists>n \<le> ticks. \<exists>e. kube_Get (polls n) (kc_namespace c) rid = Inl e)"
  by (simp add: waitForDeletion_ok gone_getReplicaStatus) (simp add: client_responses_def gone_getReplicaStatus)

lemma client_fields:
  "rsp_label (client_responses c k polls ticks ctx_err appID constraints rid)
     = map_option (PatchingDeployment rid) (kube_Patch k (kc_namespace c) rid [(''draining'', ''true'')])"
  "rsp_delete (client_responses c k polls ticks ctx_err appID constraints rid) = DeleteDeployment c k rid"
  "rsp_ticks (client_responses c k polls ticks ctx_err appID constraints rid) = ticks"
  by (simp_all add: client_responses_def labelReplica_def)

text \<open>C39: With this client an eviction is reported complete exactly when the label and the deletion were
  accepted and some poll before the deadline fails, whatever the error: the client maps the one
  error that means absence to a status, so the errors the executor takes for absence are all the
  others, a time-out of the API or of the poll's own context included, while the replica may
  still hold its GPUs. The same holds for a scale-down.\<close>

theorem eviction_trusts_any_api_error:
  "(fst (preempt cfg (client_responses c k polls ticks ctx_err appID constraints (pd_VictimReplicaID p)) p) = None \<longleftrightarrow>
      kube_Patch k (kc_namespace c) (pd_VictimReplicaID p) [(''draining'', ''true'')] = None
      \<and> deletion_accepted c k (pd_VictimReplicaID p)
      \<and> (\<exists>n \<le> ticks. \<exists>e. kube_Get (polls n) (kc_namespace c) (pd_VictimReplicaID p) = Inl e))
   \<and> (fst (scaleDown cfg (client_responses c k polls ticks ctx_err appID constraints (sd_ReplicaID d)) d) = None \<longleftrightarrow>
      deletion_accepted c k (sd_ReplicaID d)
      \<and> (\<exists>n \<le> ticks. \<exists>e. kube_Get (polls n) (kc_namespace c) (sd_ReplicaID d) = Inl e))"
  unfolding client_waitForDeletion [where ctx_err = ctx_err and k = k and appID = appID and constraints = constraints, symmetric]
    DeleteDeployment_None [symmetric]
  by (simp add: preempt_def scaleDown_def Let_def client_fields split_beta split: option.split)

end
