(* ===== verification/K8sAggregator.thy ===== *)
theory K8sAggregator
  imports K8sClient Ingestion
begin

text \<open>
  \<open>internal/k8saggregator\<close>: what the informers' handlers make of the notifications of the
  Kubernetes API, and the full listing a start begins with. Of the API's objects only the fields
  the code reads are kept; the methods of \<open>resource.Quantity\<close> are the argument \<open>quantities\<close>.
\<close>

section \<open>API objects\<close>

datatype NodeConditionType = NodeReady | OtherCondition string
datatype ConditionStatus = ConditionTrue | OtherStatus string
datatype PodPhase = PodRunning | PodSucceeded | PodFailed | OtherPhase string

record 'q quantities =
  q_String :: "'q \<Rightarrow> string"
  q_ScaledValue :: "'q \<Rightarrow> int"

record 'q K8sNode =
  kn_Name :: string
  kn_Unschedulable :: bool
  kn_Conditions :: "(NodeConditionType \<times> ConditionStatus) list"
  kn_Capacity :: "(string, 'q) gomap"

record 'q Pod =
  po_Name :: string
  po_Labels :: "(string, string) gomap"
  po_NodeName :: string
  po_Phase :: PodPhase
  po_Containers :: "'q Container list"
  po_CreationTimestamp :: time

section \<open>Reading them\<close>

definition extractGPUQuantity :: "'q quantities \<Rightarrow> (string, 'q) gomap \<Rightarrow> int" where
  "extractGPUQuantity q resources =
     (case gget resources gpuResource of
        None \<Rightarrow> 0
      | Some qty \<Rightarrow> (case atoi (q_String q qty) of None \<Rightarrow> q_ScaledValue q qty | Some v \<Rightarrow> v))"

definition extractNodeGPUs :: "'q quantities \<Rightarrow> 'q K8sNode \<Rightarrow> int" where
  "extractNodeGPUs q node = extractGPUQuantity q (kn_Capacity node)"

definition extractPodGPUs :: "'q quantities \<Rightarrow> 'q Pod \<Rightarrow> int" where
  "extractPodGPUs q pod = fold (\<lambda>c total. total + extractGPUQuantity q (ct_Requests c)) (po_Containers pod) 0"

definition isSchedulatorPod :: "'q Pod \<Rightarrow> bool" where
  "isSchedulatorPod pod \<longleftrightarrow> gget (po_Labels pod) labelAppID \<noteq> None"

definition isNodeReady :: "'q K8sNode \<Rightarrow> bool" where
  "isNodeReady node =
     (case List.find (\<lambda>(t, _). t = NodeReady) (kn_Conditions node) of
        None \<Rightarrow> False
      | Some (_, s) \<Rightarrow> s = ConditionTrue)"

definition nodeStatusFromConditions :: "'q K8sNode \<Rightarrow> NodeStatus" where
  "nodeStatusFromConditions node =
     (if kn_Unschedulable node then NodeStatusCordoned
      else case List.find (\<lambda>(t, _). t = NodeReady) (kn_Conditions node) of
             None \<Rightarrow> NodeStatusDown
           | Some (_, s) \<Rightarrow> if s = ConditionTrue then NodeStatusReady else NodeStatusDown)"

definition pod_app :: "'q Pod \<Rightarrow> AppID" where
  "pod_app pod = gget_or '''' (po_Labels pod) labelAppID"

definition pod_replica :: "'q Pod \<Rightarrow> ReplicaID" where
  "pod_replica pod =
     (let replicaID = gget_or '''' (po_Labels pod) labelReplicaID
      in if replicaID = '''' then pod_app pod @ ''-'' @ po_Name pod else replicaID)"

section \<open>The informers' handlers\<close>

text \<open>An object handed to a handler: of the expected type, a tombstone, or of some other type.\<close>

datatype 'a obj = Obj 'a | DeletedFinalStateUnknown "'a option" | OtherObj

fun deleted_object :: "'a obj \<Rightarrow> 'a option" where
  "deleted_object (Obj x) = Some x"
| "deleted_object (DeletedFinalStateUnknown x) = x"
| "deleted_object OtherObj = None"

definition node_event :: "ClusterEventKind \<Rightarrow> ClusterID \<Rightarrow> string \<Rightarrow> int \<Rightarrow> time \<Rightarrow> ClusterEvent" where
  "node_event kind clusterID name totalGPUs now =
     \<lparr>ce_Kind = kind, ce_ClusterID = clusterID, ce_NodeID = name, ce_ReplicaID = '''', ce_AppID = '''',
      ce_GPUs = 0, ce_TotalGPUs = totalGPUs, ce_Timestamp = now\<rparr>"

definition nodeAddFunc :: "'q quantities \<Rightarrow> ClusterID \<Rightarrow> time \<Rightarrow> 'q K8sNode obj \<Rightarrow> ClusterEvent list" where
  "nodeAddFunc q clusterID now obj =
     (case obj of
        Obj node \<Rightarrow> if isNodeReady node
          then [node_event ClusterEventNodeUp clusterID (kn_Name node) (extractNodeGPUs q node) now] else []
      | _ \<Rightarrow> [])"

definition nodeUpdateFunc ::
  "'q quantities \<Rightarrow> ClusterID \<Rightarrow> time \<Rightarrow> 'q K8sNode obj \<Rightarrow> 'q K8sNode obj \<Rightarrow> ClusterEvent list" where
  "nodeUpdateFunc q clusterID now oldObj newObj =
     (case (oldObj, newObj) of
        (Obj oldNode, Obj newNode) \<Rightarrow>
          (let wasReady = isNodeReady oldNode; nowReady = isNodeReady newNode
           in if \<not> wasReady \<and> nowReady
              then [node_event ClusterEventNodeUp clusterID (kn_Name newNode) (extractNodeGPUs q newNode) now]
              else if wasReady \<and> \<not> nowReady then [node_event ClusterEventNodeDown clusterID (kn_Name newNode) 0 now]
              else [])
      | _ \<Rightarrow> [])"

definition nodeDeleteFunc :: "ClusterID \<Rightarrow> time \<Rightarrow> 'q K8sNode obj \<Rightarrow> ClusterEvent list" where
  "nodeDeleteFunc clusterID now obj =
     (case deleted_object obj of
        None \<Rightarrow> []
      | Some node \<Rightarrow> [node_event ClusterEventNodeDown clusterID (kn_Name node) 0 now])"

definition pod_event :: "'q quantities \<Rightarrow> ClusterEventKind \<Rightarrow> ClusterID \<Rightarrow> 'q Pod \<Rightarrow> time \<Rightarrow> ClusterEvent" where
  "pod_event q kind clusterID pod now =
     \<lparr>ce_Kind = kind, ce_ClusterID = clusterID, ce_NodeID = po_NodeName pod, ce_ReplicaID = pod_replica pod,
      ce_AppID = pod_app pod, ce_GPUs = extractPodGPUs q pod, ce_TotalGPUs = 0, ce_Timestamp = now\<rparr>"

definition emitPodEvent :: "'q quantities \<Rightarrow> ClusterID \<Rightarrow> time \<Rightarrow> 'q Pod \<Rightarrow> ClusterEvent list" where
  "emitPodEvent q clusterID now pod =
     (case po_Phase pod of
        PodRunning \<Rightarrow> [pod_event q ClusterEventPodRunning clusterID pod now]
      | PodSucceeded \<Rightarrow> [pod_event q ClusterEventPodTerminated clusterID pod now]
      | PodFailed \<Rightarrow> [pod_event q ClusterEventPodTerminated clusterID pod now]
      | OtherPhase _ \<Rightarrow> [])"

text \<open>The handlers of additions and of updates, which look at the new object only, are the same.\<close>

definition podAddFunc :: "'q quantities \<Rightarrow> ClusterID \<Rightarrow> time \<Rightarrow> 'q Pod obj \<Rightarrow> ClusterEvent list" where
  "podAddFunc q clusterID now obj =
     (case obj of
        Obj pod \<Rightarrow> if isSchedulatorPod pod then emitPodEvent q clusterID now pod else []
      | _ \<Rightarrow> [])"

definition podDeleteFunc :: "'q quantities \<Rightarrow> ClusterID \<Rightarrow> time \<Rightarrow> 'q Pod obj \<Rightarrow> ClusterEvent list" where
  "podDeleteFunc q clusterID now obj =
     (case deleted_object obj of
        None \<Rightarrow> []
      | Some pod \<Rightarrow> if isSchedulatorPod pod
          then [pod_event q ClusterEventPodTerminated clusterID pod now] else [])"

section \<open>The full listing\<close>

text \<open>What one cluster answers when its nodes and its labelled pods are listed.\<close>

record ('q, 'e) listing =
  li_nodes :: "'e + 'q K8sNode list"
  li_pods :: "'e + 'q Pod list"

datatype 'e sync_error = ListNodes ClusterID 'e | ListPods ClusterID 'e

definition sync_replicas :: "'q quantities \<Rightarrow> ClusterID \<Rightarrow> 'q Pod list \<Rightarrow> Replica list" where
  "sync_replicas q clusterID pods =
     map (\<lambda>pod. \<lparr>rp_ReplicaID = pod_replica pod, rp_AppID = pod_app pod, rp_ClusterID = clusterID,
             rp_NodeID = po_NodeName pod, rp_GPUs = extractPodGPUs q pod,
             rp_Status = (if po_Phase pod = PodRunning then ReplicaStatusRunning else ReplicaStatusPending),
             rp_CreatedAt = po_CreationTimestamp pod\<rparr>)
       (filter (\<lambda>pod. po_NodeName pod \<noteq> '''') pods)"

definition sync_node :: "'q quantities \<Rightarrow> ClusterID \<Rightarrow> 'q K8sNode \<Rightarrow> Node" where
  "sync_node q clusterID node =
     (let totalGPUs = extractNodeGPUs q node
      in \<lparr>nd_NodeID = kn_Name node, nd_ClusterID = clusterID, nd_TotalGPUs = totalGPUs, nd_AllocatedGPUs = 0,
          nd_FreeGPUs = totalGPUs, nd_Pods = [], nd_CachedModels = [], nd_Status = nodeStatusFromConditions node\<rparr>)"

definition syncCluster ::
  "'q quantities \<Rightarrow> ClusterID \<Rightarrow> ('q, 'e) listing \<Rightarrow> 'e sync_error + Cluster \<times> Replica list" where
  "syncCluster q clusterID api =
     (case li_nodes api of
        Inl e \<Rightarrow> Inl (ListNodes clusterID e)
      | Inr nodeList \<Rightarrow>
          (case li_pods api of
             Inl e \<Rightarrow> Inl (ListPods clusterID e)
           | Inr podList \<Rightarrow>
               Inr (\<lparr>cl_ClusterID = clusterID,
                      cl_Nodes = fold (\<lambda>node m. gput (kn_Name node) (sync_node q clusterID node) m) nodeList [],
                      cl_FragmentationScore = f_zero\<rparr>,
                    sync_replicas q clusterID podList)))"

text \<open>\<open>FullSync\<close> goes over the clusters in the order of a \<open>range\<close> and gives up at the first error.\<close>

fun sync_all ::
  "'q quantities \<Rightarrow> (ClusterID \<times> ('q, 'e) listing) list \<Rightarrow> 'e sync_error + Cluster list \<times> Replica list" where
  "sync_all q [] = Inr ([], [])"
| "sync_all q ((cid, api) # clusters) =
     (case syncCluster q cid api of
        Inl e \<Rightarrow> Inl e
      | Inr (c, rs) \<Rightarrow>
          (case sync_all q clusters of
             Inl e \<Rightarrow> Inl e
           | Inr (cs, all) \<Rightarrow> Inr (c # cs, rs @ all)))"

definition FullSync ::
  "orders \<Rightarrow> 'q quantities \<Rightarrow> (ClusterID, ('q, 'e) listing) gomap \<Rightarrow> 'e sync_error + Cluster list \<times> Replica list" where
  "FullSync od q clusters = sync_all q (range_order od clusters)"

text \<open>\<open>GetVLLMMetrics\<close> scrapes nothing: every metric is 0, and there is never an error.\<close>

definition GetVLLMMetrics :: "time \<Rightarrow> AppID \<Rightarrow> 'e + VLLMMetrics" where
  "GetVLLMMetrics now appID = Inr
     \<lparr>vm_AppID = appID, vm_AggregatedFrom = 0, vm_AvgWaitingQueueDepth = f_zero, vm_MaxWaitingQueueDepth = f_zero,
      vm_AvgRunningQueueDepth = f_zero, vm_AvgBatchUtilization = f_zero, vm_AvgKVCacheUtilization = f_zero,
      vm_MaxKVCacheUtilization = f_zero, vm_TotalTokensPerSecond = f_zero, vm_AvgTimeToFirstTokenMs = f_zero,
      vm_P99TimeToFirstTokenMs = f_zero, vm_MeasuredAt = now\<rparr>"

end
