(* ===== verification/Startup.thy ===== *)
theory Startup
  imports Accounting ControlLoop K8sAggregator
begin

text \<open>
  The composition of the cluster adapters with the control loop: how \<open>cmd/schedulator/main.go\<close> seeds
  the world state before the loop runs, and what the first notifications of the informers, which
  repeat what the seeding has read, then do to it.
\<close>

section \<open>Seeding the world state\<close>

definition seed_cluster :: "orders \<Rightarrow> Cluster \<Rightarrow> WorldState \<Rightarrow> WorldState" where
  "seed_cluster od c ws = fold (\<lambda>(_, n). UpsertNode n) (range_order od (cl_Nodes c)) (UpsertCluster c ws)"

definition seed_sync :: "orders \<Rightarrow> 'e + Cluster list \<times> Replica list \<Rightarrow> WorldState \<Rightarrow> WorldState" where
  "seed_sync od sync ws =
     (case sync of
        Inl _ \<Rightarrow> ws
      | Inr (clusters, replicas) \<Rightarrow>
          fold UpsertReplica replicas (fold (\<lambda>(i, c). seed_cluster (sub od i) c) (enumerate 0 clusters) ws))"

definition seed_apps :: "'e + Application list \<Rightarrow> WorldState \<Rightarrow> WorldState" where
  "seed_apps apps ws = (case apps of Inl _ \<Rightarrow> ws | Inr as \<Rightarrow> fold UpsertApplication as ws)"

definition seed_world :: "orders \<Rightarrow> 'e + Cluster list \<times> Replica list \<Rightarrow> 'f + Application list \<Rightarrow> WorldState" where
  "seed_world od sync apps = seed_apps apps (seed_sync od sync New)"

section \<open>What a listing gives\<close>

definition listed_cluster :: "'q quantities \<Rightarrow> ClusterID \<Rightarrow> 'q K8sNode list \<Rightarrow> Cluster" where
  "listed_cluster q cid nodes = \<lparr>cl_ClusterID = cid,
     cl_Nodes = fold (\<lambda>node m. gput (kn_Name node) (sync_node q cid node) m) nodes [],
     cl_FragmentationScore = f_zero\<rparr>"

lemma syncCluster_ok:
  "syncCluster q cid api = Inr p \<longleftrightarrow> (\<exists>nodes pods. li_nodes api = Inr nodes \<and> li_pods api = Inr pods
     \<and> p = (listed_cluster q cid nodes, sync_replicas q cid pods))"
  by (auto simp: syncCluster_def listed_cluster_def split: sum.split)

lemma sync_all_ok:
  "sync_all q l = Inr (cs, rs) \<Longrightarrow>
     (\<forall>c \<in> set cs. \<exists>cid nodes. c = listed_cluster q cid nodes)
     \<and> (\<forall>(cid, api) \<in> set l. \<exists>nodes pods. li_nodes api = Inr nodes \<and> li_pods api = Inr pods
          \<and> set (sync_replicas q cid pods) \<subseteq> set rs)"
proof (induction q l arbitrary: cs rs rule: sync_all.induct)
  case (2 q cid0 api0 l)
  obtain nodes pods where c0: "li_nodes api0 = Inr nodes" "li_pods api0 = Inr pods"
      "syncCluster q cid0 api0 = Inr (listed_cluster q cid0 nodes, sync_replicas q cid0 pods)"
    using "2.prems" by (cases "syncCluster q cid0 api0") (auto simp: syncCluster_ok)
  obtain cs' rs' where r: "sync_all q l = Inr (cs', rs')" "cs = listed_cluster q cid0 nodes # cs'"
      "rs = sync_replicas q cid0 pods @ rs'"
    using "2.prems" c0(3) by (auto split: sum.splits)
  show ?case using "2.IH" [OF c0(3) refl r(1)] c0 r(2,3) by fastforce
qed simp

text \<open>Every node of a listing is recorded as empty.\<close>

definition empty_node :: "Node \<Rightarrow> bool" where
  "empty_node n \<longleftrightarrow> nd_AllocatedGPUs n = 0 \<and> nd_FreeGPUs n = nd_TotalGPUs n \<and> nd_Pods n = []"

lemma listed_nodes:
  assumes "gget (cl_Nodes (listed_cluster q cid nodes)) nid = Some n"
  shows "nd_NodeID n = nid \<and> nd_ClusterID n = cid \<and> empty_node n"
proof -
  have "gget (fold (\<lambda>node m. gput (kn_Name node) (sync_node q cid node) m) nodes m) nid = Some n
      \<Longrightarrow> gget m nid = Some n \<or> (nd_NodeID n = nid \<and> nd_ClusterID n = cid \<and> empty_node n)" for m
    by (induction nodes arbitrary: m) (fastforce simp: sync_node_def empty_node_def Let_def split: if_splits)+
  from this [of "[]"] show ?thesis using assms by (simp add: listed_cluster_def)
qed

lemma listed_wf: "wf_cluster (listed_cluster q cid nodes)"
proof -
  have "keyed nd_NodeID m \<Longrightarrow> keyed nd_NodeID (fold (\<lambda>node m. gput (kn_Name node) (sync_node q cid node) m) nodes m)" for m
    by (induction nodes arbitrary: m) (simp_all add: sync_node_def Let_def)
  then have "keyed nd_NodeID (cl_Nodes (listed_cluster q cid nodes))" by (simp add: listed_cluster_def)
  then show ?thesis using listed_nodes [of q cid nodes] by (auto simp: wf_cluster_def listed_cluster_def)
qed

section \<open>Accounting after the seeding\<close>

text \<open>Before the replicas, all nodes are empty; then the accounting is right.\<close>

abbreviation sound :: "WorldState \<Rightarrow> bool" where
  "sound ws \<equiv> ws_wf ws \<and> accounted ws"

lemma sound_step: "sound ws \<Longrightarrow> wf_call c \<Longrightarrow> accounted_guard c ws \<Longrightarrow> sound (ws_step c ws)"
  using ws_step_wf accounted_step by (auto simp: ws_wf_def wf_replicas_def)

lemma empty_guard:
  "ws_replicas ws = [] \<Longrightarrow> empty_node n \<Longrightarrow> accounted_node ws cid nid n"
  by (simp add: accounted_node_def node_ok_def gpus_on_def pods_on_def empty_node_def)

lemma seed_cluster_sound:
  assumes "sound ws" and "ws_replicas ws = []"
  shows "sound (seed_cluster od (listed_cluster q cid nodes) ws)
    \<and> ws_replicas (seed_cluster od (listed_cluster q cid nodes) ws) = []"
proof -
  let ?c = "listed_cluster q cid nodes"
  have "sound (ws_step (CallUpsertCluster ?c) ws)"
    by (rule sound_step [OF assms(1)])
      (auto simp: wf_call_def listed_wf accounted_guard_def dest!: listed_nodes intro: empty_guard [OF assms(2)])
  then have start: "sound (UpsertCluster ?c ws)" "ws_replicas (UpsertCluster ?c ws) = []"
    using assms(2) by simp_all
  have step: "sound (UpsertNode n ws')" if "sound ws'" "ws_replicas ws' = []" "empty_node n" for n ws'
    using sound_step [of ws' "CallUpsertNode n"] that
    by (simp add: wf_call_def accounted_guard_def empty_guard)
  have "\<forall>(k, n) \<in> set ps. empty_node n \<Longrightarrow> sound ws' \<Longrightarrow> ws_replicas ws' = [] \<Longrightarrow>
      sound (fold (\<lambda>(_, n). UpsertNode n) ps ws') \<and> ws_replicas (fold (\<lambda>(_, n). UpsertNode n) ps ws') = []" for ps ws'
    by (induction ps arbitrary: ws') (auto simp: step)
  moreover have "\<forall>(k, n) \<in> set (range_order od (cl_Nodes ?c)). empty_node n"
  proof -
    have "gwf (cl_Nodes ?c)" using listed_wf [of q cid nodes] keyed_gwf unfolding wf_cluster_def by blast
    then show ?thesis using listed_nodes [of q cid nodes] by (auto dest: mem_gget)
  qed
  ultimately show ?thesis unfolding seed_cluster_def using start by blast
qed

lemma seed_clusters_sound:
  assumes "\<forall>c \<in> set cs. \<exists>cid nodes. c = listed_cluster q cid nodes"
  shows "sound (fold (\<lambda>(i, c). seed_cluster (sub od i) c) (enumerate k cs) New)
    \<and> ws_replicas (fold (\<lambda>(i, c). seed_cluster (sub od i) c) (enumerate k cs) New) = []"
proof -
  have "sound ws \<Longrightarrow> ws_replicas ws = [] \<Longrightarrow> sound (fold (\<lambda>(i, c). seed_cluster (sub od i) c) (enumerate k cs) ws)
      \<and> ws_replicas (fold (\<lambda>(i, c). seed_cluster (sub od i) c) (enumerate k cs) ws) = []" for ws
    using assms
  proof (induction cs arbitrary: k ws)
    case (Cons c cs)
    then obtain cid nodes where "c = listed_cluster q cid nodes" by auto
    then show ?case using Cons seed_cluster_sound [of ws "sub od k" q cid nodes] by simp
  qed simp
  moreover have "sound New" using accounted_inv.init ws_wf_New by blast
  ultimately show ?thesis by (simp add: New_def)
qed

text \<open>The replicas of the listing are then in the table, and the accounting is right.\<close>

definition placed_all :: "Replica list \<Rightarrow> WorldState \<Rightarrow> bool" where
  "placed_all rs ws \<longleftrightarrow> (\<forall>r \<in> set rs. \<exists>r'. gget (ws_replicas ws) (rp_ReplicaID r) = Some r' \<and> same_place r' r)"

lemma seed_replicas_sound:
  assumes "sound ws" and "ws_replicas ws = []" and "distinct (map rp_ReplicaID rs)"
  shows "sound (fold UpsertReplica rs ws) \<and> placed_all rs (fold UpsertReplica rs ws)"
  using assms(3)
proof (induction rs rule: rev_induct)
  case (snoc r rs)
  let ?ws = "fold UpsertReplica rs ws"
  have keys: "gget (ws_replicas (fold UpsertReplica rs ws)) i = None" if "i \<notin> rp_ReplicaID ` set rs" for i
    using that by (induction rs rule: rev_induct) (simp_all add: assms(2))
  have fresh: "gget (ws_replicas ?ws) (rp_ReplicaID r) = None" using snoc.prems keys by simp
  have "sound (ws_step (CallUpsertReplica r) ?ws)"
    by (rule sound_step) (use snoc fresh in \<open>simp_all add: wf_call_def accounted_guard_def\<close>)
  moreover have "placed_all (rs @ [r]) (UpsertReplica r ?ws)"
    using snoc fresh by (auto simp: placed_all_def same_place_def)
  ultimately show ?case by simp
qed (simp add: assms(1) placed_all_def)

lemma seed_sync_sound:
  assumes "FullSync od q clusters = Inr (cs, rs)" and "distinct (map rp_ReplicaID rs)"
  shows "sound (seed_sync od' (Inr (cs, rs)) New) \<and> placed_all rs (seed_sync od' (Inr (cs, rs)) New)"
proof -
  have "\<forall>c \<in> set cs. \<exists>cid nodes. c = listed_cluster q cid nodes"
    using sync_all_ok [of q "range_order od clusters" cs rs] assms(1) unfolding FullSync_def by blast
  from seed_clusters_sound [OF this, of od' 0]
    have "sound (fold (\<lambda>(i, c). seed_cluster (sub od' i) c) (enumerate 0 cs) New)"
      "ws_replicas (fold (\<lambda>(i, c). seed_cluster (sub od' i) c) (enumerate 0 cs) New) = []" by blast+
  from seed_replicas_sound [OF this assms(2)] show ?thesis by (simp add: seed_sync_def)
qed

lemma seed_apps_facts:
  "ws_replicas (seed_apps apps ws) = ws_replicas ws" "node_at (seed_apps apps ws) cid nid = node_at ws cid nid"
proof -
  have "ws_replicas (fold UpsertApplication as ws) = ws_replicas ws
      \<and> node_at (fold UpsertApplication as ws) cid nid = node_at ws cid nid" for as
    by (induction as arbitrary: ws) (simp_all add: node_at_simps)
  then show "ws_replicas (seed_apps apps ws) = ws_replicas ws" "node_at (seed_apps apps ws) cid nid = node_at ws cid nid"
    by (simp_all add: seed_apps_def split: sum.split)
qed

lemma seed_world_sound:
  fixes apps :: "'f + Application list"
  assumes "FullSync od q clusters = Inr (cs, rs)" and "distinct (map rp_ReplicaID rs)"
    and "ws = seed_world od' (Inr (cs, rs) :: 'e + Cluster list \<times> Replica list) apps"
  shows "placed_all rs ws" and "node_at ws cid nid = Some n \<Longrightarrow> nd_AllocatedGPUs n = gpus_on ws cid nid"
proof -
  let ?seeded = "seed_sync od' (Inr (cs, rs) :: 'e + Cluster list \<times> Replica list) New"
  have s: "sound ?seeded" "placed_all rs ?seeded" using seed_sync_sound [OF assms(1,2)] by blast+
  show "placed_all rs ws" using s(2) by (simp add: assms(3) seed_world_def placed_all_def seed_apps_facts)
  show "nd_AllocatedGPUs n = gpus_on ws cid nid" if "node_at ws cid nid = Some n"
    using that s(1) accountedD [of ?seeded cid nid n]
    by (simp add: assms(3) seed_world_def seed_apps_facts gpus_on_def node_ok_def)
qed

section \<open>The informers' first notifications\<close>

text \<open>
  When the informers start they notify the addition of every node and pod. \<open>first_event\<close> are the
  events this makes, at any time, of what the listing has read.
\<close>

definition first_event :: "'q quantities \<Rightarrow> (ClusterID, ('q, 'e) listing) gomap \<Rightarrow> ClusterEvent \<Rightarrow> bool" where
  "first_event q clusters ce \<longleftrightarrow> (\<exists>(cid, api) \<in> set clusters. \<exists>nodes pods now.
     li_nodes api = Inr nodes \<and> li_pods api = Inr pods
     \<and> ((\<exists>node \<in> set nodes. ce \<in> set (nodeAddFunc q cid now (Obj node)))
        \<or> (\<exists>pod \<in> set pods. ce \<in> set (podAddFunc q cid now (Obj pod)))))"

text \<open>The identifiers of replicas whose listed pods have ended; the listing does not leave them out.\<close>

definition ended_pod :: "'q Pod \<Rightarrow> bool" where
  "ended_pod pod \<longleftrightarrow> po_Phase pod = PodSucceeded \<or> po_Phase pod = PodFailed"

definition ended_ids :: "(ClusterID, ('q, 'e) listing) gomap \<Rightarrow> ReplicaID set" where
  "ended_ids clusters = {pod_replica pod | cid api pods pod. (cid, api) \<in> set clusters \<and> li_pods api = Inr pods
     \<and> pod \<in> set pods \<and> isSchedulatorPod pod \<and> ended_pod pod}"

text \<open>A running pod is on a node, and no ended one stands for the same replica.\<close>

definition listing_ok :: "(ClusterID, ('q, 'e) listing) gomap \<Rightarrow> bool" where
  "listing_ok clusters \<longleftrightarrow> (\<forall>(cid, api) \<in> set clusters. \<forall>pods. li_pods api = Inr pods \<longrightarrow>
     (\<forall>pod \<in> set pods. isSchedulatorPod pod \<longrightarrow> po_Phase pod = PodRunning \<longrightarrow>
        po_NodeName pod \<noteq> '''' \<and> pod_replica pod \<notin> ended_ids clusters))"

text \<open>
  An event that repeats what the table of replicas \<open>rs\<close> says, or tells that a pod of \<open>E\<close> has
  ended.
\<close>

definition repeats :: "ReplicaID set \<Rightarrow> Replica list \<Rightarrow> ClusterEvent \<Rightarrow> bool" where
  "repeats E rs ce \<longleftrightarrow> ce_Kind ce = ClusterEventNodeUp
     \<or> ce_Kind ce = ClusterEventPodRunning \<and> ce_ReplicaID ce \<noteq> '''' \<and> ce_ReplicaID ce \<notin> E
       \<and> (\<exists>r \<in> set rs. rp_ReplicaID r = ce_ReplicaID ce \<and> rp_ClusterID r = ce_ClusterID ce \<and> rp_NodeID r = ce_NodeID ce
            \<and> rp_GPUs r = ce_GPUs ce)
     \<or> ce_Kind ce = ClusterEventPodTerminated \<and> ce_ReplicaID ce \<in> E"

lemma repeats_cases:
  assumes "repeats E rs ce"
  obtains (up) "ce_Kind ce = ClusterEventNodeUp"
  | (running) r where "ce_Kind ce = ClusterEventPodRunning" "ce_ReplicaID ce \<noteq> ''''" "ce_ReplicaID ce \<notin> E" "r \<in> set rs"
      "rp_ReplicaID r = ce_ReplicaID ce" "rp_ClusterID r = ce_ClusterID ce" "rp_NodeID r = ce_NodeID ce" "rp_GPUs r = ce_GPUs ce"
  | (ended) "ce_Kind ce = ClusterEventPodTerminated" "ce_ReplicaID ce \<in> E"
  using assms unfolding repeats_def by blast

text \<open>The replicas of \<open>rs\<close> that have not ended are in their place, and no count of GPUs is negative.\<close>

definition live_placed :: "ReplicaID set \<Rightarrow> Replica list \<Rightarrow> WorldState \<Rightarrow> bool" where
  "live_placed E rs ws \<longleftrightarrow> placed_all (filter (\<lambda>r. rp_ReplicaID r \<notin> E) rs) ws
     \<and> (\<forall>i r. gget (ws_replicas ws) i = Some r \<longrightarrow> 0 \<le> rp_GPUs r)"

lemma repeats_placed:
  assumes ev: "repeats E rs ce" and live: "live_placed E rs ws" and one: "distinct (map rp_ReplicaID rs)"
    and gpus: "\<forall>r \<in> set rs. 0 \<le> rp_GPUs r"
  shows "live_placed E rs (applyClusterEvent ce ws)"
  using ev
proof (cases rule: repeats_cases)
  case up
  then show ?thesis using live by (simp add: applyClusterEvent_def live_placed_def placed_all_def)
next
  case (running r)
  have "\<exists>r'. gget (ws_replicas (applyClusterEvent ce ws)) (rp_ReplicaID r2) = Some r' \<and> same_place r' r2"
    if r2: "r2 \<in> set rs" "rp_ReplicaID r2 \<notin> E" for r2
  proof (cases "rp_ReplicaID r2 = ce_ReplicaID ce")
    case True
    then have "r2 = r" using running(4,5) r2 one by (metis distinct_map inj_onD)
    then show ?thesis using running by (simp add: applyClusterEvent_def same_place_def)
  next
    case False
    then show ?thesis using live r2 running(1,2) by (simp add: applyClusterEvent_def live_placed_def placed_all_def)
  qed
  moreover have "0 \<le> ce_GPUs ce" using gpus running(4,8) by metis
  ultimately show ?thesis
    using live running(1,2) by (auto simp: live_placed_def placed_all_def applyClusterEvent_def split: if_splits)
next
  case ended
  then show ?thesis
    using live by (auto simp: applyClusterEvent_def live_placed_def placed_all_def split: if_splits)
qed

text \<open>
  Only the announcement of a node and the end of pods change a node; the first empties it, the
  second leaves it with less than nothing.
\<close>

definition forgotten :: "ReplicaID set \<Rightarrow> Node \<Rightarrow> bool" where
  "forgotten E n \<longleftrightarrow> nd_AllocatedGPUs n \<le> 0 \<and> nd_TotalGPUs n \<le> nd_FreeGPUs n
     \<and> (E = {} \<longrightarrow> nd_AllocatedGPUs n = 0 \<and> nd_FreeGPUs n = nd_TotalGPUs n)"

lemma repeats_node:
  assumes "repeats E rs ce" and "live_placed E rs ws"
    and "ce_Kind ce = ClusterEventNodeUp \<and> ce_ClusterID ce = cid \<and> ce_NodeID ce = nid
      \<or> (\<exists>n. node_at ws cid nid = Some n \<and> forgotten E n)"
  shows "\<exists>n. node_at (applyClusterEvent ce ws) cid nid = Some n \<and> forgotten E n"
  using assms(1)
proof (cases rule: repeats_cases)
  case up
  then show ?thesis using assms(3) by (auto simp: applyClusterEvent_def node_at_simps forgotten_def)
next
  case (running r)
  then have "r \<in> set (filter (\<lambda>r. rp_ReplicaID r \<notin> E) rs)" by simp
  then obtain r' where "gget (ws_replicas ws) (ce_ReplicaID ce) = Some r'" "same_place r' r"
    using assms(2) running(5) unfolding live_placed_def placed_all_def by metis
  then have "node_at (applyClusterEvent ce ws) cid nid = node_at ws cid nid"
    using running by (simp add: applyClusterEvent_def node_at_UpsertReplica same_place_def)
  then show ?thesis using assms(3) running(1) by simp
next
  case ended
  then obtain n where n: "node_at ws cid nid = Some n" "forgotten E n" using assms(3) by auto
  have "E \<noteq> {}" using ended(2) by auto
  moreover have "0 \<le> rp_GPUs r" if "gget (ws_replicas ws) (ce_ReplicaID ce) = Some r" for r
    using assms(2) that unfolding live_placed_def by blast
  ultimately have "\<exists>n. node_at (DeleteReplica (ce_ReplicaID ce) ws) cid nid = Some n \<and> forgotten E n"
    using n by (cases "gget (ws_replicas ws) (ce_ReplicaID ce)")
      (auto simp: node_at_DeleteReplica forgotten_def release_def)
  then show ?thesis using n ended(1) by (simp add: applyClusterEvent_def)
qed

lemma announced_node_is_forgotten:
  assumes "\<forall>ce \<in> set ces. repeats E rs ce" and "distinct (map rp_ReplicaID rs)" and "\<forall>r \<in> set rs. 0 \<le> rp_GPUs r"
    and "live_placed E rs ws"
    and "(\<exists>ce \<in> set ces. ce_Kind ce = ClusterEventNodeUp \<and> ce_ClusterID ce = cid \<and> ce_NodeID ce = nid)
      \<or> (\<exists>n. node_at ws cid nid = Some n \<and> forgotten E n)"
  shows "(\<exists>n. node_at (fold applyClusterEvent ces ws) cid nid = Some n \<and> forgotten E n)
    \<and> live_placed E rs (fold applyClusterEvent ces ws)"
  using assms
proof (induction ces arbitrary: ws)
  case (Cons ce ces)
  have rep: "repeats E rs ce" using Cons.prems(1) by simp
  have 1: "live_placed E rs (applyClusterEvent ce ws)" by (rule repeats_placed [OF rep Cons.prems(4,2,3)])
  have "(\<exists>ce \<in> set ces. ce_Kind ce = ClusterEventNodeUp \<and> ce_ClusterID ce = cid \<and> ce_NodeID ce = nid)
      \<or> (\<exists>n. node_at (applyClusterEvent ce ws) cid nid = Some n \<and> forgotten E n)"
    using Cons.prems(5) repeats_node [OF rep Cons.prems(4), of cid nid] by auto
  then show ?case using Cons.IH [OF _ Cons.prems(2,3) 1] Cons.prems(1) by simp
qed simp

lemma pod_replica_ne: "pod_replica pod \<noteq> ''''"
  by (simp add: pod_replica_def Let_def)

lemma node_first_event: "ce \<in> set (nodeAddFunc q cid now obj) \<Longrightarrow> ce_Kind ce = ClusterEventNodeUp"
  by (cases obj) (auto simp: nodeAddFunc_def node_event_def split: if_splits)

lemma pod_first_event:
  assumes "ce \<in> set (podAddFunc q cid now (Obj pod))"
  obtains (running) "isSchedulatorPod pod" "po_Phase pod = PodRunning" "ce = pod_event q ClusterEventPodRunning cid pod now"
  | (ended) "isSchedulatorPod pod" "ended_pod pod" "ce = pod_event q ClusterEventPodTerminated cid pod now"
  using assms by (cases "po_Phase pod") (auto simp: podAddFunc_def emitPodEvent_def ended_pod_def split: if_splits)

lemma first_event_repeats:
  assumes sync: "FullSync od q clusters = Inr (cs, rs)" and ok: "listing_ok clusters" and ev: "first_event q clusters ce"
  shows "repeats (ended_ids clusters) rs ce"
proof -
  obtain cid api nodes pods now where c: "(cid, api) \<in> set clusters" "li_nodes api = Inr nodes" "li_pods api = Inr pods"
    and e: "(\<exists>node \<in> set nodes. ce \<in> set (nodeAddFunc q cid now (Obj node)))
        \<or> (\<exists>pod \<in> set pods. ce \<in> set (podAddFunc q cid now (Obj pod)))"
    using ev unfolding first_event_def by blast
  have "(cid, api) \<in> set (range_order od clusters)" using c(1) by simp
  then have rs: "set (sync_replicas q cid pods) \<subseteq> set rs"
    using sync_all_ok [of q "range_order od clusters" cs rs] sync c(3) unfolding FullSync_def by fastforce
  from e show ?thesis
  proof
    assume "\<exists>node \<in> set nodes. ce \<in> set (nodeAddFunc q cid now (Obj node))"
    then show ?thesis using node_first_event unfolding repeats_def by blast
  next
    assume "\<exists>pod \<in> set pods. ce \<in> set (podAddFunc q cid now (Obj pod))"
    then obtain pod where pod: "pod \<in> set pods" "ce \<in> set (podAddFunc q cid now (Obj pod))" by blast
    from pod(2) show ?thesis
    proof (cases rule: pod_first_event)
      case running
      have s: "po_NodeName pod \<noteq> ''''" "pod_replica pod \<notin> ended_ids clusters"
        using ok c(1,3) pod(1) running(1,2) unfolding listing_ok_def by fastforce+
      have "\<exists>r \<in> set (sync_replicas q cid pods). rp_ReplicaID r = pod_replica pod \<and> rp_ClusterID r = cid
          \<and> rp_NodeID r = po_NodeName pod \<and> rp_GPUs r = extractPodGPUs q pod"
        using pod(1) s(1) by (force simp: sync_replicas_def)
      then show ?thesis using rs s(2) pod_replica_ne unfolding repeats_def running(3) by (auto simp: pod_event_def)
    next
      case ended
      have "pod_replica pod \<in> ended_ids clusters" using c(1,3) pod(1) ended(1,2) unfolding ended_ids_def by blast
      then show ?thesis unfolding repeats_def ended(3) by (simp add: pod_event_def)
    qed
  qed
qed

text \<open>The seeded table has the GPU counts of the listing.\<close>

lemma seeded_gpus:
  fixes apps :: "'f + Application list"
  assumes "FullSync od q clusters = Inr (cs, rs)" and "\<forall>r \<in> set rs. 0 \<le> rp_GPUs r"
    and "ws = seed_world od' (Inr (cs, rs) :: 'e + Cluster list \<times> Replica list) apps"
    and "gget (ws_replicas ws) i = Some r"
  shows "0 \<le> rp_GPUs r"
proof -
  have "\<forall>c \<in> set cs. \<exists>cid nodes. c = listed_cluster q cid nodes"
    using sync_all_ok [of q "range_order od clusters" cs rs] assms(1) unfolding FullSync_def by blast
  from seed_clusters_sound [OF this, of od' 0]
  have start: "ws_replicas (fold (\<lambda>(i, c). seed_cluster (sub od' i) c) (enumerate 0 cs) New) = []" by blast
  have "gget (ws_replicas (fold UpsertReplica rs' ws0)) i = Some r \<Longrightarrow> ws_replicas ws0 = [] \<Longrightarrow> set rs' \<subseteq> set rs \<Longrightarrow> 0 \<le> rp_GPUs r"
    for rs' ws0 i r
    by (induction rs' arbitrary: i r rule: rev_induct) (use assms(2) in \<open>auto split: if_splits\<close>)
  from this [OF _ start order_refl] show ?thesis
    using assms(4) by (simp add: assms(3) seed_world_def seed_sync_def seed_apps_facts)
qed

lemma applyEvents_listened:
  "applyEvents (concat (map listenClusterEvents ces)) ws = fold applyClusterEvent ces ws"
  by (induction ces arbitrary: ws) (simp_all add: applyEvents_def listenClusterEvents_def applyEvent_def event_def)

lemma applyEvents_listened_one [simp]: "applyEvents (listenClusterEvents ce) ws = applyClusterEvent ce ws"
  using applyEvents_listened [of "[ce]" ws] by simp

section \<open>A replica of the client in the world state\<close>

text \<open>
  What the code relies on of \<open>resource.Quantity\<close>: a whole number given to \<open>MustParse\<close> is read back,
  by its text or, where that has a unit suffix, as a scaled value.
\<close>

definition reads_back :: "'q quantities \<Rightarrow> (string \<Rightarrow> 'q) \<Rightarrow> bool" where
  "reads_back q MustParse \<longleftrightarrow> (\<forall>n. min_int64 \<le> n \<and> n \<le> max_int64 \<longrightarrow>
     (case atoi (q_String q (MustParse (fmt_d n))) of None \<Rightarrow> q_ScaledValue q (MustParse (fmt_d n)) = n | Some v \<Rightarrow> v = n))"

text \<open>
  A pod the Deployment controller makes from a deployment's template carries the template's labels,
  to which the controller adds its own (\<open>pod-template-hash\<close>), and the template's containers.
\<close>

definition pod_of :: "'q Deployment \<Rightarrow> 'q Pod \<Rightarrow> bool" where
  "pod_of d pod \<longleftrightarrow> (\<forall>k v. gget (tp_Labels (dp_Template d)) k = Some v \<longrightarrow> gget (po_Labels pod) k = Some v)
     \<and> po_Containers pod = tp_Containers (dp_Template d)"

lemma pod_of_replica:
  assumes "pod_of (replica_deployment c MustParse appID replicaID constraints) pod" and "replicaID \<noteq> ''''"
  shows "isSchedulatorPod pod" and "pod_app pod = appID" and "pod_replica pod = replicaID"
proof -
  have "gget (po_Labels pod) labelAppID = Some appID" "gget (po_Labels pod) labelReplicaID = Some replicaID"
    using assms(1) by (simp_all add: pod_of_def replica_deployment_def replica_labels_def labelAppID_def labelReplicaID_def)
  then show "isSchedulatorPod pod" and "pod_app pod = appID" and "pod_replica pod = replicaID"
    using assms(2) by (simp_all add: isSchedulatorPod_def pod_app_def pod_replica_def gget_or_def)
qed

lemma pod_of_gpus:
  assumes "pod_of (replica_deployment c MustParse appID replicaID constraints) pod" and "reads_back q MustParse"
    and "min_int64 \<le> sc_RequiredGPUs constraints" and "sc_RequiredGPUs constraints \<le> max_int64"
  shows "extractPodGPUs q pod = sc_RequiredGPUs constraints"
proof -
  have "po_Containers pod = [\<lparr>ct_Name = ''model'', ct_Image = kc_containerImage c,
      ct_Requests = gpu_quantity MustParse constraints, ct_Limits = gpu_quantity MustParse constraints\<rparr>]"
    using assms(1) by (simp add: pod_of_def replica_deployment_def)
  then show ?thesis
    using assms(2-4) unfolding reads_back_def
    by (auto simp: extractPodGPUs_def extractGPUQuantity_def gpu_quantity_def split: option.splits)
qed

lemma createReplica_id: "createReplica c k appID constraints = Inr rid \<Longrightarrow> rid \<noteq> ''''"
  by (auto simp: createReplica_def replica_id_def Let_def split: sum.splits option.splits)

section \<open>Properties\<close>


text \<open>C38: What the client creates is what the scheduler accounts: a pod that the cluster makes from the
  Deployment of a new replica, with whatever labels it adds, and runs on a known node is recognised
  under the replica's and the application's identifiers, takes exactly the GPUs the placement asked
  for from its node, and gives exactly those back when it is deleted.\<close>

theorem replica_lifecycle_round_trip:
  assumes "createReplica c k appID constraints = Inr rid"
    and "reads_back q (kube_MustParse k)" and "min_int64 \<le> sc_RequiredGPUs constraints" and "sc_RequiredGPUs constraints \<le> max_int64"
    and "pod_of (replica_deployment c (kube_MustParse k) appID rid constraints) pod" and "po_Phase pod = PodRunning"
    and "node_at ws cid (po_NodeName pod) = Some n" and "gget (ws_replicas ws) rid = None"
    and "up = applyEvents (concat (map listenClusterEvents (podAddFunc q cid t1 (Obj pod)))) ws"
    and "ended = applyEvents (concat (map listenClusterEvents (podDeleteFunc q cid t2 (Obj pod)))) up"
  shows "gget (ws_replicas up) rid = Some \<lparr>rp_ReplicaID = rid, rp_AppID = appID, rp_ClusterID = cid,
        rp_NodeID = po_NodeName pod, rp_GPUs = sc_RequiredGPUs constraints, rp_Status = ReplicaStatusRunning, rp_CreatedAt = t1\<rparr>
    \<and> map_option nd_AllocatedGPUs (node_at up cid (po_NodeName pod)) = Some (nd_AllocatedGPUs n + sc_RequiredGPUs constraints)
    \<and> map_option nd_FreeGPUs (node_at up cid (po_NodeName pod)) = Some (nd_FreeGPUs n - sc_RequiredGPUs constraints)
    \<and> gget (ws_replicas ended) rid = None
    \<and> map_option nd_AllocatedGPUs (node_at ended cid (po_NodeName pod)) = Some (nd_AllocatedGPUs n)
    \<and> map_option nd_FreeGPUs (node_at ended cid (po_NodeName pod)) = Some (nd_FreeGPUs n)"
proof -
  have rid: "rid \<noteq> ''''" by (rule createReplica_id [OF assms(1)])
  note p = pod_of_replica [OF assms(5) rid] and g = pod_of_gpus [OF assms(5,2,3,4)]
  let ?r = "\<lparr>rp_ReplicaID = rid, rp_AppID = appID, rp_ClusterID = cid, rp_NodeID = po_NodeName pod,
      rp_GPUs = sc_RequiredGPUs constraints, rp_Status = ReplicaStatusRunning, rp_CreatedAt = t1\<rparr>"
  have up: "up = UpsertReplica ?r ws"
    using rid by (simp add: assms(9) podAddFunc_def p emitPodEvent_def assms(6) applyEvents_listened applyClusterEvent_def
        pod_event_def g)
  have ended: "ended = DeleteReplica rid up"
    using rid by (simp add: assms(10) podDeleteFunc_def p applyEvents_listened applyClusterEvent_def pod_event_def)
  have n: "node_at up cid (po_NodeName pod) = Some (occupy ?r n)"
    using assms(7,8) by (simp add: up node_at_UpsertReplica located_def)
  then show ?thesis
    by (simp add: ended node_at_DeleteReplica) (simp add: up located_def occupy_def release_def)
qed

section \<open>An example\<close>

text \<open>A quantity is its text here.\<close>

definition text_quantities :: "string quantities" where
  "text_quantities = \<lparr>q_String = (\<lambda>s. s), q_ScaledValue = (\<lambda>_. 0)\<rparr>"

lemma text_reads_back: "reads_back text_quantities (\<lambda>s. s)"
  by (simp add: reads_back_def text_quantities_def atoi_fmt_d)

definition quiet_kube :: "(string, string) kube" where
  "quiet_kube = \<lparr>kube_rand = (\<lambda>n. Inr (replicate n 171)), kube_MustParse = (\<lambda>s. s), kube_Create = (\<lambda>_ _. None),
     kube_Delete = (\<lambda>_ _. None), kube_Get = (\<lambda>_ _. Inr 1), kube_Patch = (\<lambda>_ _ _. None), kube_IsNotFound = (\<lambda>_. False)\<rparr>"

definition four_gpus :: SchedulingConstraints where
  "four_gpus = zero_SchedulingConstraints\<lparr>sc_RequiredGPUs := 4\<rparr>"

abbreviation sample_rid :: ReplicaID where
  "sample_rid \<equiv> ''a-replica-abababab''"

lemma sample_created: "createReplica (NewClient ''default'' ''c1'') quiet_kube ''a'' four_gpus = Inr sample_rid"
  by code_simp

definition sample_pod :: "string Pod" where
  "sample_pod = (let t = dp_Template (replica_deployment (NewClient ''default'' ''c1'') (\<lambda>s. s) ''a'' sample_rid four_gpus)
     in \<lparr>po_Name = ''p'', po_Labels = tp_Labels t @ [(''pod-template-hash'', ''68b7'')], po_NodeName = ''n1'', po_Phase = PodRunning,
         po_Containers = tp_Containers t, po_CreationTimestamp = 1\<rparr>)"

definition sample_k8s_node :: "string K8sNode" where
  "sample_k8s_node = \<lparr>kn_Name = ''n1'', kn_Unschedulable = False, kn_Conditions = [(NodeReady, ConditionTrue)],
     kn_Capacity = [(gpuResource, ''8'')]\<rparr>"

definition sample_listing :: "(ClusterID, (string, string) listing) gomap" where
  "sample_listing = [(''c1'', \<lparr>li_nodes = Inr [sample_k8s_node], li_pods = Inr [sample_pod]\<rparr>)]"

definition sample_up :: ClusterEvent where
  "sample_up = node_event ClusterEventNodeUp ''c1'' ''n1'' 8 5"

abbreviation sample_clusters :: "Cluster list" where
  "sample_clusters \<equiv> [listed_cluster text_quantities ''c1'' [sample_k8s_node]]"

abbreviation sample_running :: "Replica list" where
  "sample_running \<equiv> sync_replicas text_quantities ''c1'' [sample_pod]"


lemma replica_lifecycle_round_trip_witness:
  "map_option nd_AllocatedGPUs (node_at (applyEvents (concat (map listenClusterEvents
      (podAddFunc text_quantities ''c1'' 7 (Obj sample_pod)))) (UpsertNode (sync_node text_quantities ''c1'' sample_k8s_node) New))
      ''c1'' ''n1'') = Some 4"
proof -
  let ?ws = "UpsertNode (sync_node text_quantities ''c1'' sample_k8s_node) New"
  have n: "node_at ?ws ''c1'' (po_NodeName sample_pod) = Some (sync_node text_quantities ''c1'' sample_k8s_node)"
    by (simp add: node_at_simps sample_pod_def Let_def) (simp add: sync_node_def sample_k8s_node_def Let_def)
  have pod: "pod_of (replica_deployment (NewClient ''default'' ''c1'') (kube_MustParse quiet_kube) ''a'' sample_rid four_gpus) sample_pod"
    by (auto simp: pod_of_def sample_pod_def quiet_kube_def Let_def replica_deployment_def replica_labels_def
        labelAppID_def labelReplicaID_def split: if_splits)
  have reads: "reads_back text_quantities (kube_MustParse quiet_kube)" using text_reads_back by (simp add: quiet_kube_def)
  have facts: "gget (ws_replicas ?ws) sample_rid = None" "po_Phase sample_pod = PodRunning" "po_NodeName sample_pod = ''n1''"
    by (simp_all add: New_def sample_pod_def Let_def)
  have gpus: "min_int64 \<le> sc_RequiredGPUs four_gpus" "sc_RequiredGPUs four_gpus \<le> max_int64" "sc_RequiredGPUs four_gpus = 4"
    "nd_AllocatedGPUs (sync_node text_quantities ''c1'' sample_k8s_node) = 0"
    by (simp_all add: four_gpus_def min_int64_def max_int64_def sync_node_def Let_def)
  show ?thesis
    using replica_lifecycle_round_trip [OF sample_created reads gpus(1,2) pod facts(2) n facts(1) refl refl, of 7 8] gpus(3,4) facts(3)
    by simp
qed

end
