(* ===== verification/ConfigStore.thy ===== *)
theory ConfigStore
  imports ControlLoop K8sAggregator
begin

text \<open>
  \<open>internal/configstore/yamlstore.go\<close>: the applications and their metrics as the YAML file gives
  them, and the two watches on it. Reading and unmarshalling the file is done by packages \<open>os\<close>,
  \<open>yaml\<close> and \<open>fsnotify\<close>: what they give is an argument. Spans and log lines are left out.
\<close>

section \<open>The file\<close>

record yamlSLA =
  ys_MaxP99TTFTMs :: int
  ys_MaxP99TPS :: int

record yamlMetrics =
  ym_AvgWaitingQueueDepth :: f64
  ym_MaxWaitingQueueDepth :: f64
  ym_AvgRunningQueueDepth :: f64
  ym_AvgBatchUtilization :: f64
  ym_AvgKVCacheUtilization :: f64
  ym_MaxKVCacheUtilization :: f64
  ym_TotalTokensPerSecond :: f64
  ym_AvgTimeToFirstTokenMs :: f64
  ym_P99TimeToFirstTokenMs :: f64

record yamlApp =
  ya_AppID :: string
  ya_ModelID :: string
  ya_GPUsPerReplica :: int
  ya_Priority :: int
  ya_MinReplicas :: int
  ya_FailureDomainRule :: string
  ya_SLA :: yamlSLA
  ya_Metrics :: yamlMetrics

record yamlFile =
  yf_Applications :: "yamlApp list"

definition empty_yamlFile :: yamlFile where
  "empty_yamlFile = \<lparr>yf_Applications = []\<rparr>"

text \<open>\<open>Unmarshal\<close> fills what it can and may report an error beside it.\<close>

definition readFile :: "'e + 'd \<Rightarrow> ('d \<Rightarrow> yamlFile \<times> 'e option) \<Rightarrow> yamlFile \<times> 'e option" where
  "readFile ReadFile Unmarshal =
     (case ReadFile of Inl e \<Rightarrow> (empty_yamlFile, Some e) | Inr data \<Rightarrow> Unmarshal data)"

definition convertApp :: "yamlApp \<Rightarrow> Application" where
  "convertApp a =
     \<lparr>ap_AppID = ya_AppID a, ap_ModelID = ya_ModelID a, ap_GPUsPerReplica = ya_GPUsPerReplica a,
      ap_Priority = ya_Priority a, ap_MinReplicas = ya_MinReplicas a,
      ap_FailureDomainRule = (if ya_FailureDomainRule a = ''spread_clusters''
        then FailureDomainSpreadClusters else FailureDomainNone),
      ap_SLA = \<lparr>sla_AppID = ya_AppID a, sla_MaxP99TTFTMs = ys_MaxP99TTFTMs (ya_SLA a),
                sla_MaxP99TPS = ys_MaxP99TPS (ya_SLA a)\<rparr>\<rparr>"

definition convertApps :: "yamlFile \<Rightarrow> Application list" where
  "convertApps f = map convertApp (yf_Applications f)"

definition parseFile :: "yamlFile \<times> 'e option \<Rightarrow> 'e + Application list" where
  "parseFile read = (case snd read of Some e \<Rightarrow> Inl e | None \<Rightarrow> Inr (convertApps (fst read)))"

definition ListApplications :: "yamlFile \<times> 'e option \<Rightarrow> 'e + Application list" where
  "ListApplications read = parseFile read"

definition metrics_of :: "time \<Rightarrow> yamlApp \<Rightarrow> VLLMMetrics" where
  "metrics_of now a =
     (let m = ya_Metrics a
      in \<lparr>vm_AppID = ya_AppID a, vm_AggregatedFrom = 0, vm_AvgWaitingQueueDepth = ym_AvgWaitingQueueDepth m,
          vm_MaxWaitingQueueDepth = ym_MaxWaitingQueueDepth m, vm_AvgRunningQueueDepth = ym_AvgRunningQueueDepth m,
          vm_AvgBatchUtilization = ym_AvgBatchUtilization m, vm_AvgKVCacheUtilization = ym_AvgKVCacheUtilization m,
          vm_MaxKVCacheUtilization = ym_MaxKVCacheUtilization m, vm_TotalTokensPerSecond = ym_TotalTokensPerSecond m,
          vm_AvgTimeToFirstTokenMs = ym_AvgTimeToFirstTokenMs m, vm_P99TimeToFirstTokenMs = ym_P99TimeToFirstTokenMs m,
          vm_MeasuredAt = now\<rparr>)"

section \<open>The initial metrics\<close>

text \<open>
  Sending into a channel of some capacity that nobody else has yet: \<open>None\<close> when a send finds the
  buffer full, and so blocks for ever.
\<close>

primrec send_unread :: "nat \<Rightarrow> 'a list \<Rightarrow> 'a list \<Rightarrow> 'a list option" where
  "send_unread cap buf [] = Some buf"
| "send_unread cap buf (x # xs) = (if length buf < cap then send_unread cap (buf @ [x]) xs else None)"

text \<open>
  The metrics the channel of \<open>WatchMetrics\<close> holds when the method returns it, or \<open>None\<close> when it
  does not return.
\<close>

definition WatchMetrics :: "time \<Rightarrow> yamlFile \<times> 'e option \<Rightarrow> VLLMMetrics list option" where
  "WatchMetrics now read =
     (case snd read of
        Some _ \<Rightarrow> Some []
      | None \<Rightarrow> send_unread 16 [] (map (metrics_of now) (yf_Applications (fst read))))"

text \<open>
  The whole start of an ingester whose configuration store this is: \<open>None\<close> when it hangs. The file
  is read twice, by \<open>ListApplications\<close> and again by \<open>WatchMetrics\<close> when the other watches are set up,
  and may have changed in between: \<open>read\<close> and \<open>reread\<close> are what the two found.
\<close>

definition StartIngester ::
  "time \<Rightarrow> yamlFile \<times> 'e option \<Rightarrow> 'e option \<Rightarrow> yamlFile \<times> 'e option \<Rightarrow> ('e start_error option \<times> appRegistry) option" where
  "StartIngester now read WatchEvents reread =
     (case Start (ListApplications read) WatchEvents None None of
        (Some err, reg) \<Rightarrow> Some (Some err, reg)
      | (None, reg) \<Rightarrow> map_option (\<lambda>_. (None, reg)) (WatchMetrics now reread))"

section \<open>The watches\<close>

text \<open>
  The goroutine of \<open>startWatcher\<close> and the callbacks of its timer. The timer is set again by every
  write and never stopped when the goroutine ends. \<open>TimerFires read picks\<close> is a callback that read
  the file as \<open>read\<close>; when the context is done, each of its \<open>select\<close>s may also choose to return,
  and \<open>picks\<close> is the number of sends it chooses before that.
\<close>

record Watcher =
  wt_timer :: bool
  wt_closed :: bool
  wt_done :: bool

datatype 'e watch_input =
  FsEvent bool
| WatcherError
| WatcherClosed
| CtxDone
| TimerFires "yamlFile \<times> 'e option" nat

datatype 'a watch_output = Sends "'a list" | SendOnClosedChannel

definition new_watcher :: Watcher where
  "new_watcher = \<lparr>wt_timer = False, wt_closed = False, wt_done = False\<rparr>"

text \<open>Without a watcher, or where the file cannot be watched, nothing will ever be sent, and that is no error.\<close>

definition startWatcher :: "'x option \<Rightarrow> 'x option \<Rightarrow> Watcher option" where
  "startWatcher newErr addErr =
     (case newErr of
        Some _ \<Rightarrow> None
      | None \<Rightarrow> (case addErr of Some _ \<Rightarrow> None | None \<Rightarrow> Some new_watcher))"

text \<open>What the channel of \<open>WatchApplications\<close> holds when the method returns it, and the watcher behind it.\<close>

definition WatchApplications :: "'x option \<Rightarrow> 'x option \<Rightarrow> 'y + Application list \<times> Watcher option" where
  "WatchApplications newErr addErr = Inr ([], startWatcher newErr addErr)"

definition deliver :: "Watcher \<Rightarrow> nat \<Rightarrow> 'a list \<Rightarrow> 'a watch_output" where
  "deliver w picks items =
     (let tried = (if wt_done w then take picks items else items)
      in if wt_closed w \<and> tried \<noteq> [] then SendOnClosedChannel else Sends tried)"

definition watch_step :: "(yamlFile \<Rightarrow> 'a list) \<Rightarrow> 'e watch_input \<Rightarrow> Watcher \<Rightarrow> Watcher \<times> 'a watch_output" where
  "watch_step onUpdate i w =
     (case i of
        FsEvent writes \<Rightarrow> (if writes \<and> \<not> wt_closed w then w\<lparr>wt_timer := True\<rparr> else w, Sends [])
      | WatcherError \<Rightarrow> (w, Sends [])
      | WatcherClosed \<Rightarrow> (w\<lparr>wt_closed := True\<rparr>, Sends [])
      | CtxDone \<Rightarrow> (w\<lparr>wt_closed := True, wt_done := True\<rparr>, Sends [])
      | TimerFires read picks \<Rightarrow>
          (if wt_timer w
           then (w\<lparr>wt_timer := False\<rparr>,
                 case snd read of Some _ \<Rightarrow> Sends [] | None \<Rightarrow> deliver w picks (onUpdate (fst read)))
           else (w, Sends [])))"

primrec watch_run :: "(yamlFile \<Rightarrow> 'a list) \<Rightarrow> 'e watch_input list \<Rightarrow> Watcher \<Rightarrow> Watcher \<times> 'a watch_output list" where
  "watch_run onUpdate [] w = (w, [])"
| "watch_run onUpdate (i # is) w =
     (let (w1, out) = watch_step onUpdate i w; (w2, outs) = watch_run onUpdate is w1 in (w2, out # outs))"

text \<open>The updates of \<open>WatchApplications\<close> are \<open>convertApps\<close>, those of \<open>WatchMetrics\<close> are \<open>metrics_of\<close>.\<close>

definition app_updates :: "yamlFile \<Rightarrow> Application list" where
  "app_updates f = convertApps f"

definition metrics_updates :: "time \<Rightarrow> yamlFile \<Rightarrow> VLLMMetrics list" where
  "metrics_updates now f = map (metrics_of now) (yf_Applications f)"

section \<open>Lemmas\<close>

lemma send_unread_iff:
  "send_unread cap buf xs = (if length buf + length xs \<le> cap \<or> xs = [] then Some (buf @ xs) else None)"
  by (induction xs arbitrary: buf) auto

text \<open>A timer left running can send on the closed channel: the program panics while it shuts down.\<close>

lemma shutdown_can_panic:
  "yf_Applications f \<noteq> [] \<Longrightarrow>
     last (snd (watch_run app_updates [FsEvent True, CtxDone, TimerFires (f, None) 1] new_watcher)) = SendOnClosedChannel"
  by (cases "yf_Applications f")
    (simp_all add: watch_step_def new_watcher_def deliver_def app_updates_def convertApps_def)

text \<open>While it runs, a burst of writes is answered by the one file that is read after it.\<close>

lemma burst_is_read_once:
  assumes "\<forall>i \<in> set is. i = FsEvent True \<or> i = FsEvent False \<or> i = WatcherError" and "FsEvent True \<in> set is"
  shows "snd (watch_run onUpdate (is @ [TimerFires (f, None) k]) new_watcher)
    = replicate (length is) (Sends []) @ [Sends (onUpdate f)]"
proof -
  have "\<not> wt_closed w \<Longrightarrow> \<not> wt_done w \<Longrightarrow> wt_timer w \<or> FsEvent True \<in> set is \<Longrightarrow>
      snd (watch_run onUpdate (is @ [TimerFires (f, None) k]) w)
        = replicate (length is) (Sends []) @ [Sends (onUpdate f)]" for w
    using assms(1)
  proof (induction "is" arbitrary: w)
    case Nil
    then show ?case by (simp add: watch_step_def deliver_def)
  next
    case (Cons i "is")
    have out: "snd (watch_step onUpdate i w) = Sends []"
      using Cons.prems(4) by (auto simp: watch_step_def)
    have w1: "\<not> wt_closed (fst (watch_step onUpdate i w))" "\<not> wt_done (fst (watch_step onUpdate i w))"
      "wt_timer (fst (watch_step onUpdate i w)) \<or> FsEvent True \<in> set is"
      using Cons.prems by (auto simp: watch_step_def)
    show ?case using Cons.IH [OF w1] Cons.prems(4) out
      by (simp add: split_beta Let_def)
  qed
  then show ?thesis using assms(2) by (simp add: new_watcher_def)
qed

section \<open>Polled metrics\<close>

text \<open>
  The aggregator's poll, which finds zeros for every application, goes over the same world state
  as the metrics of the file.
\<close>

definition polled_metrics :: "time \<Rightarrow> AppID \<Rightarrow> VLLMMetrics" where
  "polled_metrics now a = projr (GetVLLMMetrics now a :: unit + VLLMMetrics)"

lemma GetVLLMMetrics_polled: "GetVLLMMetrics now a = Inr (polled_metrics now a)"
  by (simp add: polled_metrics_def GetVLLMMetrics_def)

lemma applyEvents_append: "applyEvents (xs @ ys) ws = applyEvents ys (applyEvents xs ws)"
  by (simp add: applyEvents_def)

lemma applyEvents_breaches: "applyEvents (checkSLABreach now app m) ws = ws"
  by (simp add: checkSLABreach_def applyEvents_def applyEvent_def event_def)

lemma doPollMetrics_table:
  assumes "\<forall>(k, app) \<in> set reg. ap_AppID app = k"
  shows "gget (ws_vllmMetrics (applyEvents (doPollMetrics od now (GetVLLMMetrics now) reg) ws)) a =
    (if a \<in> fst ` set reg then Some (polled_metrics now a) else gget (ws_vllmMetrics ws) a)"
proof -
  let ?ev = "\<lambda>app. (event EventMetricsUpdate (vm_MeasuredAt (polled_metrics now (ap_AppID app))))
      \<lparr>ev_AppID := ap_AppID app, ev_VLLMMetrics := Some (polled_metrics now (ap_AppID app))\<rparr>
    # checkSLABreach now app (polled_metrics now (ap_AppID app))"
  let ?poll = "\<lambda>(k :: AppID, app). ?ev app"
  have id: "vm_AppID (polled_metrics now b) = b" for b by (simp add: polled_metrics_def GetVLLMMetrics_def)
  have one: "applyEvents (?ev app) ws = UpdateVLLMMetrics (polled_metrics now (ap_AppID app)) ws" for app ws
    using applyEvents_breaches by (simp add: applyEvents_def applyEvent_def event_def)
  have "\<forall>(k, app) \<in> set ps. ap_AppID app = k \<Longrightarrow>
      gget (ws_vllmMetrics (applyEvents (concat (map ?poll ps)) ws)) a
        = (if a \<in> fst ` set ps then Some (polled_metrics now a) else gget (ws_vllmMetrics ws) a)" for ps
  proof (induction ps rule: rev_induct)
    case (snoc p ps)
    then show ?case
      by (cases p) (simp add: applyEvents_append one UpdateVLLMMetrics_def id)
  qed (simp add: applyEvents_def)
  from this [of "range_order od reg"] assms show ?thesis
    by (simp add: doPollMetrics_def GetVLLMMetrics_polled)
qed

text \<open>
  Whatever the file says, after the next poll the scheduler sees an idle application; and one with a
  limit on its throughput is reported in breach of it at every poll.
\<close>

lemma poll_erases_configured_metrics:
  assumes "\<forall>(k, app) \<in> set reg. ap_AppID app = k" and "(ya_AppID a, app) \<in> set reg"
  shows "gget (ws_vllmMetrics (applyEvents (listenMetricsConfig t reg (metrics_of t a)
      @ doPollMetrics od now (GetVLLMMetrics now) reg) ws)) (ya_AppID a) = Some (polled_metrics now (ya_AppID a))"
    and "vm_AvgWaitingQueueDepth (polled_metrics now b) = f_zero"
proof -
  have "ya_AppID a \<in> fst ` set reg" using assms(2) by force
  then show "gget (ws_vllmMetrics (applyEvents (listenMetricsConfig t reg (metrics_of t a)
      @ doPollMetrics od now (GetVLLMMetrics now) reg) ws)) (ya_AppID a) = Some (polled_metrics now (ya_AppID a))"
    by (simp add: applyEvents_append doPollMetrics_table [OF assms(1)])
  show "vm_AvgWaitingQueueDepth (polled_metrics now b) = f_zero" by (simp add: polled_metrics_def GetVLLMMetrics_def)
qed

section \<open>Properties\<close>

text \<open>C40: The program cannot start with more than sixteen applications: the initial metrics are sent into a
  channel of sixteen places before anybody can read it, so the start of the ingester, and with it
  the control loop, hangs for ever exactly when the file can be read both times, the other watches
  can be set up and it lists more the second time; otherwise the channel holds the metrics of
  every application in order.\<close>

theorem start_hangs_beyond_sixteen_applications:
  "(StartIngester now read watch reread = None \<longleftrightarrow>
      snd read = None \<and> watch = None \<and> snd reread = None \<and> 16 < length (yf_Applications (fst reread)))
   \<and> WatchMetrics now reread = (if snd reread \<noteq> None then Some []
       else if 16 < length (yf_Applications (fst reread)) then None
       else Some (map (metrics_of now) (yf_Applications (fst reread))))"
proof -
  have w: "WatchMetrics now reread = (if snd reread \<noteq> None then Some []
       else if 16 < length (yf_Applications (fst reread)) then None
       else Some (map (metrics_of now) (yf_Applications (fst reread))))"
    by (auto simp: WatchMetrics_def send_unread_iff split: option.split)
  then show ?thesis
    by (auto simp: StartIngester_def Start_def ListApplications_def parseFile_def split: option.split)
qed

end
