(* ===== verification/Program.thy ===== *)
theory Program
  imports ApiServer Startup ConfigStore
begin

text \<open>
  \<open>cmd/schedulator/main.go\<close>: the clusters found in the environment, how \<open>run\<close> puts the parts of the
  program together, what they then do to the state they share, and when \<open>run\<close> returns.
\<close>

section \<open>Environment variables\<close>

text \<open>\<open>os.Environ\<close> is a list of texts \<open>key=value\<close>; \<open>os.Getenv\<close> is empty for an unset variable.\<close>

definition Getenv :: "string list \<Rightarrow> string \<Rightarrow> string" where
  "Getenv environ key =
     (case find (\<lambda>s. HasPrefix s (key @ ''='')) environ of None \<Rightarrow> '''' | Some s \<Rightarrow> TrimPrefix s (key @ ''=''))"

definition env_or :: "string list \<Rightarrow> string \<Rightarrow> string \<Rightarrow> string" where
  "env_or environ key fallback = (let v = Getenv environ key in if v = '''' then fallback else v)"

record TracingConfig =
  tc_ServiceName :: string
  tc_Environment :: string
  tc_OTLPEndpoint :: string
  tc_Enabled :: bool
  tc_Stdout :: bool
  tc_SamplingRatio :: f64

text \<open>\<open>ParseFloat\<close> is \<open>strconv.ParseFloat\<close>, its error \<open>None\<close>.\<close>

definition tracing_config :: "(string \<Rightarrow> f64 option) \<Rightarrow> string list \<Rightarrow> TracingConfig" where
  "tracing_config ParseFloat environ =
     (let otlpEndpoint = Getenv environ ''OTEL_EXPORTER_OTLP_ENDPOINT'';
          environment = env_or environ ''APP_ENV'' ''development'';
          ratioStr = Getenv environ ''OTEL_SAMPLING_RATIO'';
          samplingRatio = (if ratioStr \<noteq> '''' then (case ParseFloat ratioStr of Some r \<Rightarrow> r | None \<Rightarrow> Fin 1) else Fin 1)
      in \<lparr>tc_ServiceName = ''schedulator'', tc_Environment = environment, tc_OTLPEndpoint = otlpEndpoint,
          tc_Enabled = (otlpEndpoint \<noteq> '''' \<or> Getenv environ ''OTEL_STDOUT'' = ''true''),
          tc_Stdout = (Getenv environ ''OTEL_STDOUT'' = ''true''), tc_SamplingRatio = samplingRatio\<rparr>)"

section \<open>Clusters from the environment\<close>

record 'k ClusterConfig =
  cc_ClusterID :: ClusterID
  cc_Clientset :: 'k
  cc_Namespace :: string

text \<open>The identifier and the path a variable names, if it names a cluster.\<close>

definition cluster_var :: "string \<Rightarrow> (ClusterID \<times> string) option" where
  "cluster_var env =
     (if \<not> HasPrefix env ''KUBECONFIG_'' then None
      else case SplitN2 env (CHR ''='') of
             [name, path] \<Rightarrow> Some (ToLower (ReplaceAll (TrimPrefix name ''KUBECONFIG_'') (CHR ''_'') (CHR ''-'')), path)
           | _ \<Rightarrow> None)"

datatype 'x client_error =
  BuildConfigError ClusterID string 'x
| NewForConfigError ClusterID 'x
| MetricsPanic ClusterID

text \<open>
  Reading a configuration file and making a client set from it are client-go's. \<open>registers\<close> says
  whether Prometheus takes the metrics of a client under a prefix and a cluster label, given the
  clusters whose metrics it has: it refuses duplicates and invalid names, and then \<open>MustRegister\<close>
  panics.
\<close>

definition metrics_prefix :: "ClusterID \<Rightarrow> string" where
  "metrics_prefix cid = ''cluster_'' @ ReplaceAll cid (CHR ''-'') (CHR ''_'') @ ''_''"

fun build_clients ::
  "(string \<Rightarrow> 'x + 'f) \<Rightarrow> ('f \<Rightarrow> 'x + 'k) \<Rightarrow> (ClusterID list \<Rightarrow> string \<Rightarrow> ClusterID \<Rightarrow> bool) \<Rightarrow> string \<Rightarrow> string list
     \<Rightarrow> 'k ClusterConfig list \<times> (ClusterID, 'k \<times> Client) gomap
     \<Rightarrow> 'x client_error + 'k ClusterConfig list \<times> (ClusterID, 'k \<times> Client) gomap" where
  "build_clients BuildConfig NewForConfig registers namespace [] st = Inr st"
| "build_clients BuildConfig NewForConfig registers namespace (env # envs) (aggConfigs, clusterClients) =
     (case cluster_var env of
        None \<Rightarrow> build_clients BuildConfig NewForConfig registers namespace envs (aggConfigs, clusterClients)
      | Some (clusterID, path) \<Rightarrow>
          (case BuildConfig path of
             Inl e \<Rightarrow> Inl (BuildConfigError clusterID path e)
           | Inr config \<Rightarrow>
               (case NewForConfig config of
                  Inl e \<Rightarrow> Inl (NewForConfigError clusterID e)
                | Inr clientset \<Rightarrow>
                    if \<not> registers (map cc_ClusterID aggConfigs) (metrics_prefix clusterID) clusterID
                    then Inl (MetricsPanic clusterID)
                    else build_clients BuildConfig NewForConfig registers namespace envs
                           (aggConfigs @ [\<lparr>cc_ClusterID = clusterID, cc_Clientset = clientset, cc_Namespace = namespace\<rparr>],
                            gput clusterID (clientset, NewClient namespace clusterID) clusterClients))))"

definition buildClusterClients ::
  "(string \<Rightarrow> 'x + 'f) \<Rightarrow> ('f \<Rightarrow> 'x + 'k) \<Rightarrow> (ClusterID list \<Rightarrow> string \<Rightarrow> ClusterID \<Rightarrow> bool) \<Rightarrow> string list
     \<Rightarrow> 'x client_error + 'k ClusterConfig list \<times> (ClusterID, 'k \<times> Client) gomap" where
  "buildClusterClients BuildConfig NewForConfig registers environ =
     build_clients BuildConfig NewForConfig registers (env_or environ ''SCHEDULATOR_NAMESPACE'' ''default'') environ ([], [])"

text \<open>\<open>k8saggregator.New\<close>: the watched clusters with their client sets and namespaces.\<close>

definition NewAggregator :: "'k ClusterConfig list \<Rightarrow> (ClusterID, 'k \<times> string) gomap" where
  "NewAggregator configs = fold (\<lambda>cfg m. gput (cc_ClusterID cfg) (cc_Clientset cfg, cc_Namespace cfg) m) configs []"

section \<open>The parts that \<open>run\<close> creates\<close>

text \<open>The state the parts share, and the numbers of the event streams that are open.\<close>

record Program =
  pg_world :: WorldState
  pg_store :: Store
  pg_bus :: "EventData EventBus"
  pg_streams :: "nat list"

definition program_loop :: "'e ControlLoop" where
  "program_loop =
     \<lparr>lc_scaling = DefaultScalingConfig, lc_placement = DefaultPlacementConfig,
      lc_finder = Some (\<lambda>od app snap. Inr (FindPreemptionOpportunity DefaultPreemptionConfig od app snap)),
      lc_rebalancing = DefaultRebalancingConfig, lc_executor = DefaultExecutorConfig\<rparr>"

text \<open>
  What \<open>run\<close> meets: the environment, the answers of the libraries and of the clusters' API servers,
  the files under their paths, the clock and the zone.
\<close>

record ('x, 'q, 'f, 'k) Outside =
  ou_Environ :: "string list"
  ou_ParseFloat :: "string \<Rightarrow> f64 option"
  ou_RegisterBuildInfo :: "'x option"
  ou_NewTracerProvider :: "TracingConfig \<Rightarrow> 'x option"
  ou_BuildConfig :: "string \<Rightarrow> 'x + 'f"
  ou_NewForConfig :: "'f \<Rightarrow> 'x + 'k"
  ou_registers :: "ClusterID list \<Rightarrow> string \<Rightarrow> ClusterID \<Rightarrow> bool"
  ou_quantities :: "'q quantities"
  ou_listing :: "'k \<Rightarrow> string \<Rightarrow> ('q, 'x) listing"
  ou_readFile :: "string \<Rightarrow> yamlFile \<times> 'x option"
  ou_openDB :: "string \<Rightarrow> 'x option"
  ou_disk :: "string \<Rightarrow> Store"
  ou_od :: orders
  ou_now :: time
  ou_zone :: int

datatype 'x run_error =
  BuildInfoError 'x
| TracerError 'x
| ClusterClientsError "'x client_error"
| EventLogError 'x
| ShutdownError 'x
| ServeError 'x

text \<open>
  The first part of \<open>run\<close>: an error ends it, but a failed listing or an unreadable list of
  applications only leaves the world state emptier.
\<close>

definition start_program :: "('x, 'q, 'f, 'k) Outside \<Rightarrow> 'x run_error + Program" where
  "start_program ou =
     (let environ = ou_Environ ou
      in case ou_RegisterBuildInfo ou of Some e \<Rightarrow> Inl (BuildInfoError e) | None \<Rightarrow>
        (case ou_NewTracerProvider ou (tracing_config (ou_ParseFloat ou) environ) of Some e \<Rightarrow> Inl (TracerError e) | None \<Rightarrow>
        (case buildClusterClients (ou_BuildConfig ou) (ou_NewForConfig ou) (ou_registers ou) environ of
           Inl e \<Rightarrow> Inl (ClusterClientsError e)
         | Inr (clusterConfigs, clusterClients) \<Rightarrow>
             (let aggregator = NewAggregator clusterConfigs;
                  sync = FullSync (sub (ou_od ou) 0) (ou_quantities ou)
                           (map (\<lambda>(cid, clientset, namespace). (cid, ou_listing ou clientset namespace)) aggregator);
                  apps = ListApplications (ou_readFile ou (env_or environ ''APPS_CONFIG'' ''deploy/kind/apps.yaml''));
                  dbPath = env_or environ ''DB_PATH'' ''schedulator.db''
              in case NewStore (ou_openDB ou dbPath) (ou_zone ou) (ou_now ou) (ou_disk ou dbPath) of
                   Inl e \<Rightarrow> Inl (EventLogError e)
                 | Inr st \<Rightarrow> Inr \<lparr>pg_world = seed_world (sub (ou_od ou) 1) sync apps, pg_store = st,
                                 pg_bus = NewEventBus, pg_streams = []\<rparr>))))"

section \<open>The leader\<close>

text \<open>\<open>leaderelect.AlwaysLeader\<close>, the elector \<open>run\<close> gives the control loop; a callback is a change of some state.\<close>

definition IsLeader :: bool where
  "IsLeader = True"

definition OnElected :: "('s \<Rightarrow> 's) \<Rightarrow> 's \<Rightarrow> 's" where
  "OnElected callback = callback"

definition OnLost :: "('s \<Rightarrow> 's) \<Rightarrow> 's \<Rightarrow> 's" where
  "OnLost callback = id"

lemma every_batch_is_a_cycle: "loop_step cl (Batch events IsLeader env) ws = snd (runCycle cl env events ws)"
  by (simp add: loop_step_def IsLeader_def)

section \<open>What the parts do to the shared state\<close>

text \<open>The publisher of the control loop is the event bus of the API server.\<close>

definition PublishCycleSummary :: "nat list \<Rightarrow> time \<Rightarrow> CycleSummary \<Rightarrow> EventData EventBus \<Rightarrow> EventData EventBus option" where
  "PublishCycleSummary choices now summary bus =
     Publish choices \<lparr>be_Type = ''cycle_summary'', be_Timestamp = now, be_Data = SummaryData summary\<rparr> bus"

text \<open>What publishing and logging meet: the clock of each, the texts of errors, JSON, the database.\<close>

record 'e ReportEnv =
  rv_choices :: "nat list"
  rv_published :: time
  rv_logged :: time
  rv_err_text :: "'e op_error \<Rightarrow> string"
  rv_marshal :: "CycleSummary \<Rightarrow> string"
  rv_dbErr :: "nat \<Rightarrow> string option"

definition log_all :: "(nat \<Rightarrow> string option) \<Rightarrow> int \<Rightarrow> EventRecord list \<Rightarrow> Store \<Rightarrow> Store" where
  "log_all dbErr zone recs st = fold (\<lambda>(i, r) st. snd (LogEvent (dbErr i) zone r st)) (enumerate 0 recs) st"

definition publishAndLog ::
  "'e ReportEnv \<Rightarrow> int \<Rightarrow> CycleSummary \<times> EventRecord list \<Rightarrow> Program \<Rightarrow> Program option" where
  "publishAndLog rv zone report pg =
     (case PublishCycleSummary (rv_choices rv) (rv_published rv) (fst report) (pg_bus pg) of
        None \<Rightarrow> None
      | Some bus \<Rightarrow> Some (pg\<lparr>pg_bus := bus, pg_store := log_all (rv_dbErr rv) zone (snd report) (pg_store pg)\<rparr>))"

text \<open>
  The steps of the running program: a batch that reaches the control loop (cycles publish and log
  what they did), the ticks of the two goroutines with timers, and the clients of the event
  stream. Each works on its part of the state under that part's lock.
\<close>

datatype 'e program_input =
  CycleBatch "Event list" bool "'e CycleEnv" "'e ReportEnv"
| ExpirySweep time
| SnapshotTick "string option" orders "nat list" time time
| StreamOpens
| StreamReads nat
| StreamEnds nat

definition program_step :: "'e ControlLoop \<Rightarrow> int \<Rightarrow> 'e program_input \<Rightarrow> Program \<Rightarrow> Program option" where
  "program_step cl zone i pg =
     (case i of
        CycleBatch events isLeader env rv \<Rightarrow>
          (let pg' = pg\<lparr>pg_world := loop_step cl (Batch events isLeader env) (pg_world pg)\<rparr>
           in if \<not> isLeader then Some pg'
              else case fst (runCycle cl env events (pg_world pg)) of
                     Inl _ \<Rightarrow> Some pg'
                   | Inr _ \<Rightarrow> publishAndLog rv zone
                       (cycle_report cl env (rv_err_text rv) (rv_marshal rv) (rv_logged rv) events (pg_world pg)) pg')
      | ExpirySweep now \<Rightarrow> Some (pg\<lparr>pg_world := loop_step cl (ExpiryTick now) (pg_world pg)\<rparr>)
      | SnapshotTick dbErr od choices taken now \<Rightarrow>
          (case PublishWorldStateSnapshot dbErr zone od choices taken now (pg_world pg) (pg_store pg) (pg_bus pg) of
             (_, None) \<Rightarrow> None
           | (st, Some bus) \<Rightarrow> Some (pg\<lparr>pg_store := st, pg_bus := bus\<rparr>))
      | StreamOpens \<Rightarrow>
          (let (sid, bus) = Subscribe (pg_bus pg) in Some (pg\<lparr>pg_bus := bus, pg_streams := pg_streams pg @ [sid]\<rparr>))
      | StreamReads sid \<Rightarrow>
          Some (if sid \<in> set (pg_streams pg) then pg\<lparr>pg_bus := snd (receive_from sid (pg_bus pg))\<rparr> else pg)
      | StreamEnds sid \<Rightarrow>
          (if sid \<in> set (pg_streams pg)
           then map_option (\<lambda>bus. pg\<lparr>pg_bus := bus, pg_streams := removeAll sid (pg_streams pg)\<rparr>) (Unsubscribe sid (pg_bus pg))
           else Some pg))"

primrec program_run :: "'e ControlLoop \<Rightarrow> int \<Rightarrow> 'e program_input list \<Rightarrow> Program \<Rightarrow> Program option" where
  "program_run cl zone [] pg = Some pg"
| "program_run cl zone (i # ins) pg = (case program_step cl zone i pg of None \<Rightarrow> None | Some pg' \<Rightarrow> program_run cl zone ins pg')"

section \<open>The end of \<open>run\<close>\<close>

text \<open>
  What \<open>run\<close> waits for once everything is started: the signal that ends its context, and the ends
  of the goroutines of the control loop and the HTTP server, each with its error.
\<close>

datatype 'x run_input = Signal | LoopEnds "'x option" | ServerEnds "'x option"

record 'x Waiting =
  wa_signal :: bool
  wa_loop :: bool
  wa_server :: "'x option option"

definition waiting :: "'x Waiting" where
  "waiting = \<lparr>wa_signal = False, wa_loop = False, wa_server = None\<rparr>"

definition wait_step :: "'x run_input \<Rightarrow> 'x Waiting \<Rightarrow> 'x Waiting" where
  "wait_step i w =
     (case i of
        Signal \<Rightarrow> w\<lparr>wa_signal := True\<rparr>
      | LoopEnds _ \<Rightarrow> w\<lparr>wa_loop := True\<rparr>
      | ServerEnds e \<Rightarrow> w\<lparr>wa_server := Some e\<rparr>)"

text \<open>
  After the signal \<open>Shutdown\<close> is called; its error is returned at once, and otherwise \<open>run\<close>
  receives from both channels. \<open>None\<close> is that \<open>run\<close> does not return.
\<close>

definition run_returns :: "'x option \<Rightarrow> 'x Waiting \<Rightarrow> 'x run_error option option" where
  "run_returns shutdownErr w =
     (if \<not> wa_signal w then None
      else case shutdownErr of
             Some e \<Rightarrow> Some (Some (ShutdownError e))
           | None \<Rightarrow> if wa_loop w then map_option (map_option ServeError) (wa_server w) else None)"

definition run_end :: "'x option \<Rightarrow> 'x run_input list \<Rightarrow> 'x run_error option option" where
  "run_end shutdownErr ins = run_returns shutdownErr (fold wait_step ins waiting)"

text \<open>
  \<open>main\<close> runs it on the port of the environment. The status the process ends with: \<open>log.Fatalf\<close> ends it
  with 1, and \<open>None\<close> is that it goes on.
\<close>

definition listen_addr :: "string list \<Rightarrow> string" where
  "listen_addr environ = '':'' @ env_or environ ''PORT'' ''8080''"

definition main_exit :: "(string \<Rightarrow> 'x run_error option option) \<Rightarrow> string list \<Rightarrow> nat option" where
  "main_exit run environ =
     (case run (listen_addr environ) of
        None \<Rightarrow> None
      | Some err \<Rightarrow> Some (if err \<noteq> None then 1 else 0))"

section \<open>Lemmas\<close>

text \<open>The clusters that are watched are those that operations find a client for, on the same client set.\<close>

lemma build_clients_agree:
  assumes "build_clients BuildConfig NewForConfig registers ns envs (configs0, clients0) = Inr (configs, clients)"
    and "\<And>cid. gget clients0 cid = map_option (\<lambda>(cs, n). (cs, NewClient n cid)) (gget (NewAggregator configs0) cid)"
  shows "gget clients cid = map_option (\<lambda>(cs, n). (cs, NewClient n cid)) (gget (NewAggregator configs) cid)"
  using assms
proof (induction BuildConfig NewForConfig registers ns envs "(configs0, clients0)" arbitrary: configs0 clients0 rule: build_clients.induct)
  case (2 BuildConfig NewForConfig registers ns env envs configs0 clients0)
  show ?case
  proof (cases "cluster_var env")
    case None
    then show ?thesis using 2 by simp
  next
    case (Some p)
    obtain i path where p: "p = (i, path)" by fastforce
    obtain config clientset where c: "BuildConfig path = Inr config" "NewForConfig config = Inr clientset"
        "registers (map cc_ClusterID configs0) (metrics_prefix i) i"
      using "2.prems"(1) Some p by (auto split: sum.splits if_splits)
    let ?st = "(configs0 @ [\<lparr>cc_ClusterID = i, cc_Clientset = clientset, cc_Namespace = ns\<rparr>],
      gput i (clientset, NewClient ns i) clients0)"
    have "build_clients BuildConfig NewForConfig registers ns envs ?st = Inr (configs, clients)"
      using "2.prems"(1) Some p c by simp
    moreover have "gget (snd ?st) j = map_option (\<lambda>(cs, n). (cs, NewClient n j)) (gget (NewAggregator (fst ?st)) j)" for j
      using "2.prems"(2) [of j] by (simp add: NewAggregator_def)
    ultimately show ?thesis using "2.hyps"(2) [OF Some p [symmetric] c(1,2)] c(3) by simp
  qed
qed simp

lemma watched_clusters_have_clients:
  "buildClusterClients BuildConfig NewForConfig registers environ = Inr (configs, clients) \<Longrightarrow>
     gget clients cid = map_option (\<lambda>(cs, n). (cs, NewClient n cid)) (gget (NewAggregator configs) cid)"
  unfolding buildClusterClients_def by (erule build_clients_agree) (simp add: NewAggregator_def)

text \<open>Two variables whose names differ only in case or between \<open>_\<close> and \<open>-\<close> name the same cluster.\<close>

lemma cluster_names_collide:
  "cluster_var ''KUBECONFIG_EU_WEST=/a'' = Some (''eu-west'', ''/a'')"
  "cluster_var ''KUBECONFIG_eu_west=/b'' = Some (''eu-west'', ''/b'')"
  by code_simp+

section \<open>Invariants of the running program\<close>

lemma seed_world_wf:
  assumes "\<And>cs rs. sync = Inr (cs, rs) \<Longrightarrow> \<forall>c \<in> set cs. wf_cluster c"
  shows "ws_wf (seed_world od sync apps)"
proof -
  have step: "ws_wf ws \<Longrightarrow> ws_wf (UpsertReplica r ws)" "ws_wf ws \<Longrightarrow> ws_wf (UpsertApplication a ws)"
      "ws_wf ws \<Longrightarrow> ws_wf (UpsertNode n ws)" "ws_wf ws \<Longrightarrow> wf_cluster c \<Longrightarrow> ws_wf (UpsertCluster c ws)" for r a n c ws
    using ws_step_wf [of ws "CallUpsertReplica r"] ws_step_wf [of ws "CallUpsertApplication a"]
      ws_step_wf [of ws "CallUpsertNode n"] ws_step_wf [of ws "CallUpsertCluster c"] by (simp_all add: wf_call_def)
  have folds: "ws_wf ws \<Longrightarrow> ws_wf (fold UpsertReplica rs ws)" "ws_wf ws \<Longrightarrow> ws_wf (fold UpsertApplication as ws)"
      "ws_wf ws \<Longrightarrow> ws_wf (fold (\<lambda>(_ :: NodeID, n). UpsertNode n) ps ws)" for rs as ps ws
    by (induction rs arbitrary: ws, simp_all add: step, induction as arbitrary: ws, simp_all add: step,
      induction ps arbitrary: ws, auto simp: step)
  have "\<forall>c \<in> set cs. wf_cluster c \<Longrightarrow> ws_wf ws \<Longrightarrow> ws_wf (fold (\<lambda>(i, c). seed_cluster (sub od i) c) (enumerate k cs) ws)" for cs k ws
    by (induction cs arbitrary: k ws) (simp_all add: seed_cluster_def folds step)
  then have "ws_wf (seed_sync od sync New)"
    using assms by (auto simp: seed_sync_def folds ws_wf_New split: sum.split)
  then show ?thesis by (simp add: seed_world_def seed_apps_def folds split: sum.split)
qed

lemma FullSync_wf: "FullSync od q clusters = Inr (cs, rs) \<Longrightarrow> c \<in> set cs \<Longrightarrow> wf_cluster c"
  using sync_all_ok [of q "range_order od clusters" cs rs] unfolding FullSync_def by (auto simp: listed_wf)

definition program_ok :: "Program \<Rightarrow> bool" where
  "program_ok pg \<longleftrightarrow> ws_wf (pg_world pg) \<and> store_ok (pg_store pg) \<and> bus_ok (pg_bus pg)
     \<and> set (pg_streams pg) = set (eb_subscribers (pg_bus pg))"

lemma new_bus_subscribers: "eb_subscribers NewEventBus = []"
  by (simp add: NewEventBus_def)

lemma start_program_ok:
  assumes "start_program ou = Inr pg" and "\<And>path. store_ok (ou_disk ou path)"
  shows "program_ok pg"
  using assms
  by (auto simp: start_program_def program_ok_def NewStore_def store_ok_prune bus_ok_New new_bus_subscribers Let_def
      intro!: seed_world_wf dest: FullSync_wf split: option.splits sum.splits)

lemma store_ok_log_all: "store_ok st \<Longrightarrow> store_ok (log_all dbErr zone recs st)"
proof -
  have "store_ok st \<Longrightarrow> store_ok (fold (\<lambda>(i, r) st. snd (LogEvent (dbErr i) zone r st)) (enumerate k recs) st)" for k
    by (induction recs arbitrary: st k) (simp_all add: store_ok_LogEvent)
  then show "store_ok st \<Longrightarrow> ?thesis" by (simp add: log_all_def)
qed

lemma Publish_ok:
  assumes "bus_ok eb"
  obtains eb' where "Publish choices e eb = Some eb'" and "bus_ok eb'" and "eb_subscribers eb' = eb_subscribers eb"
  using Publish_eq [OF assms] bus_ok_Publish [OF assms] by fastforce

lemma Unsubscribe_ok:
  assumes "bus_ok eb" and "sid \<in> set (eb_subscribers eb)"
  obtains eb' where "Unsubscribe sid eb = Some eb'" and "bus_ok eb'" and "eb_subscribers eb' = removeAll sid (eb_subscribers eb)"
proof -
  have "\<not> ch_closed (eb_chans eb sid)" using assms by (simp add: bus_ok_def)
  then have "Unsubscribe sid eb = Some (eb\<lparr>eb_subscribers := removeAll sid (eb_subscribers eb),
      eb_chans := (eb_chans eb)(sid := (eb_chans eb sid)\<lparr>ch_closed := True\<rparr>)\<rparr>)"
    by (simp add: Unsubscribe_def Let_def)
  then show ?thesis using that bus_ok_Unsubscribe [OF assms(1)] by simp
qed

lemma publishAndLog_ok:
  assumes "program_ok pg"
  shows "\<exists>pg'. publishAndLog rv zone report pg = Some pg' \<and> program_ok pg'"
proof -
  have "bus_ok (pg_bus pg)" using assms by (simp add: program_ok_def)
  then obtain bus where "PublishCycleSummary (rv_choices rv) (rv_published rv) (fst report) (pg_bus pg) = Some bus"
    and "bus_ok bus" "eb_subscribers bus = eb_subscribers (pg_bus pg)" unfolding PublishCycleSummary_def by (rule Publish_ok)
  then show ?thesis using assms by (simp add: publishAndLog_def program_ok_def store_ok_log_all)
qed

lemma publish_snapshot_ok:
  assumes "program_ok pg"
  shows "\<exists>pg'. (case PublishWorldStateSnapshot dbErr zone od choices taken now (pg_world pg) (pg_store pg) (pg_bus pg) of
      (_, None) \<Rightarrow> None | (st, Some bus) \<Rightarrow> Some (pg\<lparr>pg_store := st, pg_bus := bus\<rparr>)) = Some pg' \<and> program_ok pg'"
proof -
  have "bus_ok (pg_bus pg)" using assms by (simp add: program_ok_def)
  then obtain bus where "Publish choices \<lparr>be_Type = ''state_update'', be_Timestamp = now,
      be_Data = StateData (Snapshot (sub od 0) taken (pg_world pg))\<rparr> (pg_bus pg) = Some bus"
    and "bus_ok bus" "eb_subscribers bus = eb_subscribers (pg_bus pg)" by (rule Publish_ok)
  then show ?thesis
    using assms by (simp add: PublishWorldStateSnapshot_def Let_def program_ok_def store_ok_LogStateSnapshot)
qed

lemma program_step_ok:
  assumes "program_ok pg"
  shows "\<exists>pg'. program_step cl zone i pg = Some pg' \<and> program_ok pg'"
proof -
  have w: "ws_wf (pg_world pg)" and s: "store_ok (pg_store pg)" and b: "bus_ok (pg_bus pg)"
    and subs: "set (pg_streams pg) = set (eb_subscribers (pg_bus pg))"
    using assms by (simp_all add: program_ok_def)
  have world: "program_ok (pg\<lparr>pg_world := loop_step cl j (pg_world pg)\<rparr>)" for j
    using assms by (simp add: program_ok_def loop_step_wf)
  show ?thesis
  proof (cases i)
    case (CycleBatch events isLeader env rv)
    show ?thesis
    proof (cases "isLeader \<and> (\<exists>result. fst (runCycle cl env events (pg_world pg)) = Inr result)")
      case False
      then show ?thesis
        using world [of "Batch events isLeader env"] CycleBatch
        by (cases "fst (runCycle cl env events (pg_world pg))") (auto simp: program_step_def Let_def)
    next
      case True
      then obtain result where r: "isLeader" "fst (runCycle cl env events (pg_world pg)) = Inr result" by blast
      let ?pg = "pg\<lparr>pg_world := loop_step cl (Batch events isLeader env) (pg_world pg)\<rparr>"
        and ?rep = "cycle_report cl env (rv_err_text rv) (rv_marshal rv) (rv_logged rv) events (pg_world pg)"
      have "program_step cl zone i pg = publishAndLog rv zone ?rep ?pg"
        using r by (simp add: CycleBatch program_step_def Let_def)
      then show ?thesis using publishAndLog_ok [OF world] by simp
    qed
  next
    case (SnapshotTick dbErr od choices taken now)
    then show ?thesis
      using publish_snapshot_ok [OF assms] by (simp add: program_step_def)
  next
    case StreamOpens
    then show ?thesis
      using assms bus_ok_Subscribe [OF b] by (auto simp: program_step_def program_ok_def Subscribe_def Let_def)
  next
    case (StreamReads sid)
    then show ?thesis
      using assms bus_ok_receive [OF b, of sid]
      by (auto simp: program_step_def program_ok_def receive_from_def split: list.splits)
  next
    case (StreamEnds sid)
    show ?thesis
    proof (cases "sid \<in> set (pg_streams pg)")
      case True
      then obtain bus where "Unsubscribe sid (pg_bus pg) = Some bus" "bus_ok bus"
          "eb_subscribers bus = removeAll sid (eb_subscribers (pg_bus pg))"
        using Unsubscribe_ok [OF b] subs by blast
      then show ?thesis using True StreamEnds w s subs by (simp add: program_step_def program_ok_def)
    qed (use assms StreamEnds in \<open>simp add: program_step_def\<close>)
  qed (use world in \<open>simp add: program_step_def\<close>)
qed

lemma program_run_ok: "program_ok pg \<Longrightarrow> \<exists>pg'. program_run cl zone ins pg = Some pg' \<and> program_ok pg'"
proof (induction ins arbitrary: pg)
  case (Cons i ins)
  then obtain pg1 where "program_step cl zone i pg = Some pg1" "program_ok pg1" using program_step_ok by blast
  then show ?case using Cons.IH by simp
qed simp

text \<open>C27: However long the program runs - batches and cycles, each one step, expiry sweeps,
  snapshots, streams that open, read and end, in any order, with any failure of the cluster calls
  and of the database - no operation on the event bus panics (none sends on or closes a closed
  channel) and the shared state stays well formed: tables keyed by their identifiers with exact
  gauges, no row number of the event log given twice, exactly the open streams subscribed, and no
  stream's buffer above its capacity. The watchers of the configuration file are not among the
  steps; \<open>ConfigStore.shutdown_can_panic\<close> shows that they can panic when the program ends.\<close>

theorem program_keeps_its_invariants:
  assumes "start_program ou = Inr pg" and "\<forall>path. store_ok (ou_disk ou path)"
  shows "\<exists>pg'. program_run program_loop (ou_zone ou) ins pg = Some pg' \<and> ws_wf (pg_world pg')
    \<and> distinct (map ew_id (st_events (pg_store pg'))) \<and> distinct (map nw_id (st_snapshots (pg_store pg')))
    \<and> set (pg_streams pg') = set (eb_subscribers (pg_bus pg'))
    \<and> (\<forall>sid. length (ch_buf (eb_chans (pg_bus pg') sid)) \<le> 32)"
proof -
  have "program_ok pg" using start_program_ok [OF assms(1)] assms(2) by blast
  then obtain pg' where "program_run program_loop (ou_zone ou) ins pg = Some pg'" "program_ok pg'"
    using program_run_ok by blast
  then show ?thesis by (auto simp: program_ok_def store_ok_def bus_ok_def)
qed

definition sample_outside :: "(string, string, string, string) Outside" where
  "sample_outside = \<lparr>ou_Environ = [''KUBECONFIG_C1=/etc/c1'', ''HOME=/root''], ou_ParseFloat = (\<lambda>_. None),
     ou_RegisterBuildInfo = None, ou_NewTracerProvider = (\<lambda>_. None), ou_BuildConfig = Inr, ou_NewForConfig = Inr,
     ou_registers = (\<lambda>cids _ cid. cid \<notin> set cids), ou_quantities = text_quantities,
     ou_listing = (\<lambda>_ _. snd (hd sample_listing)), ou_readFile = (\<lambda>_. (\<lparr>yf_Applications = []\<rparr>, None)),
     ou_openDB = (\<lambda>_. None), ou_disk = (\<lambda>_. empty_store), ou_od = (\<lambda>_. []), ou_now = noon, ou_zone = 0\<rparr>"

lemma sample_clients:
  "buildClusterClients Inr Inr (\<lambda>cids _ cid. cid \<notin> set cids) [''KUBECONFIG_C1=/etc/c1'', ''HOME=/root'']
    = (Inr ([\<lparr>cc_ClusterID = ''c1'', cc_Clientset = ''/etc/c1'', cc_Namespace = ''default''\<rparr>],
        [(''c1'', ''/etc/c1'', NewClient ''default'' ''c1'')]) :: string client_error + _)"
  by code_simp

lemma sample_start: "\<exists>pg. start_program sample_outside = Inr pg"
  by (simp add: start_program_def sample_outside_def sample_clients NewStore_def Let_def)

lemma program_keeps_its_invariants_witness:
  "\<exists>pg pg'. start_program sample_outside = Inr pg
     \<and> program_run program_loop 0 [StreamOpens, ExpirySweep 5, StreamReads 0, StreamEnds 0 :: string program_input] pg = Some pg'
     \<and> ws_wf (pg_world pg') \<and> set (pg_streams pg') = set (eb_subscribers (pg_bus pg'))"
proof -
  obtain pg where s: "start_program sample_outside = Inr pg" using sample_start by blast
  have "\<forall>path. store_ok (ou_disk sample_outside path)" by (simp add: sample_outside_def store_ok_empty)
  from program_keeps_its_invariants [OF s this, of "[StreamOpens, ExpirySweep 5, StreamReads 0, StreamEnds 0 :: string program_input]"]
  show ?thesis using s by (auto simp: sample_outside_def)
qed

section \<open>When the program ends\<close>

text \<open>
  \<open>run\<close> needs the signal and the ends of both goroutines. A control loop that hangs in its start (as
  it does with more than sixteen applications, theory \<open>ConfigStore\<close>) never ends, so that the
  program does not end on a signal either.
\<close>

lemma run_end_iff:
  "run_end None ins \<noteq> None \<longleftrightarrow>
     Signal \<in> set ins \<and> (\<exists>e. LoopEnds e \<in> set ins) \<and> (\<exists>e. ServerEnds e \<in> set ins)"
proof -
  have "wa_signal (fold wait_step ins w) \<longleftrightarrow> wa_signal w \<or> Signal \<in> set ins"
    and "wa_loop (fold wait_step ins w) \<longleftrightarrow> wa_loop w \<or> (\<exists>e. LoopEnds e \<in> set ins)"
    and "wa_server (fold wait_step ins w) \<noteq> None \<longleftrightarrow> wa_server w \<noteq> None \<or> (\<exists>e. ServerEnds e \<in> set ins)" for w :: "'a Waiting"
    by (induction ins arbitrary: w) (auto simp: wait_step_def split: run_input.splits)
  from this [of waiting] show ?thesis by (auto simp: run_end_def run_returns_def waiting_def)
qed

text \<open>
  No failure ends the program: when the control loop cannot start, or the server cannot listen,
  \<open>run\<close> still waits for a signal.
\<close>

lemma failures_do_not_end_the_program: "Signal \<notin> set ins \<Longrightarrow> run_end err ins = None"
proof -
  have "wa_signal (fold wait_step ins w) \<longleftrightarrow> wa_signal w \<or> Signal \<in> set ins" for w :: "'a Waiting"
    by (induction ins arbitrary: w) (auto simp: wait_step_def split: run_input.splits)
  then show "Signal \<notin> set ins \<Longrightarrow> ?thesis" by (simp add: run_end_def run_returns_def waiting_def)
qed

text \<open>Once its parts are running, the process fails only where stopping the server failed, or serving had.\<close>

lemma main_exits_failing:
  "main_exit (\<lambda>_. run_end shutdownErr ins) environ = Some 1 \<longleftrightarrow>
     Signal \<in> set ins \<and> (shutdownErr \<noteq> None
       \<or> (\<exists>e. LoopEnds e \<in> set ins) \<and> (\<exists>e. wa_server (fold wait_step ins waiting) = Some (Some e)))"
proof -
  have "wa_signal (fold wait_step ins w) \<longleftrightarrow> wa_signal w \<or> Signal \<in> set ins"
    and "wa_loop (fold wait_step ins w) \<longleftrightarrow> wa_loop w \<or> (\<exists>e. LoopEnds e \<in> set ins)" for w :: "'a Waiting"
    by (induction ins arbitrary: w) (auto simp: wait_step_def split: run_input.splits)
  from this [of waiting] show ?thesis
    by (cases "wa_server (fold wait_step ins waiting)")
      (auto simp: main_exit_def run_end_def run_returns_def waiting_def split: option.splits)
qed

end
