(* ===== verification/Steps.thy ===== *)
theory Steps
  imports Main
begin

text \<open>
  Goroutines that share state: a start predicate and a step relation, one step for each access that
  the code makes atomic. An invariant that holds at the start and that every step keeps holds in
  every state that can be reached.
\<close>

locale step_system =
  fixes start :: "'s \<Rightarrow> bool" and step :: "'s \<Rightarrow> 's \<Rightarrow> bool" and inv :: "'s \<Rightarrow> bool"
  assumes start_inv: "start s \<Longrightarrow> inv s"
    and step_inv: "inv s \<Longrightarrow> step s s' \<Longrightarrow> inv s'"
begin

lemma steps_inv:
  assumes "step\<^sup>*\<^sup>* s s'" and "inv s"
  shows "inv s'"
  using assms by (induction rule: rtranclp_induct) (blast intro: step_inv)+

lemma reachable_inv: "start s \<Longrightarrow> step\<^sup>*\<^sup>* s s' \<Longrightarrow> inv s'"
  using steps_inv start_inv by blast

end

text \<open>A state that a step can only keep is never left.\<close>

lemma stuck_forever:
  assumes "step\<^sup>*\<^sup>* s s'" and "P s" and "\<And>t t'. P t \<Longrightarrow> step t t' \<Longrightarrow> P t'"
  shows "P s'"
  using assms(1,2) by (induction rule: rtranclp_induct) (blast intro: assms(3))+

text \<open>Progress by a measure: while something is left to do, some step reduces it and keeps what is promised.\<close>

lemma drains:
  fixes m :: "'s \<Rightarrow> nat"
  assumes "I s"
    and "\<And>t. I t \<Longrightarrow> 0 < m t \<Longrightarrow> \<exists>t'. step t t' \<and> I t' \<and> m t' < m t"
  shows "\<exists>s'. step\<^sup>*\<^sup>* s s' \<and> I s' \<and> m s' = 0"
  using assms(1)
proof (induction "m s" arbitrary: s rule: less_induct)
  case less
  show ?case
  proof (cases "m s = 0")
    case False
    then obtain t where t: "step s t" "I t" "m t < m s" using assms(2) less.prems by blast
    then show ?thesis using less.hyps [OF t(3) t(2)] by (meson converse_rtranclp_into_rtranclp)
  qed (use less.prems in blast)
qed

end
