(* ===== verification/ExecSteps.thy ===== *)
theory ExecSteps
  imports ExecutorInv Operations Steps
begin

text \<open>
  The goroutines of \<open>Execute\<close> in \<open>internal/executor/executor.go\<close>: the loop in the caller's goroutine and one
  goroutine for each operation it starts, which makes the calls of \<open>dispatchOp\<close> one by one and sends its
  result into a buffered channel. A step is one call, one channel operation or one turn of a loop of
  the caller; any goroutine may take the next one. \<open>Executor\<close> gives the caller's loop as a function
  of the order in which results arrive; here that function is shown to be what the goroutines do.
\<close>

section \<open>Steps\<close>

record 'e opResult =
  or_id :: OperationID
  or_err :: "'e option"

text \<open>Where the caller is: at the head of its loop, in the \<open>range\<close> over the statuses with what is left of
  it, in the \<open>select\<close>, receiving what is left after a cancellation, or back from \<open>Execute\<close>.\<close>

datatype exec_pc = LoopHead | Dispatching "OperationID list" | Selecting | Draining | Returned

text \<open>
  \<open>es_goroutines\<close>: those that have not sent their result, with the calls they have yet to make;
  \<open>es_results\<close>: the channel; \<open>es_trace\<close>: the calls made so far, by whom and in their order.
\<close>

record 'e ExecState =
  es_pc :: exec_pc
  es_loop :: "'e op_error Exec"
  es_goroutines :: "(OperationID \<times> action list) list"
  es_results :: "'e op_error opResult list"
  es_trace :: "(OperationID \<times> action) list"

definition new_execution :: "ExecutionPlan \<Rightarrow> 'e ExecState" where
  "new_execution plan = \<lparr>es_pc = LoopHead, es_loop = start_exec plan, es_goroutines = [], es_results = [], es_trace = []\<rparr>"

text \<open>\<open>run_op\<close> is \<open>dispatchOp\<close>: the error an operation returns and the calls it makes. \<open>cancels\<close> says whether the
  context of \<open>Execute\<close> may be done before it returns.\<close>

definition spawned :: "PlanIndex \<Rightarrow> (Operation \<Rightarrow> 'e op_run) \<Rightarrow> OperationID \<Rightarrow> 'e op_error Exec \<Rightarrow> (OperationID \<times> action list) list" where
  "spawned ix run_op i st =
     (if status_of (ex_status st) i \<noteq> opPending then []
      else if \<not> depsCompleted (op_of ix i) (ex_status st) then []
      else [(i, snd (run_op (op_of ix i)))])"

definition more_work :: "'e Exec \<Rightarrow> bool" where
  "more_work st \<longleftrightarrow> ex_pending st + int (length (ex_running st)) > 0"

inductive exec_step :: "bool \<Rightarrow> ExecutionPlan \<Rightarrow> (Operation \<Rightarrow> 'e op_run) \<Rightarrow> 'e ExecState \<Rightarrow> 'e ExecState \<Rightarrow> bool"
  for cancels :: bool and plan :: ExecutionPlan and run_op :: "Operation \<Rightarrow> 'e op_run" where
  again: "es_pc s = LoopHead \<Longrightarrow> more_work (es_loop s) \<Longrightarrow> mset entries = mset (ex_status (es_loop s)) \<Longrightarrow>
    exec_step cancels plan run_op s (s\<lparr>es_pc := Dispatching (map fst entries)\<rparr>)"
| leave: "es_pc s = LoopHead \<Longrightarrow> \<not> more_work (es_loop s) \<Longrightarrow> exec_step cancels plan run_op s (s\<lparr>es_pc := Returned\<rparr>)"
| dispatch: "es_pc s = Dispatching (i # ids) \<Longrightarrow>
    exec_step cancels plan run_op s (s\<lparr>es_pc := Dispatching ids,
      es_loop := dispatch_one (build_index plan) i (es_loop s),
      es_goroutines := es_goroutines s @ spawned (build_index plan) run_op i (es_loop s)\<rparr>)"
| break_off: "es_pc s = Dispatching [] \<Longrightarrow> ex_running (es_loop s) = [] \<Longrightarrow> exec_step cancels plan run_op s (s\<lparr>es_pc := Returned\<rparr>)"
| wait: "es_pc s = Dispatching [] \<Longrightarrow> ex_running (es_loop s) \<noteq> [] \<Longrightarrow> exec_step cancels plan run_op s (s\<lparr>es_pc := Selecting\<rparr>)"
| receive_result: "es_pc s = Selecting \<Longrightarrow> es_results s = r # rs \<Longrightarrow>
    exec_step cancels plan run_op s (s\<lparr>es_pc := LoopHead,
      es_loop := receive (build_index plan) (\<lambda>_. or_err r) (or_id r) (es_loop s), es_results := rs\<rparr>)"
| context_done: "cancels \<Longrightarrow> es_pc s = Selecting \<Longrightarrow> mset entries = mset (ex_status (es_loop s)) \<Longrightarrow>
    exec_step cancels plan run_op s (s\<lparr>es_pc := Draining, es_loop := fold abort_one (map fst entries) (es_loop s)\<rparr>)"
| drain: "es_pc s = Draining \<Longrightarrow> ex_running (es_loop s) \<noteq> [] \<Longrightarrow> es_results s = r # rs \<Longrightarrow>
    exec_step cancels plan run_op s (s\<lparr>es_loop := settle (build_index plan) (\<lambda>_. or_err r) (or_id r) (es_loop s), es_results := rs\<rparr>)"
| drained: "es_pc s = Draining \<Longrightarrow> ex_running (es_loop s) = [] \<Longrightarrow> exec_step cancels plan run_op s (s\<lparr>es_pc := LoopHead\<rparr>)"
| call: "k < length (es_goroutines s) \<Longrightarrow> es_goroutines s ! k = (i, a # acts) \<Longrightarrow>
    exec_step cancels plan run_op s (s\<lparr>es_goroutines := (es_goroutines s)[k := (i, acts)], es_trace := es_trace s @ [(i, a)]\<rparr>)"
| send: "k < length (es_goroutines s) \<Longrightarrow> es_goroutines s ! k = (i, []) \<Longrightarrow> length (es_results s) < length plan \<Longrightarrow>
    exec_step cancels plan run_op s (s\<lparr>es_goroutines := take k (es_goroutines s) @ drop (Suc k) (es_goroutines s),
      es_results := es_results s @ [\<lparr>or_id = i, or_err = fst (run_op (op_of (build_index plan) i))\<rparr>]\<rparr>)"

section \<open>The rounds of the caller's loop\<close>

text \<open>What the loop has done up to a head of it, whatever the orders and arrivals.\<close>

inductive rounds :: "PlanIndex \<Rightarrow> (Operation \<Rightarrow> 'e option) \<Rightarrow> 'e Exec \<Rightarrow> 'e Exec \<Rightarrow> bool"
  for ix :: PlanIndex and outcome :: "Operation \<Rightarrow> 'e option" where
  none: "rounds ix outcome st st"
| received: "rounds ix outcome st0 st \<Longrightarrow> more_work st \<Longrightarrow> mset entries = mset (ex_status st) \<Longrightarrow>
    st1 = fold (dispatch_one ix) (map fst entries) st \<Longrightarrow> i \<in> set (ex_running st1) \<Longrightarrow>
    rounds ix outcome st0 (receive ix outcome i st1)"
| cancelled: "rounds ix outcome st0 st \<Longrightarrow> more_work st \<Longrightarrow> mset entries = mset (ex_status st) \<Longrightarrow>
    st1 = fold (dispatch_one ix) (map fst entries) st \<Longrightarrow> ex_running st1 \<noteq> [] \<Longrightarrow>
    mset entries' = mset (ex_status st1) \<Longrightarrow> mset is = mset (ex_running st1) \<Longrightarrow>
    rounds ix outcome st0 (fold (settle ix outcome) is (fold abort_one (map fst entries') st1))"

definition stops :: "PlanIndex \<Rightarrow> 'e Exec \<Rightarrow> 'e Exec \<Rightarrow> bool" where
  "stops ix st st' \<longleftrightarrow> \<not> more_work st \<and> st' = st
     \<or> more_work st \<and> (\<exists>entries. mset entries = mset (ex_status st) \<and> st' = fold (dispatch_one ix) (map fst entries) st \<and> ex_running st' = [])"

lemma rounds_none: "rounds ix outcome st0 st \<Longrightarrow> \<not> more_work st0 \<Longrightarrow> st = st0"
  by (induction rule: rounds.induct) auto

text \<open>The choices of later rounds do not matter to earlier ones.\<close>

lemma exec_loop_later:
  "(\<And>k. n \<le> k \<Longrightarrow> env k = env' k \<and> sub od k = sub od' k) \<Longrightarrow>
   exec_loop ix outcome env od n st = exec_loop ix outcome env' od' n st"
proof (induction ix outcome env od n st rule: exec_loop.induct)
  case (1 ix outcome env od n st)
  have n: "env n = env' n" "sub od n = sub od' n" using 1(2) [of n] by simp_all
  show ?case
  proof (cases "ex_pending st + int (length (ex_running st)) > 0
      \<and> ex_running (dispatch_ready ix (sub (sub od n) 0) st) \<noteq> []")
    case True
    then have "exec_loop ix outcome env od (Suc n) (exec_turn ix outcome (sub (sub od n) 1) (env n) (dispatch_ready ix (sub (sub od n) 0) st))
        = exec_loop ix outcome env' od' (Suc n) (exec_turn ix outcome (sub (sub od n) 1) (env n) (dispatch_ready ix (sub (sub od n) 0) st))"
      using 1(1) 1(2) by simp
    then show ?thesis using True n by (simp add: exec_loop.simps [of ix outcome env od n] exec_loop.simps [of ix outcome env' od' n] Let_def)
  next
    case False
    then show ?thesis using n by (auto simp: exec_loop.simps [of ix outcome env od n] exec_loop.simps [of ix outcome env' od' n] Let_def)
  qed
qed


definition round_orders :: "nat \<Rightarrow> nat list \<Rightarrow> nat list \<Rightarrow> orders \<Rightarrow> orders" where
  "round_orders n cs cs' od = (\<lambda>p. if p = [n, 0] then cs else if p = [n, 1] then cs' else od p)"

lemma sub_round_orders:
  "k \<noteq> n \<Longrightarrow> sub (round_orders n cs cs' od) k = sub od k"
  "sub (sub (round_orders n cs cs' od) n) 0 [] = cs"
  "sub (sub (round_orders n cs cs' od) n) 1 [] = cs'"
  by (simp_all add: sub_def round_orders_def fun_eq_iff)

lemma loop_round:
  assumes "more_work st" and "ex_running (dispatch_ready ix (sub (sub od n) 0) st) \<noteq> []"
  shows "exec_loop ix outcome env od n st
    = exec_loop ix outcome env od (Suc n) (exec_turn ix outcome (sub (sub od n) 1) (env n) (dispatch_ready ix (sub (sub od n) 0) st))"
  using assms by (simp add: exec_loop.simps [of ix outcome env od n] more_work_def Let_def)

lemma rounds_loop:
  assumes "rounds ix outcome st0 st"
  shows "\<exists>n env od. \<forall>env' od'. (\<forall>k < n. env' k = env k \<and> sub od' k = sub od k) \<longrightarrow>
    exec_loop ix outcome env' od' 0 st0 = exec_loop ix outcome env' od' n st"
  using assms
proof induction
  case none
  show ?case by (intro exI [of _ "0 :: nat"]) simp
next
  case (received st0 st entries st1 i)
  from received.IH obtain n env od where IH: "\<forall>env' od'. (\<forall>k < n. env' k = env k \<and> sub od' k = sub od k) \<longrightarrow>
    exec_loop ix outcome env' od' 0 st0 = exec_loop ix outcome env' od' n st" by (elim exE)
  obtain cs where cs: "shuffle cs (ex_status st) = entries" using shuffle_complete [OF received.hyps(3)] by blast
  obtain k where k: "k < length (ex_running st1)" "ex_running st1 ! k = i" using received.hyps(5) by (metis in_set_conv_nth)
  let ?od = "round_orders n cs [] od" and ?env = "env(n := Receive k)"
  have "exec_loop ix outcome env' od' 0 st0 = exec_loop ix outcome env' od' (Suc n) (receive ix outcome i st1)"
    if c: "\<forall>k < Suc n. env' k = ?env k \<and> sub od' k = sub ?od k" for env' od'
  proof -
    have d: "dispatch_ready ix (sub (sub od' n) 0) st = st1"
      using c received.hyps cs by (simp add: dispatch_ready_def sub_round_orders)
    have "exec_loop ix outcome env' od' 0 st0 = exec_loop ix outcome env' od' n st"
      using c by (intro IH [rule_format]) (simp add: sub_round_orders)
    also have "\<dots> = exec_loop ix outcome env' od' (Suc n) (exec_turn ix outcome (sub (sub od' n) 1) (env' n) st1)"
      using received.hyps k(1) by (subst loop_round) (auto simp: d)
    finally show ?thesis using c k by (simp add: exec_turn_def)
  qed
  then show ?case by blast
next
  case (cancelled st0 st entries st1 entries' "is")
  from cancelled.IH obtain n env od where IH: "\<forall>env' od'. (\<forall>k < n. env' k = env k \<and> sub od' k = sub od k) \<longrightarrow>
    exec_loop ix outcome env' od' 0 st0 = exec_loop ix outcome env' od' n st" by (elim exE)
  obtain cs where cs: "shuffle cs (ex_status st) = entries" using shuffle_complete [OF cancelled.hyps(3)] by blast
  obtain cs' where cs': "shuffle cs' (ex_status st1) = entries'" using shuffle_complete [OF cancelled.hyps(6)] by blast
  obtain arrivals where a: "shuffle arrivals (ex_running st1) = is" using shuffle_complete [OF cancelled.hyps(7)] by blast
  let ?od = "round_orders n cs cs' od" and ?env = "env(n := Cancelled arrivals)"
  have "exec_loop ix outcome env' od' 0 st0
      = exec_loop ix outcome env' od' (Suc n) (fold (settle ix outcome) is (fold abort_one (map fst entries') st1))"
    if c: "\<forall>k < Suc n. env' k = ?env k \<and> sub od' k = sub ?od k" for env' od'
  proof -
    have d: "dispatch_ready ix (sub (sub od' n) 0) st = st1"
      using c cancelled.hyps cs by (simp add: dispatch_ready_def sub_round_orders)
    have ab: "abort_pending (sub (sub od' n) 1) st1 = fold abort_one (map fst entries') st1"
      using c cs' by (simp add: abort_pending_def sub_round_orders(3) [simplified])
    have r: "ex_running (fold abort_one (map fst entries') st1) = ex_running st1" using abort_fold_work by blast
    have "exec_loop ix outcome env' od' 0 st0 = exec_loop ix outcome env' od' n st"
      using c by (intro IH [rule_format]) (simp add: sub_round_orders)
    also have "\<dots> = exec_loop ix outcome env' od' (Suc n) (exec_turn ix outcome (sub (sub od' n) 1) (env' n) st1)"
      using cancelled.hyps by (subst loop_round) (auto simp: d)
    finally show ?thesis using c ab r a by (simp add: exec_turn_def cancel_def)
  qed
  then show ?case by blast
qed

lemma exec_loop_stops:
  assumes "stops ix st st'" shows "\<exists>cs. \<forall>env od. sub (sub od n) 0 [] = cs \<longrightarrow> exec_loop ix outcome env od n st = st'"
proof (cases "more_work st")
  case True
  then obtain entries where e: "mset entries = mset (ex_status st)" "st' = fold (dispatch_one ix) (map fst entries) st" "ex_running st' = []"
    using assms by (auto simp: stops_def)
  obtain cs where "shuffle cs (ex_status st) = entries" using shuffle_complete e(1) by metis
  then have "\<forall>env od. sub (sub od n) 0 [] = cs \<longrightarrow> exec_loop ix outcome env od n st = st'"
    using True e(2,3) by (simp add: exec_loop.simps [of ix outcome] more_work_def dispatch_ready_def)
  then show ?thesis by blast
next
  case False
  then show ?thesis using assms by (simp add: stops_def exec_loop.simps [of ix outcome] more_work_def)
qed

lemma loop_rounds:
  "rounds ix outcome st0 st \<Longrightarrow> \<exists>st'. rounds ix outcome st0 st' \<and> stops ix st' (exec_loop ix outcome env od n st)"
proof (induction ix outcome env od n st rule: exec_loop.induct)
  case (1 ix outcome env od n st)
  let ?entries = "range_order (sub (sub od n) 0) (ex_status st)"
  let ?st1 = "dispatch_ready ix (sub (sub od n) 0) st"
  have d: "?st1 = fold (dispatch_one ix) (map fst ?entries) st" by (simp add: dispatch_ready_def)
  have e: "mset ?entries = mset (ex_status st)" by simp
  show ?case
  proof (cases "more_work st")
    case False
    then show ?thesis using 1(2) by (auto simp: stops_def exec_loop.simps [of ix outcome env od n] more_work_def)
  next
    case more: True
    show ?thesis
    proof (cases "ex_running ?st1 = []")
      case True
      then have "exec_loop ix outcome env od n st = ?st1" using more by (simp add: exec_loop.simps [of ix outcome env od n] more_work_def)
      then have "stops ix st (exec_loop ix outcome env od n st)" using more True d e unfolding stops_def by metis
      then show ?thesis using 1(2) by blast
    next
      case False
      let ?od = "sub (sub od n) 1"
      have "rounds ix outcome st0 (exec_turn ix outcome ?od (env n) ?st1)"
      proof (cases "env n")
        case (Receive k)
        have "ex_running ?st1 ! (k mod length (ex_running ?st1)) \<in> set (ex_running ?st1)" using False by (intro nth_mem) simp
        then show ?thesis using rounds.received [OF 1(2) more e d] Receive by (simp add: exec_turn_def)
      next
        case (Cancelled arrivals)
        have r: "ex_running (abort_pending ?od ?st1) = ex_running ?st1"
          unfolding abort_pending_def using abort_fold_work by blast
        show ?thesis
          using rounds.cancelled [OF 1(2) more e d False, of "range_order ?od (ex_status ?st1)" "shuffle arrivals (ex_running ?st1)"]
          by (simp only: exec_turn_def Cancelled cancel_def turn.case Let_def r) (simp add: abort_pending_def)
      qed
      from 1(1) [OF _ refl False this] show ?thesis using more loop_round [OF more False, of outcome env]
        by (simp add: more_work_def)
    qed
  qed
qed

lemma loop_iff_rounds:
  "(\<exists>env od. exec_loop ix outcome env od 0 st0 = st') \<longleftrightarrow> (\<exists>st. rounds ix outcome st0 st \<and> stops ix st st')"
proof
  show "\<exists>st. rounds ix outcome st0 st \<and> stops ix st st'" if "\<exists>env od. exec_loop ix outcome env od 0 st0 = st'"
    using that loop_rounds [OF rounds.none] by metis
next
  assume "\<exists>st. rounds ix outcome st0 st \<and> stops ix st st'"
  then obtain st where st: "rounds ix outcome st0 st" "stops ix st st'" by blast
  obtain n env od where r: "\<And>env' od'. (\<forall>k < n. env' k = env k \<and> sub od' k = sub od k) \<Longrightarrow>
    exec_loop ix outcome env' od' 0 st0 = exec_loop ix outcome env' od' n st" using rounds_loop [OF st(1)] by blast
  obtain cs where "\<And>env od. sub (sub od n) 0 [] = cs \<Longrightarrow> exec_loop ix outcome env od n st = st'"
    using exec_loop_stops [OF st(2)] by blast
  then have "exec_loop ix outcome env (round_orders n cs [] od) 0 st0 = st'"
    using r [of env "round_orders n cs [] od"] by (simp add: sub_round_orders)
  then show "\<exists>env od. exec_loop ix outcome env od 0 st0 = st'" by blast
qed


section \<open>Invariants of the goroutines\<close>

text \<open>The errors operations return.\<close>

abbreviation err_of :: "(Operation \<Rightarrow> 'e op_run) \<Rightarrow> Operation \<Rightarrow> 'e op_error option" where
  "err_of run_op \<equiv> (\<lambda>op. fst (run_op op))"

text \<open>The operations in flight are those whose goroutine has not sent its result or whose result is in the
  channel.\<close>

definition channel_inv :: "ExecutionPlan \<Rightarrow> (Operation \<Rightarrow> 'e op_run) \<Rightarrow> 'e ExecState \<Rightarrow> bool" where
  "channel_inv plan run_op s \<longleftrightarrow>
     mset (map fst (es_goroutines s)) + mset (map or_id (es_results s)) = mset (ex_running (es_loop s))
     \<and> (\<forall>r \<in> set (es_results s). or_err r = err_of run_op (op_of (build_index plan) (or_id r)))"

text \<open>What the caller has done, at each of its program points.\<close>

fun control_inv :: "ExecutionPlan \<Rightarrow> (Operation \<Rightarrow> 'e op_run) \<Rightarrow> exec_pc \<Rightarrow> 'e op_error Exec \<Rightarrow> bool" where
  "control_inv plan run_op LoopHead st \<longleftrightarrow>
     rounds (build_index plan) (err_of run_op) (start_exec plan) st \<and> exec_inv plan (err_of run_op) st"
| "control_inv plan run_op (Dispatching ids) st \<longleftrightarrow>
     (\<exists>st0 entries done. rounds (build_index plan) (err_of run_op) (start_exec plan) st0 \<and> more_work st0
        \<and> mset entries = mset (ex_status st0) \<and> map fst entries = done @ ids
        \<and> st = fold (dispatch_one (build_index plan)) done st0)
     \<and> exec_inv plan (err_of run_op) st \<and> (\<forall>i \<in> set ids. gget (ex_status st) i \<noteq> None)"
| "control_inv plan run_op Selecting st \<longleftrightarrow>
     (\<exists>st0 entries. rounds (build_index plan) (err_of run_op) (start_exec plan) st0 \<and> more_work st0
        \<and> mset entries = mset (ex_status st0) \<and> st = fold (dispatch_one (build_index plan)) (map fst entries) st0)
     \<and> exec_inv plan (err_of run_op) st \<and> ex_running st \<noteq> []"
| "control_inv plan run_op Draining st \<longleftrightarrow>
     (\<exists>st0 entries st1 entries' is. rounds (build_index plan) (err_of run_op) (start_exec plan) st0 \<and> more_work st0
        \<and> mset entries = mset (ex_status st0) \<and> st1 = fold (dispatch_one (build_index plan)) (map fst entries) st0
        \<and> ex_running st1 \<noteq> [] \<and> mset entries' = mset (ex_status st1)
        \<and> mset is + mset (ex_running st) = mset (ex_running st1)
        \<and> st = fold (settle (build_index plan) (err_of run_op)) is (fold abort_one (map fst entries') st1))
     \<and> exec_core plan (err_of run_op) st \<and> pending_ids (ex_status st) = {}"
| "control_inv plan run_op Returned st \<longleftrightarrow>
     (\<exists>st0. rounds (build_index plan) (err_of run_op) (start_exec plan) st0 \<and> stops (build_index plan) st0 st)
     \<and> exec_inv plan (err_of run_op) st \<and> ex_running st = []"

definition exec_state_inv :: "ExecutionPlan \<Rightarrow> (Operation \<Rightarrow> 'e op_run) \<Rightarrow> 'e ExecState \<Rightarrow> bool" where
  "exec_state_inv plan run_op s \<longleftrightarrow> channel_inv plan run_op s \<and> control_inv plan run_op (es_pc s) (es_loop s)"

lemma control_core: "control_inv plan run_op pc st \<Longrightarrow> exec_core plan (err_of run_op) st"
  by (cases pc) (auto simp: exec_inv_def exec_core_def)

lemma receive_running: "ex_running (receive ix outcome i st) = remove1 i (ex_running st)"
  by (simp add: receive_def Let_def settle_running split_beta)

lemma dispatch_one_spawns: "ex_running (dispatch_one ix i st) = ex_running st @ map fst (spawned ix run_op i st)"
  by (simp add: dispatch_one_def spawned_def)

lemma abort_fold_running: "ex_running (fold abort_one ids st) = ex_running st"
  using abort_fold_work by blast

lemma results_agree:
  "settle ix (\<lambda>_. outcome (op_of ix i)) i st = settle ix outcome i st"
  "receive ix (\<lambda>_. outcome (op_of ix i)) i st = receive ix outcome i st"
  by (simp_all add: settle_def receive_def)

lemma channel_head:
  assumes "channel_inv plan run_op s" and "es_results s = r # rs"
  shows "or_err r = err_of run_op (op_of (build_index plan) (or_id r))" and "or_id r \<in> set (ex_running (es_loop s))"
    and "mset (map fst (es_goroutines s)) + mset (map or_id rs) = mset (remove1 (or_id r) (ex_running (es_loop s)))"
proof -
  have m: "mset (ex_running (es_loop s)) = add_mset (or_id r) (mset (map fst (es_goroutines s)) + mset (map or_id rs))"
    using assms by (simp add: channel_inv_def)
  then show "or_id r \<in> set (ex_running (es_loop s))" by (metis set_mset_mset union_single_eq_member)
  show "mset (map fst (es_goroutines s)) + mset (map or_id rs) = mset (remove1 (or_id r) (ex_running (es_loop s)))"
    using m by simp
  show "or_err r = err_of run_op (op_of (build_index plan) (or_id r))" using assms by (simp add: channel_inv_def)
qed

lemma map_fst_update: "k < length gs \<Longrightarrow> gs ! k = (i, x) \<Longrightarrow> map fst (gs[k := (i, y)]) = map fst gs"
  by (metis fst_conv list_update_id map_update nth_map)

lemma mset_fst_pick:
  assumes "k < length gs" and "gs ! k = (i, x)"
  shows "add_mset i (mset (map fst (take k gs @ drop (Suc k) gs))) = mset (map fst gs)"
  using arg_cong [OF mset_take_nth_drop [OF assms(1)], of "image_mset fst"] assms(2) by simp

lemma channel_step:
  "exec_step cancels plan run_op s s' \<Longrightarrow> channel_inv plan run_op s \<Longrightarrow> channel_inv plan run_op s'"
proof (induction rule: exec_step.induct)
  case (dispatch s i ids)
  then show ?case by (simp add: channel_inv_def dispatch_one_spawns [of _ _ _ run_op])
next
  case (receive_result s r rs)
  then show ?case using channel_head [OF receive_result(3,2)] by (simp add: channel_inv_def receive_running)
next
  case (context_done s entries)
  then show ?case by (simp add: channel_inv_def abort_fold_running)
next
  case (drain s r rs)
  then show ?case using channel_head [OF drain(4,3)] by (simp add: channel_inv_def settle_running)
next
  case (call k s i a acts)
  then show ?case using map_fst_update [OF call(1,2)] by (simp add: channel_inv_def)
next
  case (send k s i)
  then show ?case using mset_fst_pick [OF send(1,2)] by (auto simp: channel_inv_def simp flip: union_mset_add_mset_left)
qed (simp_all add: channel_inv_def)

lemma control_step:
  assumes d: "distinct (map op_ID plan)"
  shows "exec_step cancels plan run_op s s' \<Longrightarrow> channel_inv plan run_op s \<Longrightarrow> control_inv plan run_op (es_pc s) (es_loop s) \<Longrightarrow>
    control_inv plan run_op (es_pc s') (es_loop s')"
proof (induction rule: exec_step.induct)
  case (again s entries)
  have "\<forall>i \<in> set (map fst entries). gget (ex_status (es_loop s)) i \<noteq> None"
    using mset_eq_setD [OF again(3)] by (simp add: gget_None_keys)
  then show ?case using again by fastforce
next
  case (leave s)
  have "ex_pending (es_loop s) = int (card (pending_ids (ex_status (es_loop s))))"
    using leave by (simp add: exec_inv_def books_def)
  then have "length (ex_running (es_loop s)) = 0" using leave(2) unfolding more_work_def by linarith
  then have "ex_running (es_loop s) = []" by simp
  then show ?case using leave by (auto simp: stops_def)
next
  case (dispatch s i ids)
  then obtain st0 entries "done" where st0: "rounds (build_index plan) (err_of run_op) (start_exec plan) st0" "more_work st0"
    "mset entries = mset (ex_status st0)" "map fst entries = (done @ [i]) @ ids"
    "es_loop s = fold (dispatch_one (build_index plan)) done st0"
    and inv: "exec_inv plan (err_of run_op) (es_loop s)" and keys: "\<forall>j \<in> set (i # ids). gget (ex_status (es_loop s)) j \<noteq> None"
    by auto
  have st1: "dispatch_one (build_index plan) i (es_loop s) = fold (dispatch_one (build_index plan)) (done @ [i]) st0"
    using st0(5) by simp
  have "exec_inv plan (err_of run_op) (dispatch_one (build_index plan) i (es_loop s))"
    by (rule dispatch_inv(1) [OF d inv]) (use keys in simp)
  moreover have "\<forall>j \<in> set ids. gget (ex_status (dispatch_one (build_index plan) i (es_loop s))) j \<noteq> None"
    using keys by (simp add: dispatch_one_def)
  moreover have "\<exists>st0 entries done. rounds (build_index plan) (err_of run_op) (start_exec plan) st0 \<and> more_work st0
      \<and> mset entries = mset (ex_status st0) \<and> map fst entries = done @ ids
      \<and> dispatch_one (build_index plan) i (es_loop s) = fold (dispatch_one (build_index plan)) done st0"
    using st0(1-4) st1 by (intro exI [of _ st0] exI [of _ entries] exI [of _ "done @ [i]"]) simp
  ultimately show ?case by simp
next
  case (break_off s)
  then show ?case by (auto simp: stops_def)
next
  case (wait s)
  then show ?case by auto
next
  case (receive_result s r rs)
  note h = channel_head [OF receive_result(3,2)]
  let ?r = "receive (build_index plan) (err_of run_op) (or_id r) (es_loop s)"
  have inv: "exec_inv plan (err_of run_op) (es_loop s)" using receive_result by simp
  have "exec_inv plan (err_of run_op) ?r"
    using receive_ok_inv(1) [OF d inv h(2)] receive_failed_inv(1) [OF d inv h(2)] by blast
  moreover have "rounds (build_index plan) (err_of run_op) (start_exec plan) ?r"
    using receive_result h(2) by (auto intro: rounds.received)
  ultimately show ?case using h(1) results_agree(2) [of "build_index plan" "err_of run_op"] by simp
next
  case (context_done s entries)
  have inv: "exec_inv plan (err_of run_op) (es_loop s)" using context_done by simp
  have keys: "set (map fst entries) = fst ` set (ex_status (es_loop s))" using mset_eq_setD [OF context_done(3)] by simp
  have "exec_core plan (err_of run_op) (fold abort_one (map fst entries) (es_loop s))
      \<and> pending_ids (ex_status (fold abort_one (map fst entries) (es_loop s))) = pending_ids (ex_status (es_loop s)) - set (map fst entries)"
    using inv keys by (intro abort_fold_core) (simp_all add: exec_inv_def exec_core_def gget_None_keys)
  moreover have "pending_ids (ex_status (es_loop s)) \<subseteq> set (map fst entries)"
    unfolding keys by (auto simp: pending_ids_def dest!: gget_mem intro: rev_image_eqI)
  moreover
  obtain st0 entries0 where st0: "rounds (build_index plan) (err_of run_op) (start_exec plan) st0" "more_work st0"
    "mset entries0 = mset (ex_status st0)" "es_loop s = fold (dispatch_one (build_index plan)) (map fst entries0) st0"
    "ex_running (es_loop s) \<noteq> []"
    using context_done by auto
  have "\<exists>st0 entries0 st1 entries' is. rounds (build_index plan) (err_of run_op) (start_exec plan) st0 \<and> more_work st0
      \<and> mset entries0 = mset (ex_status st0) \<and> st1 = fold (dispatch_one (build_index plan)) (map fst entries0) st0
      \<and> ex_running st1 \<noteq> [] \<and> mset entries' = mset (ex_status st1)
      \<and> mset is + mset (ex_running (fold abort_one (map fst entries) (es_loop s))) = mset (ex_running st1)
      \<and> fold abort_one (map fst entries) (es_loop s)
        = fold (settle (build_index plan) (err_of run_op)) is (fold abort_one (map fst entries') st1)"
    using st0 context_done(3)
    by (intro exI [of _ st0] exI [of _ entries0] exI [of _ "es_loop s"] exI [of _ entries] exI [of _ "[]"])
      (simp add: abort_fold_running)
  ultimately show ?case by (simp add: Diff_eq_empty_iff [THEN iffD2])
next
  case (drain s r rs)
  note h = channel_head [OF drain(4,3)]
  let ?s = "settle (build_index plan) (err_of run_op) (or_id r) (es_loop s)"
  obtain st0 entries st1 entries' "is" where st: "rounds (build_index plan) (err_of run_op) (start_exec plan) st0" "more_work st0"
    "mset entries = mset (ex_status st0)" "st1 = fold (dispatch_one (build_index plan)) (map fst entries) st0"
    "ex_running st1 \<noteq> []" "mset entries' = mset (ex_status st1)"
    "mset is + mset (ex_running (es_loop s)) = mset (ex_running st1)"
    "es_loop s = fold (settle (build_index plan) (err_of run_op)) is (fold abort_one (map fst entries') st1)"
    and core: "exec_core plan (err_of run_op) (es_loop s)" "pending_ids (ex_status (es_loop s)) = {}"
    using drain by auto
  have "mset (is @ [or_id r]) + mset (ex_running ?s) = mset (ex_running st1)"
    using st(7) h(2) by (simp add: settle_running flip: union_mset_add_mset_right)
  moreover have "?s = fold (settle (build_index plan) (err_of run_op)) (is @ [or_id r]) (fold abort_one (map fst entries') st1)"
    using st(8) by simp
  moreover have "exec_core plan (err_of run_op) ?s" by (rule settle_core [OF d core(1) h(2)])
  moreover have "pending_ids (ex_status ?s) = {}" using core(2) by (simp add: pending_ids_gput)
  ultimately have "control_inv plan run_op Draining ?s" using st(1-6) by (simp only: control_inv.simps) blast
  then show ?case using h(1) drain(1) results_agree(1) [of "build_index plan" "err_of run_op"] by simp
next
  case (drained s)
  then obtain st0 entries st1 entries' "is" where st: "rounds (build_index plan) (err_of run_op) (start_exec plan) st0" "more_work st0"
    "mset entries = mset (ex_status st0)" "st1 = fold (dispatch_one (build_index plan)) (map fst entries) st0"
    "ex_running st1 \<noteq> []" "mset entries' = mset (ex_status st1)" "mset is = mset (ex_running st1)"
    "es_loop s = fold (settle (build_index plan) (err_of run_op)) is (fold abort_one (map fst entries') st1)"
    and core: "exec_core plan (err_of run_op) (es_loop s)" "pending_ids (ex_status (es_loop s)) = {}"
    by auto
  show ?case using rounds.cancelled [OF st(1-7)] core_blocked [OF core] st(8) by simp
qed simp_all

lemma state_inv_step:
  "distinct (map op_ID plan) \<Longrightarrow> exec_state_inv plan run_op s \<Longrightarrow> exec_step cancels plan run_op s s' \<Longrightarrow> exec_state_inv plan run_op s'"
  using channel_step control_step unfolding exec_state_inv_def by blast

lemma state_inv_start: "distinct (map op_ID plan) \<Longrightarrow> exec_state_inv plan run_op (new_execution plan)"
  using start_inv [of plan "err_of run_op"] rounds.none
  by (simp add: exec_state_inv_def channel_inv_def new_execution_def) (simp add: start_exec_def)


section \<open>What the goroutines have called\<close>

definition calls_of :: "OperationID \<Rightarrow> (OperationID \<times> action) list \<Rightarrow> action list" where
  "calls_of i trace = map snd (filter (\<lambda>c. fst c = i) trace)"

definition calls_left :: "OperationID \<Rightarrow> (OperationID \<times> action list) list \<Rightarrow> action list" where
  "calls_left i gs = (case map_of gs i of None \<Rightarrow> [] | Some acts \<Rightarrow> acts)"

definition was_started :: "'e Exec \<Rightarrow> OperationID \<Rightarrow> bool" where
  "was_started st i \<longleftrightarrow> gget (ex_status st) i \<in> {Some opInFlight, Some opCompleted, Some opFailed}"

text \<open>Every operation that was started makes its calls, and none comes before one of a dependency.\<close>

definition trace_inv :: "ExecutionPlan \<Rightarrow> (Operation \<Rightarrow> 'e op_run) \<Rightarrow> 'e ExecState \<Rightarrow> bool" where
  "trace_inv plan run_op s \<longleftrightarrow>
     (\<forall>i. calls_of i (es_trace s) @ calls_left i (es_goroutines s)
        = (if was_started (es_loop s) i then snd (run_op (op_of (build_index plan) i)) else []))
     \<and> (\<forall>op \<in> set plan. \<forall>d \<in> set (op_DependsOn op). \<forall>xs a ys.
          es_trace s = xs @ (op_ID op, a) # ys \<longrightarrow> d \<noteq> op_ID op \<and> d \<notin> fst ` set ys)"

lemma settle_started: "was_started st i \<Longrightarrow> was_started (settle ix outcome i st) j \<longleftrightarrow> was_started st j"
  by (simp add: was_started_def settle_def Let_def split: option.split)

lemma abort_bfs_started:
  assumes "s \<notin> {opPending, opAborted}"
  shows "gget (fst (abort_bfs dependents queue visited status ids)) j = Some s \<longleftrightarrow> gget status j = Some s"
  by (induction dependents queue visited status ids rule: abort_bfs.induct)
    (use assms in \<open>auto simp: gget_or_def split: option.splits\<close>)

lemma receive_started: "was_started st i \<Longrightarrow> was_started (receive ix outcome i st) j \<longleftrightarrow> was_started st j"
  using settle_started [of st i ix outcome j]
  by (simp add: was_started_def receive_def Let_def split_beta abortTransitive_def abort_bfs_started)

lemma abort_fold_started: "was_started (fold abort_one ids st) j \<longleftrightarrow> was_started st j"
proof (induction ids arbitrary: st)
  case (Cons i ids)
  have "was_started (abort_one i st) j \<longleftrightarrow> was_started st j"
    by (auto simp: was_started_def abort_one_def gget_or_def split: option.splits)
  then show ?case by (simp only: fold_simps Cons.IH)
qed simp

lemma dispatch_started:
  "was_started (dispatch_one ix i st) j \<longleftrightarrow> was_started st j \<or> j = i \<and> spawned ix run_op i st \<noteq> []"
  by (simp add: was_started_def dispatch_one_def spawned_def)

lemma goroutine_running:
  assumes "channel_inv plan run_op s" and "exec_core plan outcome (es_loop s)"
  shows "distinct (map fst (es_goroutines s) @ map or_id (es_results s))"
    and "i \<in> fst ` set (es_goroutines s) \<union> or_id ` set (es_results s) \<longleftrightarrow> gget (ex_status (es_loop s)) i = Some opInFlight"
    and "length (es_goroutines s) + length (es_results s) \<le> length plan"
proof -
  let ?ids = "map fst (es_goroutines s) @ map or_id (es_results s)"
  have m: "mset ?ids = mset (ex_running (es_loop s))" using assms(1) by (simp add: channel_inv_def)
  have B: "books plan (es_loop s)" using assms(2) by (simp add: exec_core_def)
  then have "distinct (ex_running (es_loop s))" by (simp add: books_def tracks_def)
  then show d: "distinct ?ids" using m by (metis mset_eq_imp_distinct_iff)
  have ids: "set ?ids = set (ex_running (es_loop s))" using m by (rule mset_eq_setD)
  then show i: "i \<in> fst ` set (es_goroutines s) \<union> or_id ` set (es_results s) \<longleftrightarrow> gget (ex_status (es_loop s)) i = Some opInFlight" for i
    using books_running [OF B, of i] by simp
  have "j \<in> op_ID ` set plan" if "j \<in> set (ex_running (es_loop s))" for j
    using books_op [OF B] books_running [OF B, of j] that by blast
  then have "set ?ids \<subseteq> set (map op_ID plan)" unfolding ids by auto
  then have "length ?ids \<le> length (map op_ID plan)"
    using card_mono [of "set (map op_ID plan)" "set ?ids"] distinct_card [OF d] card_length [of "map op_ID plan"] by simp
  then show "length (es_goroutines s) + length (es_results s) \<le> length plan" by simp
qed

lemma calls_of_snoc: "calls_of j (trace @ [(i, a)]) = calls_of j trace @ (if j = i then [a] else [])"
  by (simp add: calls_of_def)

lemma calls_left_at: "distinct (map fst gs) \<Longrightarrow> k < length gs \<Longrightarrow> gs ! k = (i, acts) \<Longrightarrow> calls_left i gs = acts"
  using map_of_is_SomeI [of gs i acts] nth_mem [of k gs] by (simp add: calls_left_def)

lemma calls_left_new:
  "map_of gs i = None \<Longrightarrow> calls_left j (gs @ [(i, acts)]) = (if j = i then acts else calls_left j gs)"
  by (auto simp: calls_left_def map_add_def split: option.split)

lemma calls_left_other: "k < length gs \<Longrightarrow> gs ! k = (i, acts) \<Longrightarrow> j \<noteq> i \<Longrightarrow> calls_left j (gs[k := (i, acts')]) = calls_left j gs"
  by (induction gs arbitrary: k) (auto simp: calls_left_def nth_Cons split: nat.splits)

lemma calls_left_drop:
  "k < length gs \<Longrightarrow> gs ! k = (i, []) \<Longrightarrow> distinct (map fst gs) \<Longrightarrow>
   calls_left j (take k gs @ drop (Suc k) gs) = calls_left j gs"
proof (induction gs arbitrary: k)
  case (Cons g gs)
  then show ?case
  proof (cases k)
    case 0
    have "map_of gs i = None" using Cons.prems 0 by (auto simp: map_of_eq_None_iff)
    then show ?thesis using Cons.prems 0 by (simp add: calls_left_def)
  next
    case (Suc n)
    then show ?thesis using Cons by (cases g) (simp add: calls_left_def)
  qed
qed simp


lemma other_entry:
  assumes "xs @ (i, a) # ys = trace @ [(j, b)]"
  shows "ys = [] \<or> (\<exists>ys'. ys = ys' @ [(j, b)] \<and> trace = xs @ (i, a) # ys')"
  using assms by (cases ys rule: rev_cases) (simp_all add: append_eq_append_conv2)

lemma trace_step:
  assumes d: "distinct (map op_ID plan)"
  shows "exec_step cancels plan run_op s s' \<Longrightarrow> exec_state_inv plan run_op s \<Longrightarrow> trace_inv plan run_op s \<Longrightarrow> trace_inv plan run_op s'"
proof (induction rule: exec_step.induct)
  case (dispatch s i ids)
  have ch: "channel_inv plan run_op s" and core: "exec_core plan (err_of run_op) (es_loop s)"
    using dispatch.prems control_core by (auto simp: exec_state_inv_def)
  show ?case
  proof (cases "spawned (build_index plan) run_op i (es_loop s) = []")
    case True
    have "dispatch_one (build_index plan) i (es_loop s) = es_loop s"
      using True by (auto simp: dispatch_one_def spawned_def split: if_splits)
    then show ?thesis using dispatch.prems True by (simp add: trace_inv_def)
  next
    case False
    then have sp: "spawned (build_index plan) run_op i (es_loop s) = [(i, snd (run_op (op_of (build_index plan) i)))]"
      and pend: "\<not> was_started (es_loop s) i"
      by (auto simp: was_started_def spawned_def gget_or_def split: if_splits option.splits)
    have none: "map_of (es_goroutines s) i = None"
      using pend goroutine_running(2) [OF ch core, of i] by (auto simp: was_started_def map_of_eq_None_iff)
    have "calls_of i (es_trace s) = []" using dispatch.prems(2) pend unfolding trace_inv_def by (metis append_is_Nil_conv)
    moreover have "calls_of j (es_trace s) @ calls_left j (es_goroutines s)
        = (if was_started (es_loop s) j then snd (run_op (op_of (build_index plan) j)) else [])" for j
      using dispatch.prems(2) unfolding trace_inv_def by blast
    ultimately have "calls_of j (es_trace s) @ calls_left j (es_goroutines s @ spawned (build_index plan) run_op i (es_loop s))
        = (if was_started (dispatch_one (build_index plan) i (es_loop s)) j then snd (run_op (op_of (build_index plan) j)) else [])" for j
      unfolding dispatch_started [of _ _ _ _ run_op] sp calls_left_new [OF none] by simp
    then show ?thesis using dispatch.prems(2) by (simp add: trace_inv_def)
  qed
next
  case (receive_result s r rs)
  have ch: "channel_inv plan run_op s" and core: "exec_core plan (err_of run_op) (es_loop s)"
    using receive_result.prems control_core by (auto simp: exec_state_inv_def)
  have "was_started (es_loop s) (or_id r)"
    using goroutine_running(2) [OF ch core, of "or_id r"] receive_result(2) by (simp add: was_started_def)
  from receive_started [OF this] have "was_started (receive (build_index plan) (\<lambda>_. or_err r) (or_id r) (es_loop s)) j
      \<longleftrightarrow> was_started (es_loop s) j" for j .
  then show ?case using receive_result.prems(2) by (simp add: trace_inv_def)
next
  case (context_done s entries)
  then show ?case by (simp add: trace_inv_def abort_fold_started)
next
  case (drain s r rs)
  have ch: "channel_inv plan run_op s" and core: "exec_core plan (err_of run_op) (es_loop s)"
    using drain.prems control_core by (auto simp: exec_state_inv_def)
  have "was_started (es_loop s) (or_id r)"
    using goroutine_running(2) [OF ch core, of "or_id r"] drain(3) by (simp add: was_started_def)
  from settle_started [OF this] have "was_started (settle (build_index plan) (\<lambda>_. or_err r) (or_id r) (es_loop s)) j
      \<longleftrightarrow> was_started (es_loop s) j" for j .
  then show ?case using drain.prems(2) by (simp add: trace_inv_def)
next
  case (call k s i a acts)
  have ch: "channel_inv plan run_op s" and core: "exec_core plan (err_of run_op) (es_loop s)"
    using call.prems control_core by (auto simp: exec_state_inv_def)
  have dist: "distinct (map fst (es_goroutines s))" using goroutine_running(1) [OF ch core] by simp
  have "i \<in> fst ` set (es_goroutines s)" using call(1,2) by (metis fst_conv image_eqI nth_mem)
  then have run: "gget (ex_status (es_loop s)) i = Some opInFlight" using goroutine_running(2) [OF ch core, of i] by simp
  let ?gs = "(es_goroutines s)[k := (i, acts)]"
  have "distinct (map fst ?gs)" using dist map_fst_update [OF call(1,2)] by simp
  then have left: "calls_left i ?gs = acts" "calls_left i (es_goroutines s) = a # acts"
    using calls_left_at [OF dist call(1,2)] calls_left_at [of ?gs k i acts] call(1) by simp_all
  have "calls_of j (es_trace s @ [(i, a)]) @ calls_left j ?gs = calls_of j (es_trace s) @ calls_left j (es_goroutines s)" for j
    using left calls_left_other [OF call(1,2)] by (cases "j = i") (simp_all add: calls_of_snoc)
  moreover have "x \<noteq> op_ID op \<and> x \<notin> fst ` set ys"
    if op: "op \<in> set plan" "x \<in> set (op_DependsOn op)" and tr: "es_trace s @ [(i, a)] = xs @ (op_ID op, b) # ys" for op x xs b ys
  proof -
    have apart: "x \<noteq> i" if "was_started (es_loop s) (op_ID op)"
    proof -
      have "gget (ex_status (es_loop s)) x = Some opCompleted"
        using core op that unfolding exec_core_def deps_done_def was_started_def by blast
      then show ?thesis using run by auto
    qed
    show ?thesis
    proof (cases "ys = []")
      case True
      then have "op_ID op = i" using tr by simp
      then show ?thesis using True run apart by (auto simp: was_started_def)
    next
      case False
      then obtain ys' where ys': "ys = ys' @ [(i, a)]" "es_trace s = xs @ (op_ID op, b) # ys'"
        using other_entry [OF tr [symmetric]] by blast
      have "calls_of (op_ID op) (es_trace s) \<noteq> []" unfolding ys'(2) by (simp add: calls_of_def)
      then have "was_started (es_loop s) (op_ID op)" using call.prems(2) unfolding trace_inv_def by (metis append_is_Nil_conv)
      then show ?thesis using apart call.prems(2) op ys' unfolding trace_inv_def by auto
    qed
  qed
  ultimately show ?case using call.prems(2) unfolding trace_inv_def by simp
next
  case (send k s i)
  have "channel_inv plan run_op s" "exec_core plan (err_of run_op) (es_loop s)"
    using send.prems control_core by (auto simp: exec_state_inv_def)
  from goroutine_running(1) [OF this] have "distinct (map fst (es_goroutines s))" by simp
  from calls_left_drop [OF send(1,2) this] show ?case using send.prems(2) by (simp add: trace_inv_def)
qed (simp_all add: trace_inv_def)

lemma trace_inv_start:
  fixes run_op :: "Operation \<Rightarrow> 'e op_run"
  shows "trace_inv plan run_op (new_execution plan)"
proof -
  have "\<not> was_started (start_exec plan :: 'e op_error Exec) i" for i by (simp add: was_started_def start_exec_def index_status)
  then show ?thesis by (simp add: trace_inv_def new_execution_def calls_of_def calls_left_def)
qed

interpretation execution: step_system "\<lambda>s. distinct (map op_ID plan) \<and> s = new_execution plan" "exec_step cancels plan run_op"
  "\<lambda>s. distinct (map op_ID plan) \<and> exec_state_inv plan run_op s \<and> trace_inv plan run_op s" for cancels plan run_op
  by unfold_locales (blast intro: state_inv_start trace_inv_start state_inv_step trace_step)+

end
