(* ===== verification/Goroutines.thy ===== *)
theory Goroutines
  imports ExecSteps CycleExamples
begin

text \<open>
  What the goroutines of \<open>ExecSteps\<close> amount to: they always come to an end, reach exactly the results of the
  function \<open>Execute\<close>, keep the order of dependencies in every single call, and leave the world state as
  a cycle does whose operations take effect one after the other. So the functions \<open>Execute\<close> and
  \<open>runCycle\<close>, which the other theories reason about, leave out no execution.
\<close>

section \<open>Every run of the rounds is a run of the goroutines\<close>

text \<open>From \<open>s\<close> the caller can get to a program point with these variables and this channel.\<close>

definition leads :: "bool \<Rightarrow> ExecutionPlan \<Rightarrow> (Operation \<Rightarrow> 'e op_run) \<Rightarrow> 'e ExecState \<Rightarrow> exec_pc \<Rightarrow> 'e op_error Exec
    \<Rightarrow> 'e op_error opResult list \<Rightarrow> bool" where
  "leads cancels plan run_op s pc st results \<longleftrightarrow> (\<exists>s'. (exec_step cancels plan run_op)\<^sup>*\<^sup>* s s'
     \<and> es_pc s' = pc \<and> es_loop s' = st \<and> es_results s' = results)"

lemma leads_refl: "es_pc s = pc \<Longrightarrow> es_loop s = st \<Longrightarrow> es_results s = results \<Longrightarrow> leads cancels plan run_op s pc st results"
  unfolding leads_def by blast

lemma leads_step: "exec_step cancels plan run_op s t \<Longrightarrow> leads cancels plan run_op t pc st results \<Longrightarrow> leads cancels plan run_op s pc st results"
  unfolding leads_def by (blast intro: converse_rtranclp_into_rtranclp)

lemma channel_steps: "(exec_step cancels plan run_op)\<^sup>*\<^sup>* s s' \<Longrightarrow> channel_inv plan run_op s \<Longrightarrow> channel_inv plan run_op s'"
  by (induction rule: rtranclp_induct) (blast intro: channel_step)+

lemma leads_trans:
  assumes "leads cancels plan run_op s pc st results" and "channel_inv plan run_op s"
    and "\<And>t. es_pc t = pc \<Longrightarrow> es_loop t = st \<Longrightarrow> es_results t = results \<Longrightarrow> channel_inv plan run_op t \<Longrightarrow>
      leads cancels plan run_op t pc' st' results'"
  shows "leads cancels plan run_op s pc' st' results'"
proof -
  obtain t where t: "(exec_step cancels plan run_op)\<^sup>*\<^sup>* s t" "es_pc t = pc" "es_loop t = st" "es_results t = results"
    using assms(1) unfolding leads_def by blast
  have "leads cancels plan run_op t pc' st' results'" using assms(3) [OF t(2-4) channel_steps [OF t(1) assms(2)]] .
  then obtain t' where "(exec_step cancels plan run_op)\<^sup>*\<^sup>* t t'" "es_pc t' = pc'" "es_loop t' = st'" "es_results t' = results'"
    unfolding leads_def by blast
  then show ?thesis using rtranclp_trans [OF t(1)] unfolding leads_def by blast
qed

abbreviation result_of :: "ExecutionPlan \<Rightarrow> (Operation \<Rightarrow> 'e op_run) \<Rightarrow> OperationID \<Rightarrow> 'e op_error opResult" where
  "result_of plan run_op i \<equiv> \<lparr>or_id = i, or_err = err_of run_op (op_of (build_index plan) i)\<rparr>"

lemma run_goroutine:
  "es_goroutines s = xs @ (i, acts) # ys \<Longrightarrow> es_results s = [] \<Longrightarrow> plan \<noteq> [] \<Longrightarrow>
   leads cancels plan run_op s (es_pc s) (es_loop s) [result_of plan run_op i]"
proof (induction acts arbitrary: s)
  case Nil
  then have k: "length xs < length (es_goroutines s)" "es_goroutines s ! length xs = (i, [])" by simp_all
  show ?case by (rule leads_step [OF exec_step.send [OF k] leads_refl]) (use Nil in simp_all)
next
  case (Cons a acts)
  then have k: "length xs < length (es_goroutines s)" "es_goroutines s ! length xs = (i, a # acts)" by simp_all
  let ?s = "s\<lparr>es_goroutines := (es_goroutines s)[length xs := (i, acts)], es_trace := es_trace s @ [(i, a)]\<rparr>"
  have "leads cancels plan run_op ?s (es_pc ?s) (es_loop ?s) [result_of plan run_op i]"
    by (rule Cons.IH) (use Cons.prems in simp_all)
  then show ?case by (intro leads_step [OF exec_step.call [OF k]]) simp
qed

lemma finish_goroutine:
  assumes "channel_inv plan run_op s" and "es_results s = []" and "i \<in> set (ex_running (es_loop s))" and "plan \<noteq> []"
  shows "leads cancels plan run_op s (es_pc s) (es_loop s) [result_of plan run_op i]"
proof -
  have "mset (map fst (es_goroutines s)) = mset (ex_running (es_loop s))" using assms(1,2) by (simp add: channel_inv_def)
  then have "i \<in> set (map fst (es_goroutines s))" using assms(3) by (metis mset_eq_setD)
  then obtain acts where "(i, acts) \<in> set (es_goroutines s)" by auto
  then obtain xs ys where "es_goroutines s = xs @ (i, acts) # ys" by (metis split_list)
  then show ?thesis by (rule run_goroutine [OF _ assms(2,4)])
qed

lemma dispatch_all:
  "es_pc s = Dispatching ids \<Longrightarrow> leads cancels plan run_op s (Dispatching [])
     (fold (dispatch_one (build_index plan)) ids (es_loop s)) (es_results s)"
proof (induction ids arbitrary: s)
  case (Cons i ids)
  let ?s = "s\<lparr>es_pc := Dispatching ids, es_loop := dispatch_one (build_index plan) i (es_loop s),
      es_goroutines := es_goroutines s @ spawned (build_index plan) run_op i (es_loop s)\<rparr>"
  have "leads cancels plan run_op ?s (Dispatching []) (fold (dispatch_one (build_index plan)) ids (es_loop ?s)) (es_results ?s)"
    by (rule Cons.IH) simp
  then show ?case by (intro leads_step [OF exec_step.dispatch [OF Cons.prems]]) simp
qed (simp add: leads_refl)

text \<open>A whole \<open>range\<close> over the statuses, from the head of the loop to its end.\<close>

lemma start_round:
  assumes "es_pc s = LoopHead" and "more_work (es_loop s)" and "mset entries = mset (ex_status (es_loop s))"
  shows "leads cancels plan run_op s (Dispatching [])
    (fold (dispatch_one (build_index plan)) (map fst entries) (es_loop s)) (es_results s)"
proof -
  have "exec_step cancels plan run_op s (s\<lparr>es_pc := Dispatching (map fst entries)\<rparr>)" using assms by (rule exec_step.again)
  from leads_step [OF this dispatch_all] show ?thesis by simp
qed

lemma drain_all:
  "es_pc s = Draining \<Longrightarrow> es_results s = [] \<Longrightarrow> channel_inv plan run_op s \<Longrightarrow> plan \<noteq> [] \<Longrightarrow> mset is = mset (ex_running (es_loop s)) \<Longrightarrow>
   leads cancels plan run_op s LoopHead (fold (settle (build_index plan) (err_of run_op)) is (es_loop s)) []"
proof (induction "is" arbitrary: s)
  case Nil
  then have "exec_step cancels plan run_op s (s\<lparr>es_pc := LoopHead\<rparr>)" by (intro exec_step.drained) simp_all
  then show ?case by (rule leads_step) (simp add: Nil leads_refl)
next
  case (Cons i "is")
  have i: "i \<in> set (ex_running (es_loop s))" using mset_eq_setD [OF Cons.prems(5)] by auto
  have m: "mset is = mset (remove1 i (ex_running (es_loop s)))" by (simp flip: Cons.prems(5))
  show ?case
  proof (rule leads_trans [OF finish_goroutine [OF Cons.prems(3,2) i Cons.prems(4)] Cons.prems(3)])
    fix t assume t: "es_pc t = es_pc s" "es_loop t = es_loop s" "es_results t = [result_of plan run_op i]" "channel_inv plan run_op t"
    let ?s = "t\<lparr>es_loop := settle (build_index plan) (err_of run_op) i (es_loop s), es_results := []\<rparr>"
    have "es_pc t = Draining" "ex_running (es_loop t) \<noteq> []" using t(1,2) Cons.prems(1) i by auto
    from exec_step.drain [OF this t(3), where cancels = cancels and plan = plan and run_op = run_op] have step: "exec_step cancels plan run_op t ?s"
      using t(2) results_agree(1) [of "build_index plan" "err_of run_op"] by simp
    have "leads cancels plan run_op ?s LoopHead (fold (settle (build_index plan) (err_of run_op)) is (es_loop ?s)) []"
      by (rule Cons.IH [OF _ _ channel_step [OF step t(4)] Cons.prems(4)])
        (use t(1) Cons.prems(1) m in \<open>simp_all add: settle_running\<close>)
    then show "leads cancels plan run_op t LoopHead (fold (settle (build_index plan) (err_of run_op)) (i # is) (es_loop s)) []"
      by (intro leads_step [OF step]) simp
  qed
qed

lemma rounds_reached:
  fixes run_op :: "Operation \<Rightarrow> 'e op_run"
  assumes "rounds (build_index plan) (err_of run_op) st0 st" and "plan \<noteq> []" and "st0 = start_exec plan"
  shows "leads True plan run_op (new_execution plan) LoopHead st []"
  using assms(1,3)
proof induction
  case (none st)
  then show ?case by (intro leads_refl) (simp_all add: new_execution_def)
next
  case (received st0 st entries st1 i)
  have new: "channel_inv plan run_op (new_execution plan)" by (simp add: channel_inv_def new_execution_def start_exec_def)
  show ?case
  proof (rule leads_trans [OF received.IH [OF received.prems] new])
    fix s :: "'e ExecState" assume s: "es_pc s = LoopHead" "es_loop s = st" "es_results s = []" "channel_inv plan run_op s"
    have "leads True plan run_op s (Dispatching []) st1 []"
      using start_round [of s entries True plan run_op] s received.hyps(2-4) by simp
    then show "leads True plan run_op s LoopHead (receive (build_index plan) (err_of run_op) i st1) []"
    proof (rule leads_trans [OF _ s(4)])
      fix t :: "'e ExecState" assume t: "es_pc t = Dispatching []" "es_loop t = st1" "es_results t = []" "channel_inv plan run_op t"
      let ?t = "t\<lparr>es_pc := Selecting\<rparr>"
      have step: "exec_step True plan run_op t ?t" using t received.hyps(5) by (intro exec_step.wait) auto
      show "leads True plan run_op t LoopHead (receive (build_index plan) (err_of run_op) i st1) []"
      proof (rule leads_step [OF step], rule leads_trans [OF finish_goroutine [OF channel_step [OF step t(4)] _ _ assms(2)] channel_step [OF step t(4)]])
        fix u :: "'e ExecState" assume u: "es_pc u = es_pc ?t" "es_loop u = es_loop ?t" "es_results u = [result_of plan run_op i]"
        have "exec_step True plan run_op u (u\<lparr>es_pc := LoopHead,
            es_loop := receive (build_index plan) (\<lambda>_. or_err (result_of plan run_op i)) (or_id (result_of plan run_op i)) (es_loop u),
            es_results := []\<rparr>)" using u by (intro exec_step.receive_result) simp_all
        then show "leads True plan run_op u LoopHead (receive (build_index plan) (err_of run_op) i st1) []"
          using u(2) t(2) results_agree(2) [of "build_index plan" "err_of run_op" i] by (elim leads_step) (simp add: leads_refl)
      qed (use t received.hyps(5) in simp_all)
    qed
  qed
next
  case (cancelled st0 st entries st1 entries' "is")
  have new: "channel_inv plan run_op (new_execution plan)" by (simp add: channel_inv_def new_execution_def start_exec_def)
  let ?fin = "fold (settle (build_index plan) (err_of run_op)) is (fold abort_one (map fst entries') st1)"
  show ?case
  proof (rule leads_trans [OF cancelled.IH [OF cancelled.prems] new])
    fix s :: "'e ExecState" assume s: "es_pc s = LoopHead" "es_loop s = st" "es_results s = []" "channel_inv plan run_op s"
    have "leads True plan run_op s (Dispatching []) st1 []"
      using start_round [of s entries True plan run_op] s cancelled.hyps(2-4) by simp
    then show "leads True plan run_op s LoopHead ?fin []"
    proof (rule leads_trans [OF _ s(4)])
      fix t :: "'e ExecState" assume t: "es_pc t = Dispatching []" "es_loop t = st1" "es_results t = []" "channel_inv plan run_op t"
      let ?t = "t\<lparr>es_pc := Selecting\<rparr>"
      let ?u = "?t\<lparr>es_pc := Draining, es_loop := fold abort_one (map fst entries') (es_loop ?t)\<rparr>"
      have step: "exec_step True plan run_op t ?t" using t cancelled.hyps(5) by (intro exec_step.wait) auto
      have step': "exec_step True plan run_op ?t ?u" using t cancelled.hyps(6) by (intro exec_step.context_done) auto
      have ch: "channel_inv plan run_op ?u" using channel_step [OF step'] channel_step [OF step] t(4) by blast
      have "leads True plan run_op ?u LoopHead (fold (settle (build_index plan) (err_of run_op)) is (es_loop ?u)) []"
        by (rule drain_all [OF _ _ ch assms(2)]) (use t cancelled.hyps(7) in \<open>simp_all add: abort_fold_running\<close>)
      then show "leads True plan run_op t LoopHead ?fin []"
        using t(2) by (intro leads_step [OF step] leads_step [OF step']) simp
    qed
  qed
qed

lemma stops_reached:
  fixes run_op :: "Operation \<Rightarrow> 'e op_run"
  assumes "es_pc s = LoopHead" and "stops (build_index plan) (es_loop s) st" and "channel_inv plan run_op s"
  shows "leads cancels plan run_op s Returned st (es_results s)"
proof (cases "more_work (es_loop s)")
  case False
  then have "exec_step cancels plan run_op s (s\<lparr>es_pc := Returned\<rparr>)" using assms(1) by (intro exec_step.leave)
  then show ?thesis using assms(2) False by (elim leads_step) (simp add: stops_def leads_refl)
next
  case True
  then obtain entries where e: "mset entries = mset (ex_status (es_loop s))"
    "st = fold (dispatch_one (build_index plan)) (map fst entries) (es_loop s)" "ex_running st = []"
    using assms(2) by (auto simp: stops_def)
  show ?thesis
  proof (rule leads_trans [OF start_round [OF assms(1) True e(1)] assms(3)])
    fix t :: "'e ExecState" assume t: "es_pc t = Dispatching []" "es_loop t = fold (dispatch_one (build_index plan)) (map fst entries) (es_loop s)"
      "es_results t = es_results s"
    then have "exec_step cancels plan run_op t (t\<lparr>es_pc := Returned\<rparr>)" using e by (intro exec_step.break_off) simp_all
    then show "leads cancels plan run_op t Returned st (es_results s)" using t e(2) by (elim leads_step) (simp add: leads_refl)
  qed
qed


section \<open>Termination and progress\<close>

text \<open>While the amount of work is the same, the caller goes from the head of the loop towards its end.\<close>

definition pc_rank :: "exec_pc \<Rightarrow> 'e Exec \<Rightarrow> nat" where
  "pc_rank pc st = (case pc of LoopHead \<Rightarrow> if more_work st then 5 else 1 | Dispatching _ \<Rightarrow> 4 | Selecting \<Rightarrow> 3
     | Draining \<Rightarrow> 2 | Returned \<Rightarrow> 0)"

definition ids_left :: "exec_pc \<Rightarrow> nat" where
  "ids_left pc = (case pc of Dispatching ids \<Rightarrow> length ids | _ \<Rightarrow> 0)"

definition steps_left :: "(OperationID \<times> action list) list \<Rightarrow> nat" where
  "steps_left gs = (\<Sum>(i, acts)\<leftarrow>gs. Suc (length acts))"

abbreviation exec_order :: "('e ExecState \<times> 'e ExecState) set" where
  "exec_order \<equiv> measures [\<lambda>s. work_left (es_loop s), \<lambda>s. pc_rank (es_pc s) (es_loop s), \<lambda>s. ids_left (es_pc s),
     \<lambda>s. steps_left (es_goroutines s)]"

lemma steps_left_call: "k < length gs \<Longrightarrow> gs ! k = (i, a # acts) \<Longrightarrow> steps_left (gs[k := (i, acts)]) < steps_left gs"
  by (induction gs arbitrary: k) (auto simp: steps_left_def nth_Cons split: nat.splits)

lemma steps_left_send: "k < length gs \<Longrightarrow> gs ! k = (i, []) \<Longrightarrow> steps_left (take k gs @ drop (Suc k) gs) < steps_left gs"
  by (induction gs arbitrary: k) (auto simp: steps_left_def nth_Cons split: nat.splits)

lemma no_pending_no_work:
  "exec_core plan outcome st \<Longrightarrow> pending_ids (ex_status st) = {} \<Longrightarrow> ex_running st = [] \<Longrightarrow> \<not> more_work st"
  by (simp add: exec_core_def books_def more_work_def)

lemma exec_step_decreases:
  assumes "exec_step cancels plan run_op s s'" and "exec_state_inv plan run_op s"
  shows "(s', s) \<in> exec_order"
  using assms
proof (induction rule: exec_step.induct)
  case (dispatch s i ids)
  then have "gget (ex_status (es_loop s)) i \<noteq> None" by (simp add: exec_state_inv_def)
  then have "i \<in> fst ` set (ex_status (es_loop s))" by (simp add: gget_None_keys)
  from dispatch_one_work [OF this] show ?case using dispatch by (simp add: pc_rank_def ids_left_def)
next
  case (receive_result s r rs)
  have "channel_inv plan run_op s" using receive_result by (simp add: exec_state_inv_def)
  from channel_head(2) [OF this receive_result(2)] have "or_id r \<in> set (ex_running (es_loop s))" .
  from receive_work [OF this] show ?case by simp
next
  case (context_done s entries)
  have "work_left (fold abort_one (map fst entries) (es_loop s)) \<le> work_left (es_loop s)" using abort_fold_work by blast
  then show ?case using context_done by (auto simp: pc_rank_def)
next
  case (drain s r rs)
  have "channel_inv plan run_op s" using drain by (simp add: exec_state_inv_def)
  from channel_head(2) [OF this drain(3)] have "or_id r \<in> set (ex_running (es_loop s))" .
  from settle_work [OF this] show ?case by simp
next
  case (drained s)
  then have "exec_core plan (err_of run_op) (es_loop s)" "pending_ids (ex_status (es_loop s)) = {}"
    by (simp_all add: exec_state_inv_def)
  from no_pending_no_work [OF this drained(2)] show ?case using drained by (simp add: pc_rank_def)
qed (simp_all add: pc_rank_def ids_left_def steps_left_call steps_left_send)

lemma channel_has_room:
  assumes "exec_state_inv plan run_op s" and "g \<in> set (es_goroutines s)"
  shows "length (es_results s) < length plan"
proof -
  have "channel_inv plan run_op s" "exec_core plan (err_of run_op) (es_loop s)"
    using assms(1) control_core by (auto simp: exec_state_inv_def)
  from goroutine_running(3) [OF this] length_pos_if_in_set [OF assms(2)] show ?thesis by linarith
qed

lemma goroutine_can_step:
  assumes "exec_state_inv plan run_op s" and "es_goroutines s = (i, acts) # gs"
  shows "\<exists>s'. exec_step cancels plan run_op s s'"
proof (cases acts)
  case Nil
  have "(i, acts) \<in> set (es_goroutines s)" using assms(2) by simp
  from exec_step.send [of 0 s i, OF _ _ channel_has_room [OF assms(1) this]] show ?thesis using assms(2) Nil by fastforce
next
  case (Cons a rest)
  then show ?thesis using exec_step.call [of 0 s i a rest] assms(2) by fastforce
qed

text \<open>Whoever waits for a result gets one: as long as operations are in flight, a goroutine or the channel has it.\<close>

lemma exec_progress:
  assumes "exec_state_inv plan run_op s" and "es_pc s \<noteq> Returned"
  shows "\<exists>s'. exec_step cancels plan run_op s s'"
proof (cases "es_goroutines s")
  case (Cons g gs)
  then show ?thesis using goroutine_can_step [OF assms(1)] by (cases g) blast
next
  case Nil
  have c: "control_inv plan run_op (es_pc s) (es_loop s)" and r: "mset (map or_id (es_results s)) = mset (ex_running (es_loop s))"
    using assms(1) Nil by (simp_all add: exec_state_inv_def channel_inv_def)
  show ?thesis
  proof (cases "es_pc s")
    case LoopHead
    then show ?thesis using exec_step.again exec_step.leave by blast
  next
    case (Dispatching ids)
    then show ?thesis using exec_step.dispatch exec_step.break_off exec_step.wait by (cases ids) blast+
  next
    case Selecting
    then have "es_results s \<noteq> []" using c r by auto
    then show ?thesis using exec_step.receive_result [OF Selecting] by (meson neq_Nil_conv)
  next
    case Draining
    then show ?thesis using r exec_step.drain [OF Draining] exec_step.drained [OF Draining]
      by (cases "es_results s") (auto, metis list.discI)
  qed (use assms(2) in simp)
qed

section \<open>The world state\<close>

text \<open>Only the calls on reservations change it, and an operation makes at most one of them.\<close>

definition on_reservation :: "action \<Rightarrow> bool" where
  "on_reservation a \<longleftrightarrow> (case a of ActFulfillReservation _ \<Rightarrow> True | ActExpireReservation _ \<Rightarrow> True | _ \<Rightarrow> False)"

lemma run_actions_on_reservation:
  "run_actions fulfill expire_one acts s = run_actions fulfill expire_one (filter on_reservation acts) s"
proof (induction acts arbitrary: s)
  case (Cons a acts)
  then show ?case by (cases a) (simp_all add: on_reservation_def)
qed simp

lemma polls_no_reservation: "set acts \<subseteq> {ActGetReplicaStatus rid} \<Longrightarrow> filter on_reservation acts = []"
  by (induction acts) (auto simp: on_reservation_def)

lemma op_one_reservation_call: "length (filter on_reservation (snd (dispatchOp cfg clients snap op))) \<le> 1"
proof -
  have up: "length (filter on_reservation (snd (scaleUp r d ttl))) \<le> 1" for r :: "'a responses" and d ttl
  proof (cases "rsp_create r")
    case (Inr rid)
    obtain err polls where w: "waitForRunning r rid 0 (rsp_ticks r) = (err, polls)" by fastforce
    have "filter on_reservation polls = []"
      using waitForRunning_acts [of r rid 0 "rsp_ticks r"] w by (intro polls_no_reservation) simp
    then show ?thesis using w Inr by (cases err) (simp_all add: scaleUp_def on_reservation_def)
  qed (simp add: scaleUp_def on_reservation_def)
  have wait: "filter on_reservation (snd (waitForDeletion r rid n ticks)) = []" for r :: "'a responses" and rid n ticks
    by (rule polls_no_reservation) (simp add: waitForDeletion_acts)
  have "filter on_reservation (snd (preempt cfg r p)) = []" for r :: "'a responses" and p
    by (simp add: preempt_def Let_def split_beta wait split: option.split) (simp add: on_reservation_def)
  moreover have "filter on_reservation (snd (scaleDown cfg r d)) = []" for r :: "'a responses" and d
    by (simp add: scaleDown_def Let_def split_beta wait split: option.split) (simp add: on_reservation_def)
  ultimately show ?thesis
    using up by (simp add: dispatchOp_def split: Payload.split sum.split option.split)
qed


lemma distinct_keys: "\<forall>i. length (filter (\<lambda>x. fst x = i) xs) \<le> 1 \<Longrightarrow> distinct (map fst xs)"
proof (induction xs)
  case (Cons x xs)
  have "filter (\<lambda>y. fst y = fst x) xs = []" using Cons.prems [rule_format, of "fst x"] by simp
  then have "fst x \<notin> fst ` set xs" by (auto simp: filter_empty_conv)
  moreover have "length (filter (\<lambda>y. fst y = i) xs) \<le> 1" for i using Cons.prems [rule_format, of i] by (simp split: if_splits)
  ultimately show ?case using Cons.IH by simp
qed simp

text \<open>Some entries of a list in the order of their keys, then the others.\<close>

lemma keyed_order:
  assumes "distinct (map f ops)" and "distinct ids" and "set ids \<subseteq> f ` set ops"
  shows "\<exists>ys. map f ys = ids \<and> set ys \<subseteq> set ops \<and> mset (ys @ filter (\<lambda>op. f op \<notin> set ids) ops) = mset ops"
proof -
  have "ids \<in> map f ` lists (set ops)" using assms(3) by (simp flip: lists_image add: in_lists_conv_set subset_iff)
  then obtain ys where ys: "map f ys = ids" "set ys \<subseteq> set ops" by auto
  have "inj_on f (set ops)" "distinct ops" using assms(1) by (simp_all add: distinct_map)
  moreover have "distinct ys" using assms(2) ys(1) distinct_map by blast
  ultimately have "distinct (ys @ filter (\<lambda>op. f op \<notin> set ids) ops)" "set (ys @ filter (\<lambda>op. f op \<notin> set ids) ops) = set ops"
    using ys by (auto, metis inj_onD subsetD)
  then have "mset (ys @ filter (\<lambda>op. f op \<notin> set ids) ops) = mset ops"
    using \<open>distinct ops\<close> set_eq_iff_mset_eq_distinct by blast
  then show ?thesis using ys by blast
qed

lemma filter_one: "length (filter P xs) \<le> 1 \<Longrightarrow> x \<in> set xs \<Longrightarrow> P x \<Longrightarrow> filter P xs = [x]"
proof -
  assume "length (filter P xs) \<le> 1" and "x \<in> set xs" and "P x"
  then have "x \<in> set (filter P xs)" "length (filter P xs) \<le> 1" by simp_all
  then show ?thesis by (cases "filter P xs") auto
qed

text \<open>
  A trace that holds the calls of the operations \<open>ops\<close>, however interleaved, does to the world state what
  the operations do one after the other in some order.
\<close>

lemma trace_is_shuffle:
  assumes "distinct (map op_ID ops)"
    and calls: "\<And>op. op \<in> set ops \<Longrightarrow> calls_of (op_ID op) trace = snd (run_op op)"
    and callers: "\<forall>c \<in> set trace. fst c \<in> op_ID ` set ops"
    and few: "\<And>op. length (filter on_reservation (snd (run_op op))) \<le> 1"
  shows "\<exists>cs. run_actions fulfill expire_one (map snd trace) s
    = fold (\<lambda>op. run_actions fulfill expire_one (snd (run_op op))) (shuffle cs ops) s"
proof -
  let ?E = "filter (\<lambda>c. on_reservation (snd c)) trace" and ?run = "\<lambda>op. run_actions fulfill expire_one (snd (run_op op))"
  have one: "filter on_reservation (snd (run_op op)) = map snd (filter (\<lambda>c. fst c = op_ID op) ?E)" if "op \<in> set ops" for op
    unfolding calls [OF that, symmetric] calls_of_def by (simp add: filter_map comp_def conj_commute)
  have le1: "length (filter (\<lambda>c. fst c = op_ID op) ?E) \<le> 1" if "op \<in> set ops" for op using few [of op] one [OF that] by simp
  have "length (filter (\<lambda>c. fst c = i) ?E) \<le> 1" for i
  proof (cases "i \<in> op_ID ` set ops")
    case False
    then have "filter (\<lambda>c. fst c = i) ?E = []" using callers by (auto simp: filter_empty_conv)
    then show ?thesis by (simp only: list.size)
  qed (use le1 in auto)
  then have "distinct (map fst ?E)" by (intro distinct_keys) blast
  moreover have "set (map fst ?E) \<subseteq> op_ID ` set ops" using callers by auto
  ultimately obtain ys where ys: "map op_ID ys = map fst ?E" "set ys \<subseteq> set ops"
    "mset (ys @ filter (\<lambda>op. op_ID op \<notin> set (map fst ?E)) ops) = mset ops"
    using keyed_order [OF assms(1)] by blast
  then obtain cs where cs: "shuffle cs ops = ys @ filter (\<lambda>op. op_ID op \<notin> set (map fst ?E)) ops" using shuffle_complete by blast
  have first: "fold ?run zs t = run_actions fulfill expire_one (map snd E) t"
    if "map op_ID zs = map fst E" "set zs \<subseteq> set ops" "set E \<subseteq> set ?E" for zs E t
    using that
  proof (induction zs arbitrary: E t)
    case (Cons op zs)
    then obtain a E' where E: "E = (op_ID op, a) # E'" by (cases E) auto
    have op: "op \<in> set ops" "(op_ID op, a) \<in> set ?E" using Cons.prems E by auto
    have "filter on_reservation (snd (run_op op)) = [a]"
      unfolding one [OF op(1)] using filter_one [OF le1 [OF op(1)] op(2)] by (simp only: fst_conv snd_conv list.map)
    then have "?run op t = apply_action fulfill expire_one a t" by (subst run_actions_on_reservation) simp
    then show ?case using Cons E by simp
  qed simp
  have none: "?run op t = t" if "op \<in> set ops" "op_ID op \<notin> set (map fst ?E)" for op t
  proof -
    have "filter (\<lambda>c. fst c = op_ID op) ?E = []" using that(2) by (force simp: filter_empty_conv)
    then have "filter on_reservation (snd (run_op op)) = []" using one [OF that(1)] by simp
    then show ?thesis by (subst run_actions_on_reservation) simp
  qed
  have rest: "fold ?run (filter (\<lambda>op. op_ID op \<notin> set (map fst ?E)) zs) t = t" if "set zs \<subseteq> set ops" for zs t
    using that by (induction zs arbitrary: t) (simp_all add: none)
  have "fold ?run (shuffle cs ops) s = run_actions fulfill expire_one (map snd ?E) s"
    unfolding cs using first [OF ys(1,2) subset_refl] rest [OF subset_refl] by simp
  also have "map snd ?E = filter on_reservation (map snd trace)" by (simp add: filter_map comp_def)
  finally show ?thesis using run_actions_on_reservation [of fulfill expire_one "map snd trace" s] by metis
qed


section \<open>Properties\<close>

lemma Execute_loop:
  "Execute od env outcome plan = exec_result (exec_loop (build_index plan) outcome env od 0 (start_exec plan))"
  by (cases "plan = []") (simp_all add: Execute_def exec_loop.simps exec_result_def start_exec_def)

lemma returned_state:
  assumes "distinct (map op_ID plan)" and "(exec_step cancels plan run_op)\<^sup>*\<^sup>* (new_execution plan) s" and "es_pc s = Returned"
  shows "\<exists>od env. Execute od env (err_of run_op) plan = exec_result (es_loop s)"
    and "es_goroutines s = []" and "es_results s = []"
    and "op \<in> set plan \<Longrightarrow> calls_of (op_ID op) (es_trace s)
      = (if op \<in> set (started_ops plan (exec_result (es_loop s))) then snd (run_op op) else [])"
proof -
  have inv: "exec_state_inv plan run_op s" "trace_inv plan run_op s"
    using execution.reachable_inv [OF _ assms(2)] assms(1) by blast+
  then have c: "control_inv plan run_op Returned (es_loop s)" and ch: "channel_inv plan run_op s"
    using assms(3) by (auto simp: exec_state_inv_def)
  then have "\<exists>env od. exec_loop (build_index plan) (err_of run_op) env od 0 (start_exec plan) = es_loop s"
    unfolding loop_iff_rounds by simp
  then show "\<exists>od env. Execute od env (err_of run_op) plan = exec_result (es_loop s)" by (metis Execute_loop)
  have "ex_running (es_loop s) = []" using c by simp
  then show gs: "es_goroutines s = []" and "es_results s = []" using ch by (simp_all add: channel_inv_def)
  assume op: "op \<in> set plan"
  have B: "books plan (es_loop s)" using c by (simp add: exec_inv_def)
  then have "gget (ex_status (es_loop s)) (op_ID op) \<noteq> Some opInFlight"
    using books_running [OF B] \<open>ex_running (es_loop s) = []\<close> by auto
  then have "was_started (es_loop s) (op_ID op) \<longleftrightarrow> op \<in> set (started_ops plan (exec_result (es_loop s)))"
    using op books_lists(1,2) [OF B, of "op_ID op"] by (auto simp: was_started_def started_ops_def exec_result_def)
  moreover have "calls_of (op_ID op) (es_trace s) @ calls_left (op_ID op) (es_goroutines s)
      = (if was_started (es_loop s) (op_ID op) then snd (run_op (op_of (build_index plan) (op_ID op))) else [])"
    using inv(2) unfolding trace_inv_def by blast
  ultimately show "calls_of (op_ID op) (es_trace s)
      = (if op \<in> set (started_ops plan (exec_result (es_loop s))) then snd (run_op op) else [])"
    using gs index_op_of [OF assms(1) op] by (simp add: calls_left_def)
qed

lemma execution_reached:
  fixes run_op :: "Operation \<Rightarrow> 'e op_run"
  shows "\<exists>s. (exec_step True plan run_op)\<^sup>*\<^sup>* (new_execution plan) s \<and> es_pc s = Returned
    \<and> exec_result (es_loop s) = Execute od env (err_of run_op) plan"
proof -
  let ?fin = "exec_loop (build_index plan) (err_of run_op) env od 0 (start_exec plan)"
  have new: "channel_inv plan run_op (new_execution plan)" by (simp add: channel_inv_def new_execution_def start_exec_def)
  obtain st where st: "rounds (build_index plan) (err_of run_op) (start_exec plan) st" "stops (build_index plan) st ?fin"
    using loop_iff_rounds by blast
  have "leads True plan run_op (new_execution plan) LoopHead st []"
  proof (cases "plan = []")
    case True
    then have "st = start_exec plan" using rounds_none [OF st(1)] by (simp add: more_work_def start_exec_def)
    then show ?thesis by (intro leads_refl) (simp_all add: new_execution_def)
  qed (use rounds_reached [OF st(1)] in blast)
  then have "leads True plan run_op (new_execution plan) Returned ?fin []"
  proof (rule leads_trans [OF _ new])
    fix t :: "'e ExecState" assume t: "es_pc t = LoopHead" "es_loop t = st" "es_results t = []" "channel_inv plan run_op t"
    have "stops (build_index plan) (es_loop t) ?fin" unfolding t(2) by (rule st(2))
    from stops_reached [OF t(1) this t(4)] show "leads True plan run_op t Returned ?fin []" unfolding t(3) .
  qed
  then obtain s where "(exec_step True plan run_op)\<^sup>*\<^sup>* (new_execution plan) s" "es_pc s = Returned" "es_loop s = ?fin"
    unfolding leads_def by (elim exE conjE)
  then show ?thesis by (intro exI [of _ s]) (simp add: Execute_loop)
qed

text \<open>C18: What \<open>Execute\<close> can return is what its goroutines can bring it to return: run in any interleaving, with a
  result channel, they reach exactly the results that the function \<open>Execute\<close> gives for the orders in which a
  map is ranged over, results arrive and the context is cancelled.\<close>

theorem goroutines_run_execute:
  assumes "distinct (map op_ID plan)"
  shows "(\<exists>s. (exec_step True plan run_op)\<^sup>*\<^sup>* (new_execution plan) s \<and> es_pc s = Returned \<and> exec_result (es_loop s) = result)
     \<longleftrightarrow> (\<exists>od env. Execute od env (\<lambda>op. fst (run_op op)) plan = result)"
  using returned_state(1) [OF assms] execution_reached by metis

text \<open>C16: \<open>Execute\<close> always returns. However its goroutines are interleaved and whenever the context is
  cancelled, they take finitely many steps; they can stop only when \<open>Execute\<close> has returned, and then no
  goroutine is left and the channel is empty. The channel has room for the result of every goroutine
  that still has one to send, so none of them is ever blocked.\<close>

theorem execution_always_returns:
  assumes "distinct (map op_ID plan)"
  shows "(\<nexists>run. run 0 = new_execution plan \<and> (\<forall>n. exec_step cancels plan run_op (run n) (run (Suc n))))
    \<and> (\<forall>s. (exec_step cancels plan run_op)\<^sup>*\<^sup>* (new_execution plan) s \<longrightarrow>
         ((\<nexists>s'. exec_step cancels plan run_op s s') \<longleftrightarrow> es_pc s = Returned)
         \<and> (es_pc s = Returned \<longrightarrow> es_goroutines s = [] \<and> es_results s = [])
         \<and> (es_goroutines s \<noteq> [] \<longrightarrow> length (es_results s) < length plan))"
proof (intro conjI allI impI)
  have inv: "exec_state_inv plan run_op s" if "(exec_step cancels plan run_op)\<^sup>*\<^sup>* (new_execution plan) s" for s
    using execution.reachable_inv [OF _ that] assms by blast
  show "\<nexists>run. run 0 = new_execution plan \<and> (\<forall>n. exec_step cancels plan run_op (run n) (run (Suc n)))"
  proof
    assume "\<exists>run. run 0 = new_execution plan \<and> (\<forall>n. exec_step cancels plan run_op (run n) (run (Suc n)))"
    then obtain run where run: "run 0 = new_execution plan" "\<And>n. exec_step cancels plan run_op (run n) (run (Suc n))" by blast
    have "(exec_step cancels plan run_op)\<^sup>*\<^sup>* (new_execution plan) (run n)" for n
      by (induction n) (use run in \<open>auto intro: rtranclp.rtrancl_into_rtrancl\<close>)
    then have "(run (Suc n), run n) \<in> exec_order" for n using exec_step_decreases [OF run(2) inv] by blast
    then show False using wf_no_infinite_down_chainE [OF wf_measures] by metis
  qed
  fix s assume s: "(exec_step cancels plan run_op)\<^sup>*\<^sup>* (new_execution plan) s"
  have returned: "es_goroutines s = [] \<and> es_results s = []" if "es_pc s = Returned"
    using returned_state(2,3) [OF assms s that] by blast
  then show "es_pc s = Returned \<Longrightarrow> es_goroutines s = []" "es_pc s = Returned \<Longrightarrow> es_results s = []" by blast+
  have "\<not> exec_step cancels plan run_op s s'" if "es_pc s = Returned" for s'
    using returned [OF that] that by (auto elim: exec_step.cases)
  then show "(\<nexists>s'. exec_step cancels plan run_op s s') = (es_pc s = Returned)" using exec_progress [OF inv [OF s]] by blast
  show "length (es_results s) < length plan" if "es_goroutines s \<noteq> []"
    using channel_has_room [OF inv [OF s]] that by (metis list.set_sel(1))
qed

text \<open>C17: At every moment of every execution, an operation that makes any call at all, be it to a cluster or to
  the world state, makes it when each operation it depends on has made all of its calls and has
  returned no error.\<close>

theorem calls_respect_dependencies:
  assumes "distinct (map op_ID plan)"
    and "(exec_step cancels plan run_op)\<^sup>*\<^sup>* (new_execution plan) s"
    and "es_trace s = xs @ (op_ID op, a) # ys" and "op \<in> set plan"
    and "dep \<in> set plan" and "op_ID dep \<in> set (op_DependsOn op)"
  shows "calls_of (op_ID dep) xs = snd (run_op dep) \<and> fst (run_op dep) = None \<and> op_ID dep \<notin> fst ` set ys"
proof -
  let ?ix = "build_index plan"
  have inv: "exec_state_inv plan run_op s" "trace_inv plan run_op s"
    using execution.reachable_inv [OF _ assms(2)] assms(1) by blast+
  then have core: "exec_core plan (err_of run_op) (es_loop s)" and ch: "channel_inv plan run_op s"
    using control_core by (auto simp: exec_state_inv_def)
  have B: "books plan (es_loop s)" using core by (simp add: exec_core_def)
  have calls: "calls_of i (es_trace s) @ calls_left i (es_goroutines s)
      = (if was_started (es_loop s) i then snd (run_op (op_of ?ix i)) else [])" for i
    using inv(2) unfolding trace_inv_def by blast
  have apart: "op_ID dep \<noteq> op_ID op \<and> op_ID dep \<notin> fst ` set ys"
    using inv(2) assms(3,4,6) unfolding trace_inv_def by blast
  have "calls_of (op_ID op) (es_trace s) \<noteq> []" unfolding assms(3) by (simp add: calls_of_def)
  then have "was_started (es_loop s) (op_ID op)" using calls by (metis append_is_Nil_conv)
  then have c: "gget (ex_status (es_loop s)) (op_ID dep) = Some opCompleted"
    using core assms(4,6) unfolding exec_core_def deps_done_def was_started_def by blast
  then have "op_ID dep \<notin> fst ` set (es_goroutines s)" using goroutine_running(2) [OF ch core, of "op_ID dep"] by auto
  then have "calls_left (op_ID dep) (es_goroutines s) = []" by (simp add: calls_left_def map_of_eq_None_iff [THEN iffD2])
  then have "calls_of (op_ID dep) (es_trace s) = snd (run_op dep)"
    using calls [of "op_ID dep"] c index_op_of [OF assms(1,5)] by (simp add: was_started_def)
  moreover have "calls_of (op_ID dep) (es_trace s) = calls_of (op_ID dep) xs"
    using apart unfolding assms(3) by (force simp: calls_of_def filter_empty_conv)
  moreover have "op_ID dep \<in> set (ex_completed (es_loop s))" using c books_lists(1) [OF B] by simp
  then have "fst (run_op dep) = None" using core assms(5) by (force simp: exec_core_def results_ok_def in_set_conv_nth)
  ultimately show ?thesis using apart by simp
qed


lemma callers:
  assumes "distinct (map op_ID plan)" and "(exec_step cancels plan run_op)\<^sup>*\<^sup>* (new_execution plan) s" and "c \<in> set (es_trace s)"
  shows "\<exists>op \<in> set plan. op_ID op = fst c \<and> calls_of (fst c) (es_trace s) \<noteq> []"
proof -
  have inv: "trace_inv plan run_op s" "exec_state_inv plan run_op s" using execution.reachable_inv [OF _ assms(2)] assms(1) by blast+
  have n: "calls_of (fst c) (es_trace s) \<noteq> []" using assms(3) by (auto simp: calls_of_def filter_empty_conv)
  then have "was_started (es_loop s) (fst c)" using inv(1) unfolding trace_inv_def by (metis append_is_Nil_conv)
  moreover have "books plan (es_loop s)" using inv(2) control_core by (auto simp: exec_state_inv_def exec_core_def)
  ultimately show ?thesis using books_op n unfolding was_started_def by blast
qed

section \<open>A cycle with its goroutines\<close>

text \<open>The world state a cycle's execution starts from.\<close>

definition reserved_world :: "'e ControlLoop \<Rightarrow> 'e CycleEnv \<Rightarrow> Event list \<Rightarrow> WorldState \<Rightarrow> WorldState" where
  "reserved_world cl env events ws =
     (let snap = cycle_snap env events ws
      in create_all (pl_Reservations (cycle_placements cl env snap))
        (applyScalingDecisions (sub (en_od env) 1) (ComputeTargets (lc_scaling cl) snap) (applyEvents events ws)))"

text \<open>The same surroundings but for what the executor's loop chooses; its map orders are those under index 5.\<close>

definition same_cycle :: "'e CycleEnv \<Rightarrow> 'e CycleEnv \<Rightarrow> bool" where
  "same_cycle env env' \<longleftrightarrow> (\<exists>od turns arrival. env' = env\<lparr>en_od := od, en_turns := turns, en_arrival := arrival\<rparr>
     \<and> (\<forall>k \<noteq> 5. sub od k = sub (en_od env) k))"

lemma same_cycle_choice:
  "\<exists>env'. same_cycle env env' \<and> sub (en_od env') 5 = od \<and> en_turns env' = turns \<and> en_arrival env' = arrival"
proof -
  let ?od = "\<lambda>p. if p \<noteq> [] \<and> hd p = 5 then od (tl p) else en_od env p"
  let ?env = "env\<lparr>en_od := ?od, en_turns := turns, en_arrival := arrival\<rparr>"
  have od: "sub ?od 5 = od" "\<forall>k \<noteq> 5. sub ?od k = sub (en_od env) k" by (simp_all add: sub_def)
  then have "same_cycle env ?env" unfolding same_cycle_def by blast
  then show ?thesis using od(1) by (intro exI [of _ ?env]) simp
qed

lemma same_cycle_views:
  assumes "same_cycle env env'"
  shows "cycle_snap env' = cycle_snap env" and "op_outcome cl env' = op_outcome cl env"
    and "cycle_placements cl env' = cycle_placements cl env" and "cycle_plan cl env' = cycle_plan cl env"
    and "\<And>k. k \<noteq> 5 \<Longrightarrow> sub (en_od env') k = sub (en_od env) k"
proof -
  obtain od turns arrival where env': "env' = env\<lparr>en_od := od, en_turns := turns, en_arrival := arrival\<rparr>"
    and od: "\<And>k. k \<noteq> 5 \<Longrightarrow> sub od k = sub (en_od env) k" using assms unfolding same_cycle_def by blast
  show "cycle_snap env' = cycle_snap env" by (intro ext) (simp add: cycle_snap_def env' od)
  show o: "op_outcome cl env' = op_outcome cl env" by (intro ext) (simp add: op_outcome_def env')
  show p: "cycle_placements cl env' = cycle_placements cl env" by (intro ext) (simp add: cycle_placements_def env' od)
  show "cycle_plan cl env' = cycle_plan cl env"
    unfolding cycle_plan_def [abs_def] p by (intro ext) (simp add: env' od)
  show "sub (en_od env') k = sub (en_od env) k" if "k \<noteq> 5" for k using od [OF that] env' by simp
qed

text \<open>C19: A cycle whose operations run in goroutines, call by call, is a cycle as \<open>runCycle\<close> computes it. However
  the calls are interleaved, what the execution returns and what its calls leave of the world state
  are what \<open>runCycle\<close> gives for some order of map entries, of results and of operations.\<close>

theorem cycle_with_goroutines:
  fixes cl :: "'e ControlLoop"
  assumes "snap = cycle_snap env events ws" and "inj (en_opID env)"
    and "validatePlan (sub (en_od env) 4) (cycle_plan cl env snap) snap = []"
    and "(exec_step cancels (cycle_plan cl env snap) (op_outcome cl env snap))\<^sup>*\<^sup>* (new_execution (cycle_plan cl env snap)) s"
    and "es_pc s = Returned"
  shows "\<exists>env'. same_cycle env env' \<and> runCycle cl env' events ws
    = (Inr (exec_result (es_loop s)), run_actions FulfillReservation ExpireReservation (map snd (es_trace s)) (reserved_world cl env events ws))"
proof -
  let ?plan = "cycle_plan cl env snap" and ?run = "op_outcome cl env snap"
  have d: "distinct (map op_ID ?plan)"
    using plan_ok_distinct [OF GeneratePlan_ok [OF assms(2)]] by (simp add: cycle_plan_def)
  let ?ops = "started_ops ?plan (exec_result (es_loop s))"
  obtain od env0 where E: "Execute od env0 (err_of ?run) ?plan = exec_result (es_loop s)"
    using returned_state(1) [OF d assms(4,5)] by blast
  note calls = returned_state(4) [OF d assms(4,5)]
  have callers': "fst c \<in> op_ID ` set ?ops" if c: "c \<in> set (es_trace s)" for c
  proof -
    obtain op where op: "op \<in> set ?plan" "op_ID op = fst c" "calls_of (fst c) (es_trace s) \<noteq> []"
      using callers [OF d assms(4) c] by blast
    then have "op \<in> set ?ops" using calls [OF op(1)] by (auto split: if_splits)
    then show ?thesis using op(2) by (metis imageI)
  qed
  have dist: "distinct (map op_ID ?ops)" using d by (simp add: started_ops_def distinct_map_filter)
  have calls': "calls_of (op_ID op) (es_trace s) = snd (?run op)" if "op \<in> set ?ops" for op
    using calls [of op] that by (simp add: started_ops_def)
  have few: "length (filter on_reservation (snd (?run op))) \<le> 1" for op
    unfolding op_outcome_def by (rule op_one_reservation_call)
  have "\<exists>cs. run_actions FulfillReservation ExpireReservation (map snd (es_trace s)) (reserved_world cl env events ws)
      = fold (\<lambda>op. run_actions FulfillReservation ExpireReservation (snd (?run op))) (shuffle cs ?ops) (reserved_world cl env events ws)"
    by (rule trace_is_shuffle [OF dist calls' _ few]) (simp_all add: callers')
  then obtain cs where cs: "run_actions FulfillReservation ExpireReservation (map snd (es_trace s)) (reserved_world cl env events ws)
      = fold (\<lambda>op. run_actions FulfillReservation ExpireReservation (snd (?run op))) (shuffle cs ?ops) (reserved_world cl env events ws)"
    by blast
  obtain env' where same: "same_cycle env env'" and env': "sub (en_od env') 5 = od" "en_turns env' = env0" "en_arrival env' = cs"
    using same_cycle_choice by blast
  note v = same_cycle_views [OF same]
  have "cycle_result cl env' snap = exec_result (es_loop s)" using E unfolding cycle_result_def v env' .
  moreover have "op_effect cl env' snap = (\<lambda>op. run_actions FulfillReservation ExpireReservation (snd (?run op)))"
    unfolding op_effect_def [abs_def] v ..
  ultimately have "runCycle cl env' events ws = (Inr (exec_result (es_loop s)),
      run_actions FulfillReservation ExpireReservation (map snd (es_trace s)) (reserved_world cl env events ws))"
    using assms(3) cs by (simp add: runCycle_def reserved_world_def Let_def v env' flip: assms(1))
  then show ?thesis using same by blast
qed


section \<open>Examples\<close>

text \<open>Three operations, the second of which waits for the first; each deletes its replica.\<close>

definition sample_run :: "Operation \<Rightarrow> string op_run" where
  "sample_run op = (None, [ActDeleteReplica (op_ID op)])"

lemma sample_run_result:
  "Execute (\<lambda>_. []) (\<lambda>_. Receive 0) (err_of sample_run) sample_plan
     = \<lparr>er_Completed = [''a'', ''c'', ''b''], er_Failed = [], er_Aborted = []\<rparr>"
  by code_simp

lemma sample_distinct: "distinct (map op_ID sample_plan)"
  by (rule plan_ok_distinct [OF sample_plan_ok])

lemma goroutines_run_execute_witness:
  "\<exists>s. (exec_step True sample_plan sample_run)\<^sup>*\<^sup>* (new_execution sample_plan) s \<and> es_pc s = Returned
     \<and> exec_result (es_loop s) = \<lparr>er_Completed = [''a'', ''c'', ''b''], er_Failed = [], er_Aborted = []\<rparr>"
  unfolding goroutines_run_execute [OF sample_distinct] using sample_run_result by blast

lemma execution_always_returns_witness:
  "\<nexists>run. run 0 = new_execution sample_plan \<and> (\<forall>n. exec_step True sample_plan sample_run (run n) (run (Suc n)))"
  using execution_always_returns [OF sample_distinct] by blast

lemma calls_respect_dependencies_witness:
  "\<exists>s xs ys. (exec_step True sample_plan sample_run)\<^sup>*\<^sup>* (new_execution sample_plan) s
     \<and> es_trace s = xs @ (''b'', ActDeleteReplica ''b'') # ys \<and> calls_of ''a'' xs = [ActDeleteReplica ''a'']"
proof -
  obtain s where s: "(exec_step True sample_plan sample_run)\<^sup>*\<^sup>* (new_execution sample_plan) s" "es_pc s = Returned"
    "exec_result (es_loop s) = \<lparr>er_Completed = [''a'', ''c'', ''b''], er_Failed = [], er_Aborted = []\<rparr>"
    using execution_reached [of sample_plan sample_run "\<lambda>_. []" "\<lambda>_. Receive 0"] unfolding sample_run_result by blast
  let ?a = "sample_op ''a'' []" and ?b = "sample_op ''b'' [''a'']"
  have ops: "?a \<in> set sample_plan" "?b \<in> set sample_plan" by (simp_all add: sample_plan_def)
  have "calls_of ''b'' (es_trace s) = [ActDeleteReplica ''b'']"
    using returned_state(4) [OF sample_distinct s(1,2) ops(2)] ops(2) s(3) by (simp add: started_ops_def sample_op_def sample_run_def)
  then have "(''b'', ActDeleteReplica ''b'') \<in> set (es_trace s)"
    by (auto simp: calls_of_def map_eq_Cons_conv filter_eq_Cons_iff)
  then obtain xs ys where tr: "es_trace s = xs @ (''b'', ActDeleteReplica ''b'') # ys" by (metis split_list)
  then have "es_trace s = xs @ (op_ID ?b, ActDeleteReplica ''b'') # ys" by (simp add: sample_op_def)
  from calls_respect_dependencies [OF sample_distinct s(1) this ops(2,1)] show ?thesis
    using s(1) tr by (auto simp: sample_op_def sample_run_def)
qed

lemma cycle_with_goroutines_witness:
  "\<exists>(s :: string ExecState) env'. es_pc s = Returned \<and> same_cycle sample_env env'
     \<and> fst (runCycle sample_loop env' sample_events place_state) = Inr (exec_result (es_loop s))
     \<and> er_Completed (exec_result (es_loop s)) = [[]]"
proof -
  let ?snap = "cycle_snap sample_env sample_events place_state"
  let ?plan = "cycle_plan sample_loop sample_env ?snap" and ?run = "op_outcome sample_loop sample_env ?snap"
  obtain result ws' where r: "sample_cycle = (Inr result, ws')" and c: "er_Completed result = [[]]"
    using sample_cycle_value by (cases sample_cycle) (auto split: sum.splits)
  then have ok: "validatePlan (sub (en_od sample_env) 4) ?plan ?snap = []" "cycle_result sample_loop sample_env ?snap = result"
    unfolding runCycle_def Let_def by (auto split: if_splits)
  obtain s where s: "(exec_step True ?plan ?run)\<^sup>*\<^sup>* (new_execution ?plan) s" "es_pc s = Returned" "exec_result (es_loop s) = result"
    using execution_reached [of ?plan ?run "sub (en_od sample_env) 5" "en_turns sample_env"] ok(2) unfolding cycle_result_def by auto
  have "inj (en_opID sample_env)" using inj_sample_uid by (simp add: sample_env_def)
  from cycle_with_goroutines [OF refl this ok(1) s(1,2)] obtain env' where "same_cycle sample_env env'"
    "fst (runCycle sample_loop env' sample_events place_state) = Inr (exec_result (es_loop s))" by auto
  then show ?thesis using s(2,3) c by (intro exI [of _ s] exI [of _ env']) simp
qed

end
