(* ===== verification/Observability.thy ===== *)
theory Observability
  imports Program
begin

text \<open>
  \<open>internal/observability\<close> and the metrics each part creates: the tracer provider \<open>run\<close> configures, the
  one Prometheus registry all parts share, and when \<open>MustRegister\<close> panics. OpenTelemetry and
  Prometheus are parameters; help texts and buckets are left out.
\<close>

section \<open>The tracer provider\<close>

text \<open>A provider that is not enabled samples by the library's default and has no exporter.\<close>

datatype exporter = OTLPExporter string | StdoutExporter

record TracerProvider =
  tp_ServiceName :: string
  tp_Environment :: string
  tp_SamplingRatio :: "f64 option"
  tp_Exporters :: "exporter list"

definition f_le :: "f64 \<Rightarrow> f64 \<Rightarrow> bool" where
  "f_le a b \<longleftrightarrow> f_lt a b \<or> f_eq a b"

text \<open>\<open>merge\<close>, \<open>otlp\<close> and \<open>stdout\<close> are the errors of merging the resource and of making the exporters.\<close>

definition NewTracerProvider :: "'x option \<Rightarrow> (string \<Rightarrow> 'x option) \<Rightarrow> 'x option \<Rightarrow> TracingConfig \<Rightarrow> 'x + TracerProvider" where
  "NewTracerProvider merge otlp stdout cfg =
     (let environment = (if tc_Environment cfg = '''' then ''development'' else tc_Environment cfg)
      in case merge of
           Some e \<Rightarrow> Inl e
         | None \<Rightarrow>
             if \<not> tc_Enabled cfg
             then Inr \<lparr>tp_ServiceName = tc_ServiceName cfg, tp_Environment = environment, tp_SamplingRatio = None, tp_Exporters = []\<rparr>
             else
               (let ratio = (if f_le (tc_SamplingRatio cfg) f_zero then f_one else tc_SamplingRatio cfg);
                    otlpErr = (if tc_OTLPEndpoint cfg \<noteq> '''' then otlp (tc_OTLPEndpoint cfg) else None);
                    stdoutErr = (if tc_Stdout cfg then stdout else None)
                in case (otlpErr, stdoutErr) of
                     (Some e, _) \<Rightarrow> Inl e
                   | (None, Some e) \<Rightarrow> Inl e
                   | (None, None) \<Rightarrow> Inr \<lparr>tp_ServiceName = tc_ServiceName cfg, tp_Environment = environment,
                       tp_SamplingRatio = Some ratio,
                       tp_Exporters = (if tc_OTLPEndpoint cfg \<noteq> '''' then [OTLPExporter (tc_OTLPEndpoint cfg)] else [])
                         @ (if tc_Stdout cfg then [StdoutExporter] else [])\<rparr>))"

section \<open>Metrics and the registry\<close>

datatype MetricKind = CounterMetric | GaugeMetric | HistogramMetric

record Metric =
  me_Kind :: MetricKind
  me_Name :: string
  me_Labels :: "string list"
  me_ConstLabels :: "(string \<times> string) list"

definition metric :: "MetricKind \<Rightarrow> string \<Rightarrow> string list \<Rightarrow> Metric" where
  "metric kind name labels = \<lparr>me_Kind = kind, me_Name = name, me_Labels = labels, me_ConstLabels = []\<rparr>"

text \<open>
  \<open>accepts reg m\<close>: the registry that holds \<open>reg\<close> takes \<open>m\<close>. \<open>MustRegister\<close> panics otherwise (\<open>None\<close>),
  and so do the six functions \<open>MustNew...\<close>.
\<close>

definition MustRegister :: "(Metric list \<Rightarrow> Metric \<Rightarrow> bool) \<Rightarrow> Metric \<Rightarrow> Metric list \<Rightarrow> Metric list option" where
  "MustRegister accepts m reg = (if accepts reg m then Some (reg @ [m]) else None)"

primrec register_all :: "(Metric list \<Rightarrow> Metric \<Rightarrow> bool) \<Rightarrow> Metric list \<Rightarrow> Metric list \<Rightarrow> Metric list option" where
  "register_all accepts [] reg = Some reg"
| "register_all accepts (m # ms) reg =
     (case MustRegister accepts m reg of None \<Rightarrow> None | Some reg' \<Rightarrow> register_all accepts ms reg')"

definition build_info :: "string \<Rightarrow> string \<Rightarrow> Metric" where
  "build_info version commit = \<lparr>me_Kind = GaugeMetric, me_Name = ''schedulator_info'', me_Labels = [],
     me_ConstLabels = [(''version'', version), (''commit'', commit)]\<rparr>"

text \<open>\<open>WrapRegistererWithPrefix\<close> puts its prefix before every name.\<close>

definition prefixed :: "string \<Rightarrow> Metric \<Rightarrow> Metric" where
  "prefixed p m = m\<lparr>me_Name := p @ me_Name m\<rparr>"

section \<open>The metrics of each part\<close>

definition worldstate_metrics :: "Metric list" where
  "worldstate_metrics =
     [metric GaugeMetric ''schedulator_worldstate_replicas_total'' [''status''],
      metric GaugeMetric ''schedulator_worldstate_clusters_total'' [],
      metric HistogramMetric ''schedulator_worldstate_snapshot_duration_seconds'' [],
      metric GaugeMetric ''schedulator_worldstate_reservations_active'' []]"

definition scaling_metrics :: "Metric list" where
  "scaling_metrics =
     [metric GaugeMetric ''schedulator_scaling_target_replicas'' [''app_id''],
      metric CounterMetric ''schedulator_scaling_decisions_total'' [''app_id'', ''direction''],
      metric HistogramMetric ''schedulator_scaling_compute_duration_seconds'' [],
      metric CounterMetric ''schedulator_scaling_stability_suppressed_total'' [''app_id'', ''reason'']]"

definition preemption_metrics :: "Metric list" where
  "preemption_metrics =
     [metric CounterMetric ''schedulator_preemption_events_total'' [''requesting_priority'', ''victim_priority''],
      metric CounterMetric ''schedulator_preemption_victims_total'' [],
      metric CounterMetric ''schedulator_preemption_insufficient_capacity_total'' []]"

definition placement_metrics :: "Metric list" where
  "placement_metrics =
     [metric HistogramMetric ''schedulator_placement_score'' [''cache_tier''],
      metric CounterMetric ''schedulator_placement_scaleups_total'' [''cluster_id''],
      metric CounterMetric ''schedulator_placement_scaledowns_total'' [],
      metric CounterMetric ''schedulator_placement_no_capacity_total'' [''app_id''],
      metric HistogramMetric ''schedulator_placement_compute_duration_seconds'' []]"

definition rebalancing_metrics :: "Metric list" where
  "rebalancing_metrics =
     [metric CounterMetric ''schedulator_rebalancing_migrations_proposed_total'' [],
      metric HistogramMetric ''schedulator_rebalancing_fragmentation_improvement'' [],
      metric CounterMetric ''schedulator_rebalancing_skipped_total'' [''reason'']]"

definition plangen_metrics :: "Metric list" where
  "plangen_metrics =
     [metric CounterMetric ''schedulator_plangen_operations_total'' [''type''],
      metric HistogramMetric ''schedulator_plangen_generate_duration_seconds'' []]"

definition executor_metrics :: "Metric list" where
  "executor_metrics =
     [metric HistogramMetric ''schedulator_executor_operation_duration_seconds'' [''type'', ''status''],
      metric GaugeMetric ''schedulator_executor_operations_inflight'' [],
      metric CounterMetric ''schedulator_executor_failures_total'' [''type'', ''reason''],
      metric CounterMetric ''schedulator_executor_reservations_expired_total'' []]"

definition ingestion_metrics :: "Metric list" where
  "ingestion_metrics =
     [metric CounterMetric ''schedulator_ingestion_events_received_total'' [''kind''],
      metric CounterMetric ''schedulator_ingestion_batches_emitted_total'' [],
      metric HistogramMetric ''schedulator_ingestion_batch_size'' [],
      metric HistogramMetric ''schedulator_ingestion_debounce_duration_seconds'' []]"

definition controlloop_metrics :: "Metric list" where
  "controlloop_metrics =
     [metric CounterMetric ''schedulator_controlloop_cycles_total'' [''outcome''],
      metric HistogramMetric ''schedulator_controlloop_cycle_duration_seconds'' [],
      metric CounterMetric ''schedulator_controlloop_events_processed_total'' [],
      metric GaugeMetric ''schedulator_controlloop_leader_is_leader'' []]"

definition k8sclient_metrics :: "ClusterID \<Rightarrow> Metric list" where
  "k8sclient_metrics clusterID =
     [(metric HistogramMetric ''schedulator_k8sclient_request_duration_seconds'' [''operation''])\<lparr>me_ConstLabels := [(''cluster'', clusterID)]\<rparr>,
      (metric CounterMetric ''schedulator_k8sclient_errors_total'' [''operation''])\<lparr>me_ConstLabels := [(''cluster'', clusterID)]\<rparr>]"

text \<open>What \<open>run\<close> registers, in its order, after the two collectors of \<open>NewMetricsRegistry\<close>.\<close>

definition cluster_metrics :: "ClusterID \<Rightarrow> Metric list" where
  "cluster_metrics cid = map (prefixed (metrics_prefix cid)) (k8sclient_metrics cid)"

definition part_metrics :: "Metric list" where
  "part_metrics = worldstate_metrics @ scaling_metrics @ preemption_metrics @ placement_metrics @ rebalancing_metrics
     @ plangen_metrics @ executor_metrics @ ingestion_metrics @ controlloop_metrics"

definition run_metrics :: "string \<Rightarrow> string \<Rightarrow> ClusterID list \<Rightarrow> Metric list" where
  "run_metrics version commit cids = build_info version commit # concat (map cluster_metrics cids) @ part_metrics"

text \<open>What \<open>Program.buildClusterClients\<close> asks of the registry for one client.\<close>

definition registers :: "(Metric list \<Rightarrow> Metric \<Rightarrow> bool) \<Rightarrow> Metric list \<Rightarrow> ClusterID list \<Rightarrow> string \<Rightarrow> ClusterID \<Rightarrow> bool" where
  "registers accepts reg cids pre cid \<longleftrightarrow>
     register_all accepts (map (prefixed pre) (k8sclient_metrics cid)) (reg @ concat (map cluster_metrics cids)) \<noteq> None"

section \<open>Names\<close>

text \<open>The names Prometheus allows: letters, digits, underscores and colons, and no digit first.\<close>

definition name_start :: "char \<Rightarrow> bool" where
  "name_start c \<longleftrightarrow> (let n = of_char (lower c) :: nat in 97 \<le> n \<and> n \<le> 122) \<or> c \<in> {CHR ''_'', CHR '':''}"

definition name_char :: "char \<Rightarrow> bool" where
  "name_char c \<longleftrightarrow> is_digit c \<or> name_start c"

definition valid_name :: "string \<Rightarrow> bool" where
  "valid_name s \<longleftrightarrow> s \<noteq> '''' \<and> name_start (hd s) \<and> list_all name_char s"

text \<open>An identifier that is a valid part of a name once its dashes are underscores.\<close>

definition plain_id :: "ClusterID \<Rightarrow> bool" where
  "plain_id cid \<longleftrightarrow> list_all (\<lambda>c. c = CHR ''-'' \<or> name_char c \<and> c \<noteq> CHR ''_'') cid"

text \<open>What Prometheus documents of its registry: it takes a new valid name, and no name twice with the same labels.\<close>

definition takes_new :: "(Metric list \<Rightarrow> Metric \<Rightarrow> bool) \<Rightarrow> bool" where
  "takes_new accepts \<longleftrightarrow> (\<forall>reg m. valid_name (me_Name m) \<longrightarrow> me_Name m \<notin> me_Name ` set reg \<longrightarrow> accepts reg m)"

definition refuses_twice :: "(Metric list \<Rightarrow> Metric \<Rightarrow> bool) \<Rightarrow> bool" where
  "refuses_twice accepts \<longleftrightarrow> (\<forall>reg m m'. m' \<in> set reg \<longrightarrow> me_Name m' = me_Name m \<longrightarrow> me_ConstLabels m' = me_ConstLabels m
     \<longrightarrow> \<not> accepts reg m)"

lemma register_all_new:
  assumes "takes_new accepts"
  shows "distinct (map me_Name ms) \<Longrightarrow> \<forall>m \<in> set ms. valid_name (me_Name m) \<and> me_Name m \<notin> me_Name ` set reg \<Longrightarrow>
    register_all accepts ms reg = Some (reg @ ms)"
proof (induction ms arbitrary: reg)
  case (Cons m ms)
  then have "accepts reg m" using assms unfolding takes_new_def by simp
  moreover have "register_all accepts ms (reg @ [m]) = Some ((reg @ [m]) @ ms)"
    using Cons.prems by (intro Cons.IH) (simp_all, metis imageI)
  ultimately show ?case by (simp add: MustRegister_def)
qed simp

lemma register_all_keeps: "register_all accepts ms reg = Some reg' \<Longrightarrow> reg' = reg @ ms"
  by (induction ms arbitrary: reg) (fastforce simp: MustRegister_def split: if_splits)+

lemma register_all_append:
  "register_all accepts (ms @ ms') reg = (case register_all accepts ms reg of None \<Rightarrow> None | Some reg' \<Rightarrow> register_all accepts ms' reg')"
  by (induction ms arbitrary: reg) (simp_all split: option.split)

lemma register_all_twice:
  assumes "refuses_twice accepts" and "m \<in> set reg" and "m \<in> set ms"
  shows "register_all accepts ms reg = None"
proof -
  obtain xs ys where ms: "ms = xs @ m # ys" using split_list [OF assms(3)] by blast
  have "\<not> accepts (reg @ xs) m" using assms(1,2) unfolding refuses_twice_def by (metis Un_iff set_append)
  then show ?thesis
    unfolding ms register_all_append using register_all_keeps [of accepts xs reg]
    by (auto simp: MustRegister_def split: option.split)
qed

lemma part_names: "distinct (map me_Name part_metrics)" "list_all (\<lambda>m. valid_name (me_Name m) \<and> take 6 (me_Name m) = ''schedu'') part_metrics"
  "''schedulator_info'' \<notin> me_Name ` set part_metrics"
  by code_simp+

definition client_names :: "string list" where
  "client_names = [''schedulator_k8sclient_request_duration_seconds'', ''schedulator_k8sclient_errors_total'']"

lemma cluster_names: "map me_Name (cluster_metrics cid) = map ((@) (metrics_prefix cid)) client_names"
  by (simp add: cluster_metrics_def k8sclient_metrics_def prefixed_def metric_def client_names_def)

lemma inj_on_replace: "new \<notin> S \<Longrightarrow> inj_on (\<lambda>c. if c = old then new else c) S"
  by (auto simp: inj_on_def)

lemma not_excluded: "list_all (\<lambda>c. c = d \<or> P c \<and> c \<noteq> u) s \<Longrightarrow> d \<noteq> u \<Longrightarrow> u \<notin> set s"
  by (auto simp: list_all_iff)

lemma plain_id_no_underscore: "plain_id cid \<Longrightarrow> CHR ''_'' \<notin> set cid"
proof -
  have "CHR ''-'' \<noteq> CHR ''_''" by simp
  then show "plain_id cid \<Longrightarrow> CHR ''_'' \<notin> set cid" unfolding plain_id_def by (rule not_excluded [rotated])
qed

lemma metrics_prefix_inj:
  assumes "plain_id cid" and "plain_id cid'" and "metrics_prefix cid @ n = metrics_prefix cid' @ n'"
    and "n \<in> set client_names" and "n' \<in> set client_names"
  shows "cid = cid' \<and> n = n'"
proof -
  have "n \<noteq> []" "n' \<noteq> []" using assms(4,5) by (auto simp: client_names_def)
  then have "last n = last n'" using arg_cong [OF assms(3), of last] by simp
  then have n: "n = n'" using assms(4,5) by (auto simp: client_names_def)
  let ?und = "\<lambda>c. if c = CHR ''-'' then CHR ''_'' else c"
  have "map ?und cid = map ?und cid'" using assms(3) unfolding n by (simp add: metrics_prefix_def ReplaceAll_def)
  moreover have "CHR ''_'' \<notin> set cid \<union> set cid'" using assms(1,2) by (simp add: plain_id_no_underscore)
  then have "inj_on ?und (set cid \<union> set cid')" by (rule inj_on_replace)
  ultimately have "cid = cid'" by (rule map_inj_on)
  then show ?thesis using n by simp
qed

lemma cluster_name_valid:
  assumes "plain_id cid" and "m \<in> set (cluster_metrics cid)"
  shows "valid_name (me_Name m)" and "take 6 (me_Name m) = ''cluste''"
proof -
  have "me_Name m \<in> set (map ((@) (metrics_prefix cid)) client_names)"
    unfolding cluster_names [symmetric] using assms(2) by simp
  then obtain n where n: "n \<in> set client_names" "me_Name m = metrics_prefix cid @ n" by auto
  have names: "list_all (list_all name_char) client_names" "list_all name_char ''cluster_''" "name_char (CHR ''_'')"
    "name_start (CHR ''c'')" by code_simp+
  have "list_all name_char (ReplaceAll cid (CHR ''-'') (CHR ''_''))"
    using assms(1) names(3) by (auto simp: plain_id_def ReplaceAll_def list_all_iff)
  then have "list_all name_char (me_Name m)"
    using n(1) names unfolding n(2) metrics_prefix_def by (auto simp: list_all_iff)
  moreover have "hd (me_Name m) = CHR ''c''" "me_Name m \<noteq> []" by (simp_all add: n(2) metrics_prefix_def)
  ultimately show "valid_name (me_Name m)" using names(4) by (simp add: valid_name_def)
  show "take 6 (me_Name m) = ''cluste''" by (simp add: n(2) metrics_prefix_def)
qed

section \<open>The clusters of the environment\<close>

lemma cluster_metrics_apart:
  assumes "plain_id cid" and "plain_id cid'" and "cid \<noteq> cid'"
  shows "me_Name ` set (cluster_metrics cid) \<inter> me_Name ` set (cluster_metrics cid') = {}"
proof -
  have "metrics_prefix cid @ n \<noteq> metrics_prefix cid' @ n'" if "n \<in> set client_names" "n' \<in> set client_names" for n n'
    using metrics_prefix_inj [OF assms(1,2) _ that] assms(3) by argo
  then have "(@) (metrics_prefix cid) ` set client_names \<inter> (@) (metrics_prefix cid') ` set client_names = {}" by blast
  then show ?thesis by (simp only: set_map [symmetric] cluster_names)
qed

lemma cluster_metrics_distinct: "distinct (map me_Name (cluster_metrics cid))"
  unfolding cluster_names by (simp add: client_names_def)

lemma all_cluster_metrics_distinct:
  assumes "list_all plain_id cids" and "distinct cids"
  shows "distinct (map me_Name (concat (map cluster_metrics cids)))"
  using assms
proof (induction cids)
  case (Cons cid cids)
  have "me_Name ` set (cluster_metrics cid) \<inter> me_Name ` set (cluster_metrics cid') = {}" if "cid' \<in> set cids" for cid'
    using that Cons.prems by (intro cluster_metrics_apart) (auto simp: list_all_iff)
  then have "me_Name ` set (cluster_metrics cid) \<inter> me_Name ` set (concat (map cluster_metrics cids)) = {}" by fastforce
  then show ?case using Cons cluster_metrics_distinct [of cid] by simp
qed simp

text \<open>What the registry holds besides the clients' metrics: the collectors' own and the build information.\<close>

definition base_registry :: "Metric list \<Rightarrow> bool" where
  "base_registry reg \<longleftrightarrow> (\<forall>m \<in> set reg. take 6 (me_Name m) \<noteq> ''cluste'')"

lemma registers_new:
  assumes "takes_new accepts" and "base_registry reg" and "list_all plain_id (cid # cids)" and "cid \<notin> set cids"
  shows "registers accepts reg cids (metrics_prefix cid) cid"
proof -
  have "me_Name m \<notin> me_Name ` set (cluster_metrics cid')" if "m \<in> set (cluster_metrics cid)" "cid' \<in> set cids" for m cid'
    using cluster_metrics_apart [of cid cid'] that assms(3,4) by (metis (no_types, lifting) IntI emptyE imageI list_all_iff list.set_intros)
  moreover have "me_Name m \<notin> me_Name ` set reg" if "m \<in> set (cluster_metrics cid)" for m
  proof
    assume "me_Name m \<in> me_Name ` set reg"
    then obtain m' where "m' \<in> set reg" "me_Name m' = me_Name m" by (metis imageE)
    then show False using assms(2,3) cluster_name_valid(2) [OF _ that] unfolding base_registry_def by (metis list.pred_inject(2))
  qed
  moreover have "valid_name (me_Name m)" if "m \<in> set (cluster_metrics cid)" for m
    using cluster_name_valid(1) [OF _ that] assms(3) by simp
  moreover have "me_Name ` set (reg @ concat (map cluster_metrics cids))
      = me_Name ` set reg \<union> (\<Union>cid' \<in> set cids. me_Name ` set (cluster_metrics cid'))" by auto
  ultimately have "\<forall>m \<in> set (cluster_metrics cid). valid_name (me_Name m)
      \<and> me_Name m \<notin> me_Name ` set (reg @ concat (map cluster_metrics cids))" by blast
  from register_all_new [OF assms(1) cluster_metrics_distinct this]
  have "register_all accepts (cluster_metrics cid) (reg @ concat (map cluster_metrics cids)) \<noteq> None" by simp
  then show ?thesis by (simp add: registers_def cluster_metrics_def)
qed

lemma registers_twice:
  assumes "refuses_twice accepts" and "cid \<in> set cids"
  shows "\<not> registers accepts reg cids (metrics_prefix cid) cid"
proof -
  have m: "hd (cluster_metrics cid) \<in> set (cluster_metrics cid)" by (simp add: cluster_metrics_def k8sclient_metrics_def)
  have "register_all accepts (cluster_metrics cid) (reg @ concat (map cluster_metrics cids)) = None"
    by (rule register_all_twice [OF assms(1) _ m]) (use m assms(2) in auto)
  then show ?thesis by (simp add: registers_def cluster_metrics_def)
qed

lemma build_clients_no_panic:
  assumes "takes_new accepts" and "base_registry reg"
  shows "list_all plain_id (map cc_ClusterID configs @ map fst (List.map_filter cluster_var environ)) \<Longrightarrow>
    distinct (map cc_ClusterID configs @ map fst (List.map_filter cluster_var environ)) \<Longrightarrow>
    build_clients BuildConfig NewForConfig (registers accepts reg) namespace environ (configs, clients) \<noteq> Inl (MetricsPanic cid)"
proof (induction environ arbitrary: configs clients)
  case (Cons env envs)
  show ?case
  proof (cases "cluster_var env")
    case None
    then show ?thesis using Cons by (simp add: map_filter_simps)
  next
    case (Some v)
    obtain i path where v: "v = (i, path)" by (cases v)
    have ok: "registers accepts reg (map cc_ClusterID configs) (metrics_prefix i) i"
      by (rule registers_new [OF assms]) (use Cons.prems Some v in \<open>simp_all add: map_filter_simps list_all_iff\<close>)
    have IH: "build_clients BuildConfig NewForConfig (registers accepts reg) namespace envs
        (configs @ [\<lparr>cc_ClusterID = i, cc_Clientset = k, cc_Namespace = namespace\<rparr>], clients') \<noteq> Inl (MetricsPanic cid)" for k clients'
      by (rule Cons.IH) (use Cons.prems Some v in \<open>auto simp: map_filter_simps\<close>)
    show ?thesis using Some v ok IH by (auto split: sum.split)
  qed
qed simp

section \<open>Properties\<close>

text \<open>The metrics of the whole program fit one registry. Given that Prometheus takes a new valid name and
  refuses a metric it holds, everything \<open>run\<close> creates can be registered without a panic exactly when no
  two clusters have the same identifier, for identifiers of letters, digits and dashes.\<close>

theorem metrics_register_iff_clusters_differ:
  assumes "takes_new accepts" and "refuses_twice accepts"
    and "\<forall>m \<in> set collectors. take 6 (me_Name m) \<notin> {''cluste'', ''schedu''}"
    and "list_all plain_id cids"
  shows "register_all accepts (run_metrics version commit cids) collectors \<noteq> None \<longleftrightarrow> distinct cids"
proof
  let ?clusters = "concat (map cluster_metrics cids)" and ?bi = "build_info version commit"
  have bi: "me_Name ?bi = ''schedulator_info''" by (simp add: build_info_def)
  assume d: "distinct cids"
  have clusters: "valid_name (me_Name m)" "take 6 (me_Name m) = ''cluste''" if "m \<in> set ?clusters" for m
    using that assms(4) cluster_name_valid by (auto simp: list_all_iff)
  have parts: "valid_name (me_Name m)" "take 6 (me_Name m) = ''schedu''" if "m \<in> set part_metrics" for m
    using part_names(2) that by (simp_all add: list_all_iff)
  have "valid_name ''schedulator_info''" by code_simp
  then have all: "valid_name (me_Name m) \<and> take 6 (me_Name m) \<in> {''cluste'', ''schedu''}"
    if "m \<in> set (run_metrics version commit cids)" for m
    using that clusters [of m] parts [of m] bi unfolding run_metrics_def by auto
  have "me_Name ` set ?clusters \<inter> me_Name ` set (?bi # part_metrics) = {}"
  proof (rule equals0I)
    fix n assume "n \<in> me_Name ` set ?clusters \<inter> me_Name ` set (?bi # part_metrics)"
    then obtain m m' where "m \<in> set ?clusters" "m' \<in> set (?bi # part_metrics)" "me_Name m = me_Name m'" by auto
    then have "take 6 (me_Name m') = ''cluste''" "take 6 (me_Name m') = ''schedu''"
      using clusters(2) [of m] parts(2) [of m'] bi by auto
    then show False by simp
  qed
  then have "distinct (map me_Name (run_metrics version commit cids))"
    using all_cluster_metrics_distinct [OF assms(4) d] part_names(1,3) bi unfolding run_metrics_def by auto
  moreover have "me_Name m \<notin> me_Name ` set collectors" if "m \<in> set (run_metrics version commit cids)" for m
    using all [OF that] assms(3) by (metis imageE)
  ultimately show "register_all accepts (run_metrics version commit cids) collectors \<noteq> None"
    using register_all_new [OF assms(1), of "run_metrics version commit cids" collectors] all by simp
next
  assume r: "register_all accepts (run_metrics version commit cids) collectors \<noteq> None"
  show "distinct cids"
  proof (rule ccontr)
    assume "\<not> distinct cids"
    then obtain xs cid ys zs where cids: "cids = xs @ [cid] @ ys @ [cid] @ zs" using not_distinct_decomp by blast
    let ?first = "build_info version commit # concat (map cluster_metrics (xs @ [cid] @ ys))"
    have run: "run_metrics version commit cids = ?first @ cluster_metrics cid @ concat (map cluster_metrics zs) @ part_metrics"
      by (simp add: run_metrics_def cids)
    obtain reg where reg: "register_all accepts ?first collectors = Some reg"
      using r unfolding run register_all_append [of accepts ?first] by (auto split: option.splits)
    have "hd (cluster_metrics cid) \<in> set (cluster_metrics cid)" by (simp add: cluster_metrics_def k8sclient_metrics_def)
    then have "register_all accepts (cluster_metrics cid) reg = None"
      using register_all_keeps [OF reg] by (intro register_all_twice [OF assms(2)]) auto
    then show False using r unfolding run register_all_append [of accepts ?first] reg
      by (simp add: register_all_append)
  qed
qed

text \<open>What \<open>buildClusterClients\<close> asks of that registry: it panics only if two variables name the same cluster.\<close>

lemma clients_panic_only_on_duplicates:
  assumes "takes_new accepts" and "base_registry reg"
    and "list_all plain_id (map fst (List.map_filter cluster_var environ))"
    and "buildClusterClients BuildConfig NewForConfig (registers accepts reg) environ = Inl (MetricsPanic cid)"
  shows "\<not> distinct (map fst (List.map_filter cluster_var environ))"
proof
  let ?ids = "map fst (List.map_filter cluster_var environ)"
  assume "distinct ?ids"
  then have "build_clients BuildConfig NewForConfig (registers accepts reg)
      (env_or environ ''SCHEDULATOR_NAMESPACE'' ''default'') environ ([], []) \<noteq> Inl (MetricsPanic cid)"
    by (intro build_clients_no_panic [OF assms(1,2)]) (use assms(3) in simp_all)
  then show False using assms(4) by (simp add: buildClusterClients_def)
qed

text \<open>
  They may do so: names are taken in lower case, and underscores are dashes. The program then dies
  of a panic where a wrong path or an unreadable file is a reported error.
\<close>

lemma same_cluster_twice_panics:
  assumes "takes_new accepts" and "refuses_twice accepts" and "base_registry reg"
  shows "buildClusterClients Inr Inr (registers accepts reg) [''KUBECONFIG_EU_WEST=/a'', ''KUBECONFIG_eu-west=/b'']
    = Inl (MetricsPanic ''eu-west'')"
proof -
  have v: "cluster_var ''KUBECONFIG_EU_WEST=/a'' = Some (''eu-west'', ''/a'')"
    "cluster_var ''KUBECONFIG_eu-west=/b'' = Some (''eu-west'', ''/b'')" by code_simp+
  have "plain_id ''eu-west''" by code_simp
  then have "registers accepts reg [] (metrics_prefix ''eu-west'') ''eu-west''"
    by (intro registers_new [OF assms(1,3)]) simp_all
  moreover have "\<not> registers accepts reg [''eu-west''] (metrics_prefix ''eu-west'') ''eu-west''"
    by (rule registers_twice [OF assms(2)]) simp
  ultimately show ?thesis by (simp add: buildClusterClients_def v)
qed

text \<open>A registry that keeps the documented rules: it refuses exactly the invalid names and those it has.\<close>

definition sample_accepts :: "Metric list \<Rightarrow> Metric \<Rightarrow> bool" where
  "sample_accepts reg m \<longleftrightarrow> valid_name (me_Name m) \<and> me_Name m \<notin> set (map me_Name reg)"

lemma sample_accepts_rules: "takes_new sample_accepts" "refuses_twice sample_accepts"
  by (simp_all add: takes_new_def refuses_twice_def sample_accepts_def) (metis imageI)

lemma metrics_register_iff_clusters_differ_witness:
  "register_all sample_accepts (run_metrics ''dev'' ''none'' [''c1'', ''eu-west'']) [metric GaugeMetric ''go_goroutines'' []] \<noteq> None
     \<and> register_all sample_accepts (run_metrics ''dev'' ''none'' [''c1'', ''c1'']) [metric GaugeMetric ''go_goroutines'' []] = None"
proof -
  have c: "\<forall>m \<in> set [metric GaugeMetric ''go_goroutines'' []]. take 6 (me_Name m) \<notin> {''cluste'', ''schedu''}"
    by (simp add: metric_def)
  have "list_all plain_id [''c1'', ''eu-west'']" "list_all plain_id [''c1'', ''c1'']" by code_simp+
  from this [THEN metrics_register_iff_clusters_differ [OF sample_accepts_rules c]]
  show ?thesis by simp
qed

section \<open>Sampling\<close>

text \<open>
  A ratio of 0, which asks for no traces, samples all of them; so do the negative ones. Only without
  an exporter is tracing off.
\<close>

lemma sampling_is_never_off:
  assumes "NewTracerProvider merge otlp stdout cfg = Inr tp" and "tc_Enabled cfg" and "tc_SamplingRatio cfg \<noteq> NaN"
  shows "\<exists>r. tp_SamplingRatio tp = Some r \<and> f_lt f_zero r \<and> (tc_SamplingRatio cfg = f_zero \<longrightarrow> r = f_one)"
  using assms by (cases "tc_SamplingRatio cfg")
    (auto simp: NewTracerProvider_def Let_def f_le_def f_eq_def split: option.splits if_splits)

end
