(* ===== verification/Counters.thy ===== *)
theory Counters
  imports Goroutines Observability
begin

text \<open>
  What the metrics say: the updates the cluster client, the plan generator and the executor make of the
  metrics that \<open>Observability\<close> registers, and what of the program their values count. The measured
  durations are arguments.
\<close>

section \<open>Updates\<close>

text \<open>A counter or gauge is incremented by a number, a gauge decremented, a histogram given a value.\<close>

datatype update = AddTo string "string list" nat | Dec string "string list" | Observe string "string list" duration

definition inc :: "string \<Rightarrow> string list \<Rightarrow> update" where
  "inc name labels = AddTo name labels 1"

text \<open>
  The metric an update needs: of a fitting kind, and with a value for each label, or \<open>WithLabelValues\<close> panics.
\<close>

fun update_fits :: "Metric list \<Rightarrow> update \<Rightarrow> bool" where
  "update_fits ms (AddTo name labels n) =
     list_ex (\<lambda>m. me_Name m = name \<and> length (me_Labels m) = length labels \<and> me_Kind m \<in> {CounterMetric, GaugeMetric}) ms"
| "update_fits ms (Dec name labels) =
     list_ex (\<lambda>m. me_Name m = name \<and> length (me_Labels m) = length labels \<and> me_Kind m = GaugeMetric) ms"
| "update_fits ms (Observe name labels d) =
     list_ex (\<lambda>m. me_Name m = name \<and> length (me_Labels m) = length labels \<and> me_Kind m = HistogramMetric) ms"

text \<open>The value of a counter or gauge, and how often a histogram was given a value.\<close>

fun change :: "string \<Rightarrow> string list \<Rightarrow> update \<Rightarrow> int" where
  "change name labels (AddTo name' labels' n) = (if name' = name \<and> labels' = labels then int n else 0)"
| "change name labels (Dec name' labels') = (if name' = name \<and> labels' = labels then - 1 else 0)"
| "change name labels (Observe name' labels' d) = 0"

definition value_of :: "string \<Rightarrow> string list \<Rightarrow> update list \<Rightarrow> int" where
  "value_of name labels us = (\<Sum>u\<leftarrow>us. change name labels u)"

fun observes :: "string \<Rightarrow> string list \<Rightarrow> update \<Rightarrow> bool" where
  "observes name labels (Observe name' labels' d) \<longleftrightarrow> name' = name \<and> labels' = labels"
| "observes name labels _ \<longleftrightarrow> False"

definition observed :: "string \<Rightarrow> string list \<Rightarrow> update list \<Rightarrow> nat" where
  "observed name labels us = length (filter (observes name labels) us)"

lemma value_of_simps [simp]:
  "value_of name labels [] = 0"
  "value_of name labels (us @ us') = value_of name labels us + value_of name labels us'"
  "value_of name labels (u # us) = change name labels u + value_of name labels us"
  by (simp_all add: value_of_def)

lemma observed_simps [simp]:
  "observed name labels [] = 0"
  "observed name labels (us @ us') = observed name labels us + observed name labels us'"
  "observed name labels (u # us) = (if observes name labels u then 1 else 0) + observed name labels us"
  by (simp_all add: observed_def)

section \<open>The cluster client\<close>

definition request_updates :: "string \<Rightarrow> bool \<Rightarrow> duration \<Rightarrow> update list" where
  "request_updates operation failed d =
     Observe ''schedulator_k8sclient_request_duration_seconds'' [operation] d
     # (if failed then [inc ''schedulator_k8sclient_errors_total'' [operation]] else [])"

text \<open>The exported methods: what they return, and the updates they make.\<close>

definition CreateReplica ::
  "Client \<Rightarrow> ('q, 'e) kube \<Rightarrow> duration \<Rightarrow> AppID \<Rightarrow> SchedulingConstraints \<Rightarrow> ('e K8sClient.client_error + ReplicaID) \<times> update list" where
  "CreateReplica c k d appID constraints =
     (let r = createReplica c k appID constraints in (r, request_updates ''create_replica'' (isl r) d))"

definition DeleteReplica :: "Client \<Rightarrow> ('q, 'e) kube \<Rightarrow> duration \<Rightarrow> ReplicaID \<Rightarrow> 'e K8sClient.client_error option \<times> update list" where
  "DeleteReplica c k d replicaID =
     (let err = DeleteDeployment c k replicaID in (err, request_updates ''delete_replica'' (err \<noteq> None) d))"

definition GetReplicaStatus ::
  "Client \<Rightarrow> ('q, 'e) kube \<Rightarrow> duration \<Rightarrow> ReplicaID \<Rightarrow> ('e K8sClient.client_error + ReplicaStatus) \<times> update list" where
  "GetReplicaStatus c k d replicaID =
     (let r = getReplicaStatus c k replicaID in (r, request_updates ''get_replica_status'' (isl r) d))"

definition LabelReplica ::
  "Client \<Rightarrow> ('q, 'e) kube \<Rightarrow> duration \<Rightarrow> ReplicaID \<Rightarrow> (string, string) gomap \<Rightarrow> 'e K8sClient.client_error option \<times> update list" where
  "LabelReplica c k d replicaID labels =
     (let err = labelReplica c k replicaID labels in (err, request_updates ''label_replica'' (err \<noteq> None) d))"

lemma request_updates_fit: "u \<in> set (request_updates operation failed d) \<Longrightarrow> update_fits (k8sclient_metrics cid) u"
  by (auto simp: request_updates_def inc_def k8sclient_metrics_def metric_def split: if_splits)

section \<open>The plan generator\<close>

definition generate_updates :: "PlacementDecisions \<Rightarrow> MigrateDecision list \<Rightarrow> duration \<Rightarrow> update list" where
  "generate_updates decisions migrations d =
     (let preemptCount = length (pl_Preemptions decisions); scaleDownCount = length (pl_ScaleDowns decisions);
          scaleUpCount = length (pl_ScaleUps decisions); migrateCount = length migrations
      in [AddTo ''schedulator_plangen_operations_total'' [type_string OperationPreempt] preemptCount,
          AddTo ''schedulator_plangen_operations_total'' [type_string OperationScaleDown] (scaleDownCount + migrateCount),
          AddTo ''schedulator_plangen_operations_total'' [type_string OperationScaleUp] (scaleUpCount + migrateCount),
          Observe ''schedulator_plangen_generate_duration_seconds'' [] d])"

lemma generate_updates_fit: "u \<in> set (generate_updates decisions migrations d) \<Longrightarrow> update_fits plangen_metrics u"
  by (auto simp: generate_updates_def Let_def plangen_metrics_def metric_def)

lemma type_string_inj [simp]: "type_string t = type_string t' \<longleftrightarrow> t = t'"
  by (cases t; cases t') simp_all

text \<open>The counter grows by the number of operations of each type that the plan has.\<close>

definition of_type :: "OperationType \<Rightarrow> Operation list \<Rightarrow> nat" where
  "of_type t ops = length (filter (\<lambda>op. op_Type op = t) ops)"

lemma of_type_phases:
  "of_type t (pg_ops (preempt_phase uid p st)) = of_type t (pg_ops st) + (if t = OperationPreempt then 1 else 0)"
  "of_type t (pg_ops (scale_down_phase uid sd st)) = of_type t (pg_ops st) + (if t = OperationScaleDown then 1 else 0)"
  "of_type t (pg_ops (scale_up_phase uid su st)) = of_type t (pg_ops st) + (if t = OperationScaleUp then 1 else 0)"
  "of_type t (pg_ops (migration_phase uid m st)) =
     of_type t (pg_ops st) + (if t = OperationScaleUp \<or> t = OperationScaleDown then 1 else 0)"
  by (auto simp: of_type_def preempt_phase_def scale_down_phase_def scale_up_phase_def migration_phase_def append_op_def Let_def)

lemma fold_of_type:
  assumes "\<And>x st. of_type t (pg_ops (f x st)) = of_type t (pg_ops st) + k"
  shows "of_type t (pg_ops (fold f xs st)) = of_type t (pg_ops st) + k * length xs"
  by (induction xs arbitrary: st) (simp_all add: assms)

lemma generated_operations_are_counted:
  "value_of ''schedulator_plangen_operations_total'' [type_string t] (generate_updates decisions migrations d)
     = int (of_type t (GeneratePlan uid decisions migrations))"
proof -
  note phases = fold_of_type [OF of_type_phases(1)] fold_of_type [OF of_type_phases(2)] fold_of_type [OF of_type_phases(3)]
    fold_of_type [OF of_type_phases(4)]
  have "of_type t (GeneratePlan uid decisions migrations) =
      (if t = OperationPreempt then length (pl_Preemptions decisions) else 0)
      + (if t = OperationScaleDown then length (pl_ScaleDowns decisions) else 0)
      + (if t = OperationScaleUp then length (pl_ScaleUps decisions) else 0)
      + (if t = OperationScaleUp \<or> t = OperationScaleDown then length migrations else 0)"
    unfolding GeneratePlan_def Let_def phases by (simp add: of_type_def)
  then show ?thesis by (cases t) (simp_all add: generate_updates_def Let_def)
qed

section \<open>The executor\<close>

text \<open>What a call made by a goroutine adds: \<open>scaleUp\<close> counts before it expires its reservation.\<close>

definition action_updates :: "action \<Rightarrow> update list" where
  "action_updates a = (case a of
     ActExpireReservation _ \<Rightarrow> [inc ''schedulator_executor_reservations_expired_total'' []] | _ \<Rightarrow> [])"

text \<open>\<open>dispatchOp\<close> observes its duration when it ends.\<close>

definition dispatch_updates :: "Operation \<Rightarrow> 'x option \<Rightarrow> duration \<Rightarrow> update list" where
  "dispatch_updates op err d =
     [Observe ''schedulator_executor_operation_duration_seconds''
        [type_string (op_Type op), if err = None then ''success'' else ''error''] d]"

text \<open>A result that is received; \<open>counted\<close> where the failure is, which is not so while draining.\<close>

definition result_updates :: "bool \<Rightarrow> Operation \<Rightarrow> 'x option \<Rightarrow> update list" where
  "result_updates counted op err =
     Dec ''schedulator_executor_operations_inflight'' []
     # (if err \<noteq> None \<and> counted
        then [inc ''schedulator_executor_failures_total'' [type_string (op_Type op), ''dispatch_error'']] else [])"

text \<open>The updates of one step, known by what it changes: the calls made, the results sent and received, the
  goroutines started.\<close>

definition step_updates :: "ExecutionPlan \<Rightarrow> duration \<Rightarrow> 'e ExecState \<Rightarrow> 'e ExecState \<Rightarrow> update list" where
  "step_updates plan d s s' =
     (if length (es_trace s) < length (es_trace s') then action_updates (snd (last (es_trace s')))
      else if length (es_results s) < length (es_results s')
      then (let r = last (es_results s') in dispatch_updates (op_of (build_index plan) (or_id r)) (or_err r) d)
      else if length (es_results s') < length (es_results s)
      then (let r = hd (es_results s)
            in result_updates (es_pc s = Selecting) (op_of (build_index plan) (or_id r)) (or_err r))
      else if length (es_goroutines s) < length (es_goroutines s')
      then [inc ''schedulator_executor_operations_inflight'' []]
      else [])"

inductive metered :: "bool \<Rightarrow> ExecutionPlan \<Rightarrow> (Operation \<Rightarrow> 'e op_run) \<Rightarrow> 'e ExecState \<times> update list
    \<Rightarrow> 'e ExecState \<times> update list \<Rightarrow> bool"
  for cancels :: bool and plan :: ExecutionPlan and run_op :: "Operation \<Rightarrow> 'e op_run" where
  metered: "exec_step cancels plan run_op s s' \<Longrightarrow> metered cancels plan run_op (s, us) (s', us @ step_updates plan d s s')"

lemma metered_steps: "(metered cancels plan run_op)\<^sup>*\<^sup>* p p' \<Longrightarrow> (exec_step cancels plan run_op)\<^sup>*\<^sup>* (fst p) (fst p')"
proof (induction rule: rtranclp_induct)
  case (step p1 p2)
  then show ?case by (auto elim!: metered.cases intro: rtranclp.rtrancl_into_rtrancl)
qed simp

lemma step_updates_fit: "u \<in> set (step_updates plan d s s') \<Longrightarrow> update_fits executor_metrics u"
  by (auto simp: step_updates_def action_updates_def dispatch_updates_def result_updates_def inc_def executor_metrics_def
      metric_def Let_def split: if_splits action.splits)

text \<open>The failures that are listed, and the results that are sent and not yet received, by type.\<close>

definition failures_of :: "OperationType \<Rightarrow> 'e Exec \<Rightarrow> nat" where
  "failures_of t st = length (filter (\<lambda>f. fo_Type f = t) (ex_failed st))"

definition completed_of :: "ExecutionPlan \<Rightarrow> OperationType \<Rightarrow> 'e Exec \<Rightarrow> nat" where
  "completed_of plan t st = length (filter (\<lambda>i. op_Type (op_of (build_index plan) i) = t) (ex_completed st))"

definition unread :: "ExecutionPlan \<Rightarrow> OperationType \<Rightarrow> bool \<Rightarrow> 'e opResult list \<Rightarrow> nat" where
  "unread plan t failed rs =
     length (filter (\<lambda>r. op_Type (op_of (build_index plan) (or_id r)) = t \<and> (or_err r \<noteq> None) = failed) rs)"

definition expiries :: "(OperationID \<times> action) list \<Rightarrow> nat" where
  "expiries trace = length (filter (\<lambda>(_, a). case a of ActExpireReservation _ \<Rightarrow> True | _ \<Rightarrow> False) trace)"

definition metrics_inv :: "bool \<Rightarrow> ExecutionPlan \<Rightarrow> 'e ExecState \<Rightarrow> update list \<Rightarrow> bool" where
  "metrics_inv cancels plan s us \<longleftrightarrow>
     value_of ''schedulator_executor_operations_inflight'' [] us = int (length (ex_running (es_loop s)))
     \<and> value_of ''schedulator_executor_reservations_expired_total'' [] us = int (expiries (es_trace s))
     \<and> (\<forall>t. value_of ''schedulator_executor_failures_total'' [type_string t, ''dispatch_error''] us \<le> int (failures_of t (es_loop s)))
     \<and> (\<not> cancels \<longrightarrow> es_pc s \<noteq> Draining \<and>
         (\<forall>t. value_of ''schedulator_executor_failures_total'' [type_string t, ''dispatch_error''] us = int (failures_of t (es_loop s))))
     \<and> (\<forall>t. observed ''schedulator_executor_operation_duration_seconds'' [type_string t, ''error''] us
         = failures_of t (es_loop s) + unread plan t True (es_results s))
     \<and> (\<forall>t. observed ''schedulator_executor_operation_duration_seconds'' [type_string t, ''success''] us
         = completed_of plan t (es_loop s) + unread plan t False (es_results s))
     \<and> (\<forall>u \<in> set us. update_fits executor_metrics u)"

text \<open>What the steps of the caller leave of its lists.\<close>

lemma settle_lists:
  "ex_failed (settle ix oc i st) = ex_failed st @ (case oc (op_of ix i) of None \<Rightarrow> []
     | Some e \<Rightarrow> [\<lparr>fo_OperationID = i, fo_Type = op_Type (op_of ix i), fo_Err = e\<rparr>])"
  "ex_completed (settle ix oc i st) = ex_completed st @ (if oc (op_of ix i) = None then [i] else [])"
  by (simp_all add: settle_def Let_def split: option.split)

lemma receive_lists:
  "ex_failed (receive ix oc i st) = ex_failed (settle ix oc i st)" "ex_completed (receive ix oc i st) = ex_completed (settle ix oc i st)"
  by (simp_all add: receive_def Let_def split: prod.split)

lemma dispatch_one_lists:
  "ex_failed (dispatch_one ix i st) = ex_failed st" "ex_completed (dispatch_one ix i st) = ex_completed st"
  "length (ex_running (dispatch_one ix i st)) = length (ex_running st) + length (spawned ix run_op i st)"
  by (simp_all add: dispatch_one_def spawned_def)

lemma abort_fold_lists:
  "ex_failed (fold abort_one ids st) = ex_failed st" "ex_completed (fold abort_one ids st) = ex_completed st"
  by (induction ids arbitrary: st) (simp_all add: abort_one_def)

lemma running_taken:
  assumes "channel_inv plan run_op s" and "es_results s = r # rs"
  shows "length (ex_running (es_loop s)) = Suc (length (remove1 (or_id r) (ex_running (es_loop s))))"
  using channel_head(2) [OF assms] length_pos_if_in_set [OF channel_head(2) [OF assms]] by (simp add: length_remove1)

lemmas taken_simps = settle_lists receive_lists receive_running failures_of_def completed_of_def unread_def

lemma metrics_inv_change:
  assumes "metrics_inv cancels plan s us" and "\<And>u. u \<in> set new \<Longrightarrow> update_fits executor_metrics u"
    and "value_of ''schedulator_executor_operations_inflight'' [] new + int (length (ex_running (es_loop s))) = int (length (ex_running (es_loop s')))"
    and "value_of ''schedulator_executor_reservations_expired_total'' [] new + int (expiries (es_trace s)) = int (expiries (es_trace s'))"
    and "\<And>t. value_of ''schedulator_executor_failures_total'' [type_string t, ''dispatch_error''] new + int (failures_of t (es_loop s)) \<le> int (failures_of t (es_loop s'))"
    and "\<And>t. \<not> cancels \<Longrightarrow> es_pc s \<noteq> Draining \<Longrightarrow> es_pc s' \<noteq> Draining \<and>
      value_of ''schedulator_executor_failures_total'' [type_string t, ''dispatch_error''] new + int (failures_of t (es_loop s)) = int (failures_of t (es_loop s'))"
    and "\<And>t. observed ''schedulator_executor_operation_duration_seconds'' [type_string t, ''error''] new
         + (failures_of t (es_loop s) + unread plan t True (es_results s)) = failures_of t (es_loop s') + unread plan t True (es_results s')"
    and "\<And>t. observed ''schedulator_executor_operation_duration_seconds'' [type_string t, ''success''] new
         + (completed_of plan t (es_loop s) + unread plan t False (es_results s)) = completed_of plan t (es_loop s') + unread plan t False (es_results s')"
  shows "metrics_inv cancels plan s' (us @ new)"
  unfolding metrics_inv_def
proof (intro conjI allI impI)
  note inv = assms(1) [unfolded metrics_inv_def]
  fix t
  show "value_of ''schedulator_executor_operations_inflight'' [] (us @ new) = int (length (ex_running (es_loop s')))"
    using inv assms(3) by simp
  show "value_of ''schedulator_executor_reservations_expired_total'' [] (us @ new) = int (expiries (es_trace s'))"
    using inv assms(4) by simp
  show "value_of ''schedulator_executor_failures_total'' [type_string t, ''dispatch_error''] (us @ new) \<le> int (failures_of t (es_loop s'))"
  proof -
    have "value_of ''schedulator_executor_failures_total'' [type_string t, ''dispatch_error''] us \<le> int (failures_of t (es_loop s))"
      using inv by blast
    then show ?thesis using assms(5) [of t] by simp
  qed
  show "observed ''schedulator_executor_operation_duration_seconds'' [type_string t, ''error''] (us @ new)
      = failures_of t (es_loop s') + unread plan t True (es_results s')"
    using inv assms(7) [of t] by simp
  show "observed ''schedulator_executor_operation_duration_seconds'' [type_string t, ''success''] (us @ new)
      = completed_of plan t (es_loop s') + unread plan t False (es_results s')"
    using inv assms(8) [of t] by simp
  show "\<forall>u \<in> set (us @ new). update_fits executor_metrics u" using inv assms(2) by auto
next
  fix t assume c: "\<not> cancels"
  then have old: "es_pc s \<noteq> Draining"
    "value_of ''schedulator_executor_failures_total'' [type_string t, ''dispatch_error''] us = int (failures_of t (es_loop s))"
    using assms(1) unfolding metrics_inv_def by blast+
  show "es_pc s' \<noteq> Draining"
    "value_of ''schedulator_executor_failures_total'' [type_string t, ''dispatch_error''] (us @ new) = int (failures_of t (es_loop s'))"
    using assms(6) [OF c old(1), of t] old(2) by simp_all
qed

lemma metrics_inv_step:
  assumes "exec_step cancels plan run_op s s'" and "channel_inv plan run_op s" and "metrics_inv cancels plan s us"
  shows "metrics_inv cancels plan s' (us @ step_updates plan d s s')"
proof (rule metrics_inv_change [OF assms(3) step_updates_fit], assumption, goal_cases)
  case 1
  show ?case using assms(1,2)
    by (cases rule: exec_step.cases)
      (simp_all add: step_updates_def action_updates_def dispatch_updates_def result_updates_def inc_def Let_def taken_simps
        running_taken abort_fold_running dispatch_one_lists(3) [of _ _ _ run_op] spawned_def split: action.split)
next
  case 2
  show ?case using assms(1,2)
    by (cases rule: exec_step.cases)
      (simp_all add: step_updates_def action_updates_def dispatch_updates_def result_updates_def inc_def Let_def expiries_def split: action.split)
next
  case (3 t)
  show ?case using assms(1)
    by (cases rule: exec_step.cases)
      (simp_all add: step_updates_def action_updates_def dispatch_updates_def result_updates_def inc_def Let_def taken_simps
        dispatch_one_lists abort_fold_lists split: action.split option.split)
next
  case (4 t)
  show ?case using assms(1) 4
    by (cases rule: exec_step.cases)
      (simp_all add: step_updates_def action_updates_def dispatch_updates_def result_updates_def inc_def Let_def taken_simps
        dispatch_one_lists abort_fold_lists split: action.split option.split)
next
  case (5 t)
  show ?case using assms(1)
    by (cases rule: exec_step.cases)
      (simp_all add: step_updates_def action_updates_def dispatch_updates_def result_updates_def inc_def Let_def taken_simps
        dispatch_one_lists abort_fold_lists split: action.split option.split)
next
  case (6 t)
  show ?case using assms(1)
    by (cases rule: exec_step.cases)
      (simp_all add: step_updates_def action_updates_def dispatch_updates_def result_updates_def inc_def Let_def taken_simps
        dispatch_one_lists abort_fold_lists split: action.split option.split)
qed

lemma metrics_inv_start: "metrics_inv cancels plan (new_execution plan) []"
  by (simp add: metrics_inv_def new_execution_def start_exec_def expiries_def failures_of_def completed_of_def unread_def)

definition metered_inv :: "bool \<Rightarrow> ExecutionPlan \<Rightarrow> (Operation \<Rightarrow> 'e op_run) \<Rightarrow> 'e ExecState \<times> update list \<Rightarrow> bool" where
  "metered_inv cancels plan run_op p \<longleftrightarrow>
     distinct (map op_ID plan) \<and> exec_state_inv plan run_op (fst p) \<and> metrics_inv cancels plan (fst p) (snd p)"

lemma metered_inv_step:
  assumes "metered_inv cancels plan run_op p" and "metered cancels plan run_op p p'"
  shows "metered_inv cancels plan run_op p'"
  using assms(2)
proof (cases rule: metered.cases)
  case (metered s s' us d)
  have inv: "distinct (map op_ID plan)" "exec_state_inv plan run_op s" "metrics_inv cancels plan s us"
    using assms(1) by (simp_all add: metered_inv_def metered(1))
  have "exec_state_inv plan run_op s'" by (rule state_inv_step [OF inv(1,2) metered(3)])
  moreover have "metrics_inv cancels plan s' (us @ step_updates plan d s s')"
    by (rule metrics_inv_step [OF metered(3) _ inv(3)]) (use inv(2) in \<open>simp add: exec_state_inv_def\<close>)
  ultimately show ?thesis using inv(1) by (simp add: metered_inv_def metered(2))
qed

lemma metered_inv_start: "distinct (map op_ID plan) \<Longrightarrow> metered_inv cancels plan run_op (new_execution plan, [])"
  by (simp add: metered_inv_def state_inv_start metrics_inv_start)

interpretation metrics: step_system "\<lambda>p. distinct (map op_ID plan) \<and> p = (new_execution plan, [])"
  "metered cancels plan run_op" "metered_inv cancels plan run_op" for cancels plan run_op
  by unfold_locales (use metered_inv_start in blast, rule metered_inv_step)

section \<open>Properties\<close>

text \<open>C20: The executor's metrics tell what it does. In every interleaving of its goroutines no update
  panics; the gauge of operations in flight is the number of operations started whose result has not
  been received, and is back at zero when \<open>Execute\<close> returns; then the durations observed are one for each
  operation completed or failed, by type; the counter of expired reservations counts the calls of
  \<open>ExpireReservation\<close>; and the counter of failures never exceeds the failures returned, and is equal
  to them unless the context is cancelled: failures received while draining are not counted.\<close>

theorem execution_metrics_add_up:
  assumes "distinct (map op_ID plan)" and "(metered cancels plan run_op)\<^sup>*\<^sup>* (new_execution plan, []) (s, us)"
  shows "(\<forall>u \<in> set us. update_fits executor_metrics u)
    \<and> value_of ''schedulator_executor_operations_inflight'' [] us = int (length (ex_running (es_loop s)))
    \<and> value_of ''schedulator_executor_reservations_expired_total'' [] us = int (expiries (es_trace s))
    \<and> value_of ''schedulator_executor_failures_total'' [type_string t, ''dispatch_error''] us \<le> int (failures_of t (es_loop s))
    \<and> (\<not> cancels \<longrightarrow>
         value_of ''schedulator_executor_failures_total'' [type_string t, ''dispatch_error''] us = int (failures_of t (es_loop s)))
    \<and> (es_pc s = Returned \<longrightarrow> value_of ''schedulator_executor_operations_inflight'' [] us = 0
         \<and> observed ''schedulator_executor_operation_duration_seconds'' [type_string t, ''error''] us = failures_of t (es_loop s)
         \<and> observed ''schedulator_executor_operation_duration_seconds'' [type_string t, ''success''] us = completed_of plan t (es_loop s))"
proof -
  have "metered_inv cancels plan run_op (s, us)" using metrics.reachable_inv [OF _ assms(2)] assms(1) by blast
  then have inv: "exec_state_inv plan run_op s" "metrics_inv cancels plan s us" by (simp_all add: metered_inv_def)
  have "ex_running (es_loop s) = [] \<and> es_results s = []" if "es_pc s = Returned"
  proof -
    have "ex_running (es_loop s) = []" using inv(1) that unfolding exec_state_inv_def by simp
    then show ?thesis using inv(1) unfolding exec_state_inv_def channel_inv_def by simp
  qed
  then show ?thesis using inv(2) unfolding metrics_inv_def by (auto simp: unread_def)
qed

section \<open>Examples\<close>

lemma metered_run:
  "(exec_step cancels plan run_op)\<^sup>*\<^sup>* s s' \<Longrightarrow> \<exists>us'. (metered cancels plan run_op)\<^sup>*\<^sup>* (s, us) (s', us')"
proof (induction rule: rtranclp_induct)
  case (step s1 s2)
  then obtain us' where "(metered cancels plan run_op)\<^sup>*\<^sup>* (s, us) (s1, us')" by blast
  moreover have "metered cancels plan run_op (s1, us') (s2, us' @ step_updates plan 0 s1 s2)"
    by (rule metered.intros) (rule step.hyps(2))
  ultimately show ?case by (meson rtranclp.rtrancl_into_rtrancl)
qed blast

text \<open>The first of the three operations fails.\<close>

definition failing_run :: "Operation \<Rightarrow> string op_run" where
  "failing_run op = (if op_ID op = ''a'' then (Some UnsupportedPayload, []) else (None, [ActDeleteReplica (op_ID op)]))"

lemma failing_run_result:
  "Execute (\<lambda>_. []) (\<lambda>_. Receive 0) (err_of failing_run) sample_plan = \<lparr>er_Completed = [''c''],
     er_Failed = [\<lparr>fo_OperationID = ''a'', fo_Type = OperationScaleDown, fo_Err = UnsupportedPayload\<rparr>], er_Aborted = [''b'']\<rparr>"
  by code_simp

lemma execution_metrics_add_up_witness:
  "\<exists>s us. (metered True sample_plan failing_run)\<^sup>*\<^sup>* (new_execution sample_plan, []) (s, us) \<and> es_pc s = Returned
     \<and> observed ''schedulator_executor_operation_duration_seconds'' [type_string OperationScaleDown, ''error''] us = 1
     \<and> observed ''schedulator_executor_operation_duration_seconds'' [type_string OperationScaleDown, ''success''] us = 1"
proof -
  obtain s where s: "(exec_step True sample_plan failing_run)\<^sup>*\<^sup>* (new_execution sample_plan) s" "es_pc s = Returned"
    "exec_result (es_loop s) = Execute (\<lambda>_. []) (\<lambda>_. Receive 0) (err_of failing_run) sample_plan"
    using execution_reached [of sample_plan failing_run "\<lambda>_. []" "\<lambda>_. Receive 0"] by blast
  obtain us where us: "(metered True sample_plan failing_run)\<^sup>*\<^sup>* (new_execution sample_plan, []) (s, us)"
    using metered_run [OF s(1)] by blast
  have "failures_of OperationScaleDown (es_loop s) = 1"
    using s(3) unfolding failing_run_result by (simp add: failures_of_def exec_result_def)
  moreover have "ex_completed (es_loop s) = [''c'']" using s(3) unfolding failing_run_result by (simp add: exec_result_def)
  then have "completed_of sample_plan OperationScaleDown (es_loop s) = 1"
    unfolding completed_of_def by (simp only:) code_simp
  ultimately show ?thesis
    using execution_metrics_add_up [OF sample_distinct us, of OperationScaleDown] us s(2) by (intro exI [of _ s] exI [of _ us]) simp
qed

text \<open>
  A plan of one operation, which fails after the context was cancelled: its failure is returned and not
  counted. The states of the run, and what none of its steps adds to.
\<close>

definition late_plan :: ExecutionPlan where
  "late_plan = [sample_op ''a'' []]"

definition late_started :: "string op_error Exec" where
  "late_started = dispatch_one (build_index late_plan) ''a'' (start_exec late_plan)"

definition late_ended :: "string op_error Exec" where
  "late_ended = settle (build_index late_plan) (\<lambda>_. Some UnsupportedPayload) ''a'' late_started"

abbreviation late_at :: "exec_pc \<Rightarrow> string op_error Exec \<Rightarrow> (OperationID \<times> action list) list \<Rightarrow> string op_error opResult list \<Rightarrow> string ExecState" where
  "late_at pc st gs rs \<equiv> \<lparr>es_pc = pc, es_loop = st, es_goroutines = gs, es_results = rs, es_trace = []\<rparr>"

abbreviation late_result :: "string op_error opResult" where
  "late_result \<equiv> \<lparr>or_id = ''a'', or_err = Some UnsupportedPayload\<rparr>"

lemma late_facts:
  "more_work (start_exec late_plan :: string op_error Exec)" "ex_status (start_exec late_plan :: string op_error Exec) = [(''a'', opPending)]"
  "ex_running late_started = [''a'']" "ex_status late_started = [(''a'', opInFlight)]" "fold abort_one [''a''] late_started = late_started"
  "ex_running late_ended = []" "\<not> more_work late_ended" "failures_of OperationScaleDown late_ended = 1"
  "spawned (build_index late_plan) failing_run ''a'' (start_exec late_plan) = [(''a'', [])]"
  "fst (failing_run (op_of (build_index late_plan) ''a'')) = Some UnsupportedPayload" "length late_plan = 1"
  unfolding late_started_def late_ended_def by code_simp+

definition uncounted :: "string ExecState \<Rightarrow> bool" where
  "uncounted s \<longleftrightarrow> (\<exists>us. (metered True late_plan failing_run)\<^sup>*\<^sup>* (new_execution late_plan, []) (s, us)
     \<and> value_of ''schedulator_executor_failures_total'' [type_string OperationScaleDown, ''dispatch_error''] us = 0)"

lemma uncounted_step:
  assumes "uncounted s" and "exec_step True late_plan failing_run s s'"
    and "value_of ''schedulator_executor_failures_total'' [type_string OperationScaleDown, ''dispatch_error''] (step_updates late_plan 0 s s') = 0"
  shows "uncounted s'"
proof -
  obtain us where us: "(metered True late_plan failing_run)\<^sup>*\<^sup>* (new_execution late_plan, []) (s, us)"
    "value_of ''schedulator_executor_failures_total'' [type_string OperationScaleDown, ''dispatch_error''] us = 0"
    using assms(1) unfolding uncounted_def by blast
  have "metered True late_plan failing_run (s, us) (s', us @ step_updates late_plan 0 s s')" by (rule metered.intros) (rule assms(2))
  with us(1) have "(metered True late_plan failing_run)\<^sup>*\<^sup>* (new_execution late_plan, []) (s', us @ step_updates late_plan 0 s s')"
    by (rule rtranclp.rtrancl_into_rtrancl)
  then show ?thesis using us(2) assms(3) unfolding uncounted_def by (intro exI conjI) (assumption, simp)
qed

lemmas late_updates = step_updates_def result_updates_def dispatch_updates_def inc_def Let_def

lemma failures_while_draining_are_not_counted:
  "\<exists>s us. (metered True late_plan failing_run)\<^sup>*\<^sup>* (new_execution late_plan, []) (s, us) \<and> es_pc s = Returned
     \<and> failures_of OperationScaleDown (es_loop s) = 1
     \<and> value_of ''schedulator_executor_failures_total'' [type_string OperationScaleDown, ''dispatch_error''] us = 0"
proof -
  have "uncounted (late_at LoopHead (start_exec late_plan) [] [])"
    unfolding uncounted_def by (intro exI [of _ "[]"]) (simp add: new_execution_def)
  then have "uncounted (late_at (Dispatching [''a'']) (start_exec late_plan) [] [])"
    by (rule uncounted_step)
      (use exec_step.again [of "late_at LoopHead (start_exec late_plan) [] []" "[(''a'', opPending)]" True late_plan failing_run]
        late_facts(1,2) in \<open>simp_all add: late_updates\<close>)
  then have "uncounted (late_at (Dispatching []) late_started [(''a'', [])] [])"
    by (rule uncounted_step)
      (use exec_step.dispatch [of "late_at (Dispatching [''a'']) (start_exec late_plan) [] []" "''a''" "[]" True late_plan failing_run]
        late_facts(9) in \<open>simp_all add: late_updates late_started_def\<close>)
  then have "uncounted (late_at Selecting late_started [(''a'', [])] [])"
    by (rule uncounted_step)
      (use exec_step.wait [of "late_at (Dispatching []) late_started [(''a'', [])] []" True late_plan failing_run]
        late_facts(3) in \<open>simp_all add: late_updates\<close>)
  then have "uncounted (late_at Draining late_started [(''a'', [])] [])"
    by (rule uncounted_step)
      (use exec_step.context_done [of True "late_at Selecting late_started [(''a'', [])] []" "[(''a'', opInFlight)]" late_plan failing_run]
        late_facts(4,5) in \<open>simp_all add: late_updates\<close>)
  then have "uncounted (late_at Draining late_started [] [late_result])"
    by (rule uncounted_step)
      (use exec_step.send [of 0 "late_at Draining late_started [(''a'', [])] []" "''a''" late_plan True failing_run]
        late_facts(10,11) in \<open>simp_all add: late_updates\<close>)
  then have "uncounted (late_at Draining late_ended [] [])"
    by (rule uncounted_step)
      (use exec_step.drain [of "late_at Draining late_started [] [late_result]" late_result "[]" True late_plan failing_run]
        late_facts(3) in \<open>simp_all add: late_updates late_ended_def\<close>)
  then have "uncounted (late_at LoopHead late_ended [] [])"
    by (rule uncounted_step)
      (use exec_step.drained [of "late_at Draining late_ended [] []" True late_plan failing_run] late_facts(6) in \<open>simp_all add: late_updates\<close>)
  then have "uncounted (late_at Returned late_ended [] [])"
    by (rule uncounted_step)
      (use exec_step.leave [of "late_at LoopHead late_ended [] []" True late_plan failing_run] late_facts(7) in \<open>simp_all add: late_updates\<close>)
  then obtain us where us: "(metered True late_plan failing_run)\<^sup>*\<^sup>* (new_execution late_plan, []) (late_at Returned late_ended [] [], us)"
    "value_of ''schedulator_executor_failures_total'' [type_string OperationScaleDown, ''dispatch_error''] us = 0"
    unfolding uncounted_def by blast
  show ?thesis
    by (rule exI [of _ "late_at Returned late_ended [] []"], rule exI [of _ us]) (simp add: us late_facts(8) del: type_string.simps)
qed

end
