(* ===== verification/Informers.thy ===== *)
theory Informers
  imports Startup Steps
begin

text \<open>
  \<open>WatchEvents\<close> and \<open>startInformers\<close> of \<open>internal/k8saggregator/aggregator.go\<close>: the informers of every
  cluster, what they tell the handlers as nodes and pods come, change and go, and how far the
  world state follows. The informers are client-go's: what they promise is the step relation \<open>notify\<close>.
\<close>

section \<open>The informers\<close>

datatype resource = Nodes | Pods

record 'k informer =
  in_clientset :: 'k
  in_clusterID :: ClusterID
  in_resource :: resource
  in_namespace :: string
  in_resync :: duration

text \<open>The namespace that stands for all.\<close>

definition NamespaceAll :: string where "NamespaceAll = ''''"

definition startInformers :: "ClusterID \<times> 'k \<times> string \<Rightarrow> 'k informer list" where
  "startInformers cw =
     (case cw of (clusterID, clientset, namespace) \<Rightarrow>
        [\<lparr>in_clientset = clientset, in_clusterID = clusterID, in_resource = Nodes,
          in_namespace = NamespaceAll, in_resync = seconds 30\<rparr>,
         \<lparr>in_clientset = clientset, in_clusterID = clusterID, in_resource = Pods,
          in_namespace = namespace, in_resync = seconds 30\<rparr>])"

text \<open>The watched clusters are those of \<open>Program.NewAggregator\<close>; \<open>startInformers\<close> has no error to return.\<close>

definition WatchEvents :: "orders \<Rightarrow> (ClusterID, 'k \<times> string) gomap \<Rightarrow> 'k informer list" where
  "WatchEvents od clusters = concat (map startInformers (range_order od clusters))"

definition watches :: "'k informer list \<Rightarrow> resource \<Rightarrow> ClusterID \<Rightarrow> string \<Rightarrow> bool" where
  "watches ins res clusterID namespace \<longleftrightarrow>
     list_ex (\<lambda>i. in_resource i = res \<and> in_clusterID i = clusterID \<and> in_namespace i \<in> {NamespaceAll, namespace}) ins"

lemma watches_concat: "watches (concat inss) res cid ns \<longleftrightarrow> (\<exists>ins \<in> set inss. watches ins res cid ns)"
  by (induction inss) (auto simp: watches_def list_ex_iff)

lemma watches_start: "watches (startInformers (c, k, n)) res cid ns \<longleftrightarrow> c = cid \<and> (res = Nodes \<or> n \<in> {NamespaceAll, ns})"
  by (cases res) (simp_all add: watches_def startInformers_def)

lemma watches_WatchEvents:
  assumes "gwf clusters"
  shows "watches (WatchEvents od clusters) Nodes cid ns \<longleftrightarrow> gget clusters cid \<noteq> None"
    and "watches (WatchEvents od clusters) Pods cid ns \<longleftrightarrow> (\<exists>k n. gget clusters cid = Some (k, n) \<and> n \<in> {NamespaceAll, ns})"
proof -
  have "watches (WatchEvents od clusters) res cid ns \<longleftrightarrow>
      (\<exists>cw \<in> set clusters. watches (startInformers cw) res cid ns)" for res
    by (simp add: WatchEvents_def watches_concat)
  then have "watches (WatchEvents od clusters) res cid ns \<longleftrightarrow>
      (\<exists>k n. (cid, k, n) \<in> set clusters \<and> (res = Nodes \<or> n \<in> {NamespaceAll, ns}))" for res
    by (metis prod_cases3 watches_start)
  moreover have "(cid, k, n) \<in> set clusters \<longleftrightarrow> gget clusters cid = Some (k, n)" for k n
    using assms by (simp add: gget_iff_mem)
  ultimately show "watches (WatchEvents od clusters) Nodes cid ns \<longleftrightarrow> gget clusters cid \<noteq> None"
    and "watches (WatchEvents od clusters) Pods cid ns \<longleftrightarrow> (\<exists>k n. gget clusters cid = Some (k, n) \<and> n \<in> {NamespaceAll, ns})"
    by simp_all
qed

section \<open>Notifications\<close>

text \<open>
  \<open>wt_nodes\<close> and \<open>wt_pods\<close> are what the handlers have been told last of each object, by the name of its
  cluster, its namespace and its own name; \<open>wt_events\<close> is what they have sent to \<open>eventCh\<close>. An object is
  added once, then updated, and may be deleted; its last state may come in a tombstone. A resync
  is an update that changes nothing. Everything of an object but its name may change, the labels of
  a pod included; \<open>wt_left\<close> collects, for the statements only, the replicas that a pod stood for
  and, relabelled, does not any more.
\<close>

record 'q Watched =
  wt_nodes :: "ClusterID \<times> string \<Rightarrow> 'q K8sNode option"
  wt_pods :: "ClusterID \<times> string \<times> string \<Rightarrow> 'q Pod option"
  wt_left :: "ReplicaID set"
  wt_events :: "ClusterEvent list"

definition nothing_told :: "'q Watched" where
  "nothing_told = \<lparr>wt_nodes = \<lambda>_. None, wt_pods = \<lambda>_. None, wt_left = {}, wt_events = []\<rparr>"

text \<open>A pod that names the replica, and one that has not ended.\<close>

definition stands_for :: "'q Pod \<Rightarrow> ReplicaID \<Rightarrow> bool" where
  "stands_for pod i \<longleftrightarrow> isSchedulatorPod pod \<and> pod_replica pod = i"

definition ended :: "'q Pod \<Rightarrow> bool" where
  "ended pod \<longleftrightarrow> po_Phase pod \<in> {PodSucceeded, PodFailed}"

definition left_by :: "'q Pod \<Rightarrow> 'q Pod \<Rightarrow> ReplicaID set" where
  "left_by old pod = {i. stands_for old i \<and> \<not> ended old \<and> \<not> stands_for pod i}"

definition podUpdateFunc :: "'q quantities \<Rightarrow> ClusterID \<Rightarrow> time \<Rightarrow> 'q Pod obj \<Rightarrow> ClusterEvent list" where
  "podUpdateFunc q clusterID now newObj =
     (case newObj of
        Obj pod \<Rightarrow> if isSchedulatorPod pod then emitPodEvent q clusterID now pod else []
      | _ \<Rightarrow> [])"

inductive notify :: "'q quantities \<Rightarrow> 'k informer list \<Rightarrow> 'q Watched \<Rightarrow> 'q Watched \<Rightarrow> bool"
  for q :: "'q quantities" and ins :: "'k informer list" where
  node_added: "watches ins Nodes cid ns \<Longrightarrow> wt_nodes w (cid, kn_Name node) = None \<Longrightarrow>
    notify q ins w (w\<lparr>wt_nodes := (wt_nodes w)((cid, kn_Name node) \<mapsto> node),
      wt_events := wt_events w @ nodeAddFunc q cid now (Obj node)\<rparr>)"
| node_updated: "wt_nodes w (cid, kn_Name node) = Some old \<Longrightarrow>
    notify q ins w (w\<lparr>wt_nodes := (wt_nodes w)((cid, kn_Name node) \<mapsto> node),
      wt_events := wt_events w @ nodeUpdateFunc q cid now (Obj old) (Obj node)\<rparr>)"
| node_deleted: "wt_nodes w (cid, kn_Name node) \<noteq> None \<Longrightarrow> deleted_object obj = Some (node :: 'q K8sNode) \<Longrightarrow>
    notify q ins w (w\<lparr>wt_nodes := (wt_nodes w)((cid, kn_Name node) := None),
      wt_events := wt_events w @ nodeDeleteFunc cid now obj\<rparr>)"
| pod_added: "watches ins Pods cid ns \<Longrightarrow> wt_pods w (cid, ns, po_Name pod) = None \<Longrightarrow>
    notify q ins w (w\<lparr>wt_pods := (wt_pods w)((cid, ns, po_Name pod) \<mapsto> pod),
      wt_events := wt_events w @ podAddFunc q cid now (Obj pod)\<rparr>)"
| pod_updated: "wt_pods w (cid, ns, po_Name pod) = Some old \<Longrightarrow>
    notify q ins w (w\<lparr>wt_pods := (wt_pods w)((cid, ns, po_Name pod) \<mapsto> pod),
      wt_left := wt_left w \<union> left_by old pod,
      wt_events := wt_events w @ podUpdateFunc q cid now (Obj pod)\<rparr>)"
| pod_deleted: "wt_pods w (cid, ns, po_Name pod) = Some old \<Longrightarrow> deleted_object obj = Some pod \<Longrightarrow>
    notify q ins w (w\<lparr>wt_pods := (wt_pods w)((cid, ns, po_Name pod) := None),
      wt_left := wt_left w \<union> left_by old pod,
      wt_events := wt_events w @ podDeleteFunc q cid now obj\<rparr>)"

text \<open>A round of the resync: every pod the handlers know is updated, in some order and at any times.\<close>

definition resync_events :: "'q quantities \<Rightarrow> 'q Watched \<Rightarrow> (time \<times> ClusterID \<times> string \<times> string) list \<Rightarrow> ClusterEvent list" where
  "resync_events q w turns = concat (map (\<lambda>(now, cid, ns, name).
     case wt_pods w (cid, ns, name) of None \<Rightarrow> [] | Some pod \<Rightarrow> podUpdateFunc q cid now (Obj pod)) turns)"

section \<open>What the events leave in the table of replicas\<close>

text \<open>For each replica, the last event about it.\<close>

definition reports :: "ReplicaID \<Rightarrow> ClusterEvent \<Rightarrow> bool" where
  "reports i ce \<longleftrightarrow> ce_Kind ce \<in> {ClusterEventPodRunning, ClusterEventPodTerminated} \<and> ce_ReplicaID ce = i \<and> i \<noteq> ''''"

definition reported :: "ClusterEvent \<Rightarrow> Replica option" where
  "reported ce = (if ce_Kind ce = ClusterEventPodRunning
     then Some \<lparr>rp_ReplicaID = ce_ReplicaID ce, rp_AppID = ce_AppID ce, rp_ClusterID = ce_ClusterID ce, rp_NodeID = ce_NodeID ce,
       rp_GPUs = ce_GPUs ce, rp_Status = ReplicaStatusRunning, rp_CreatedAt = ce_Timestamp ce\<rparr> else None)"

lemma replicas_applyClusterEvent:
  "gget (ws_replicas (applyClusterEvent ce ws)) i = (if reports i ce then reported ce else gget (ws_replicas ws) i)"
  by (auto simp: applyClusterEvent_def reports_def reported_def split: ClusterEventKind.split)

lemma replicas_delivered:
  "gget (ws_replicas (applyEvents (concat (map listenClusterEvents ces)) ws)) i =
     (case latest (reports i) ces of None \<Rightarrow> gget (ws_replicas ws) i | Some ce \<Rightarrow> reported ce)"
  unfolding applyEvents_listened
  by (induction ces rule: rev_induct) (simp_all add: latest_snoc replicas_applyClusterEvent)

text \<open>What the handlers report of a replica.\<close>

lemma told_node:
  "latest (reports i) (nodeAddFunc q cid now obj) = None"
  "latest (reports i) (nodeUpdateFunc q cid now obj obj') = None"
  "latest (reports i) (nodeDeleteFunc cid now obj) = None"
  by (auto simp: latest_None reports_def nodeAddFunc_def nodeUpdateFunc_def nodeDeleteFunc_def node_event_def Let_def
      split: obj.splits option.splits if_splits)

lemma podUpdateFunc_add: "podUpdateFunc q cid now obj = podAddFunc q cid now obj"
  by (simp add: podUpdateFunc_def podAddFunc_def)

lemma told_add:
  "latest (reports i) (podAddFunc q cid now (Obj pod)) =
     (if isSchedulatorPod pod \<and> pod_replica pod = i
      then (case po_Phase pod of
          PodRunning \<Rightarrow> Some (pod_event q ClusterEventPodRunning cid pod now)
        | OtherPhase _ \<Rightarrow> None
        | _ \<Rightarrow> Some (pod_event q ClusterEventPodTerminated cid pod now))
      else None)"
  using pod_replica_ne [of pod]
  by (auto simp: latest_def podAddFunc_def emitPodEvent_def pod_event_def reports_def split: PodPhase.split)

lemma told_delete:
  "deleted_object obj = Some pod \<Longrightarrow> latest (reports i) (podDeleteFunc q cid now obj) =
     (if isSchedulatorPod pod \<and> pod_replica pod = i then Some (pod_event q ClusterEventPodTerminated cid pod now) else None)"
  using pod_replica_ne [of pod] by (auto simp: latest_def podDeleteFunc_def pod_event_def reports_def)

lemma reported_pod_event: "reported (pod_event q kind cid pod now) =
  (if kind = ClusterEventPodRunning
   then Some \<lparr>rp_ReplicaID = pod_replica pod, rp_AppID = pod_app pod, rp_ClusterID = cid, rp_NodeID = po_NodeName pod,
     rp_GPUs = extractPodGPUs q pod, rp_Status = ReplicaStatusRunning, rp_CreatedAt = now\<rparr> else None)"
  by (simp add: reported_def pod_event_def)

section \<open>Replicas and pods\<close>

definition has_pod :: "'q Watched \<Rightarrow> ReplicaID \<Rightarrow> bool" where
  "has_pod w i \<longleftrightarrow> (\<exists>k pod. wt_pods w k = Some pod \<and> stands_for pod i \<and> \<not> ended pod)"

definition pods_inv :: "'q Watched \<Rightarrow> bool" where
  "pods_inv w \<longleftrightarrow>
     (\<forall>cid ns name pod. wt_pods w (cid, ns, name) = Some pod \<longrightarrow> po_Name pod = name)
     \<and> (\<forall>i ce. latest (reports i) (wt_events w) = Some ce \<longrightarrow> reported ce \<noteq> None \<longrightarrow> has_pod w i \<or> i \<in> wt_left w)"

lemma has_pod_frame [simp]: "has_pod (w\<lparr>wt_events := ces\<rparr>) i = has_pod w i" "has_pod (w\<lparr>wt_nodes := ns\<rparr>) i = has_pod w i"
  "has_pod (w\<lparr>wt_left := is\<rparr>) i = has_pod w i"
  by (simp_all add: has_pod_def)

text \<open>When an object is replaced, the other pods still stand for what they stood for.\<close>

lemma has_pod_change:
  assumes "has_pod w i" and "\<And>old. wt_pods w k = Some old \<Longrightarrow> stands_for old i \<Longrightarrow> \<not> ended old \<Longrightarrow>
      \<exists>pod. new = Some pod \<and> stands_for pod i \<and> \<not> ended pod"
  shows "has_pod (w\<lparr>wt_pods := (wt_pods w)(k := new)\<rparr>) i"
proof -
  obtain k' pod' where p: "wt_pods w k' = Some pod'" "stands_for pod' i" "\<not> ended pod'"
    using assms(1) unfolding has_pod_def by blast
  show ?thesis
  proof (cases "k' = k")
    case True
    then obtain pod where "new = Some pod" "stands_for pod i" "\<not> ended pod" using assms(2) p by blast
    then show ?thesis unfolding has_pod_def by (intro exI [of _ k]) simp
  next
    case False
    then show ?thesis using p unfolding has_pod_def by (intro exI [of _ k'] exI [of _ pod']) simp
  qed
qed

lemma has_pod_told: "stands_for pod i \<Longrightarrow> \<not> ended pod \<Longrightarrow> has_pod (w\<lparr>wt_pods := (wt_pods w)(k \<mapsto> pod)\<rparr>) i"
  unfolding has_pod_def by (intro exI [of _ k] exI [of _ pod]) simp

text \<open>One notification about a pod: \<open>news\<close> is what it reports, \<open>new\<close> what is known of the pod then,
  \<open>leaving\<close> what it leaves.\<close>

lemma pods_inv_change:
  assumes inv: "pods_inv w"
    and name: "\<And>pod. new = Some pod \<Longrightarrow> po_Name pod = name"
    and told: "\<And>i ce. latest (reports i) news = Some ce \<Longrightarrow> reported ce \<noteq> None \<Longrightarrow>
      \<exists>pod. new = Some pod \<and> stands_for pod i \<and> \<not> ended pod"
    and untold: "\<And>i old. latest (reports i) news = None \<Longrightarrow> wt_pods w (cid, ns, name) = Some old \<Longrightarrow> stands_for old i \<Longrightarrow>
      \<not> ended old \<Longrightarrow> i \<notin> leaving \<Longrightarrow> \<exists>pod. new = Some pod \<and> stands_for pod i \<and> \<not> ended pod"
  shows "pods_inv (w\<lparr>wt_pods := (wt_pods w)((cid, ns, name) := new), wt_left := wt_left w \<union> leaving,
      wt_events := wt_events w @ news\<rparr>)"
    (is "pods_inv ?w'")
  unfolding pods_inv_def
proof (intro conjI allI impI)
  fix i ce assume ce: "latest (reports i) (wt_events ?w') = Some ce" "reported ce \<noteq> None"
  have "has_pod (w\<lparr>wt_pods := (wt_pods w)((cid, ns, name) := new)\<rparr>) i" if kept: "i \<notin> wt_left w \<union> leaving"
  proof (cases "latest (reports i) news")
    case (Some ce')
    then obtain pod where "new = Some pod" "stands_for pod i" "\<not> ended pod" using told [of i ce'] ce by (auto simp: latest_append)
    then show ?thesis using has_pod_told by blast
  next
    case None
    then have "latest (reports i) (wt_events w) = Some ce" using ce(1) by (simp add: latest_append)
    then have "has_pod w i" using inv ce(2) kept unfolding pods_inv_def by blast
    then show ?thesis by (rule has_pod_change) (rule untold [OF None], use kept in auto)
  qed
  moreover have "has_pod ?w' i = has_pod (w\<lparr>wt_pods := (wt_pods w)((cid, ns, name) := new)\<rparr>) i"
    unfolding has_pod_def by simp
  moreover have "wt_left ?w' = wt_left w \<union> leaving" by simp
  ultimately show "has_pod ?w' i \<or> i \<in> wt_left ?w'" by blast
qed (use inv name in \<open>auto simp: pods_inv_def split: if_splits\<close>)

lemma told_pod:
  "latest (reports i) (podAddFunc q cid now (Obj pod)) = Some ce \<Longrightarrow> reported ce \<noteq> None \<Longrightarrow>
    \<exists>p. Some pod = Some p \<and> stands_for p i \<and> \<not> ended p"
  "latest (reports i) (podAddFunc q cid now (Obj pod)) = None \<Longrightarrow> stands_for pod i \<Longrightarrow>
    \<exists>p. Some pod = Some p \<and> stands_for p i \<and> \<not> ended p"
  by (auto simp: told_add stands_for_def ended_def reported_pod_event split: if_splits PodPhase.splits)

lemma pods_inv_step:
  assumes "notify q ins w w'" and "pods_inv w"
  shows "pods_inv w'"
  using assms
proof (cases rule: notify.cases)
  case (pod_added cid ns pod now)
  have "pods_inv (w\<lparr>wt_pods := (wt_pods w)((cid, ns, po_Name pod) \<mapsto> pod), wt_left := wt_left w \<union> {},
      wt_events := wt_events w @ podAddFunc q cid now (Obj pod)\<rparr>)"
  proof (rule pods_inv_change [OF assms(2)])
    show "\<exists>p. Some pod = Some p \<and> stands_for p i \<and> \<not> ended p" if "wt_pods w (cid, ns, po_Name pod) = Some old" for i old
      using that pod_added(3) by simp
  qed (simp, rule told_pod(1))
  then show ?thesis unfolding pod_added(1) by simp
next
  case (pod_updated cid ns pod old now)
  show ?thesis
    unfolding pod_updated(1) podUpdateFunc_add
  proof (rule pods_inv_change [OF assms(2)])
    show "\<exists>p. Some pod = Some p \<and> stands_for p i \<and> \<not> ended p"
      if "latest (reports i) (podAddFunc q cid now (Obj pod)) = None" "wt_pods w (cid, ns, po_Name pod) = Some old'"
        "stands_for old' i" "\<not> ended old'" "i \<notin> left_by old pod" for i old'
      by (rule told_pod(2) [OF that(1)]) (use that pod_updated(2) in \<open>simp add: left_by_def\<close>)
  qed (simp, rule told_pod(1))
next
  case (pod_deleted cid ns pod old obj now)
  show ?thesis
    unfolding pod_deleted(1)
  proof (rule pods_inv_change [OF assms(2)])
    show "\<exists>p. None = Some p \<and> stands_for p i \<and> \<not> ended p"
      if "latest (reports i) (podDeleteFunc q cid now obj) = Some ce" "reported ce \<noteq> None" for i ce
      using that unfolding told_delete [OF pod_deleted(3)] by (auto simp: reported_pod_event split: if_splits)
    show "\<exists>p. None = Some p \<and> stands_for p i \<and> \<not> ended p"
      if "latest (reports i) (podDeleteFunc q cid now obj) = None" "wt_pods w (cid, ns, po_Name pod) = Some old'" "stands_for old' i"
        "\<not> ended old'" "i \<notin> left_by old pod" for i old'
    proof -
      have "stands_for pod i" using that(2-5) pod_deleted(2) by (simp add: left_by_def)
      then show ?thesis using that(1) unfolding told_delete [OF pod_deleted(3)] stands_for_def by simp
    qed
  qed simp
qed (auto simp: pods_inv_def latest_append told_node)

interpretation pods: step_system "\<lambda>w. w = nothing_told" "notify q ins" pods_inv
  by unfold_locales (simp add: pods_inv_def nothing_told_def, metis pods_inv_step)

text \<open>A round of the resync is a run of the informers.\<close>

lemma resync_events_append: "resync_events q w (turns @ turns') = resync_events q w turns @ resync_events q w turns'"
  by (simp add: resync_events_def)

lemma resync_run:
  assumes "pods_inv w"
  shows "(notify q ins)\<^sup>*\<^sup>* w (w\<lparr>wt_events := wt_events w @ resync_events q w turns\<rparr>)"
proof (induction turns rule: rev_induct)
  case (snoc t turns)
  obtain now cid ns name where t: "t = (now, cid, ns, name)" by (cases t)
  let ?w = "w\<lparr>wt_events := wt_events w @ resync_events q w turns\<rparr>"
  show ?case
  proof (cases "wt_pods w (cid, ns, name)")
    case None
    then show ?thesis using snoc by (simp add: resync_events_append) (simp add: resync_events_def t)
  next
    case (Some pod)
    then have name: "po_Name pod = name" using assms unfolding pods_inv_def by blast
    have "notify q ins ?w (?w\<lparr>wt_pods := (wt_pods ?w)((cid, ns, po_Name pod) \<mapsto> pod),
        wt_left := wt_left ?w \<union> left_by pod pod,
        wt_events := wt_events ?w @ podUpdateFunc q cid now (Obj pod)\<rparr>)"
      by (rule notify.pod_updated [of _ _ _ _ pod]) (simp add: name Some)
    moreover have "left_by pod pod = {}" by (simp add: left_by_def)
    moreover from this have "?w\<lparr>wt_pods := (wt_pods ?w)((cid, ns, po_Name pod) \<mapsto> pod),
        wt_left := wt_left ?w \<union> left_by pod pod,
        wt_events := wt_events ?w @ podUpdateFunc q cid now (Obj pod)\<rparr>
      = w\<lparr>wt_events := wt_events w @ resync_events q w (turns @ [t])\<rparr>"
      using Some by (simp add: name resync_events_append fun_upd_idem) (simp add: resync_events_def t)
    ultimately show ?thesis using snoc by (simp add: rtranclp.rtrancl_into_rtrancl)
  qed
qed (simp add: resync_events_def)

text \<open>What it reports of a replica only one pod stands for.\<close>

definition alone :: "'q Watched \<Rightarrow> ClusterID \<times> string \<times> string \<Rightarrow> 'q Pod \<Rightarrow> bool" where
  "alone w k pod \<longleftrightarrow> wt_pods w k = Some pod \<and> isSchedulatorPod pod
     \<and> (\<forall>k' pod'. wt_pods w k' = Some pod' \<longrightarrow> stands_for pod' (pod_replica pod) \<longrightarrow> k' = k)"

lemma latest_resync:
  assumes "alone w (cid, ns, name) pod" and "po_Phase pod = PodRunning" and "(now, cid, ns, name) \<in> set turns"
  shows "\<exists>now'. latest (reports (pod_replica pod)) (resync_events q w turns)
    = Some (pod_event q ClusterEventPodRunning cid pod now')"
proof -
  let ?i = "pod_replica pod"
  have one: "latest (reports ?i) (podUpdateFunc q cid now (Obj pod)) = Some (pod_event q ClusterEventPodRunning cid pod now)" for now
    using assms(1,2) by (simp add: podUpdateFunc_add told_add alone_def)
  have other: "latest (reports ?i) (podUpdateFunc q c t (Obj pod')) = None"
    if "wt_pods w k = Some pod'" "k \<noteq> (cid, ns, name)" for k c t pod'
  proof -
    have "\<not> (isSchedulatorPod pod' \<and> pod_replica pod' = ?i)" using that assms(1) unfolding alone_def stands_for_def by blast
    then show ?thesis by (simp only: podUpdateFunc_add told_add simp_thms if_False)
  qed
  have turn: "latest (reports ?i) (resync_events q w [(t, k)]) =
      (if k = (cid, ns, name) then Some (pod_event q ClusterEventPodRunning cid pod t) else None)" for t k
    using one other [of k] assms(1) by (cases k) (auto simp: resync_events_def alone_def split: option.split)
  show ?thesis
    using assms(3)
  proof (induction turns rule: rev_induct)
    case (snoc u turns)
    obtain t k where u: "u = (t, k)" by (cases u)
    show ?case
      using snoc by (cases "k = (cid, ns, name)") (auto simp: u resync_events_append latest_append turn split: option.split)
  qed simp
qed

section \<open>Nodes and their readiness\<close>

text \<open>For each node, the last event about it; of the node only what an event can set is looked at.\<close>

definition announces :: "ClusterID \<Rightarrow> string \<Rightarrow> ClusterEvent \<Rightarrow> bool" where
  "announces cid nid ce \<longleftrightarrow> ce_Kind ce \<in> {ClusterEventNodeUp, ClusterEventNodeDown} \<and> ce_ClusterID ce = cid \<and> ce_NodeID ce = nid"

definition announced :: "ClusterEvent \<Rightarrow> (NodeStatus \<times> int) option" where
  "announced ce = (if ce_Kind ce = ClusterEventNodeUp then Some (NodeStatusReady, ce_TotalGPUs ce) else None)"

definition node_view :: "WorldState \<Rightarrow> ClusterID \<Rightarrow> string \<Rightarrow> (NodeStatus \<times> int) option" where
  "node_view ws cid nid = map_option (\<lambda>n. (nd_Status n, nd_TotalGPUs n)) (node_at ws cid nid)"

lemma node_view_applyClusterEvent:
  "node_view (applyClusterEvent ce ws) cid nid = (if announces cid nid ce then announced ce else node_view ws cid nid)"
  by (auto simp: node_view_def applyClusterEvent_def announces_def announced_def node_at_simps node_at_UpsertReplica
      node_at_DeleteReplica release_def occupy_def option.map_comp comp_def split: ClusterEventKind.split option.split)

lemma node_view_delivered:
  "node_view (applyEvents (concat (map listenClusterEvents ces)) ws) cid nid =
     (case latest (announces cid nid) ces of None \<Rightarrow> node_view ws cid nid | Some ce \<Rightarrow> announced ce)"
  unfolding applyEvents_listened
  by (induction ces rule: rev_induct) (simp_all add: latest_snoc node_view_applyClusterEvent)

lemma told_of_pod:
  "latest (announces cid nid) (podAddFunc q c now obj) = None"
  "latest (announces cid nid) (podDeleteFunc q c now obj') = None"
  by (auto simp: latest_def announces_def podAddFunc_def podDeleteFunc_def emitPodEvent_def pod_event_def
      split: obj.split option.split PodPhase.split)

definition ready :: "'q Watched \<Rightarrow> ClusterID \<Rightarrow> string \<Rightarrow> bool" where
  "ready w cid nid \<longleftrightarrow> (\<exists>node. wt_nodes w (cid, nid) = Some node \<and> isNodeReady node)"

definition nodes_inv :: "'q Watched \<Rightarrow> bool" where
  "nodes_inv w \<longleftrightarrow> (\<forall>cid nid. ready w cid nid \<longleftrightarrow>
     (\<exists>ce. latest (announces cid nid) (wt_events w) = Some ce \<and> announced ce \<noteq> None))"

text \<open>One notification about a node, which reports its readiness where that is news.\<close>

lemma nodes_inv_change:
  assumes inv: "nodes_inv w"
    and news: "\<And>i j. latest (announces i j) news = (if i = cid \<and> j = name then report else None)"
    and told: "\<And>ce. report = Some ce \<Longrightarrow> announced ce \<noteq> None \<longleftrightarrow> (\<exists>node. new = Some node \<and> isNodeReady node)"
    and untold: "report = None \<Longrightarrow> (\<exists>node. new = Some node \<and> isNodeReady node) \<longleftrightarrow> ready w cid name"
  shows "nodes_inv (w\<lparr>wt_nodes := (wt_nodes w)((cid, name) := new), wt_events := wt_events w @ news\<rparr>)" (is "nodes_inv ?w'")
  unfolding nodes_inv_def
proof (intro allI)
  fix i j
  have old: "ready w i j \<longleftrightarrow> (\<exists>ce. latest (announces i j) (wt_events w) = Some ce \<and> announced ce \<noteq> None)"
    using inv unfolding nodes_inv_def by blast
  show "ready ?w' i j \<longleftrightarrow> (\<exists>ce. latest (announces i j) (wt_events ?w') = Some ce \<and> announced ce \<noteq> None)"
  proof (cases "i = cid \<and> j = name")
    case True
    then have "ready ?w' i j \<longleftrightarrow> (\<exists>node. new = Some node \<and> isNodeReady node)" by (simp add: ready_def)
    then show ?thesis using True old told untold by (cases report) (simp_all add: latest_append news)
  next
    case False
    then have "ready ?w' i j \<longleftrightarrow> ready w i j" by (auto simp: ready_def)
    moreover have "latest (announces i j) news = None" using False unfolding news by auto
    ultimately show ?thesis using old by (simp add: latest_append)
  qed
qed

lemma told_of_node:
  "latest (announces i j) (nodeAddFunc q cid now (Obj node)) =
     (if i = cid \<and> j = kn_Name node
      then if isNodeReady node then Some (node_event ClusterEventNodeUp cid (kn_Name node) (extractNodeGPUs q node) now) else None
      else None)"
  "latest (announces i j) (nodeUpdateFunc q cid now (Obj old) (Obj node)) =
     (if i = cid \<and> j = kn_Name node
      then if isNodeReady old = isNodeReady node then None
           else if isNodeReady node then Some (node_event ClusterEventNodeUp cid (kn_Name node) (extractNodeGPUs q node) now)
           else Some (node_event ClusterEventNodeDown cid (kn_Name node) 0 now)
      else None)"
  "deleted_object obj = Some node \<Longrightarrow> latest (announces i j) (nodeDeleteFunc cid now obj) =
     (if i = cid \<and> j = kn_Name node then Some (node_event ClusterEventNodeDown cid (kn_Name node) 0 now) else None)"
  by (auto simp: latest_def nodeAddFunc_def nodeUpdateFunc_def nodeDeleteFunc_def node_event_def announces_def Let_def)

lemma announced_node_event: "announced (node_event kind cid name gpus now) =
  (if kind = ClusterEventNodeUp then Some (NodeStatusReady, gpus) else None)"
  by (simp add: announced_def node_event_def)

lemma nodes_inv_step:
  assumes "notify q ins w w'" and "nodes_inv w"
  shows "nodes_inv w'"
  using assms
proof (cases rule: notify.cases)
  case (node_added cid ns node now)
  show ?thesis
    unfolding node_added(1)
    by (rule nodes_inv_change [OF assms(2) told_of_node(1)])
      (use node_added(3) in \<open>auto simp: announced_node_event ready_def split: if_splits\<close>)
next
  case (node_updated cid node old now)
  show ?thesis
    unfolding node_updated(1)
    by (rule nodes_inv_change [OF assms(2) told_of_node(2)])
      (use node_updated(2) in \<open>auto simp: announced_node_event ready_def split: if_splits\<close>)
next
  case (node_deleted cid node obj now)
  show ?thesis
    unfolding node_deleted(1)
    by (rule nodes_inv_change [OF assms(2) told_of_node(3) [OF node_deleted(3)]])
      (auto simp: announced_node_event)
qed (auto simp: nodes_inv_def ready_def latest_append told_of_pod podUpdateFunc_add)

interpretation nodes: step_system "\<lambda>w. w = nothing_told" "notify q ins" nodes_inv
  by unfold_locales (simp add: nodes_inv_def ready_def nothing_told_def, metis nodes_inv_step)

text \<open>While a node stays ready, nothing more is reported of it.\<close>

definition stays_ready :: "'q quantities \<Rightarrow> 'k informer list \<Rightarrow> ClusterID \<Rightarrow> string \<Rightarrow> 'q Watched \<Rightarrow> 'q Watched \<Rightarrow> bool" where
  "stays_ready q ins cid nid w w' \<longleftrightarrow> notify q ins w w' \<and> ready w' cid nid"

lemma stays_ready_step:
  assumes "stays_ready q ins cid nid w w'" and "ready w cid nid"
  shows "latest (announces cid nid) (wt_events w') = latest (announces cid nid) (wt_events w)"
proof -
  have "notify q ins w w'" and later: "ready w' cid nid" using assms(1) by (simp_all add: stays_ready_def)
  then show ?thesis
    using assms(2) later
    by (cases rule: notify.cases) (auto simp: latest_append told_of_node told_of_pod podUpdateFunc_add ready_def)
qed

lemma stays_ready_steps:
  assumes "(stays_ready q ins cid nid)\<^sup>*\<^sup>* w w'" and "ready w cid nid"
  shows "latest (announces cid nid) (wt_events w') = latest (announces cid nid) (wt_events w) \<and> ready w' cid nid"
  using assms(1)
proof (induction rule: rtranclp_induct)
  case (step w1 w2)
  then show ?case using stays_ready_step [of q ins cid nid w1 w2] by (simp add: stays_ready_def)
qed (simp add: assms(2))

section \<open>Where the informers look\<close>

definition in_scope :: "'k informer list \<Rightarrow> 'q Watched \<Rightarrow> bool" where
  "in_scope ins w \<longleftrightarrow> (\<forall>k pod. wt_pods w k = Some pod \<longrightarrow> watches ins Pods (fst k) (fst (snd k)))"

lemma in_scope_nodes: "in_scope ins (w\<lparr>wt_nodes := ns, wt_events := ces\<rparr>) = in_scope ins w"
  by (simp add: in_scope_def)

lemma in_scope_change:
  assumes "in_scope ins w" and "new \<noteq> None \<Longrightarrow> watches ins Pods (fst k) (fst (snd k))"
  shows "in_scope ins (w\<lparr>wt_pods := (wt_pods w)(k := new), wt_events := ces\<rparr>)"
    and "in_scope ins (w\<lparr>wt_pods := (wt_pods w)(k := new), wt_left := leaving, wt_events := ces\<rparr>)"
  using assms unfolding in_scope_def by (simp_all del: split_paired_All)

lemma in_scope_step:
  assumes "notify q ins w w'" and "in_scope ins w"
  shows "in_scope ins w'"
  using assms
proof (cases rule: notify.cases)
  case (pod_updated cid ns pod old now)
  then have "watches ins Pods cid ns" using assms(2) unfolding in_scope_def by fastforce
  then show ?thesis unfolding pod_updated(1) by (intro in_scope_change(2) [OF assms(2)]) simp
next
  case (pod_deleted cid ns pod old obj now)
  show ?thesis unfolding pod_deleted(1) by (rule in_scope_change(2) [OF assms(2)]) simp
qed (simp_all add: assms(2) in_scope_nodes in_scope_change(1))

interpretation scope: step_system "\<lambda>w. w = nothing_told" "notify q ins" "in_scope ins"
  by unfold_locales (simp add: in_scope_def nothing_told_def, metis in_scope_step)

section \<open>Two pods for one replica\<close>

text \<open>
  All pods of a Deployment carry its labels, so a pod that is being removed, or was evicted and is kept
  as failed, stands for the same replica as the one that replaces it. The end of the old pod, and
  every resync of the evicted one, takes the replica out of the table while the new pod serves it.
\<close>

lemma late_deletion_hides_the_replacement:
  assumes "stands_for old i"
  shows "gget (ws_replicas (applyEvents (concat (map listenClusterEvents (ces @ podDeleteFunc q cid now (Obj old)))) ws)) i = None"
proof -
  have "latest (reports i) (podDeleteFunc q cid now (Obj old)) = Some (pod_event q ClusterEventPodTerminated cid old now)"
    using assms by (subst told_delete [of _ old]) (simp_all add: stands_for_def)
  then show ?thesis unfolding replicas_delivered by (simp add: latest_append reported_pod_event)
qed

lemma evicted_pod_hides_its_replacement:
  assumes "wt_pods w (cid, ns, name) = Some old" and "stands_for old i" and "ended old"
  shows "gget (ws_replicas (applyEvents (concat (map listenClusterEvents
    (wt_events w @ resync_events q w (turns @ [(now, cid, ns, name)])))) ws)) i = None"
proof -
  have "resync_events q w [(now, cid, ns, name)] = podAddFunc q cid now (Obj old)"
    by (simp add: resync_events_def assms(1) podUpdateFunc_add)
  then have "latest (reports i) (resync_events q w [(now, cid, ns, name)]) = Some (pod_event q ClusterEventPodTerminated cid old now)"
    using assms(2,3) by (auto simp: told_add stands_for_def ended_def split: PodPhase.split)
  then show ?thesis unfolding replicas_delivered by (simp add: latest_append resync_events_append reported_pod_event)
qed

text \<open>
  A pod whose labels change to those of another replica is reported under its new name only, so the
  replica it stood for stays in the table until something else is reported of it.
\<close>

lemma relabelled_pod_leaves_its_replica:
  assumes "wt_pods w (cid, ns, po_Name pod) = Some old" and "stands_for old i" and "\<not> ended old" and "\<not> stands_for pod i"
  shows "notify q ins w (w\<lparr>wt_pods := (wt_pods w)((cid, ns, po_Name pod) \<mapsto> pod),
      wt_left := wt_left w \<union> left_by old pod, wt_events := wt_events w @ podUpdateFunc q cid now (Obj pod)\<rparr>)"
    and "i \<in> left_by old pod"
    and "gget (ws_replicas (applyEvents (concat (map listenClusterEvents (wt_events w @ podUpdateFunc q cid now (Obj pod)))) ws)) i
      = gget (ws_replicas (applyEvents (concat (map listenClusterEvents (wt_events w))) ws)) i"
proof -
  show "notify q ins w (w\<lparr>wt_pods := (wt_pods w)((cid, ns, po_Name pod) \<mapsto> pod),
      wt_left := wt_left w \<union> left_by old pod, wt_events := wt_events w @ podUpdateFunc q cid now (Obj pod)\<rparr>)"
    by (rule notify.pod_updated [OF assms(1)])
  show "i \<in> left_by old pod" using assms(2-4) by (simp add: left_by_def)
  have "latest (reports i) (podUpdateFunc q cid now (Obj pod)) = None"
    using assms(4) unfolding stands_for_def by (simp only: podUpdateFunc_add told_add if_False)
  then show "gget (ws_replicas (applyEvents (concat (map listenClusterEvents (wt_events w @ podUpdateFunc q cid now (Obj pod)))) ws)) i
      = gget (ws_replicas (applyEvents (concat (map listenClusterEvents (wt_events w))) ws)) i"
    unfolding replicas_delivered by (simp add: latest_append)
qed

section \<open>Properties\<close>

text \<open>C36: The table of replicas follows the pods of the clusters. Whatever the informers report and in
  whatever order, at every moment a replica is in the table only if a pod of a watched namespace
  stands for it that has not ended, or if it was there at the start and nothing was ever reported
  of it, or if a pod that stood for it was relabelled and so left it
  (\<open>relabelled_pod_leaves_its_replica\<close>). And once a round of the resync has come to a running pod,
  its replica is in the table with the pod's cluster, node, application and GPUs, whatever had
  been lost, if no other pod stands for it.\<close>

theorem replicas_follow_the_pods:
  assumes "gwf clusters" and "ins = WatchEvents od clusters"
    and "(notify q ins)\<^sup>*\<^sup>* nothing_told w"
    and "ws = applyEvents (concat (map listenClusterEvents (wt_events w @ resync_events q w turns))) ws0"
  shows "(gget (ws_replicas ws) i = Some r \<longrightarrow>
      (\<exists>cid ns name pod k n. wt_pods w (cid, ns, name) = Some pod \<and> stands_for pod i \<and> \<not> ended pod
         \<and> gget clusters cid = Some (k, n) \<and> n \<in> {NamespaceAll, ns})
      \<or> gget (ws_replicas ws0) i = Some r \<and> (\<forall>ce \<in> set (wt_events w). \<not> reports i ce)
      \<or> i \<in> wt_left w)
    \<and> (alone w (cid, ns, name) pod \<and> po_Phase pod = PodRunning \<and> (now, cid, ns, name) \<in> set turns \<longrightarrow>
      (\<exists>t. gget (ws_replicas ws) (pod_replica pod) = Some \<lparr>rp_ReplicaID = pod_replica pod, rp_AppID = pod_app pod,
         rp_ClusterID = cid, rp_NodeID = po_NodeName pod, rp_GPUs = extractPodGPUs q pod,
         rp_Status = ReplicaStatusRunning, rp_CreatedAt = t\<rparr>))"
proof (intro conjI impI)
  let ?ces = "wt_events w @ resync_events q w turns" and ?w = "w\<lparr>wt_events := wt_events w @ resync_events q w turns\<rparr>"
  have inv: "pods_inv w" "in_scope ins w" using assms(3) pods.reachable_inv scope.reachable_inv by blast+
  have "pods_inv ?w" using pods.steps_inv [OF resync_run [OF inv(1)] inv(1)] .
  then have last: "has_pod w i \<or> i \<in> wt_left w" if "latest (reports i) ?ces = Some ce" "reported ce \<noteq> None" for ce
    using that unfolding pods_inv_def by auto
  assume r: "gget (ws_replicas ws) i = Some r"
  show "(\<exists>cid ns name pod k n. wt_pods w (cid, ns, name) = Some pod \<and> stands_for pod i \<and> \<not> ended pod
         \<and> gget clusters cid = Some (k, n) \<and> n \<in> {NamespaceAll, ns})
      \<or> gget (ws_replicas ws0) i = Some r \<and> (\<forall>ce \<in> set (wt_events w). \<not> reports i ce)
      \<or> i \<in> wt_left w"
  proof (cases "latest (reports i) ?ces")
    case None
    then have "\<forall>ce \<in> set (wt_events w). \<not> reports i ce" by (simp add: latest_None)
    then show ?thesis using r None unfolding assms(4) replicas_delivered by simp
  next
    case (Some ce)
    then have "has_pod w i \<or> i \<in> wt_left w" using last r unfolding assms(4) replicas_delivered by auto
    then show ?thesis
    proof
      assume "has_pod w i"
      then obtain cid ns name pod where p: "wt_pods w (cid, ns, name) = Some pod" "stands_for pod i" "\<not> ended pod"
        unfolding has_pod_def by (metis prod_cases3)
      then have "watches (WatchEvents od clusters) Pods cid ns" using inv(2) unfolding in_scope_def assms(2) by fastforce
      then show ?thesis using p watches_WatchEvents(2) [OF assms(1)] by blast
    qed blast
  qed
next
  assume "alone w (cid, ns, name) pod \<and> po_Phase pod = PodRunning \<and> (now, cid, ns, name) \<in> set turns"
  then obtain t where "latest (reports (pod_replica pod)) (resync_events q w turns)
      = Some (pod_event q ClusterEventPodRunning cid pod t)" using latest_resync by metis
  then show "\<exists>t. gget (ws_replicas ws) (pod_replica pod) = Some \<lparr>rp_ReplicaID = pod_replica pod, rp_AppID = pod_app pod,
         rp_ClusterID = cid, rp_NodeID = po_NodeName pod, rp_GPUs = extractPodGPUs q pod,
         rp_Status = ReplicaStatusRunning, rp_CreatedAt = t\<rparr>"
    unfolding assms(4) replicas_delivered by (simp add: latest_append reported_pod_event)
qed

text \<open>C37: The nodes of the world state follow the readiness of the clusters' nodes, and nothing else of
  them. At every moment a node that was ever announced is there exactly if it is ready now, as a
  ready node, cordoned or not, with the GPUs of an announcement; one never announced is not ready
  and recorded as at the start. While it stays ready, nothing that changes of it reaches the world
  state, the number of its GPUs included.\<close>

theorem nodes_follow_readiness:
  assumes "(notify q ins)\<^sup>*\<^sup>* nothing_told w" and "(stays_ready q ins cid nid)\<^sup>*\<^sup>* w w'"
    and "ws = applyEvents (concat (map listenClusterEvents (wt_events w))) ws0"
    and "ws' = applyEvents (concat (map listenClusterEvents (wt_events w'))) ws0"
  shows "((\<exists>ce \<in> set (wt_events w). announces cid nid ce) \<longrightarrow>
      (case node_view ws cid nid of
         None \<Rightarrow> \<not> ready w cid nid
       | Some (status, gpus) \<Rightarrow> ready w cid nid \<and> status = NodeStatusReady
           \<and> (\<exists>up \<in> set (wt_events w). announces cid nid up \<and> ce_Kind up = ClusterEventNodeUp \<and> ce_TotalGPUs up = gpus)))
    \<and> (\<not> (\<exists>ce \<in> set (wt_events w). announces cid nid ce) \<longrightarrow>
      \<not> ready w cid nid \<and> node_view ws cid nid = node_view ws0 cid nid)
    \<and> (ready w cid nid \<longrightarrow> node_view ws' cid nid = node_view ws cid nid)"
proof -
  have inv: "ready w cid nid \<longleftrightarrow> (\<exists>ce. latest (announces cid nid) (wt_events w) = Some ce \<and> announced ce \<noteq> None)"
    using nodes.reachable_inv [OF refl assms(1)] unfolding nodes_inv_def by blast
  have "node_view ws' cid nid = node_view ws cid nid" if "ready w cid nid"
    using stays_ready_steps [OF assms(2) that] unfolding assms(3,4) node_view_delivered by simp
  moreover have ?thesis if "ready w cid nid \<longrightarrow> node_view ws' cid nid = node_view ws cid nid"
  proof (cases "latest (announces cid nid) (wt_events w)")
    case None
    then have "\<forall>ce \<in> set (wt_events w). \<not> announces cid nid ce" by (simp add: latest_None)
    moreover have "node_view ws cid nid = node_view ws0 cid nid" using None unfolding assms(3) node_view_delivered by simp
    ultimately show ?thesis using inv None by auto
  next
    case (Some ce)
    have "announces cid nid ce" "ce \<in> set (wt_events w)" using latest_Some [OF Some] by blast+
    then show ?thesis
      using inv Some that unfolding assms(3) node_view_delivered by (auto simp: announced_def split: if_splits)
  qed
  ultimately show ?thesis by blast
qed

section \<open>An example\<close>

text \<open>One cluster, a pod, and a node whose GPUs are counted only after it is ready.\<close>

definition one_cluster :: "(ClusterID, unit \<times> string) gomap" where
  "one_cluster = [(''c1'', (), ''default'')]"

abbreviation sample_informers :: "unit informer list" where
  "sample_informers \<equiv> WatchEvents (\<lambda>_. []) one_cluster"

definition early_node :: "string K8sNode" where
  "early_node = sample_k8s_node\<lparr>kn_Capacity := []\<rparr>"

lemma sample_watches: "watches sample_informers Nodes ''c1'' ns" "watches sample_informers Pods ''c1'' ''default''"
  by (simp_all add: watches_WatchEvents one_cluster_def)

lemma sample_pod_facts:
  "po_Name sample_pod = ''p''" "po_Phase sample_pod = PodRunning" "stands_for sample_pod sample_rid"
  "kn_Name early_node = ''n1''" "kn_Name sample_k8s_node = ''n1''"
  "isNodeReady early_node" "isNodeReady sample_k8s_node" "extractNodeGPUs text_quantities early_node = 0"
  by code_simp+

text \<open>The node and the pod are known; then the node's GPUs are counted.\<close>

definition told_one :: "string Watched" where
  "told_one = \<lparr>wt_nodes = [(''c1'', ''n1'') \<mapsto> early_node], wt_pods = [(''c1'', ''default'', ''p'') \<mapsto> sample_pod],
     wt_left = {}, wt_events = [node_event ClusterEventNodeUp ''c1'' ''n1'' 0 1, pod_event text_quantities ClusterEventPodRunning ''c1'' sample_pod 2]\<rparr>"

lemma told_one_reached: "(notify text_quantities sample_informers)\<^sup>*\<^sup>* nothing_told told_one"
proof -
  let ?w0 = "nothing_told :: string Watched"
  let ?w1 = "?w0\<lparr>wt_nodes := (wt_nodes ?w0)((''c1'', kn_Name early_node) \<mapsto> early_node),
      wt_events := wt_events ?w0 @ nodeAddFunc text_quantities ''c1'' 1 (Obj early_node)\<rparr>"
  have "notify text_quantities sample_informers nothing_told ?w1"
    by (rule notify.node_added [OF sample_watches(1)]) (simp add: nothing_told_def)
  moreover have "notify text_quantities sample_informers ?w1
      (?w1\<lparr>wt_pods := (wt_pods ?w1)((''c1'', ''default'', po_Name sample_pod) \<mapsto> sample_pod),
        wt_events := wt_events ?w1 @ podAddFunc text_quantities ''c1'' 2 (Obj sample_pod)\<rparr>)"
    by (rule notify.pod_added [OF sample_watches(2)]) (simp add: nothing_told_def)
  moreover have "?w1\<lparr>wt_pods := (wt_pods ?w1)((''c1'', ''default'', po_Name sample_pod) \<mapsto> sample_pod),
        wt_events := wt_events ?w1 @ podAddFunc text_quantities ''c1'' 2 (Obj sample_pod)\<rparr> = told_one"
    using sample_pod_facts
    by (simp add: told_one_def nothing_told_def nodeAddFunc_def podAddFunc_def emitPodEvent_def stands_for_def)
  ultimately show ?thesis by (metis (no_types, lifting) converse_rtranclp_into_rtranclp rtranclp.rtrancl_refl)
qed

lemma replicas_follow_the_pods_witness:
  "\<exists>t. gget (ws_replicas (applyEvents (concat (map listenClusterEvents (wt_events told_one
      @ resync_events text_quantities told_one [(3, ''c1'', ''default'', ''p'')]))) New)) (pod_replica sample_pod)
    = Some \<lparr>rp_ReplicaID = pod_replica sample_pod, rp_AppID = pod_app sample_pod, rp_ClusterID = ''c1'',
        rp_NodeID = po_NodeName sample_pod, rp_GPUs = extractPodGPUs text_quantities sample_pod,
        rp_Status = ReplicaStatusRunning, rp_CreatedAt = t\<rparr>"
proof -
  have wf: "gwf one_cluster" by (simp add: one_cluster_def)
  have alone: "alone told_one (''c1'', ''default'', ''p'') sample_pod"
    using sample_pod_facts(3) by (auto simp: alone_def told_one_def stands_for_def)
  show ?thesis
    using conjunct2 [OF replicas_follow_the_pods [OF wf refl told_one_reached refl,
      where cid = "''c1''" and ns = "''default''" and name = "''p''" and pod = sample_pod and now = 3
        and turns = "[(3, ''c1'', ''default'', ''p'')]" and ?ws0.0 = New]]
      alone sample_pod_facts(2) by simp
qed

lemma nodes_follow_readiness_witness:
  "\<exists>w. notify text_quantities sample_informers told_one w \<and> extractNodeGPUs text_quantities (the (wt_nodes w (''c1'', ''n1''))) = 8
    \<and> node_view (applyEvents (concat (map listenClusterEvents (wt_events w))) New) ''c1'' ''n1'' = Some (NodeStatusReady, 0)"
proof -
  let ?w = "told_one\<lparr>wt_nodes := (wt_nodes told_one)((''c1'', kn_Name sample_k8s_node) \<mapsto> sample_k8s_node),
      wt_events := wt_events told_one @ nodeUpdateFunc text_quantities ''c1'' 4 (Obj early_node) (Obj sample_k8s_node)\<rparr>"
  have step: "notify text_quantities sample_informers told_one ?w"
    by (rule notify.node_updated) (simp add: told_one_def sample_pod_facts(5))
  have r: "ready told_one ''c1'' ''n1''" "ready ?w ''c1'' ''n1''"
    using sample_pod_facts(5,6,7) by (simp_all add: ready_def told_one_def)
  have stays: "(stays_ready text_quantities sample_informers ''c1'' ''n1'')\<^sup>*\<^sup>* told_one ?w"
    using step r(2) by (intro r_into_rtranclp) (simp add: stays_ready_def)
  have "node_view (applyEvents (concat (map listenClusterEvents (wt_events told_one))) New) ''c1'' ''n1'' = Some (NodeStatusReady, 0)"
    unfolding node_view_delivered told_one_def by (simp add: latest_def announces_def announced_def node_event_def pod_event_def)
  then have "node_view (applyEvents (concat (map listenClusterEvents (wt_events ?w))) New) ''c1'' ''n1'' = Some (NodeStatusReady, 0)"
    using nodes_follow_readiness [OF told_one_reached stays refl refl, of New] r(1) by simp
  moreover have "extractNodeGPUs text_quantities (the (wt_nodes ?w (''c1'', ''n1''))) = 8"
    using sample_pod_facts(5) by simp code_simp
  ultimately show ?thesis using step by blast
qed

end
