(* ===== verification/Pipeline.thy ===== *)
theory Pipeline
  imports ControlLoop Steps
begin

text \<open>
  The goroutines of the ingester and the channels between them (\<open>Ingester.Start\<close>, its six listeners,
  \<open>Debouncer.loop\<close>, \<open>instrumentBatches\<close> and the receiving end of \<open>ControlLoop.Run\<close>), as a step relation.
  A step is one channel operation, one return or one choice of a \<open>select\<close>; any goroutine may make
  the next one. What events a listener makes of its input is that of theory \<open>Ingestion\<close>, what the
  debouncer does with them its \<open>deb_step\<close>.
\<close>

section \<open>Channels and goroutines\<close>

record 'a gochan =
  gc_buf :: "'a list"
  gc_closed :: bool

definition make_chan :: "'a gochan" where
  "make_chan = \<lparr>gc_buf = [], gc_closed = False\<rparr>"

definition ch_send :: "'a \<Rightarrow> 'a gochan \<Rightarrow> 'a gochan" where
  "ch_send x c = c\<lparr>gc_buf := gc_buf c @ [x]\<rparr>"

definition ch_recv :: "'a gochan \<Rightarrow> 'a gochan" where
  "ch_recv c = c\<lparr>gc_buf := tl (gc_buf c)\<rparr>"

definition ch_close :: "'a gochan \<Rightarrow> 'a gochan" where
  "ch_close c = c\<lparr>gc_closed := True\<rparr>"

definition rawChSize :: nat where "rawChSize = 64"

text \<open>The listeners; the first three end when their input is closed.\<close>

datatype listener = ClusterEvents | AppConfig | MetricsConfig | InjectedEvents | PollMetrics | PeriodicEval

datatype goroutine = Selecting | Sending "Event list" | Returned

text \<open>
  The debouncer is in its \<open>select\<close>, in \<open>emit\<close> with a batch for the output (\<open>orders\<close> is how it ranged
  over the merged events), in \<open>finalFlush\<close>, or has returned.
\<close>

datatype debounce_pc = DebSelect | DebEmit orders | DebFinal orders | DebReturned

datatype relay_pc = RelaySelect | RelaySend "Event list" | RelayReturned

text \<open>
  \<open>pl_raw\<close> is \<open>rawCh\<close>, \<open>pl_batches\<close> the debouncer's output, \<open>pl_out\<close> the channel \<open>Start\<close> returns. Two
  histories are kept for the statements: what went into \<open>rawCh\<close>, and what the control loop got.
\<close>

record pipeline =
  pl_done :: bool
  pl_inject :: "Event gochan"
  pl_listeners :: "listener \<Rightarrow> goroutine"
  pl_raw :: "Event gochan"
  pl_debouncer :: Debouncer
  pl_debPC :: debounce_pc
  pl_batches :: "Event list gochan"
  pl_relay :: relay_pc
  pl_out :: "Event list gochan"
  pl_sent :: "Event list"
  pl_received :: "Event list list"

definition new_pipeline :: pipeline where
  "new_pipeline = \<lparr>pl_done = False, pl_inject = make_chan, pl_listeners = (\<lambda>_. Selecting), pl_raw = make_chan,
     pl_debouncer = new_debouncer, pl_debPC = DebSelect, pl_batches = make_chan, pl_relay = RelaySelect,
     pl_out = make_chan, pl_sent = [], pl_received = []\<rparr>"

text \<open>
  What a listener may send for one input, at any time and with any registry. \<open>InjectedEvents\<close> takes its
  input from the channel \<open>injectCh\<close>, which the pipeline itself holds.
\<close>

definition handles :: "listener \<Rightarrow> Event list \<Rightarrow> bool" where
  "handles l evs \<longleftrightarrow>
     (case l of
        ClusterEvents \<Rightarrow> \<exists>ce. evs = listenClusterEvents ce
      | AppConfig \<Rightarrow> \<exists>now app reg. evs = snd (listenAppConfig now app reg)
      | MetricsConfig \<Rightarrow> \<exists>now reg m. evs = listenMetricsConfig now reg m
      | InjectedEvents \<Rightarrow> False
      | PollMetrics \<Rightarrow> \<exists>od now reg (G :: AppID \<Rightarrow> unit + VLLMMetrics). evs = doPollMetrics od now G reg
      | PeriodicEval \<Rightarrow> \<exists>now. evs = periodicEvalTimer now)"

definition pending_batch :: "orders \<Rightarrow> Debouncer \<Rightarrow> Event list" where
  "pending_batch od d = buildBatch od (db_merged d) (db_nonMergeable d)"

section \<open>Steps\<close>

inductive listener_step :: "pipeline \<Rightarrow> pipeline \<Rightarrow> bool" where
  inject: "length (gc_buf (pl_inject p)) < rawChSize \<Longrightarrow>
     listener_step p (p\<lparr>pl_inject := ch_send e (pl_inject p)\<rparr>)"
| accept: "pl_listeners p l = Selecting \<Longrightarrow> handles l evs \<Longrightarrow>
     listener_step p (p\<lparr>pl_listeners := (pl_listeners p)(l := Sending evs)\<rparr>)"
| accept_injected: "pl_listeners p InjectedEvents = Selecting \<Longrightarrow> gc_buf (pl_inject p) = e # es \<Longrightarrow>
     listener_step p (p\<lparr>pl_inject := ch_recv (pl_inject p),
       pl_listeners := (pl_listeners p)(InjectedEvents := Sending (listenInjectedEvents now reg e))\<rparr>)"
| send: "pl_listeners p l = Sending (e # es) \<Longrightarrow> \<not> gc_closed (pl_raw p) \<Longrightarrow> length (gc_buf (pl_raw p)) < rawChSize \<Longrightarrow>
     listener_step p (p\<lparr>pl_listeners := (pl_listeners p)(l := Sending es), pl_raw := ch_send e (pl_raw p),
       pl_sent := pl_sent p @ [e]\<rparr>)"
| handled: "pl_listeners p l = Sending [] \<Longrightarrow>
     listener_step p (p\<lparr>pl_listeners := (pl_listeners p)(l := Selecting)\<rparr>)"
| listener_done: "pl_listeners p l = Selecting \<Longrightarrow> pl_done p \<Longrightarrow>
     listener_step p (p\<lparr>pl_listeners := (pl_listeners p)(l := Returned)\<rparr>)"
| input_closed: "pl_listeners p l = Selecting \<Longrightarrow> l \<in> {ClusterEvents, AppConfig, MetricsConfig} \<Longrightarrow>
     listener_step p (p\<lparr>pl_listeners := (pl_listeners p)(l := Returned)\<rparr>)"
| cancel: "listener_step p (p\<lparr>pl_done := True\<rparr>)"

text \<open>\<open>InjectEvent\<close>, which the API server calls: it waits for room in the channel, or gives up with its request.\<close>

definition InjectEvent :: "Event \<Rightarrow> bool \<Rightarrow> pipeline \<Rightarrow> pipeline \<Rightarrow> bool" where
  "InjectEvent e requestDone p p' \<longleftrightarrow>
     (length (gc_buf (pl_inject p)) < rawChSize \<and> p' = p\<lparr>pl_inject := ch_send e (pl_inject p)\<rparr>)
     \<or> (requestDone \<and> p' = p)"

lemma InjectEvent_step: "InjectEvent e requestDone p p' \<Longrightarrow> listener_step p p' \<or> requestDone \<and> p' = p"
  unfolding InjectEvent_def using inject by blast

text \<open>What follows the listeners needs no input from outside.\<close>

inductive stage_step :: "pipeline \<Rightarrow> pipeline \<Rightarrow> bool" where
  close_raw: "\<forall>l. pl_listeners p l = Returned \<Longrightarrow> \<not> gc_closed (pl_raw p) \<Longrightarrow>
     stage_step p (p\<lparr>pl_raw := ch_close (pl_raw p)\<rparr>)"
| collect: "pl_debPC p = DebSelect \<Longrightarrow> gc_buf (pl_raw p) = e # es \<Longrightarrow>
     stage_step p (p\<lparr>pl_raw := ch_recv (pl_raw p), pl_debouncer := deb_step od (InEvent e) (pl_debouncer p)\<rparr>)"
| timer: "pl_debPC p = DebSelect \<Longrightarrow> db_timer (pl_debouncer p) \<Longrightarrow> pending_batch od (pl_debouncer p) \<noteq> [] \<Longrightarrow>
     stage_step p (p\<lparr>pl_debPC := DebEmit od\<rparr>)"
| timer_idle: "pl_debPC p = DebSelect \<Longrightarrow> db_timer (pl_debouncer p) \<Longrightarrow> pending_batch od (pl_debouncer p) = [] \<Longrightarrow>
     stage_step p (p\<lparr>pl_debouncer := deb_step od (InTimer True) (pl_debouncer p)\<rparr>)"
| emit: "pl_debPC p = DebEmit od \<Longrightarrow> \<not> gc_closed (pl_batches p) \<Longrightarrow> gc_buf (pl_batches p) = [] \<Longrightarrow>
     stage_step p (p\<lparr>pl_debPC := DebSelect, pl_batches := ch_send (pending_batch od (pl_debouncer p)) (pl_batches p),
       pl_debouncer := deb_step od (InTimer True) (pl_debouncer p)\<rparr>)"
| emit_done: "pl_debPC p = DebEmit od \<Longrightarrow> pl_done p \<Longrightarrow>
     stage_step p (p\<lparr>pl_debPC := DebSelect, pl_debouncer := deb_step od (InTimer False) (pl_debouncer p)\<rparr>)"
| last_batch: "pl_debPC p = DebSelect \<Longrightarrow> pl_done p \<or> gc_closed (pl_raw p) \<and> gc_buf (pl_raw p) = [] \<Longrightarrow>
     pending_batch od (pl_debouncer p) \<noteq> [] \<Longrightarrow>
     stage_step p (p\<lparr>pl_debPC := DebFinal od\<rparr>)"
| no_last_batch: "pl_debPC p = DebSelect \<Longrightarrow> pl_done p \<or> gc_closed (pl_raw p) \<and> gc_buf (pl_raw p) = [] \<Longrightarrow>
     pending_batch od (pl_debouncer p) = [] \<Longrightarrow>
     stage_step p (p\<lparr>pl_debPC := DebReturned, pl_batches := ch_close (pl_batches p),
       pl_debouncer := deb_step od InDone (pl_debouncer p)\<rparr>)"
| final_flush: "pl_debPC p = DebFinal od \<Longrightarrow> \<not> gc_closed (pl_batches p) \<Longrightarrow> gc_buf (pl_batches p) = [] \<Longrightarrow>
     stage_step p (p\<lparr>pl_debPC := DebReturned,
       pl_batches := ch_close (ch_send (pending_batch od (pl_debouncer p)) (pl_batches p)),
       pl_debouncer := deb_step od InDone (pl_debouncer p)\<rparr>)"
| relay_receive: "pl_relay p = RelaySelect \<Longrightarrow> gc_buf (pl_batches p) = b # bs \<Longrightarrow>
     stage_step p (p\<lparr>pl_relay := RelaySend b, pl_batches := ch_recv (pl_batches p)\<rparr>)"
| relay_send: "pl_relay p = RelaySend b \<Longrightarrow> \<not> gc_closed (pl_out p) \<Longrightarrow> gc_buf (pl_out p) = [] \<Longrightarrow>
     stage_step p (p\<lparr>pl_relay := RelaySelect, pl_out := ch_send b (pl_out p)\<rparr>)"
| relay_done: "pl_relay p \<noteq> RelayReturned \<Longrightarrow> pl_done p \<Longrightarrow>
     stage_step p (p\<lparr>pl_relay := RelayReturned, pl_out := ch_close (pl_out p)\<rparr>)"
| relay_closed: "pl_relay p = RelaySelect \<Longrightarrow> gc_closed (pl_batches p) \<Longrightarrow> gc_buf (pl_batches p) = [] \<Longrightarrow>
     stage_step p (p\<lparr>pl_relay := RelayReturned, pl_out := ch_close (pl_out p)\<rparr>)"
| loop_receive: "gc_buf (pl_out p) = b # bs \<Longrightarrow>
     stage_step p (p\<lparr>pl_out := ch_recv (pl_out p), pl_received := pl_received p @ [b]\<rparr>)"

definition pipeline_step :: "pipeline \<Rightarrow> pipeline \<Rightarrow> bool" where
  "pipeline_step p p' \<longleftrightarrow> listener_step p p' \<or> stage_step p p'"

abbreviation pipeline_reaches :: "pipeline \<Rightarrow> bool" where
  "pipeline_reaches p \<equiv> pipeline_step\<^sup>*\<^sup>* new_pipeline p"

text \<open>
  A send on a closed channel, or a second close, is a panic. These are the states in which some
  goroutine's next operation would be one.
\<close>

definition panics :: "pipeline \<Rightarrow> bool" where
  "panics p \<longleftrightarrow>
     (\<exists>l e es. pl_listeners p l = Sending (e # es) \<and> gc_closed (pl_raw p))
     \<or> (pl_debPC p \<noteq> DebReturned \<and> gc_closed (pl_batches p))
     \<or> (pl_relay p \<noteq> RelayReturned \<and> gc_closed (pl_out p))"

section \<open>The debouncer's part in a step\<close>

lemma deb_step_event:
  assumes "\<not> db_closed d"
  shows "db_out (deb_step od (InEvent e) d) = db_out d" and "db_timer (deb_step od (InEvent e) d)"
    and "\<not> db_closed (deb_step od (InEvent e) d)"
    and "snd ` set (db_merged (deb_step od (InEvent e) d)) \<union> set (db_nonMergeable (deb_step od (InEvent e) d))
      \<subseteq> insert e (snd ` set (db_merged d) \<union> set (db_nonMergeable d))"
proof -
  have "snd ` set (gput (mergeKey e) e (db_merged d)) \<subseteq> insert e (snd ` set (db_merged d))"
    using set_gput_subset [of "mergeKey e" e "db_merged d"] by force
  then show "snd ` set (db_merged (deb_step od (InEvent e) d)) \<union> set (db_nonMergeable (deb_step od (InEvent e) d))
      \<subseteq> insert e (snd ` set (db_merged d) \<union> set (db_nonMergeable d))"
    using assms by (cases "isMergeable e") (simp_all add: deb_step_def, blast+)
qed (use assms in \<open>simp_all add: deb_step_def\<close>)

lemma deb_step_timer:
  assumes "\<not> db_closed d" and "db_timer d"
  shows "deb_step od (InTimer sent) d =
    d\<lparr>db_out := db_out d @ (if sent \<and> pending_batch od d \<noteq> [] then [pending_batch od d] else []),
      db_merged := (if pending_batch od d = [] then db_merged d else []),
      db_nonMergeable := (if pending_batch od d = [] then db_nonMergeable d else []), db_timer := False\<rparr>"
  using assms by (simp add: deb_step_def flush_def pending_batch_def Let_def)

lemma deb_step_last:
  assumes "\<not> db_closed d"
  shows "deb_step od InDone d =
    d\<lparr>db_out := db_out d @ (if pending_batch od d \<noteq> [] then [pending_batch od d] else []),
      db_merged := (if pending_batch od d = [] then db_merged d else []),
      db_nonMergeable := (if pending_batch od d = [] then db_nonMergeable d else []), db_closed := True\<rparr>"
  using assms by (simp add: deb_step_def flush_def pending_batch_def Let_def)

lemma set_pending_batch: "set (pending_batch od d) = snd ` set (db_merged d) \<union> set (db_nonMergeable d)"
  by (simp add: pending_batch_def buildBatch_def)

lemma pending_empty: "pending_batch od d = [] \<longleftrightarrow> db_merged d = [] \<and> db_nonMergeable d = []"
  using set_pending_batch [of od d] by (metis Un_empty image_is_empty set_empty)

section \<open>Invariants\<close>

text \<open>The batch the relay has in its hands.\<close>

fun relay_items :: "relay_pc \<Rightarrow> Event list list" where
  "relay_items (RelaySend b) = [b]"
| "relay_items _ = []"

text \<open>
  The invariant, by parts, each over the fields it reads. Who has closed what, and how full the
  channels are:
\<close>

definition channels_ok ::
  "(listener \<Rightarrow> goroutine) \<Rightarrow> Event gochan \<Rightarrow> Event gochan \<Rightarrow> debounce_pc \<Rightarrow> Event list gochan \<Rightarrow> relay_pc \<Rightarrow> Event list gochan \<Rightarrow> bool" where
  "channels_ok ls inq raw pc batches relay out \<longleftrightarrow> (gc_closed raw \<longrightarrow> (\<forall>l. ls l = Returned))
     \<and> (gc_closed batches \<longleftrightarrow> pc = DebReturned) \<and> (gc_closed out \<longleftrightarrow> relay = RelayReturned)
     \<and> length (gc_buf inq) \<le> rawChSize \<and> length (gc_buf raw) \<le> rawChSize
     \<and> length (gc_buf batches) \<le> 1 \<and> length (gc_buf out) \<le> 1"

text \<open>The debouncer waits with a batch only under its timer, and emits only a batch it has.\<close>

definition debounce_ok :: "debounce_pc \<Rightarrow> Debouncer \<Rightarrow> bool" where
  "debounce_ok pc d \<longleftrightarrow> (db_closed d \<longleftrightarrow> pc = DebReturned)
     \<and> (case pc of
          DebSelect \<Rightarrow> db_merged d \<noteq> [] \<or> db_nonMergeable d \<noteq> [] \<longrightarrow> db_timer d
        | DebEmit od \<Rightarrow> db_timer d \<and> pending_batch od d \<noteq> []
        | DebFinal od \<Rightarrow> pending_batch od d \<noteq> []
        | DebReturned \<Rightarrow> True)"

text \<open>Batches flow in order; the relay may drop one, and leave others, when it returns.\<close>

definition flow_ok :: "Event list list \<Rightarrow> Event list list \<Rightarrow> Event list list \<Rightarrow> relay_pc \<Rightarrow> Event list list \<Rightarrow> bool" where
  "flow_ok emitted received out relay batches \<longleftrightarrow> (\<exists>lost. (relay \<noteq> RelayReturned \<longrightarrow> lost = []) \<and>
     emitted = received @ out @ relay_items relay @ lost @ batches)"

text \<open>Nothing is delivered that was not sent.\<close>

definition honest :: "Debouncer \<Rightarrow> Event list \<Rightarrow> Event list \<Rightarrow> bool" where
  "honest d raw sent \<longleftrightarrow> set (concat (db_out d)) \<union> snd ` set (db_merged d) \<union> set (db_nonMergeable d) \<union> set raw \<subseteq> set sent"

text \<open>While the context is not done nothing has returned that would be missed, and nothing is lost.\<close>

definition running_ok :: "goroutine \<Rightarrow> relay_pc \<Rightarrow> debounce_pc \<Rightarrow> Event list \<Rightarrow> Event list \<Rightarrow> Debouncer \<Rightarrow> bool" where
  "running_ok poll relay pc sent raw d \<longleftrightarrow> poll \<noteq> Returned \<and> relay \<noteq> RelayReturned
     \<and> (pc = DebSelect \<or> (\<exists>od. pc = DebEmit od)) \<and> (\<exists>arrived. sent = arrived @ raw \<and> deb_inv arrived d)"

definition pipeline_ok :: "pipeline \<Rightarrow> bool" where
  "pipeline_ok p \<longleftrightarrow> channels_ok (pl_listeners p) (pl_inject p) (pl_raw p) (pl_debPC p) (pl_batches p) (pl_relay p) (pl_out p)
     \<and> debounce_ok (pl_debPC p) (pl_debouncer p)
     \<and> flow_ok (db_out (pl_debouncer p)) (pl_received p) (gc_buf (pl_out p)) (pl_relay p) (gc_buf (pl_batches p))
     \<and> honest (pl_debouncer p) (gc_buf (pl_raw p)) (pl_sent p)
     \<and> (\<not> pl_done p \<longrightarrow> running_ok (pl_listeners p PollMetrics) (pl_relay p) (pl_debPC p) (pl_sent p) (gc_buf (pl_raw p)) (pl_debouncer p))"

lemmas chan_defs = ch_send_def ch_recv_def ch_close_def

lemma new_pipeline_ok: "pipeline_ok new_pipeline"
  using new_debouncer_inv
  by (simp add: pipeline_ok_def channels_ok_def debounce_ok_def flow_ok_def honest_def running_ok_def new_pipeline_def
      make_chan_def) (simp add: new_debouncer_def)

lemma listener_step_ok:
  assumes "listener_step p p'" and "pipeline_ok p"
  shows "pipeline_ok p'"
  using assms
proof (induction rule: listener_step.induct)
  case (send p l e es)
  have "honest (pl_debouncer p) (gc_buf (pl_raw p) @ [e]) (pl_sent p @ [e])"
    using send.prems by (auto simp: pipeline_ok_def honest_def)
  moreover have "running_ok poll relay pc (sent @ [e]) (raw @ [e]) d" if "running_ok Selecting relay pc sent raw d" "poll \<noteq> Returned"
    for poll relay pc sent raw d using that by (auto simp: running_ok_def)
  ultimately show ?case using send
    by (auto simp: pipeline_ok_def channels_ok_def ch_send_def running_ok_def)
qed (auto simp: pipeline_ok_def channels_ok_def chan_defs running_ok_def)

lemma stage_step_ok:
  assumes "stage_step p p'" and "pipeline_ok p"
  shows "pipeline_ok p'"
  using assms
proof (induction rule: stage_step.induct)
  case (collect p e es od)
  let ?d = "pl_debouncer p"
  have open_d: "\<not> db_closed ?d" using collect by (simp add: pipeline_ok_def debounce_ok_def)
  note d = deb_step_event [OF open_d, of od e]
  have "honest (deb_step od (InEvent e) ?d) es (pl_sent p)"
  proof -
    have "honest ?d (e # es) (pl_sent p)" using collect by (simp add: pipeline_ok_def)
    then have "insert e (snd ` set (db_merged ?d) \<union> set (db_nonMergeable ?d)) \<subseteq> set (pl_sent p)"
      and "set (concat (db_out ?d)) \<union> set es \<subseteq> set (pl_sent p)" unfolding honest_def by simp_all
    then show ?thesis using subset_trans [OF d(4)] unfolding honest_def d(1) by simp
  qed
  moreover have "running_ok poll relay DebSelect sent es (deb_step od (InEvent e) ?d)"
    if r: "running_ok poll relay DebSelect sent (e # es) ?d" for poll relay sent
  proof -
    obtain arrived where a: "sent = arrived @ e # es" "deb_inv arrived ?d" using r by (auto simp: running_ok_def)
    have "deb_inv (arrived @ [e]) (deb_step od (InEvent e) ?d)" by (rule deb_event_inv [OF a(2) open_d])
    then show ?thesis using r a(1) unfolding running_ok_def by force
  qed
  ultimately show ?case using collect d(1,2,3)
    by (auto simp: pipeline_ok_def channels_ok_def debounce_ok_def ch_recv_def)
next
  case (timer_idle p od)
  then have "deb_step od (InTimer True) (pl_debouncer p) = pl_debouncer p\<lparr>db_timer := False\<rparr>"
    by (simp add: deb_step_timer pipeline_ok_def debounce_ok_def)
  then show ?case using timer_idle
    by (auto simp: pipeline_ok_def debounce_ok_def honest_def running_ok_def pending_empty)
next
  case (emit p od)
  let ?d = "pl_debouncer p"
  have open_d: "\<not> db_closed ?d" "db_timer ?d" "pending_batch od ?d \<noteq> []"
    using emit by (simp_all add: pipeline_ok_def debounce_ok_def)
  note d = deb_step_timer [OF open_d(1,2), of od True]
  have "honest (deb_step od (InTimer True) ?d) (gc_buf (pl_raw p)) (pl_sent p)"
    using emit open_d by (auto simp: d pipeline_ok_def honest_def set_pending_batch)
  moreover have "running_ok poll relay DebSelect sent raw (deb_step od (InTimer True) ?d)"
    if "running_ok poll relay (DebEmit od) sent raw ?d" for poll relay sent raw
    using that deb_timer_inv [of _ ?d od] open_d(1) by (auto simp: running_ok_def)
  ultimately show ?case using emit open_d
    by (auto simp: d pipeline_ok_def channels_ok_def debounce_ok_def flow_ok_def ch_send_def)
next
  case (emit_done p od)
  let ?d = "pl_debouncer p"
  have open_d: "\<not> db_closed ?d" "db_timer ?d" "pending_batch od ?d \<noteq> []"
    using emit_done by (simp_all add: pipeline_ok_def debounce_ok_def)
  then show ?case using emit_done
    by (auto simp: deb_step_timer [OF open_d(1,2)] pipeline_ok_def channels_ok_def debounce_ok_def honest_def)
next
  case (no_last_batch p od)
  let ?d = "pl_debouncer p"
  have open_d: "\<not> db_closed ?d" using no_last_batch by (simp add: pipeline_ok_def debounce_ok_def)
  have "pl_done p"
    using no_last_batch by (auto simp: pipeline_ok_def channels_ok_def running_ok_def)
  then show ?case using no_last_batch
    by (auto simp: deb_step_last [OF open_d] pipeline_ok_def channels_ok_def debounce_ok_def honest_def ch_close_def)
next
  case (final_flush p od)
  let ?d = "pl_debouncer p"
  have open_d: "\<not> db_closed ?d" and b: "pending_batch od ?d \<noteq> []"
    using final_flush by (simp_all add: pipeline_ok_def debounce_ok_def)
  have "pl_done p" using final_flush by (auto simp: pipeline_ok_def running_ok_def)
  then show ?case using final_flush b
    by (auto simp: deb_step_last [OF open_d] pipeline_ok_def channels_ok_def debounce_ok_def flow_ok_def honest_def
        set_pending_batch chan_defs)
next
  case (relay_done p)
  have "flow_ok emitted received out RelayReturned batches" if "flow_ok emitted received out relay batches"
    for emitted received out relay batches
    using that by (cases relay) (auto simp: flow_ok_def)
  then show ?case using relay_done by (auto simp: pipeline_ok_def channels_ok_def ch_close_def)
next
  case (relay_closed p)
  then have "pl_done p" by (auto simp: pipeline_ok_def channels_ok_def running_ok_def)
  then show ?case using relay_closed by (auto simp: pipeline_ok_def channels_ok_def flow_ok_def ch_close_def)
next
  case (relay_receive p b bs)
  then show ?case by (auto simp: pipeline_ok_def channels_ok_def flow_ok_def ch_recv_def running_ok_def)
next
  case (relay_send p b)
  then show ?case by (auto simp: pipeline_ok_def channels_ok_def flow_ok_def ch_send_def running_ok_def)
next
  case (loop_receive p b bs)
  then show ?case by (auto simp: pipeline_ok_def channels_ok_def flow_ok_def ch_recv_def)
next
  case (close_raw p)
  then show ?case by (auto simp: pipeline_ok_def channels_ok_def ch_close_def running_ok_def)
next
  case (timer p od)
  then show ?case by (auto simp: pipeline_ok_def channels_ok_def debounce_ok_def running_ok_def)
next
  case (last_batch p od)
  then have "pl_done p" by (auto simp: pipeline_ok_def channels_ok_def running_ok_def)
  then show ?case using last_batch by (auto simp: pipeline_ok_def channels_ok_def debounce_ok_def)
qed

interpretation pipe: step_system "\<lambda>p. p = new_pipeline" pipeline_step pipeline_ok
  by unfold_locales (auto simp: new_pipeline_ok pipeline_step_def listener_step_ok stage_step_ok)

lemma reaches_ok: "pipeline_reaches p \<Longrightarrow> pipeline_ok p"
  using pipe.reachable_inv by blast

section \<open>Delivery\<close>

inductive_cases stage_stepE: "stage_step p p'"

lemma stage_step_frame:
  assumes "stage_step p p'"
  shows "pl_sent p' = pl_sent p \<and> pl_done p' = pl_done p \<and> pl_listeners p' = pl_listeners p \<and> pl_inject p' = pl_inject p"
  using assms by (auto elim: stage_stepE)

text \<open>What is left to be done until everything that was sent has reached the control loop.\<close>

definition held_work :: "debounce_pc \<Rightarrow> Debouncer \<Rightarrow> nat" where
  "held_work pc d = (case pc of
      DebSelect \<Rightarrow> if db_merged d = [] \<and> db_nonMergeable d = [] then 0 else 5
    | DebEmit _ \<Rightarrow> 4
    | _ \<Rightarrow> 0)"

definition pipe_work :: "pipeline \<Rightarrow> nat" where
  "pipe_work p = 6 * length (gc_buf (pl_raw p)) + held_work (pl_debPC p) (pl_debouncer p) + 3 * length (gc_buf (pl_batches p))
     + 2 * length (relay_items (pl_relay p)) + length (gc_buf (pl_out p))"

definition drained :: "pipeline \<Rightarrow> bool" where
  "drained p \<longleftrightarrow> gc_buf (pl_raw p) = [] \<and> pl_debPC p = DebSelect
     \<and> db_merged (pl_debouncer p) = [] \<and> db_nonMergeable (pl_debouncer p) = []
     \<and> gc_buf (pl_batches p) = [] \<and> pl_relay p = RelaySelect \<and> gc_buf (pl_out p) = []"

lemma progressI: "stage_step p q \<Longrightarrow> pipe_work q < pipe_work p \<Longrightarrow> \<exists>p'. stage_step p p' \<and> pipe_work p' < pipe_work p"
  by blast

lemma pipe_work_progress:
  assumes ok: "pipeline_ok p" and running: "\<not> pl_done p" and "0 < pipe_work p"
  shows "\<exists>p'. stage_step p p' \<and> pipe_work p' < pipe_work p"
proof -
  have r: "pl_relay p \<noteq> RelayReturned" "\<not> gc_closed (pl_out p)"
    and pc: "pl_debPC p = DebSelect \<or> (\<exists>od. pl_debPC p = DebEmit od)" "\<not> gc_closed (pl_batches p)"
    using ok running by (auto simp: pipeline_ok_def channels_ok_def running_ok_def)
  show ?thesis
  proof (cases "gc_buf (pl_out p)")
    case (Cons b bs)
    then show ?thesis by (intro progressI [OF stage_step.loop_receive [OF Cons]]) (simp add: pipe_work_def ch_recv_def)
  next
    case out: Nil
    show ?thesis
    proof (cases "pl_relay p")
      case (RelaySend b)
      show ?thesis
        by (rule progressI [OF stage_step.relay_send [OF RelaySend r(2) out]])
          (simp add: pipe_work_def ch_send_def out RelaySend)
    next
      case relay: RelaySelect
      show ?thesis
      proof (cases "gc_buf (pl_batches p)")
        case (Cons b bs)
        show ?thesis
          by (rule progressI [OF stage_step.relay_receive [OF relay Cons]]) (simp add: pipe_work_def ch_recv_def relay Cons)
      next
        case batches: Nil
        show ?thesis
        proof (cases "pl_debPC p")
          case (DebEmit od)
          then have "\<not> db_closed (pl_debouncer p)" "db_timer (pl_debouncer p)" "pending_batch od (pl_debouncer p) \<noteq> []"
            using ok by (auto simp: pipeline_ok_def debounce_ok_def)
          then show ?thesis
            by (intro progressI [OF stage_step.emit [OF DebEmit pc(2) batches]])
              (simp add: pipe_work_def held_work_def deb_step_timer ch_send_def batches DebEmit)
        next
          case select: DebSelect
          then have d: "\<not> db_closed (pl_debouncer p)" using ok by (auto simp: pipeline_ok_def debounce_ok_def)
          show ?thesis
          proof (cases "gc_buf (pl_raw p)")
            case (Cons e es)
            show ?thesis
              by (rule progressI [OF stage_step.collect [OF select Cons, where od = "\<lambda>_. []"]])
                (simp add: pipe_work_def held_work_def ch_recv_def select Cons)
          next
            case raw: Nil
            then have held: "pending_batch (\<lambda>_. []) (pl_debouncer p) \<noteq> []"
              using assms(3) out relay batches select by (simp add: pipe_work_def held_work_def pending_empty split: if_splits)
            then have "db_timer (pl_debouncer p)"
              using ok select by (auto simp: pipeline_ok_def debounce_ok_def pending_empty)
            from stage_step.timer [OF select this held] show ?thesis
              by (rule progressI) (use held in \<open>simp add: pipe_work_def held_work_def pending_empty select\<close>)
          qed
        qed (use pc in auto)
      qed
    qed (use r in simp)
  qed
qed

lemma pipe_work_drained:
  assumes "pipeline_ok p" and "\<not> pl_done p" and "pipe_work p = 0"
  shows "drained p"
  using assms
  by (cases "pl_relay p"; cases "pl_debPC p")
    (auto simp: drained_def pipe_work_def held_work_def pipeline_ok_def running_ok_def split: if_splits)

lemma can_drain:
  assumes "pipeline_ok p" and "\<not> pl_done p"
  shows "\<exists>p'. stage_step\<^sup>*\<^sup>* p p' \<and> pipeline_ok p' \<and> drained p'
    \<and> pl_sent p' = pl_sent p \<and> \<not> pl_done p' \<and> pl_listeners p' = pl_listeners p \<and> pl_inject p' = pl_inject p"
proof -
  let ?I = "\<lambda>q. pipeline_ok q \<and> \<not> pl_done q \<and> pl_sent q = pl_sent p \<and> pl_listeners q = pl_listeners p \<and> pl_inject q = pl_inject p"
  have "\<exists>q'. stage_step q q' \<and> ?I q' \<and> pipe_work q' < pipe_work q" if "?I q" "0 < pipe_work q" for q
    using that pipe_work_progress [of q] stage_step_ok stage_step_frame by metis
  then obtain p' where "stage_step\<^sup>*\<^sup>* p p'" "?I p'" "pipe_work p' = 0"
    using drains [where I = ?I and s = p and step = stage_step and m = pipe_work] assms by blast
  then show ?thesis using pipe_work_drained by blast
qed

text \<open>A listener is never blocked for good while the context lasts.\<close>

lemma stage_steps_steps: "stage_step\<^sup>*\<^sup>* p p' \<Longrightarrow> pipeline_step\<^sup>*\<^sup>* p p'"
  by (erule rtranclp_mono [THEN predicate2D, rotated]) (auto simp: pipeline_step_def)

lemma listeners_can_send:
  assumes "pipeline_reaches p" and "\<not> pl_done p" and "pl_listeners p l = Sending (e # es)"
  shows "\<exists>p'. pipeline_step\<^sup>*\<^sup>* p p' \<and> pl_listeners p' l = Sending es \<and> pl_sent p' = pl_sent p @ [e]
    \<and> \<not> pl_done p' \<and> pl_inject p' = pl_inject p"
proof -
  obtain q where q: "stage_step\<^sup>*\<^sup>* p q" "pipeline_ok q" "drained q" "pl_sent q = pl_sent p" "pl_listeners q = pl_listeners p"
    "\<not> pl_done q" "pl_inject q = pl_inject p"
    using can_drain [OF reaches_ok [OF assms(1)] assms(2)] by blast
  then have "\<not> gc_closed (pl_raw q)" using assms(3) by (auto simp: pipeline_ok_def channels_ok_def)
  then have "listener_step q (q\<lparr>pl_listeners := (pl_listeners q)(l := Sending es), pl_raw := ch_send e (pl_raw q),
      pl_sent := pl_sent q @ [e]\<rparr>)"
    using q(3,5) assms(3) by (intro listener_step.send) (auto simp: drained_def rawChSize_def)
  then have "pipeline_step\<^sup>*\<^sup>* p (q\<lparr>pl_listeners := (pl_listeners q)(l := Sending es), pl_raw := ch_send e (pl_raw q),
      pl_sent := pl_sent q @ [e]\<rparr>)"
    using stage_steps_steps [OF q(1)] by (simp add: pipeline_step_def rtranclp.rtrancl_into_rtrancl)
  then show ?thesis by (intro exI, intro conjI, assumption) (simp_all add: q(4,6,7))
qed

lemma reaches_on: "pipeline_reaches p \<Longrightarrow> pipeline_step\<^sup>*\<^sup>* p p' \<Longrightarrow> pipeline_reaches p'"
  by (rule rtranclp_trans)

lemma listener_finishes:
  "pipeline_reaches p \<Longrightarrow> \<not> pl_done p \<Longrightarrow> pl_listeners p l = Sending es \<Longrightarrow>
     \<exists>p'. pipeline_step\<^sup>*\<^sup>* p p' \<and> pl_listeners p' l = Selecting \<and> pl_sent p' = pl_sent p @ es
       \<and> \<not> pl_done p' \<and> pl_inject p' = pl_inject p"
proof (induction es arbitrary: p)
  case Nil
  let ?q = "p\<lparr>pl_listeners := (pl_listeners p)(l := Selecting)\<rparr>"
  have "pipeline_step p ?q" using listener_step.handled [OF Nil(3)] by (simp add: pipeline_step_def)
  then show ?case using Nil by (intro exI [of _ ?q]) auto
next
  case (Cons e es)
  obtain q where q: "pipeline_step\<^sup>*\<^sup>* p q" "pl_listeners q l = Sending es" "pl_sent q = pl_sent p @ [e]"
    "\<not> pl_done q" "pl_inject q = pl_inject p"
    using listeners_can_send [OF Cons.prems] by blast
  obtain p' where "pipeline_step\<^sup>*\<^sup>* q p'" "pl_listeners p' l = Selecting" "pl_sent p' = pl_sent q @ es"
    "\<not> pl_done p'" "pl_inject p' = pl_inject q"
    using Cons.IH [OF reaches_on [OF Cons.prems(1) q(1)] q(4,2)] by blast
  then show ?case using q rtranclp_trans [OF q(1)] by (intro exI [of _ p']) simp
qed

text \<open>So the events that were injected are sent in turn, with the breaches found in them.\<close>

lemma injected_are_sent:
  "pipeline_reaches p \<Longrightarrow> \<not> pl_done p \<Longrightarrow> pl_listeners p InjectedEvents = Selecting \<Longrightarrow> gc_buf (pl_inject p) = es \<Longrightarrow>
     \<exists>p'. pipeline_step\<^sup>*\<^sup>* p p' \<and> gc_buf (pl_inject p') = [] \<and> \<not> pl_done p'
       \<and> pl_sent p' = pl_sent p @ concat (map (listenInjectedEvents now reg) es)"
proof (induction es arbitrary: p)
  case (Cons e es)
  let ?q = "p\<lparr>pl_inject := ch_recv (pl_inject p),
       pl_listeners := (pl_listeners p)(InjectedEvents := Sending (listenInjectedEvents now reg e))\<rparr>"
  have "pipeline_step p ?q"
    using listener_step.accept_injected [OF Cons.prems(3,4)] by (simp add: pipeline_step_def)
  then have pq: "pipeline_step\<^sup>*\<^sup>* p ?q" by simp
  obtain q' where q': "pipeline_step\<^sup>*\<^sup>* ?q q'" "pl_listeners q' InjectedEvents = Selecting"
    "pl_sent q' = pl_sent p @ listenInjectedEvents now reg e" "\<not> pl_done q'" "pl_inject q' = ch_recv (pl_inject p)"
    using listener_finishes [OF reaches_on [OF Cons.prems(1) pq], of InjectedEvents "listenInjectedEvents now reg e"] Cons.prems(2)
    by auto
  have "pipeline_reaches q'" using reaches_on [OF reaches_on [OF Cons.prems(1) pq] q'(1)] .
  from Cons.IH [OF this q'(4,2)] obtain p' where "pipeline_step\<^sup>*\<^sup>* q' p'" "gc_buf (pl_inject p') = []" "\<not> pl_done p'"
    "pl_sent p' = pl_sent q' @ concat (map (listenInjectedEvents now reg) es)"
    using q'(5) Cons.prems(4) by (auto simp: ch_recv_def)
  then show ?case using q'(3) rtranclp_trans [OF rtranclp_trans [OF pq q'(1)]] by (intro exI [of _ p']) simp
qed auto

text \<open>The goroutine that takes injected events lives as long as the context does.\<close>

interpretation inject: step_system "\<lambda>p. p = new_pipeline" pipeline_step
  "\<lambda>p. pl_done p \<or> pl_listeners p InjectedEvents \<noteq> Returned"
proof (unfold_locales, goal_cases)
  case (2 p p')
  then show ?case unfolding pipeline_step_def
    by (auto simp: stage_step_frame elim!: listener_step.cases split: if_splits)
qed (simp add: new_pipeline_def)

text \<open>What a debouncer that holds nothing has emitted.\<close>

lemma emitted_all:
  assumes "deb_inv arrived d" and "db_merged d = []" and "db_nonMergeable d = []"
  shows "filter (\<lambda>e. ev_Kind e = EventClusterEvent) (concat (db_out d)) = filter (\<lambda>e. ev_Kind e = EventClusterEvent) arrived"
    and "k \<noteq> EventClusterEvent \<Longrightarrow> latest (about k a) (concat (db_out d)) = latest (about k a) arrived"
    and "set (concat (db_out d)) \<subseteq> set arrived"
proof -
  show "filter (\<lambda>e. ev_Kind e = EventClusterEvent) (concat (db_out d)) = filter (\<lambda>e. ev_Kind e = EventClusterEvent) arrived"
    using assms by (simp add: deb_inv_def cluster_events_def isMergeable_def)
  have "latest (keyed_as x) (concat (db_out d)) = latest (keyed_as x) arrived" for x
    using assms by (simp add: deb_inv_def)
  moreover have "about k a = keyed_as (kind_string k @ '':'' @ a)" if "k \<noteq> EventClusterEvent"
    using keyed_as_about [OF that] by blast
  ultimately show "k \<noteq> EventClusterEvent \<Longrightarrow> latest (about k a) (concat (db_out d)) = latest (about k a) arrived" by simp
  show "set (concat (db_out d)) \<subseteq> set arrived" using assms by (simp add: deb_inv_def)
qed

lemma drained_delivered:
  assumes "pipeline_ok p" and "\<not> pl_done p" and "drained p"
  shows "deb_inv (pl_sent p) (pl_debouncer p)" and "db_out (pl_debouncer p) = pl_received p"
  using assms by (auto simp: pipeline_ok_def running_ok_def drained_def flow_ok_def)

section \<open>Properties\<close>

text \<open>C31: No goroutine of the ingester ever sends on a closed channel or closes one twice, whenever the
  context ends and however the goroutines interleave: the channels are closed by who sends on them,
  and \<open>rawCh\<close> only after all listeners have returned. No channel exceeds its capacity, and the
  control loop is given no event that no listener sent.\<close>

theorem goroutines_never_panic:
  assumes "pipeline_reaches p"
  shows "\<not> panics p \<and> length (gc_buf (pl_raw p)) \<le> 64 \<and> length (gc_buf (pl_batches p)) \<le> 1 \<and> length (gc_buf (pl_out p)) \<le> 1
    \<and> set (concat (pl_received p)) \<subseteq> set (pl_sent p)"
proof -
  have ok: "pipeline_ok p" by (rule reaches_ok [OF assms])
  then have ch: "channels_ok (pl_listeners p) (pl_inject p) (pl_raw p) (pl_debPC p) (pl_batches p) (pl_relay p) (pl_out p)"
    by (simp add: pipeline_ok_def)
  then have "\<not> panics p" by (auto simp: panics_def channels_ok_def)
  moreover have "set (concat (pl_received p)) \<subseteq> set (concat (db_out (pl_debouncer p)))"
    using ok by (auto simp: pipeline_ok_def flow_ok_def)
  moreover have "set (concat (db_out (pl_debouncer p))) \<subseteq> set (pl_sent p)"
    using ok by (simp add: pipeline_ok_def honest_def)
  ultimately show ?thesis using ch by (auto simp: channels_ok_def rawChSize_def)
qed

text \<open>
  The order of a batch loses nothing only where every event carries what its kind says. The listeners make
  no other events (\<open>listeners_tagged\<close>), but \<open>/inject/event\<close> takes any: one of kind \<open>MetricsUpdate\<close> without
  metrics replaces the real update for the application that waits in the debouncer.
\<close>

lemma untagged_event_hides_metrics:
  assumes "full = (event EventMetricsUpdate t)\<lparr>ev_AppID := vm_AppID m, ev_VLLMMetrics := Some m\<rparr>"
    and "blank = (event EventMetricsUpdate t')\<lparr>ev_AppID := vm_AppID m\<rparr>"
  shows "\<not> well_tagged blank"
    and "gget (ws_vllmMetrics (applyEvents [full, blank] New)) (vm_AppID m) = Some m"
    and "gget (ws_vllmMetrics (applyEvents (sent_events od [InEvent full, InEvent blank] (InTimer True)) New)) (vm_AppID m) = None"
proof -
  show "\<not> well_tagged blank" using assms(2) by (simp add: well_tagged_def event_def)
  show "gget (ws_vllmMetrics (applyEvents [full, blank] New)) (vm_AppID m) = Some m"
    using assms by (simp add: applyEvents_def applyEvent_def event_def UpdateVLLMMetrics_def)
  have "mergeKey full = mergeKey blank" "isMergeable full" "isMergeable blank"
    using assms by (simp_all add: mergeKey_def isMergeable_def event_def)
  then have "sent_events od [InEvent full, InEvent blank] (InTimer True) = map snd (range_order (sub od 2) [(mergeKey blank, blank)])"
    by (simp add: sent_events_def deb_step_def new_debouncer_def flush_def buildBatch_def numeral_2_eq_2 Let_def)
  moreover have "set (range_order (sub od 2) [(mergeKey blank, blank)]) = {(mergeKey blank, blank)}" by simp
  ultimately have blank: "set (sent_events od [InEvent full, InEvent blank] (InTimer True)) \<subseteq> {blank}" by auto
  have "gget (ws_vllmMetrics (applyEvents evs New)) a = None" if "set evs \<subseteq> {blank}" for evs a
    using that by (induction evs rule: rev_induct)
      (use assms(2) in \<open>simp_all add: applyEvents_def applyEvent_def event_def New_def\<close>)
  then show "gget (ws_vllmMetrics (applyEvents (sent_events od [InEvent full, InEvent blank] (InTimer True)) New)) (vm_AppID m) = None"
    using blank by blast
qed

text \<open>C30: Ingestion delivers what it is given. In whatever state its goroutines are while the context
  lasts, they can go on by themselves, without further input and without a deadlock, until nothing
  is left in any channel or in the debouncer. And then, if every event sent carries the payload of its
  kind under the application it is about, the batches the control loop has received
  leave the world state as applying every event one by one, in the order in which the listeners
  sent them, does (up to the order of entries in two tables). The listeners' own events are such
  events, those of a poll because the cluster client answers for the application it is asked about;
  the condition is on what is injected (\<open>untagged_event_hides_metrics\<close>).\<close>

theorem ingestion_delivers_everything:
  assumes "pipeline_reaches p" and "\<not> pl_done p"
  shows "\<exists>p'. stage_step\<^sup>*\<^sup>* p p' \<and> pl_sent p' = pl_sent p \<and> drained p'
    \<and> ((\<forall>e \<in> set (pl_sent p). well_tagged e) \<longrightarrow>
        same_world (fold applyEvents (pl_received p') ws) (applyEvents (pl_sent p) ws))"
proof -
  obtain p' where p': "stage_step\<^sup>*\<^sup>* p p'" "pipeline_ok p'" "drained p'" "pl_sent p' = pl_sent p" "\<not> pl_done p'"
    using can_drain [OF reaches_ok [OF assms(1)] assms(2)] by blast
  note d = drained_delivered [OF p'(2,5,3)]
  have "db_merged (pl_debouncer p') = []" "db_nonMergeable (pl_debouncer p') = []" using p'(3) by (simp_all add: drained_def)
  note e = emitted_all [OF d(1) this, unfolded d(2) p'(4)]
  have "same_world (applyEvents (concat (pl_received p')) ws) (applyEvents (pl_sent p) ws)"
    if "\<forall>e \<in> set (pl_sent p). well_tagged e"
    by (rule applyEvents_determined) (use e that in auto)
  then show ?thesis using p' unfolding applyEvents_concat by blast
qed

section \<open>Examples, and what a shutdown leaves behind\<close>

definition tick :: Event where
  "tick = event EventPeriodicEval 1"

text \<open>Some ticks in \<open>rawCh\<close> that the debouncer has not received yet.\<close>

definition filled :: "nat \<Rightarrow> pipeline" where
  "filled n = new_pipeline\<lparr>pl_raw := \<lparr>gc_buf = replicate n tick, gc_closed = False\<rparr>, pl_sent := replicate n tick\<rparr>"

lemma filled_accepts:
  "pipeline_step (filled n) ((filled n)\<lparr>pl_listeners := (\<lambda>_. Selecting)(PeriodicEval := Sending [tick])\<rparr>)"
proof -
  have "handles PeriodicEval [tick]" by (auto simp: handles_def periodicEvalTimer_def tick_def)
  then have "listener_step (filled n) ((filled n)\<lparr>pl_listeners := (pl_listeners (filled n))(PeriodicEval := Sending [tick])\<rparr>)"
    by (intro listener_step.accept) (simp_all add: filled_def new_pipeline_def)
  then show ?thesis by (simp add: pipeline_step_def filled_def new_pipeline_def)
qed

lemma filled_reaches: "n \<le> 64 \<Longrightarrow> pipeline_reaches (filled n)"
proof (induction n)
  case 0
  then show ?case by (simp add: filled_def new_pipeline_def make_chan_def)
next
  case (Suc n)
  let ?a = "(filled n)\<lparr>pl_listeners := (\<lambda>_. Selecting)(PeriodicEval := Sending [tick])\<rparr>"
  let ?b = "(filled (Suc n))\<lparr>pl_listeners := (\<lambda>_. Selecting)(PeriodicEval := Sending [])\<rparr>"
  have "listener_step ?a (?a\<lparr>pl_listeners := (pl_listeners ?a)(PeriodicEval := Sending []), pl_raw := ch_send tick (pl_raw ?a),
      pl_sent := pl_sent ?a @ [tick]\<rparr>)"
    using Suc.prems by (intro listener_step.send) (simp_all add: filled_def rawChSize_def)
  then have ab: "pipeline_step ?a ?b"
    by (simp add: pipeline_step_def filled_def new_pipeline_def ch_send_def replicate_append_same)
  have "listener_step ?b (?b\<lparr>pl_listeners := (pl_listeners ?b)(PeriodicEval := Selecting)\<rparr>)"
    by (rule listener_step.handled) simp
  moreover have "(\<lambda>_. Selecting)(PeriodicEval := Selecting) = (\<lambda>_. Selecting)" by (simp add: fun_eq_iff)
  ultimately have "pipeline_step ?b (filled (Suc n))"
    by (simp add: pipeline_step_def filled_def new_pipeline_def)
  then show ?case
    using Suc filled_accepts [of n] ab by (meson Suc_leD rtranclp.rtrancl_into_rtrancl)
qed

lemma goroutines_never_panic_witness: "\<not> panics (filled 64) \<and> length (gc_buf (pl_raw (filled 64))) \<le> 64"
  using goroutines_never_panic [OF filled_reaches [of 64]] by simp

lemma ingestion_delivers_everything_witness:
  "\<exists>p'. stage_step\<^sup>*\<^sup>* (filled 3) p' \<and> drained p'
     \<and> same_world (fold applyEvents (pl_received p') New) (applyEvents (replicate 3 tick) New)"
proof -
  have "\<forall>e \<in> set (pl_sent (filled 3)). well_tagged e" by (simp add: filled_def tick_def well_tagged_def event_def)
  moreover have "\<not> pl_done (filled 3)" by (simp add: filled_def new_pipeline_def)
  ultimately show ?thesis
    using ingestion_delivers_everything [OF filled_reaches [of 3], of New] by (auto simp: filled_def)
qed

text \<open>
  The listeners send without looking at the context. When it ends while \<open>rawCh\<close> is full, the debouncer
  returns first, and a listener with an event in its hands is stuck: it never returns, and \<open>rawCh\<close> is
  never closed.
\<close>

definition stranded :: "listener \<Rightarrow> pipeline \<Rightarrow> bool" where
  "stranded l p \<longleftrightarrow> pl_debPC p = DebReturned \<and> length (gc_buf (pl_raw p)) = rawChSize
     \<and> (\<exists>e es. pl_listeners p l = Sending (e # es))"

lemma stranded_step:
  assumes "stranded l p" and "pipeline_step p p'"
  shows "stranded l p'"
proof -
  have "stranded l p'" if "listener_step p p'"
    using that assms(1) by (cases rule: listener_step.cases) (auto simp: stranded_def)
  moreover have "stranded l p'" if "stage_step p p'"
    using that assms(1) by (cases rule: stage_step.cases) (auto simp: stranded_def ch_close_def)
  ultimately show ?thesis using assms(2) unfolding pipeline_step_def by blast
qed

lemma shutdown_can_strand_a_listener:
  "\<exists>p. pipeline_reaches p \<and> pl_done p \<and> (\<forall>p'. pipeline_step\<^sup>*\<^sup>* p p' \<longrightarrow> pl_listeners p' PeriodicEval \<noteq> Returned)"
proof -
  let ?a = "(filled 64)\<lparr>pl_listeners := (\<lambda>_. Selecting)(PeriodicEval := Sending [tick])\<rparr>"
  let ?b = "?a\<lparr>pl_done := True\<rparr>"
  let ?c = "?b\<lparr>pl_debPC := DebReturned, pl_batches := ch_close (pl_batches ?b),
      pl_debouncer := deb_step (\<lambda>_. []) InDone (pl_debouncer ?b)\<rparr>"
  have ab: "pipeline_step ?a ?b" unfolding pipeline_step_def using listener_step.cancel [of ?a] by blast
  have "stage_step ?b ?c"
    by (rule stage_step.no_last_batch) (simp_all add: filled_def new_pipeline_def pending_empty new_debouncer_def)
  then have "pipeline_step ?b ?c" by (simp add: pipeline_step_def)
  then have c: "pipeline_reaches ?c"
    using filled_reaches [of 64] filled_accepts [of 64] ab by (meson le_refl rtranclp.rtrancl_into_rtrancl)
  have "stranded PeriodicEval ?c" by (simp add: stranded_def filled_def rawChSize_def)
  then have "stranded PeriodicEval p'" if "pipeline_step\<^sup>*\<^sup>* ?c p'" for p'
    using stuck_forever [OF that, where P = "stranded PeriodicEval"] stranded_step by blast
  then have "\<forall>p'. pipeline_step\<^sup>*\<^sup>* ?c p' \<longrightarrow> pl_listeners p' PeriodicEval \<noteq> Returned"
    by (fastforce simp: stranded_def)
  then show ?thesis using c by (intro exI [of _ ?c]) simp
qed

end
