(* ===== verification/Routes.thy ===== *)
theory Routes
  imports Program Pipeline
begin

text \<open>
  The routes of the HTTP server (\<open>Server.Handler\<close> in \<open>internal/apiserver/server.go\<close> and the mux of \<open>run\<close>
  in \<open>cmd/schedulator/main.go\<close>), and the way of posted metrics from a request to the world state.
  \<open>net/http\<close> matches a pattern with \<open>GET\<close> against \<open>HEAD\<close> too, takes the pattern \<open>/\<close> for whatever no other
  one matches, and answers a known path with a wrong method by 405 where there is no such pattern.
\<close>

section \<open>Requests and routes\<close>

record 'b request =
  rq_Method :: string
  rq_Path :: string
  rq_Query :: "string \<Rightarrow> string"
  rq_RequestBody :: 'b

datatype endpoint =
  StateRoute | ClustersRoute | ApplicationsRoute | EventStreamRoute | EventHistoryRoute | SnapshotsRoute
| ScalingConfigRoute | CycleHistoryRoute | InjectEventRoute | InjectMetricsRoute

definition api_routes :: "(string \<times> string \<times> endpoint) list" where
  "api_routes =
     [(''GET'', ''/api/v1/state'', StateRoute), (''GET'', ''/api/v1/clusters'', ClustersRoute),
      (''GET'', ''/api/v1/applications'', ApplicationsRoute), (''GET'', ''/api/v1/events/stream'', EventStreamRoute),
      (''GET'', ''/api/v1/events/history'', EventHistoryRoute), (''GET'', ''/api/v1/snapshots'', SnapshotsRoute),
      (''GET'', ''/api/v1/scaling-config'', ScalingConfigRoute),
      (''GET'', ''/api/v1/control-loop/history'', CycleHistoryRoute),
      (''POST'', ''/api/v1/inject/event'', InjectEventRoute), (''POST'', ''/api/v1/inject/metrics'', InjectMetricsRoute)]"

definition method_matches :: "string \<Rightarrow> string \<Rightarrow> bool" where
  "method_matches pattern m \<longleftrightarrow> m = pattern \<or> pattern = ''GET'' \<and> m = ''HEAD''"

definition find_route :: "string \<Rightarrow> string \<Rightarrow> endpoint option" where
  "find_route m path =
     map_option (\<lambda>(_, _, e). e) (find (\<lambda>(pattern, p, _). p = path \<and> method_matches pattern m) api_routes)"

section \<open>Serving\<close>

text \<open>What a handler reads besides the request, the decoders of JSON bodies, and what is answered.\<close>

record 'b Serving =
  se_world :: WorldState
  se_store :: Store
  se_scaling :: "scalingConfigResponse option"
  se_staticDir :: string
  se_now :: time
  se_od :: orders
  se_choices :: "nat list"
  se_dbErr :: "string option"
  se_zone :: int
  se_decodeEvent :: "'b \<Rightarrow> string + Event"
  se_decodeMetrics :: "'b \<Rightarrow> string + VLLMMetrics"

datatype answer = Answered response "Event option" | Streamed | FileServed | HealthOk | MetricsPage

fun handle :: "'b Serving \<Rightarrow> 'b request \<Rightarrow> endpoint \<Rightarrow> answer" where
  "handle se rq StateRoute = Answered (handleState (se_od se) (se_now se) (se_world se)) None"
| "handle se rq ClustersRoute = Answered (handleClusters (se_od se) (se_now se) (se_world se)) None"
| "handle se rq ApplicationsRoute = Answered (handleApplications (se_od se) (se_now se) (se_world se)) None"
| "handle se rq EventStreamRoute = Streamed"
| "handle se rq EventHistoryRoute = Answered (handleEventHistory (se_dbErr se) (se_choices se) (se_zone se) (se_now se)
     (rq_Query rq ''since'') (rq_Query rq ''limit'') (se_store se)) None"
| "handle se rq SnapshotsRoute = Answered (handleSnapshots (se_dbErr se) (se_choices se) (se_zone se) (se_now se)
     (rq_Query rq ''cluster_id'') (rq_Query rq ''since'') (se_store se)) None"
| "handle se rq ScalingConfigRoute = Answered (handleScalingConfig (se_scaling se)) None"
| "handle se rq CycleHistoryRoute = Answered (handleCycleHistory (se_dbErr se) (se_choices se) (rq_Query rq ''limit'') (se_store se)) None"
| "handle se rq InjectEventRoute = (let (r, e) = handleInjectEvent (se_now se) (se_decodeEvent se (rq_RequestBody rq)) in Answered r e)"
| "handle se rq InjectMetricsRoute = (let (r, e) = handleInjectMetrics (se_now se) (se_decodeMetrics se (rq_RequestBody rq)) in Answered r e)"

definition Handler :: "'b Serving \<Rightarrow> 'b request \<Rightarrow> answer" where
  "Handler se rq =
     (if rq_Method rq = ''OPTIONS'' then Answered \<lparr>hr_Status = 204, hr_Body = NoBody\<rparr> None
      else case find_route (rq_Method rq) (rq_Path rq) of
        Some e \<Rightarrow> handle se rq e
      | None \<Rightarrow>
          if se_staticDir se \<noteq> '''' then FileServed
          else if rq_Path rq \<in> (\<lambda>(_, p, _). p) ` set api_routes then Answered (http_error ''Method Not Allowed'' 405) None
          else Answered (http_error ''404 page not found'' 404) None)"

text \<open>The mux \<open>run\<close> starts with answers the health check, by the status \<open>ok\<close>, and the metrics of the registry.\<close>

definition newMux :: "'b request \<Rightarrow> answer option" where
  "newMux rq =
     (if rq_Path rq = ''/healthz'' then Some HealthOk
      else if rq_Path rq = ''/metrics'' then Some MetricsPage
      else None)"

definition main_mux :: "'b Serving \<Rightarrow> 'b request \<Rightarrow> answer" where
  "main_mux se rq = (case newMux rq of Some a \<Rightarrow> a | None \<Rightarrow> Handler se rq)"

text \<open>The dashboard is served from the directory of the environment, where it is one.\<close>

definition static_dir :: "(string \<Rightarrow> bool) \<Rightarrow> string list \<Rightarrow> string" where
  "static_dir IsDir environ =
     (let dir = env_or environ ''STATIC_DIR'' ''web/dist'' in if IsDir dir then dir else '''')"

lemma served_files:
  assumes "se_staticDir se = static_dir IsDir environ" and "main_mux se rq = FileServed"
  shows "IsDir (se_staticDir se) \<and> find_route (rq_Method rq) (rq_Path rq) = None \<and> rq_Method rq \<noteq> ''OPTIONS''"
proof -
  have h: "Handler se rq = FileServed" using assms(2) by (auto simp: main_mux_def newMux_def split: if_splits)
  have "handle se rq e \<noteq> FileServed" for e by (cases e) (simp_all split: prod.split)
  then have "se_staticDir se \<noteq> ''''" "find_route (rq_Method rq) (rq_Path rq) = None" "rq_Method rq \<noteq> ''OPTIONS''"
    using h by (auto simp: Handler_def split: if_splits option.splits)
  then show ?thesis using assms(1) unfolding static_dir_def Let_def by (auto split: if_splits)
qed

text \<open>No two routes take the same request, so the order in which they are registered does not matter.\<close>

lemma routes_apart:
  "(pat, path, e) \<in> set api_routes \<Longrightarrow> method_matches pat m \<Longrightarrow> find_route m path = Some e"
proof -
  have "list_all (\<lambda>(pat, path, e). find_route pat path = Some e \<and> (pat = ''GET'' \<longrightarrow> find_route ''HEAD'' path = Some e)) api_routes"
    by code_simp
  then show "(pat, path, e) \<in> set api_routes \<Longrightarrow> method_matches pat m \<Longrightarrow> find_route m path = Some e"
    by (fastforce simp: list_all_iff method_matches_def)
qed

lemma find_route_listed:
  assumes "find_route m path = Some e"
  shows "\<exists>pat. (pat, path, e) \<in> set api_routes \<and> method_matches pat m"
  using assms unfolding find_route_def by (auto simp: find_Some_iff) (metis nth_mem)

text \<open>The API writes nothing but what is posted to its two routes of injection.\<close>

lemma only_posts_inject:
  assumes "main_mux se rq = Answered r (Some e)"
  shows "rq_Method rq = ''POST'' \<and> rq_Path rq \<in> {''/api/v1/inject/event'', ''/api/v1/inject/metrics''} \<and> hr_Status r = 202"
proof -
  obtain route where route: "find_route (rq_Method rq) (rq_Path rq) = Some route" "handle se rq route = Answered r (Some e)"
    using assms by (auto simp: main_mux_def newMux_def Handler_def split: if_splits option.splits)
  from route(2) have inject: "route = InjectEventRoute \<or> route = InjectMetricsRoute" by (cases route) auto
  obtain pat where pat: "(pat, rq_Path rq, route) \<in> set api_routes" "method_matches pat (rq_Method rq)"
    using find_route_listed [OF route(1)] by blast
  have "pat = ''POST'' \<and> rq_Path rq \<in> {''/api/v1/inject/event'', ''/api/v1/inject/metrics''}"
    using pat(1) inject by (auto simp: api_routes_def)
  moreover have "hr_Status r = 202"
    using route(2) inject by (auto simp: handleInjectEvent_def handleInjectMetrics_def Let_def split: sum.splits)
  ultimately show ?thesis using pat(2) by (simp add: method_matches_def)
qed

section \<open>From a request to the world state\<close>

lemma injected_sends:
  "\<exists>breaches. listenInjectedEvents now reg e = e # breaches \<and> (\<forall>b \<in> set breaches. well_tagged b \<and> ev_Kind b = EventSLABreach)"
  using checkSLABreach_tagged
  by (auto simp: listenInjectedEvents_def breaches_of_def split: option.split)

lemma latest_none: "\<forall>e \<in> set es. \<not> P e \<Longrightarrow> latest P es = None"
  by (auto simp: latest_def find_None_iff)

lemma injected_latest:
  assumes "ev_Kind e = EventMetricsUpdate"
  shows "latest (about EventMetricsUpdate (ev_AppID e)) (before @ listenInjectedEvents now reg e) = Some e"
proof -
  obtain breaches where b: "listenInjectedEvents now reg e = e # breaches" "\<forall>b \<in> set breaches. ev_Kind b = EventSLABreach"
    using injected_sends by blast
  have "latest (about EventMetricsUpdate (ev_AppID e)) breaches = None" by (rule latest_none) (use b(2) in \<open>simp add: about_def\<close>)
  then show ?thesis
    using latest_append [of _ "before @ [e]" breaches] assms by (simp add: b(1) latest_snoc about_def)
qed

text \<open>
  A drained pipeline has delivered the metrics that were sent last; the world state has them.
\<close>

lemma last_metrics_delivered:
  assumes "pipeline_ok p" and "\<not> pl_done p" and "drained p" and "\<forall>e \<in> set (pl_sent p). well_tagged e"
    and "latest (about EventMetricsUpdate a) (pl_sent p) = Some e"
  shows "gget (ws_vllmMetrics (fold applyEvents (pl_received p) ws)) a = ev_VLLMMetrics e"
proof -
  note d = drained_delivered [OF assms(1-3)]
  have "db_merged (pl_debouncer p) = []" "db_nonMergeable (pl_debouncer p) = []" using assms(3) by (simp_all add: drained_def)
  note out = emitted_all [OF d(1) this, unfolded d(2)]
  have "\<forall>e \<in> set (concat (pl_received p)). well_tagged e" using out(3) assms(4) by blast
  from metrics_applyEvents [OF this, of ws a] show ?thesis
    unfolding applyEvents_concat using out(2) [of EventMetricsUpdate a] assms(5) by simp
qed

section \<open>Properties\<close>

text \<open>C32: Metrics that are posted reach the world state. Whatever the goroutines of the ingester are doing,
  as long as the context lasts and the channel of injected events has room, a POST with metrics that
  decode is accepted, and from there the goroutines can go on by themselves, whatever applications
  the ingester knows, until everything is delivered; the control loop then has the posted metrics,
  with the time of the request where they had none, as the metrics of their application.\<close>

theorem posted_metrics_reach_the_world:
  assumes "pipeline_reaches p" and "\<not> pl_done p" and "length (gc_buf (pl_inject p)) < rawChSize"
    and "rq_Method rq = ''POST''" and "rq_Path rq = ''/api/v1/inject/metrics''" and "se_decodeMetrics se (rq_RequestBody rq) = Inr m"
    and "\<forall>e \<in> set (pl_sent p) \<union> set (gc_buf (pl_inject p)). well_tagged e"
    and "\<forall>es. pl_listeners p InjectedEvents = Sending es \<longrightarrow> (\<forall>e \<in> set es. well_tagged e)"
  shows "\<exists>r e p'. main_mux se rq = Answered r (Some e) \<and> hr_Status r = 202
    \<and> pipeline_step\<^sup>*\<^sup>* (p\<lparr>pl_inject := ch_send e (pl_inject p)\<rparr>) p' \<and> drained p'
    \<and> (\<exists>before. pl_sent p' = before @ concat (map (listenInjectedEvents later reg) (gc_buf (pl_inject p) @ [e])))
    \<and> gget (ws_vllmMetrics (fold applyEvents (pl_received p') ws)) (vm_AppID m)
        = Some (if is_zero_time (vm_MeasuredAt m) then m\<lparr>vm_MeasuredAt := se_now se\<rparr> else m)"
proof -
  let ?m = "if is_zero_time (vm_MeasuredAt m) then m\<lparr>vm_MeasuredAt := se_now se\<rparr> else m"
  let ?e = "(event EventMetricsUpdate (vm_MeasuredAt ?m))\<lparr>ev_AppID := vm_AppID ?m, ev_VLLMMetrics := Some ?m\<rparr>"
  have "find_route ''POST'' ''/api/v1/inject/metrics'' = Some InjectMetricsRoute" by code_simp
  then have served: "main_mux se rq = Answered \<lparr>hr_Status = 202, hr_Body = NoBody\<rparr> (Some ?e)"
    using assms(4-6) by (simp add: main_mux_def newMux_def Handler_def handleInjectMetrics_def Let_def)
  have e: "ev_Kind ?e = EventMetricsUpdate" "ev_AppID ?e = vm_AppID m" "ev_VLLMMetrics ?e = Some ?m" "well_tagged ?e"
    by (simp_all add: event_def well_tagged_def)
  let ?p = "p\<lparr>pl_inject := ch_send ?e (pl_inject p)\<rparr>"
  have "pipeline_step p ?p" using listener_step.inject [OF assms(3)] by (simp add: pipeline_step_def)
  then have p: "pipeline_reaches ?p" using assms(1) by simp
  have alive: "pl_listeners ?p InjectedEvents \<noteq> Returned"
    using inject.reachable_inv [OF refl p] assms(2) by simp
  obtain q es where q: "pipeline_step\<^sup>*\<^sup>* ?p q" "pl_listeners q InjectedEvents = Selecting" "pl_sent q = pl_sent p @ es"
    "\<not> pl_done q" "pl_inject q = pl_inject ?p" "\<forall>e \<in> set es. well_tagged e"
  proof (cases "pl_listeners ?p InjectedEvents")
    case Selecting
    then show ?thesis using that [of ?p "[]"] assms(2) by simp
  next
    case (Sending es)
    then show ?thesis using that listener_finishes [OF p _ Sending] assms(2,8) by auto
  qed (use alive in simp)
  have rq: "pipeline_reaches q" by (rule reaches_on [OF p q(1)])
  let ?old = "gc_buf (pl_inject p)" and ?listen = "listenInjectedEvents later reg"
  obtain q2 where q2: "pipeline_step\<^sup>*\<^sup>* q q2" "\<not> pl_done q2" "pl_sent q2 = pl_sent q @ concat (map ?listen (?old @ [?e]))"
    using injected_are_sent [OF rq q(4,2), of "?old @ [?e]" later reg] q(5) by (auto simp: ch_send_def)
  obtain p' where p': "stage_step\<^sup>*\<^sup>* q2 p'" "pipeline_ok p'" "drained p'" "pl_sent p' = pl_sent q2" "\<not> pl_done p'"
    using can_drain [OF reaches_ok [OF reaches_on [OF rq q2(1)]] q2(2)] by blast
  have sent: "pl_sent p' = (pl_sent p @ es) @ concat (map ?listen (?old @ [?e]))" by (simp add: p'(4) q2(3) q(3))
  have "gget (ws_vllmMetrics (fold applyEvents (pl_received p') ws)) (vm_AppID m) = ev_VLLMMetrics ?e"
  proof (rule last_metrics_delivered [OF p'(2,5,3)])
    have "well_tagged y" if "y \<in> set (?listen x)" "well_tagged x" for x y
      using injected_sends [of later reg x] that by auto
    then show "\<forall>e \<in> set (pl_sent p'). well_tagged e" using assms(7) q(6) e(4) unfolding sent by fastforce
    show "latest (about EventMetricsUpdate (vm_AppID m)) (pl_sent p') = Some ?e"
      using injected_latest [OF e(1), of "(pl_sent p @ es) @ concat (map ?listen ?old)" later reg] e(2) unfolding sent by simp
  qed
  moreover have "pipeline_step\<^sup>*\<^sup>* ?p p'"
    using rtranclp_trans [OF rtranclp_trans [OF q(1) q2(1)] stage_steps_steps [OF p'(1)]] .
  ultimately show ?thesis using served p'(3) sent e(3) by (intro exI [of _ p'] exI conjI) (assumption | simp)+
qed


definition sample_serving :: "unit Serving" where
  "sample_serving = \<lparr>se_world = New, se_store = empty_store, se_scaling = None, se_staticDir = '''', se_now = 7, se_od = (\<lambda>_. []),
     se_choices = [], se_dbErr = None, se_zone = 0, se_decodeEvent = (\<lambda>_. Inl ''EOF''), se_decodeMetrics = (\<lambda>_. Inr sample_metrics)\<rparr>"

definition sample_post :: "unit request" where
  "sample_post = \<lparr>rq_Method = ''POST'', rq_Path = ''/api/v1/inject/metrics'', rq_Query = (\<lambda>_. ''''), rq_RequestBody = ()\<rparr>"

lemma posted_metrics_reach_the_world_witness:
  "\<exists>r e p'. main_mux sample_serving sample_post = Answered r (Some e)
     \<and> pipeline_step\<^sup>*\<^sup>* (new_pipeline\<lparr>pl_inject := ch_send e (pl_inject new_pipeline)\<rparr>) p'
     \<and> gget (ws_vllmMetrics (fold applyEvents (pl_received p') New)) ''a''
        = Some (sample_metrics\<lparr>vm_MeasuredAt := 7\<rparr>)"
proof -
  have n: "pipeline_reaches new_pipeline" "\<not> pl_done new_pipeline" "length (gc_buf (pl_inject new_pipeline)) < rawChSize"
    "\<forall>e \<in> set (pl_sent new_pipeline) \<union> set (gc_buf (pl_inject new_pipeline)). well_tagged e"
    "\<forall>es. pl_listeners new_pipeline InjectedEvents = Sending es \<longrightarrow> (\<forall>e \<in> set es. well_tagged e)"
    by (simp_all add: new_pipeline_def make_chan_def rawChSize_def)
  have q: "rq_Method sample_post = ''POST''" "rq_Path sample_post = ''/api/v1/inject/metrics''"
    "se_decodeMetrics sample_serving (rq_RequestBody sample_post) = Inr sample_metrics"
    by (simp_all add: sample_post_def sample_serving_def)
  have "vm_AppID sample_metrics = ''a''" by (simp add: sample_metrics_def)
  moreover have "is_zero_time (vm_MeasuredAt sample_metrics)" by code_simp
  moreover have "se_now sample_serving = 7" by (simp add: sample_serving_def)
  ultimately show ?thesis
    using posted_metrics_reach_the_world [OF n(1-3) q n(4,5), of later reg New for later reg] by fastforce
qed

end
