(* ===== verification/Interleaving.thy ===== *)
theory Interleaving
  imports CycleExamples Steps
begin

text \<open>
  A cycle (\<open>runCycle\<close> in \<open>internal/controlloop/loop.go\<close>) while the goroutine
  \<open>runReservationExpiry\<close> runs. Each call of the world state holds its lock, so the accesses of
  both are atomic and take turns: the steps of the cycle are its single calls, in its order up to
  the execution, where the operations' goroutines come in any order; between two of them any number
  of sweeps. Nothing else in the program writes to the world state once the loop runs.
\<close>

section \<open>The steps of a cycle\<close>

text \<open>What the cycle still has to do, and the local variables it does it with.\<close>

datatype 'e cycle_pc =
  Applying "Event list"
| Deciding WorldStateSnapshot "(AppID \<times> ScalingDecision) list"
| Reserving WorldStateSnapshot "GPUReservation list"
| Executing WorldStateSnapshot "Operation list"
| Ended WorldStateSnapshot "plan_error list + 'e op_error ExecutionResult"

type_synonym 'e cycle_state = "'e cycle_pc \<times> WorldState"

inductive own_step :: "'e ControlLoop \<Rightarrow> 'e CycleEnv \<Rightarrow> 'e cycle_state \<Rightarrow> 'e cycle_state \<Rightarrow> bool"
  for cl :: "'e ControlLoop" and env :: "'e CycleEnv" where
  apply_event: "own_step cl env (Applying (ev # evs), ws) (Applying evs, applyEvent ev ws)"
| snapshot: "snap = Snapshot (sub (en_od env) 0) (en_now env) ws \<Longrightarrow>
    own_step cl env (Applying [], ws)
      (Deciding snap (range_order (sub (en_od env) 1) (ComputeTargets (lc_scaling cl) snap)), ws)"
| record_decision: "own_step cl env (Deciding snap (d # ds), ws) (Deciding snap ds, applyScalingDecision d ws)"
| place: "own_step cl env (Deciding snap [], ws) (Reserving snap (pl_Reservations (cycle_placements cl env snap)), ws)"
| reserve: "own_step cl env (Reserving snap (r # rs), ws) (Reserving snap rs, keep_on_error ws (CreateReservation r ws))"
| refuse: "violations = validatePlan (sub (en_od env) 4) (cycle_plan cl env snap) snap \<Longrightarrow> violations \<noteq> [] \<Longrightarrow>
    own_step cl env (Reserving snap [], ws) (Ended snap (Inl violations), ws)"
| accept: "validatePlan (sub (en_od env) 4) (cycle_plan cl env snap) snap = [] \<Longrightarrow>
    own_step cl env (Reserving snap [], ws)
      (Executing snap (started_ops (cycle_plan cl env snap) (cycle_result cl env snap)), ws)"
| operation: "k < length ops \<Longrightarrow>
    own_step cl env (Executing snap ops, ws)
      (Executing snap (take k ops @ drop (Suc k) ops), op_effect cl env snap (ops ! k) ws)"
| finish: "own_step cl env (Executing snap [], ws) (Ended snap (Inr (cycle_result cl env snap)), ws)"

text \<open>With sweeps at the times that \<open>sweeps\<close> allows.\<close>

inductive cycle_step :: "'e ControlLoop \<Rightarrow> 'e CycleEnv \<Rightarrow> (time \<Rightarrow> bool) \<Rightarrow> 'e cycle_state \<Rightarrow> 'e cycle_state \<Rightarrow> bool"
  for cl :: "'e ControlLoop" and env :: "'e CycleEnv" and sweeps :: "time \<Rightarrow> bool" where
  own: "own_step cl env s s' \<Longrightarrow> cycle_step cl env sweeps s s'"
| sweep: "sweeps now \<Longrightarrow> cycle_step cl env sweeps (pc, ws) (pc, snd (ExpireStaleReservations now ws))"

inductive_cases own_stepE: "own_step cl env s s'"
inductive_cases cycle_stepE: "cycle_step cl env sweeps s s'"

inductive_simps ended_simp: "own_step cl env (Ended snap r, ws) s'"

section \<open>Without sweeps a run is the cycle\<close>

text \<open>
  What is left of the cycle from each program point on, as a function: the operations reach the
  world state in the order \<open>cs\<close> chooses.
\<close>

definition from_reserving :: "'e ControlLoop \<Rightarrow> 'e CycleEnv \<Rightarrow> nat list \<Rightarrow> WorldStateSnapshot \<Rightarrow> WorldState \<Rightarrow> 'e cycle_state" where
  "from_reserving cl env cs snap ws =
     (let plan = cycle_plan cl env snap; violations = validatePlan (sub (en_od env) 4) plan snap
      in if violations \<noteq> [] then (Ended snap (Inl violations), ws)
         else (Ended snap (Inr (cycle_result cl env snap)),
           fold (op_effect cl env snap) (shuffle cs (started_ops plan (cycle_result cl env snap))) ws))"

definition from_deciding :: "'e ControlLoop \<Rightarrow> 'e CycleEnv \<Rightarrow> nat list \<Rightarrow> WorldStateSnapshot \<Rightarrow> WorldState \<Rightarrow> 'e cycle_state" where
  "from_deciding cl env cs snap ws =
     from_reserving cl env cs snap (create_all (pl_Reservations (cycle_placements cl env snap)) ws)"

definition from_applying :: "'e ControlLoop \<Rightarrow> 'e CycleEnv \<Rightarrow> nat list \<Rightarrow> WorldState \<Rightarrow> 'e cycle_state" where
  "from_applying cl env cs ws =
     (let snap = Snapshot (sub (en_od env) 0) (en_now env) ws
      in from_deciding cl env cs snap (applyScalingDecisions (sub (en_od env) 1) (ComputeTargets (lc_scaling cl) snap) ws))"

fun rest_of :: "'e ControlLoop \<Rightarrow> 'e CycleEnv \<Rightarrow> nat list \<Rightarrow> 'e cycle_state \<Rightarrow> 'e cycle_state" where
  "rest_of cl env cs (Applying evs, ws) = from_applying cl env cs (applyEvents evs ws)"
| "rest_of cl env cs (Deciding snap ds, ws) = from_deciding cl env cs snap (fold applyScalingDecision ds ws)"
| "rest_of cl env cs (Reserving snap rs, ws) = from_reserving cl env cs snap (create_all rs ws)"
| "rest_of cl env cs (Executing snap ops, ws) =
     (Ended snap (Inr (cycle_result cl env snap)), fold (op_effect cl env snap) (shuffle cs ops) ws)"
| "rest_of cl env cs (Ended snap r, ws) = (Ended snap r, ws)"

text \<open>The order of arrival is the only thing the choice stands for.\<close>

lemma arrival_irrelevant [simp]:
  "cycle_snap (env\<lparr>en_arrival := cs\<rparr>) = cycle_snap env"
  "cycle_placements cl (env\<lparr>en_arrival := cs\<rparr>) = cycle_placements cl env"
  "cycle_plan cl (env\<lparr>en_arrival := cs\<rparr>) = cycle_plan cl env"
  "op_outcome cl (env\<lparr>en_arrival := cs\<rparr>) = op_outcome cl env"
  "op_effect cl (env\<lparr>en_arrival := cs\<rparr>) = op_effect cl env"
  "cycle_result cl (env\<lparr>en_arrival := cs\<rparr>) = cycle_result cl env"
proof -
  show o: "op_outcome cl (env\<lparr>en_arrival := cs\<rparr>) = op_outcome cl env"
    by (intro ext) (simp add: op_outcome_def)
  show s: "cycle_snap (env\<lparr>en_arrival := cs\<rparr>) = cycle_snap env" by (intro ext) (simp add: cycle_snap_def)
  show d: "cycle_placements cl (env\<lparr>en_arrival := cs\<rparr>) = cycle_placements cl env"
    by (intro ext) (simp add: cycle_placements_def)
  show p: "cycle_plan cl (env\<lparr>en_arrival := cs\<rparr>) = cycle_plan cl env" by (intro ext) (simp add: cycle_plan_def d)
  show "op_effect cl (env\<lparr>en_arrival := cs\<rparr>) = op_effect cl env" by (intro ext) (simp add: op_effect_def o)
  show "cycle_result cl (env\<lparr>en_arrival := cs\<rparr>) = cycle_result cl env" by (intro ext) (simp add: cycle_result_def o p)
qed

lemma rest_of_start:
  "rest_of cl env cs (Applying events, ws)
     = (let (r, ws') = runCycle cl (env\<lparr>en_arrival := cs\<rparr>) events ws in (Ended (cycle_snap env events ws) r, ws'))"
  by (simp add: runCycle_def cycle_snap_def [of env] from_applying_def from_deciding_def from_reserving_def Let_def)

text \<open>Every step keeps the end within reach, and the end can be reached.\<close>

lemma shuffle_pick: "k < length ops \<Longrightarrow> shuffle (k # cs) ops = ops ! k # shuffle cs (take k ops @ drop (Suc k) ops)"
  by (cases ops) simp_all

lemma own_step_rest: "own_step cl env s s' \<Longrightarrow> \<exists>cs. rest_of cl env cs s = rest_of cl env cs' s'"
proof (induction rule: own_step.induct)
  case (operation k ops snap ws)
  then show ?case by (intro exI [of _ "k # cs'"]) (simp add: shuffle_pick)
next
  case (place snap ws)
  then show ?case by (intro exI [of _ cs']) (simp add: from_deciding_def)
next
  case (snapshot snap ws)
  then show ?case by (intro exI [of _ cs']) (simp add: from_applying_def applyEvents_def applyScalingDecisions_def Let_def)
next
  case (refuse violations snap ws)
  then show ?case by (intro exI [of _ cs']) (simp add: from_reserving_def create_all_def)
next
  case (accept snap ws)
  then show ?case by (intro exI [of _ cs']) (simp add: from_reserving_def create_all_def)
qed (auto simp: applyEvents_def create_all_def intro: exI [of _ cs'])

lemma own_steps_rest: "(own_step cl env)\<^sup>*\<^sup>* s s' \<Longrightarrow> \<exists>cs. rest_of cl env cs s = rest_of cl env cs' s'"
proof (induction arbitrary: cs' rule: converse_rtranclp_induct)
  case (step s t)
  then show ?case using own_step_rest [OF step.hyps(1)] by metis
qed blast

lemma execute_all:
  "mset ys = mset ops \<Longrightarrow> (own_step cl env)\<^sup>*\<^sup>* (Executing snap ops, ws) (Executing snap [], fold (op_effect cl env snap) ys ws)"
proof (induction ys arbitrary: ops ws)
  case (Cons y ys)
  then obtain k where k: "k < length ops" "ops ! k = y"
    by (metis in_set_conv_nth list.set_intros(1) mset_eq_setD)
  then have "mset ys = mset (take k ops @ drop (Suc k) ops)"
    using Cons.prems mset_take_nth_drop [OF k(1)] by (metis add_mset_add_mset_same_iff mset.simps(2))
  from Cons.IH [OF this] show ?case
    using own_step.operation [OF k(1), of cl env snap ws] k(2) by (simp add: converse_rtranclp_into_rtranclp)
qed simp

lemma reserve_all: "(own_step cl env)\<^sup>*\<^sup>* (Reserving snap rs, ws) (Reserving snap [], create_all rs ws)"
  by (induction rs arbitrary: ws)
    (auto simp: create_all_def intro: converse_rtranclp_into_rtranclp own_step.reserve)

lemma record_all: "(own_step cl env)\<^sup>*\<^sup>* (Deciding snap ds, ws) (Deciding snap [], fold applyScalingDecision ds ws)"
  by (induction ds arbitrary: ws) (auto intro: converse_rtranclp_into_rtranclp own_step.record_decision)

lemma apply_all: "(own_step cl env)\<^sup>*\<^sup>* (Applying evs, ws) (Applying [], applyEvents evs ws)"
  by (induction evs arbitrary: ws)
    (auto simp: applyEvents_def intro: converse_rtranclp_into_rtranclp own_step.apply_event)

lemma from_reserving_reached: "(own_step cl env)\<^sup>*\<^sup>* (Reserving snap [], ws) (from_reserving cl env cs snap ws)"
proof (cases "validatePlan (sub (en_od env) 4) (cycle_plan cl env snap) snap = []")
  case True
  let ?ops = "started_ops (cycle_plan cl env snap) (cycle_result cl env snap)"
  show ?thesis
    using own_step.accept [OF True, of ws] execute_all [of "shuffle cs ?ops" ?ops cl env snap ws]
      own_step.finish [of cl env snap] True
    by (simp add: from_reserving_def) (meson converse_rtranclp_into_rtranclp rtranclp.rtrancl_into_rtrancl)
next
  case False
  then show ?thesis using own_step.refuse [OF refl False, of ws] by (simp add: from_reserving_def Let_def)
qed

lemma from_deciding_reached: "(own_step cl env)\<^sup>*\<^sup>* (Deciding snap [], ws) (from_deciding cl env cs snap ws)"
  unfolding from_deciding_def
  by (rule converse_rtranclp_into_rtranclp, rule own_step.place)
    (rule rtranclp_trans [OF reserve_all from_reserving_reached])

lemma from_applying_reached: "(own_step cl env)\<^sup>*\<^sup>* (Applying [], ws) (from_applying cl env cs ws)"
  unfolding from_applying_def Let_def applyScalingDecisions_def
  by (rule converse_rtranclp_into_rtranclp, rule own_step.snapshot [OF refl])
    (rule rtranclp_trans [OF record_all from_deciding_reached])

lemma start_reaches: "(own_step cl env)\<^sup>*\<^sup>* (Applying events, ws) (rest_of cl env cs (Applying events, ws))"
  by (simp add: rtranclp_trans [OF apply_all from_applying_reached])

section \<open>With sweeps\<close>

text \<open>Whoever takes the turn makes calls of the world state, and none registers a whole cluster.\<close>

lemma own_step_calls:
  "own_step cl env s s' \<Longrightarrow> \<exists>calls. snd s' = ws_run calls (snd s) \<and> (\<forall>c \<in> set calls. wf_call c)"
proof (induction rule: own_step.induct)
  case (apply_event ev evs ws)
  then show ?case using event_calls_wf [of _ ev] by (auto simp: applyEvent_calls)
next
  case (record_decision snap d ds ws)
  then show ?case using decision_calls_wf [of _ d] by (auto simp: applyScalingDecision_calls)
next
  case (reserve snap r rs ws)
  then show ?case by (intro exI [of _ "[CallCreateReservation r]"]) (simp add: wf_call_def)
next
  case (operation k ops snap ws)
  then show ?case using op_calls_wf [of _ cl env snap "ops ! k"] by (auto simp: op_effect_calls)
qed (auto intro: exI [of _ "[]"])

lemma cycle_step_calls:
  "cycle_step cl env sweeps s s' \<Longrightarrow> \<exists>calls. snd s' = ws_run calls (snd s) \<and> (\<forall>c \<in> set calls. wf_call c)"
proof (induction rule: cycle_step.induct)
  case (sweep now pc ws)
  then show ?case by (intro exI [of _ "[CallExpireStaleReservations now]"]) (simp add: wf_call_def)
qed (rule own_step_calls)

interpretation cycle_wf: step_system "\<lambda>s. ws_wf (snd s)" "cycle_step cl env sweeps" "\<lambda>s. ws_wf (snd s)" for cl env sweeps
  by unfold_locales (use cycle_step_calls ws_run_wf in \<open>metis+\<close>)

text \<open>
  A reservation as it was made, up to its status: the one the cycle gave it, or expired by a sweep
  that found its TTL passed.
\<close>

definition overdue :: "(time \<Rightarrow> bool) \<Rightarrow> GPUReservation \<Rightarrow> bool" where
  "overdue sweeps r \<longleftrightarrow> (\<exists>now. sweeps now \<and> seconds (rs_TTLSeconds r) \<le> time_sub now (rs_CreatedAt r))"

definition held :: "(time \<Rightarrow> bool) \<Rightarrow> GPUReservation \<Rightarrow> ReservationStatus \<Rightarrow> WorldState \<Rightarrow> bool" where
  "held sweeps r st ws \<longleftrightarrow> (\<exists>r'. gget (ws_reservations ws) (rs_ReservationID r) = Some r' \<and> same_terms r r'
     \<and> (rs_Status r' = st \<or> rs_Status r' = ReservationStatusExpired \<and> overdue sweeps r))"

lemma held_sweep:
  assumes "held sweeps r st ws" and "sweeps now"
  shows "held sweeps r st (snd (ExpireStaleReservations now ws))"
proof -
  obtain r' where r': "gget (ws_reservations ws) (rs_ReservationID r) = Some r'" "same_terms r r'"
    "rs_Status r' = st \<or> rs_Status r' = ReservationStatusExpired \<and> overdue sweeps r"
    using assms(1) unfolding held_def by blast
  have "stale now r' \<Longrightarrow> overdue sweeps r" using r'(2) assms(2) by (auto simp: stale_def overdue_def same_terms_def)
  then show ?thesis
    unfolding held_def using r' same_terms_trans [OF r'(2) same_terms_expire]
    by (auto simp: gget_expire_stale expire_def)
qed

lemma held_calls:
  assumes "held sweeps r st ws"
    and "reservation_status (ws_run calls ws) (rs_ReservationID r) = f (reservation_status ws (rs_ReservationID r))"
    and "f (Some st) = Some st'" and "f (Some ReservationStatusExpired) = Some ReservationStatusExpired"
  shows "held sweeps r st' (ws_run calls ws)"
proof -
  obtain r' where r': "gget (ws_reservations ws) (rs_ReservationID r) = Some r'" "same_terms r r'"
    "rs_Status r' = st \<or> rs_Status r' = ReservationStatusExpired \<and> overdue sweeps r"
    using assms(1) unfolding held_def by blast
  obtain r'' where r'': "gget (ws_reservations (ws_run calls ws)) (rs_ReservationID r) = Some r''" "same_terms r' r''"
    using ws_run_reservation [OF r'(1)] by blast
  have "Some (rs_Status r'') = f (Some (rs_Status r'))"
    using assms(2) r'(1) r''(1) by (simp add: reservation_status_def)
  then show ?thesis
    unfolding held_def using r'(3) r'' same_terms_trans [OF r'(2) r''(2)] assms(3,4) by auto
qed

lemma held_effect:
  assumes "held sweeps r st ws" and "settled (settles cl env snap op) (rs_ReservationID r) (Some st) = Some st'"
  shows "held sweeps r st' (op_effect cl env snap op ws)"
  unfolding op_effect_calls
  by (rule held_calls [where f = "settled (settles cl env snap op) (rs_ReservationID r)", OF assms(1) _ assms(2)])
    (simp_all add: op_effect_calls [symmetric] op_effect_status, simp add: settled_def split: option.split)


lemma held_create: "gget (ws_reservations ws) (rs_ReservationID r) = None \<Longrightarrow>
    held sweeps r (rs_Status r) (keep_on_error ws (CreateReservation r ws))"
  by (simp add: held_def CreateReservation_def keep_on_error_def same_terms_refl)

lemma create_other: "j \<noteq> rs_ReservationID r \<Longrightarrow>
    gget (ws_reservations (keep_on_error ws (CreateReservation r ws))) j = gget (ws_reservations ws) j"
  by (auto simp: CreateReservation_def keep_on_error_def split: option.split)

text \<open>
  What holds between two accesses: the identifiers still to be used are new, the reservations made
  are held, and from the execution on their statuses are what the operations so far have settled.
\<close>

definition unused :: "'e CycleEnv \<Rightarrow> WorldState \<Rightarrow> bool" where
  "unused env ws \<longleftrightarrow> (\<forall>n. gget (ws_reservations ws) (en_resID env n) = None)"

definition making :: "'e ControlLoop \<Rightarrow> 'e CycleEnv \<Rightarrow> (time \<Rightarrow> bool) \<Rightarrow> WorldStateSnapshot \<Rightarrow> GPUReservation list \<Rightarrow> WorldState \<Rightarrow> bool" where
  "making cl env sweeps snap rs ws \<longleftrightarrow> (\<exists>made. pl_Reservations (cycle_placements cl env snap) = made @ rs
     \<and> (\<forall>r \<in> set made. held sweeps r ReservationStatusActive ws)
     \<and> (\<forall>r \<in> set rs. gget (ws_reservations ws) (rs_ReservationID r) = None))"

definition settling :: "'e ControlLoop \<Rightarrow> 'e CycleEnv \<Rightarrow> (time \<Rightarrow> bool) \<Rightarrow> WorldStateSnapshot \<Rightarrow> Operation list \<Rightarrow> WorldState \<Rightarrow> bool" where
  "settling cl env sweeps snap ops ws \<longleftrightarrow> (\<exists>settled_ops.
     mset settled_ops + mset ops = mset (started_ops (cycle_plan cl env snap) (cycle_result cl env snap))
     \<and> (\<forall>r \<in> set (pl_Reservations (cycle_placements cl env snap)). \<exists>st.
          settle_all cl env snap (rs_ReservationID r) settled_ops (Some ReservationStatusActive) = Some st
          \<and> held sweeps r st ws))"

fun cycle_inv :: "'e ControlLoop \<Rightarrow> 'e CycleEnv \<Rightarrow> (time \<Rightarrow> bool) \<Rightarrow> 'e cycle_state \<Rightarrow> bool" where
  "cycle_inv cl env sweeps (Applying evs, ws) = unused env ws"
| "cycle_inv cl env sweeps (Deciding snap ds, ws) = unused env ws"
| "cycle_inv cl env sweeps (Reserving snap rs, ws) = making cl env sweeps snap rs ws"
| "cycle_inv cl env sweeps (Executing snap ops, ws) = settling cl env sweeps snap ops ws"
| "cycle_inv cl env sweeps (Ended snap (Inl violations), ws) = making cl env sweeps snap [] ws"
| "cycle_inv cl env sweeps (Ended snap (Inr result), ws) =
     (result = cycle_result cl env snap \<and> settling cl env sweeps snap [] ws)"

lemma cycle_reservations:
  assumes "inj (en_resID env)"
  shows "distinct (map rs_ReservationID (pl_Reservations (cycle_placements cl env snap)))"
    and "r \<in> set (pl_Reservations (cycle_placements cl env snap)) \<Longrightarrow>
      rs_Status r = ReservationStatusActive \<and> rs_ReservationID r \<in> range (en_resID env)"
proof -
  let ?d = "cycle_placements cl env snap"
  have "paired (lc_placement cl) (en_resID env) snap ?d" unfolding cycle_placements_def by (rule ComputePlacement_paired)
  note ids = paired_ids [OF this]
  show "distinct (map rs_ReservationID (pl_Reservations ?d))"
    unfolding ids(2) using inj_on_subset [OF assms subset_UNIV] by (simp add: distinct_map)
  show "rs_Status r = ReservationStatusActive \<and> rs_ReservationID r \<in> range (en_resID env)"
    if "r \<in> set (pl_Reservations ?d)"
  proof -
    have "rs_ReservationID r \<in> set (map rs_ReservationID (pl_Reservations ?d))" using that by simp
    then show ?thesis unfolding ids(2) using ids(3) [OF that] by auto
  qed
qed

lemma cycle_inv_sweep:
  assumes "cycle_inv cl env sweeps (pc, ws)" and "sweeps now"
  shows "cycle_inv cl env sweeps (pc, snd (ExpireStaleReservations now ws))"
proof -
  let ?ws = "snd (ExpireStaleReservations now ws)"
  have none: "gget (ws_reservations ws) i = None \<Longrightarrow> gget (ws_reservations ?ws) i = None" for i
    by (simp add: gget_expire_stale)
  have keep: "held sweeps r st ws \<Longrightarrow> held sweeps r st ?ws" for r st by (rule held_sweep) (simp_all add: assms(2))
  have "unused env ws \<Longrightarrow> unused env ?ws" using none by (simp add: unused_def)
  moreover have "making cl env sweeps snap rs ws \<Longrightarrow> making cl env sweeps snap rs ?ws" for snap rs
    unfolding making_def using none keep by meson
  moreover have "settling cl env sweeps snap ops ws \<Longrightarrow> settling cl env sweeps snap ops ?ws" for snap ops
    unfolding settling_def using keep by meson
  ultimately show ?thesis using assms(1)
    by (cases "(cl, env, sweeps, pc, ws)" rule: cycle_inv.cases) auto
qed

lemma making_step:
  assumes "making cl env sweeps snap (r # rs) ws" and "inj (en_resID env)"
  shows "making cl env sweeps snap rs (keep_on_error ws (CreateReservation r ws))"
proof -
  let ?all = "pl_Reservations (cycle_placements cl env snap)"
  obtain made where made: "?all = made @ r # rs" "\<forall>x \<in> set made. held sweeps x ReservationStatusActive ws"
    "\<forall>x \<in> set (r # rs). gget (ws_reservations ws) (rs_ReservationID x) = None"
    using assms(1) unfolding making_def by blast
  have others: "rs_ReservationID x \<noteq> rs_ReservationID r" if "x \<in> set made \<union> set rs" for x
    using cycle_reservations(1) [OF assms(2), of cl snap] that unfolding made(1) by auto (metis imageI)+
  have "rs_Status r = ReservationStatusActive" using cycle_reservations(2) [OF assms(2), of r cl snap] made(1) by simp
  then have "held sweeps r ReservationStatusActive (keep_on_error ws (CreateReservation r ws))"
    using held_create [of ws r sweeps] made(3) by simp
  then show ?thesis
    unfolding making_def using made others
    by (intro exI [of _ "made @ [r]"]) (auto simp: held_def create_other)
qed

lemma settling_start:
  assumes "making cl env sweeps snap [] ws"
  shows "settling cl env sweeps snap (started_ops (cycle_plan cl env snap) (cycle_result cl env snap)) ws"
  unfolding settling_def using assms by (intro exI [of _ "[]"]) (auto simp: making_def)

lemma settled_some: "settled x j (Some st) \<noteq> None"
  by (auto simp: settled_def split: option.split)

lemma settling_step:
  assumes "settling cl env sweeps snap ops ws" and "k < length ops"
  shows "settling cl env sweeps snap (take k ops @ drop (Suc k) ops) (op_effect cl env snap (ops ! k) ws)"
proof -
  obtain sofar where sofar:
    "mset sofar + mset ops = mset (started_ops (cycle_plan cl env snap) (cycle_result cl env snap))"
    "\<forall>r \<in> set (pl_Reservations (cycle_placements cl env snap)). \<exists>st.
       settle_all cl env snap (rs_ReservationID r) sofar (Some ReservationStatusActive) = Some st \<and> held sweeps r st ws"
    using assms(1) unfolding settling_def by blast
  have "mset (sofar @ [ops ! k]) + mset (take k ops @ drop (Suc k) ops)
      = mset (started_ops (cycle_plan cl env snap) (cycle_result cl env snap))"
    using sofar(1) mset_take_nth_drop [OF assms(2)] by simp (metis union_mset_add_mset_right mset_append)
  moreover have "\<exists>st. settle_all cl env snap (rs_ReservationID r) (sofar @ [ops ! k]) (Some ReservationStatusActive) = Some st
      \<and> held sweeps r st (op_effect cl env snap (ops ! k) ws)"
    if "r \<in> set (pl_Reservations (cycle_placements cl env snap))" for r
    using sofar(2) that held_effect settled_some by (fastforce simp del: not_None_eq simp: not_None_eq [THEN iffD1])
  ultimately show ?thesis unfolding settling_def by blast
qed


text \<open>The steps before the reservations leave the reservations alone.\<close>

lemma unused_steps:
  "unused env (applyEvent ev ws) = unused env ws"
  "unused env (applyScalingDecision d ws) = unused env ws"
  using applyEvents_reservations [of "[ev]" ws]
  by (simp_all add: unused_def applyEvents_def applyScalingDecision_def split: prod.split)

lemma making_begin:
  assumes "unused env ws" and "inj (en_resID env)"
  shows "making cl env sweeps snap (pl_Reservations (cycle_placements cl env snap)) ws"
  unfolding making_def
proof (intro exI [of _ "[]"] conjI ballI)
  fix r assume "r \<in> set (pl_Reservations (cycle_placements cl env snap))"
  then show "gget (ws_reservations ws) (rs_ReservationID r) = None"
    using cycle_reservations(2) [OF assms(2), of r cl snap] assms(1) by (auto simp: unused_def)
qed simp_all

lemma cycle_inv_own:
  assumes "inj (en_resID env)"
  shows "own_step cl env s s' \<Longrightarrow> cycle_inv cl env sweeps s \<Longrightarrow> cycle_inv cl env sweeps s'"
proof (induction rule: own_step.induct)
  case (operation k ops snap ws)
  then show ?case by (simp add: settling_step)
qed (simp_all add: unused_steps making_begin [OF _ assms] making_step [OF _ assms] settling_start)

interpretation cycle: step_system "\<lambda>s. \<exists>events ws. s = (Applying events, ws) \<and> inj (en_resID env) \<and> unused env ws"
  "cycle_step cl env sweeps" "\<lambda>s. inj (en_resID env) \<and> cycle_inv cl env sweeps s" for cl env sweeps
proof (unfold_locales, goal_cases)
  case (2 s s')
  from 2(2) show ?case
    by (cases rule: cycle_step.cases) (use 2(1) cycle_inv_own cycle_inv_sweep in \<open>blast+\<close>)
qed auto

section \<open>A cycle comes to its end\<close>

text \<open>The phase, then what the phase has left: the operations of the execution come from the plan only then.\<close>

fun cycle_work :: "'e cycle_pc \<Rightarrow> nat \<times> nat" where
  "cycle_work (Applying evs) = (4, length evs)"
| "cycle_work (Deciding snap ds) = (3, length ds)"
| "cycle_work (Reserving snap rs) = (2, length rs)"
| "cycle_work (Executing snap ops) = (1, length ops)"
| "cycle_work (Ended snap r) = (0, 0)"

lemma own_step_works: "own_step cl env s s' \<Longrightarrow> (cycle_work (fst s'), cycle_work (fst s)) \<in> less_than <*lex*> less_than"
  by (induction rule: own_step.induct) auto

lemma own_step_enabled:
  assumes "\<forall>snap r. pc \<noteq> Ended snap r"
  shows "\<exists>s'. own_step cl env (pc, ws) s'"
proof (cases pc)
  case (Applying evs)
  then show ?thesis by (cases evs) (blast intro: own_step.intros)+
next
  case (Deciding snap ds)
  then show ?thesis by (cases ds) (blast intro: own_step.intros | cases "hd ds")+
next
  case (Reserving snap rs)
  then show ?thesis by (cases rs) (blast intro: own_step.intros)+
next
  case (Executing snap ops)
  then show ?thesis by (cases ops) (blast intro: own_step.finish own_step.operation [of 0, simplified])+
qed (use assms in blast)

text \<open>
  At every instant of a cycle, whatever sweeps have run in between, the tables of the world state
  are well formed.
\<close>

lemma well_formed_at_every_instant:
  "ws_wf ws \<Longrightarrow> (cycle_step cl env sweeps)\<^sup>*\<^sup>* (Applying events, ws) (pc, ws') \<Longrightarrow> ws_wf ws'"
  using cycle_wf.reachable_inv by fastforce

section \<open>A sweep can win\<close>

lemma own_steps_cycle: "(own_step cl env)\<^sup>*\<^sup>* s s' \<Longrightarrow> (cycle_step cl env sweeps)\<^sup>*\<^sup>* s s'"
  by (rule mono_rtranclp [rule_format]) (rule cycle_step.own)

lemma settle_all_expired: "settle_all cl env snap j ops (Some ReservationStatusExpired) = Some ReservationStatusExpired"
  by (induction ops) (simp_all add: settled_def split: option.split)

text \<open>
  The executor waits for a replica as long as its own default says, since it looks for the
  reservation's TTL in the snapshot the reservation is not in; the reservation runs by its TTL. When
  that passes first, a sweep expires the reservation of a replica that is still starting: its GPUs
  count as free again although the scale-up is going to complete. Whatever the clusters answer,
  such a run exists as soon as a sweep finds the reservation overdue.
\<close>

lemma sweep_can_expire_a_starting_replica:
  fixes cl :: "'e ControlLoop"
  assumes "runCycle cl env events ws = (Inr result, ws0)" and "inj (en_resID env)" and "unused env ws"
    and "r \<in> set (pl_Reservations (cycle_placements cl env (cycle_snap env events ws)))"
    and "sweeps now" and "seconds (rs_TTLSeconds r) \<le> time_sub now (rs_CreatedAt r)"
  shows "\<exists>ws'. (cycle_step cl env sweeps)\<^sup>*\<^sup>* (Applying events, ws) (Ended (cycle_snap env events ws) (Inr result), ws')
    \<and> reservation_status ws' (rs_ReservationID r) = Some ReservationStatusExpired"
proof -
  let ?snap = "cycle_snap env events ws"
  let ?ws1 = "applyEvents events ws"
  let ?ds = "range_order (sub (en_od env) 1) (ComputeTargets (lc_scaling cl) ?snap)"
  let ?ws2 = "fold applyScalingDecision ?ds ?ws1"
  let ?rs = "pl_Reservations (cycle_placements cl env ?snap)"
  let ?ws3 = "create_all ?rs ?ws2"
  let ?ops = "started_ops (cycle_plan cl env ?snap) (cycle_result cl env ?snap)"
  let ?ws4 = "snd (ExpireStaleReservations now ?ws3)"
  let ?ws5 = "fold (op_effect cl env ?snap) ?ops ?ws4"
  have ok: "validatePlan (sub (en_od env) 4) (cycle_plan cl env ?snap) ?snap = []" "result = cycle_result cl env ?snap"
    using assms(1) unfolding runCycle_def Let_def by (auto split: if_splits)
  have s: "?snap = Snapshot (sub (en_od env) 0) (en_now env) ?ws1" by (simp add: cycle_snap_def)
  have prefix_run: "(own_step cl env)\<^sup>*\<^sup>* (Applying events, ws) (Executing ?snap ?ops, ?ws3)"
    using apply_all [of cl env events ws] own_step.snapshot [OF s, of cl] record_all [of cl env ?snap ?ds ?ws1]
      own_step.place [of cl env ?snap ?ws2] reserve_all [of cl env ?snap ?rs ?ws2] own_step.accept [OF ok(1), of ?ws3]
    by (meson rtranclp.rtrancl_into_rtrancl rtranclp_trans)
  have sweep: "cycle_step cl env sweeps (Executing ?snap ?ops, ?ws3) (Executing ?snap ?ops, ?ws4)"
    by (rule cycle_step.sweep [where sweeps = sweeps]) (rule assms)
  have fin: "(own_step cl env)\<^sup>*\<^sup>* (Executing ?snap ?ops, ?ws4) (Ended ?snap (Inr result), ?ws5)"
    using execute_all [OF refl, of cl env ?snap ?ops ?ws4] own_step.finish [of cl env ?snap ?ws5] ok(2)
    by (simp add: rtranclp.rtrancl_into_rtrancl)
  have run: "(cycle_step cl env sweeps)\<^sup>*\<^sup>* (Applying events, ws) (Ended ?snap (Inr result), ?ws5)"
    using own_steps_cycle [OF prefix_run, of sweeps] sweep own_steps_cycle [OF fin, of sweeps]
    by (meson rtranclp.rtrancl_into_rtrancl rtranclp_trans)
  have "(cycle_step cl env (\<lambda>_. False))\<^sup>*\<^sup>* (Applying events, ws) (Executing ?snap ?ops, ?ws3)"
    by (rule own_steps_cycle [OF prefix_run])
  then have "cycle_inv cl env (\<lambda>_. False) (Executing ?snap ?ops, ?ws3)"
    using cycle.reachable_inv assms(2,3) by blast
  then have made: "gget (ws_reservations ?ws3) (rs_ReservationID r) = Some (r\<lparr>rs_Status := ReservationStatusActive\<rparr>)"
    using assms(4) by (auto simp: settling_def held_def overdue_def same_terms_def)
  then have "reservation_status ?ws4 (rs_ReservationID r) = Some ReservationStatusExpired"
    using assms(6) by (simp add: reservation_status_def gget_expire_stale made) (simp add: expire_def stale_def)
  then have "reservation_status ?ws5 (rs_ReservationID r) = Some ReservationStatusExpired"
    by (simp add: fold_op_effect_status settle_all_expired)
  then show ?thesis using run by blast
qed

section \<open>Properties\<close>

text \<open>The steps say no more and no less than \<open>runCycle\<close>: run alone, from the events to its end, the
  cycle takes exactly the runs \<open>runCycle\<close> computes, one for each order in which the operations'
  goroutines reach the world state.\<close>

theorem steps_are_the_cycle:
  "(own_step cl env)\<^sup>*\<^sup>* (Applying events, ws) (Ended snap r, ws')
     \<longleftrightarrow> snap = cycle_snap env events ws \<and> (\<exists>arrival. runCycle cl (env\<lparr>en_arrival := arrival\<rparr>) events ws = (r, ws'))"
proof
  assume "(own_step cl env)\<^sup>*\<^sup>* (Applying events, ws) (Ended snap r, ws')"
  from own_steps_rest [OF this, of "[]"] obtain cs
    where "rest_of cl env cs (Applying events, ws) = (Ended snap r, ws')" by auto
  then show "snap = cycle_snap env events ws \<and> (\<exists>arrival. runCycle cl (env\<lparr>en_arrival := arrival\<rparr>) events ws = (r, ws'))"
    unfolding rest_of_start by (auto split: prod.splits)
next
  assume "snap = cycle_snap env events ws \<and> (\<exists>arrival. runCycle cl (env\<lparr>en_arrival := arrival\<rparr>) events ws = (r, ws'))"
  then obtain arrival where "snap = cycle_snap env events ws" "runCycle cl (env\<lparr>en_arrival := arrival\<rparr>) events ws = (r, ws')"
    by blast
  then have "rest_of cl env arrival (Applying events, ws) = (Ended snap r, ws')" by (simp only: rest_of_start) simp
  then show "(own_step cl env)\<^sup>*\<^sup>* (Applying events, ws) (Ended snap r, ws')"
    using start_reaches [of cl env events ws arrival] by simp
qed

text \<open>C34: Sweeps between the accesses of a cycle can only take away what is overdue. However the expiry
  goroutine is interleaved with a cycle that was executed, each reservation the cycle made is still
  there with the terms it was made with, and it is fulfilled, expired or active as the result says,
  unless its TTL passed at the time of some sweep and it is expired.\<close>

theorem sweeps_only_take_what_is_overdue:
  fixes cl :: "'e ControlLoop"
  assumes "(cycle_step cl env sweeps)\<^sup>*\<^sup>* (Applying events, ws) (Ended snap (Inr result), ws')"
    and "inj (en_resID env)" and "inj (en_opID env)"
    and "\<forall>n. en_resID env n \<noteq> '''' \<and> gget (ws_reservations ws) (en_resID env n) = None"
    and "op \<in> set (cycle_plan cl env snap)" and "op_Payload op = PayloadScaleUp su"
    and "su \<in> set (pl_ScaleUps (cycle_placements cl env snap))"
    and "r \<in> set (pl_Reservations (cycle_placements cl env snap))" and "rs_ReservationID r = su_ReservationID su"
  shows "\<exists>st. gget (ws_reservations ws') (su_ReservationID su) = Some (r\<lparr>rs_Status := st\<rparr>)
    \<and> (st = expected_status env result op su
       \<or> st = ReservationStatusExpired \<and> (\<exists>now. sweeps now \<and> seconds (rs_TTLSeconds r) \<le> time_sub now (rs_CreatedAt r)))"
proof -
  have "unused env ws" using assms(4) by (simp add: unused_def)
  then have inv: "cycle_inv cl env sweeps (Ended snap (Inr result), ws')"
    using cycle.reachable_inv [OF _ assms(1)] assms(2) by blast
  then obtain ops st where ops: "mset ops = mset (started_ops (cycle_plan cl env snap) (cycle_result cl env snap))"
    "settle_all cl env snap (rs_ReservationID r) ops (Some ReservationStatusActive) = Some st" "held sweeps r st ws'"
    using assms(8) by (auto simp: settling_def)
  have "paired (lc_placement cl) (en_resID env) snap (cycle_placements cl env snap)"
    unfolding cycle_placements_def by (rule ComputePlacement_paired)
  note ids = paired_ids(1,2) [OF this]
  have dist: "distinct (map su_ReservationID (pl_ScaleUps (cycle_placements cl env snap)))"
    using cycle_reservations(1) [OF assms(2), of cl snap] unfolding ids .
  have "su_ReservationID su \<noteq> ''''"
    using cycle_reservations(2) [OF assms(2,8)] assms(4,9) by (metis rangeE)
  from started_settle [OF assms(3) dist this assms(5,6) ops(1)]
  have "st = expected_status env result op su" using ops(2) inv assms(9) by simp
  then show ?thesis using ops(3) assms(9) by (auto simp: held_def overdue_def same_terms_def)
qed


lemma sweeps_only_take_what_is_overdue_witness:
  "\<exists>r. r \<in> set (pl_Reservations (cycle_placements sample_loop sample_env (cycle_snap sample_env sample_events place_state)))
     \<and> gget (ws_reservations (snd sample_cycle)) ''v'' = Some (r\<lparr>rs_Status := ReservationStatusFulfilled\<rparr>)"
proof -
  let ?snap = "cycle_snap sample_env sample_events place_state"
  let ?d = "cycle_placements sample_loop sample_env ?snap"
  obtain result ws' where r: "sample_cycle = (Inr result, ws')" and c: "er_Completed result = [[]]"
    using sample_cycle_value by (cases sample_cycle) (auto split: sum.splits)
  have "sample_env\<lparr>en_arrival := []\<rparr> = sample_env" by (simp add: sample_env_def)
  then have run: "(cycle_step sample_loop sample_env (\<lambda>_. False))\<^sup>*\<^sup>* (Applying sample_events, place_state) (Ended ?snap (Inr result), ws')"
    using r by (intro own_steps_cycle) (metis steps_are_the_cycle)
  have su: "hd (pl_ScaleUps ?d) \<in> set (pl_ScaleUps ?d)" "su_ReservationID (hd (pl_ScaleUps ?d)) = ''v''"
    using sample_cycle_names by (cases "pl_ScaleUps ?d"; simp)+
  obtain op where op: "op \<in> set (cycle_plan sample_loop sample_env ?snap)" "op_Payload op = PayloadScaleUp (hd (pl_ScaleUps ?d))" "op_ID op = []"
    using sample_cycle_op by (auto split: list.splits Payload.splits)
  have inj: "inj (en_resID sample_env)" "inj (en_opID sample_env)"
    using inj_sample_uid by (simp_all add: sample_env_def inj_def)
  have fresh: "\<forall>n. en_resID sample_env n \<noteq> [] \<and> gget (ws_reservations place_state) (en_resID sample_env n) = None"
    by (simp add: sample_reservations) (simp add: sample_env_def)
  have "paired (lc_placement sample_loop) (en_resID sample_env) ?snap ?d"
    unfolding cycle_placements_def by (rule ComputePlacement_paired)
  note ids = paired_ids(1,2) [OF this]
  have "''v'' \<in> set (map rs_ReservationID (pl_Reservations ?d))"
    unfolding ids(2) ids(1) [symmetric] using su by (metis image_eqI list.set_map)
  then obtain x where x: "x \<in> set (pl_Reservations ?d)" "rs_ReservationID x = su_ReservationID (hd (pl_ScaleUps ?d))"
    using su(2) by auto
  have "expected_status sample_env result op (hd (pl_ScaleUps ?d)) = ReservationStatusFulfilled"
    by (simp add: expected_status_def c op(3))
  then show ?thesis
    using sweeps_only_take_what_is_overdue [OF run inj fresh op(1,2) su(1) x] su(2) r x(1) by auto
qed

text \<open>A cycle comes to its end. In every infinite interleaving of the cycle's accesses with sweeps in which
  the cycle is given a turn again and again while it has a step to take, it reaches its end and stays
  there; so it neither runs forever nor is blocked by the sweeps.\<close>

theorem cycle_ends:
  assumes "\<forall>i. cycle_step cl env sweeps (run i) (run (Suc i))"
    and "\<forall>i. (\<exists>s'. own_step cl env (run i) s') \<longrightarrow> (\<exists>k \<ge> i. own_step cl env (run k) (run (Suc k)))"
  shows "\<exists>N snap r. \<forall>k \<ge> N. fst (run k) = Ended snap r"
proof -
  let ?work = "\<lambda>i. cycle_work (fst (run i))" and ?less = "less_than <*lex*> less_than"
  obtain N where N: "\<And>i. (?work i, ?work N) \<notin> ?less"
  proof -
    obtain z where "z \<in> range ?work" "\<And>y. (y, z) \<in> ?less \<Longrightarrow> y \<notin> range ?work"
      by (rule wfE_min [of ?less "?work 0" "range ?work"]) auto
    then show ?thesis using that by blast
  qed
  have stays: "fst (run k) = fst (run N)" if "N \<le> k" for k
    using that
  proof (induction k rule: dec_induct)
    case (step k)
    from assms(1) [rule_format, of k] show ?case
      by (cases rule: cycle_step.cases) (use step.IH own_step_works [of cl env "run k" "run (Suc k)"] N [of "Suc k"] in auto)
  qed simp
  have "\<not> own_step cl env (run k) (run (Suc k))" if "N \<le> k" for k
    using own_step_works [of cl env "run k" "run (Suc k)"] N [of "Suc k"] stays [OF that] by auto
  then have "\<nexists>s'. own_step cl env (run N) s'" using assms(2) by blast
  then obtain snap r where "fst (run N) = Ended snap r"
    using own_step_enabled [of "fst (run N)" cl env "snd (run N)"] by auto
  then show ?thesis using stays by metis
qed

lemma cycle_ends_witness:
  "\<exists>N snap r. \<forall>k \<ge> N. fst (case_nat (Executing place_snap [], New)
     (\<lambda>_. (Ended place_snap (Inr (cycle_result sample_loop sample_env place_snap)), New)) k) = Ended snap r"
proof (rule cycle_ends [of sample_loop sample_env "\<lambda>_. True"]; intro allI impI)
  let ?run = "case_nat (Executing place_snap [], New)
     (\<lambda>_. (Ended place_snap (Inr (cycle_result sample_loop sample_env place_snap)), New)) :: nat \<Rightarrow> string cycle_state"
  have New: "snd (ExpireStaleReservations 0 New) = New" by (simp add: ExpireStaleReservations_def New_def count_vals_def)
  show "cycle_step sample_loop sample_env (\<lambda>_. True) (?run i) (?run (Suc i))" for i
    using cycle_step.sweep [of "\<lambda>_. True" 0 sample_loop sample_env _ New]
    by (cases i) (simp_all add: New cycle_step.own own_step.finish)
  show "\<exists>k \<ge> i. own_step sample_loop sample_env (?run k) (?run (Suc k))" if "\<exists>s'. own_step sample_loop sample_env (?run i) s'" for i
  proof (cases i)
    case 0
    have "own_step sample_loop sample_env (?run 0) (?run (Suc 0))" by (simp add: own_step.finish)
    then show ?thesis unfolding 0 by blast
  next
    case (Suc n)
    then show ?thesis using that by (simp add: ended_simp)
  qed
qed

end
