(* ===== verification/LoadSimulator.thy ===== *)
theory LoadSimulator
  imports Scaling ApiServer
begin

text \<open>
  \<open>scripts/simulate_load.go\<close>: a client of the API that plays the load of an application. Every tick it
  asks how many replicas run, divides the load among them, and posts the average queue as metrics.
  Requests that fail are error texts; printing is left out.
\<close>

section \<open>The parameters and the load\<close>

record Flags =
  fg_app :: string
  fg_load :: f64
  fg_burst_load :: f64
  fg_burst_after :: duration
  fg_burst_duration :: duration

definition default_flags :: Flags where
  "default_flags = \<lparr>fg_app = ''llama-70b'', fg_load = Fin 5, fg_burst_load = Fin 50,
     fg_burst_after = seconds 5, fg_burst_duration = seconds 30\<rparr>"

definition in_burst :: "Flags \<Rightarrow> duration \<Rightarrow> bool" where
  "in_burst flags elapsed \<longleftrightarrow>
     fg_burst_after flags < elapsed \<and> elapsed < wrap64 (fg_burst_after flags + fg_burst_duration flags)"

definition currentTotalLoad :: "Flags \<Rightarrow> duration \<Rightarrow> f64" where
  "currentTotalLoad flags elapsed = (if in_burst flags elapsed then fg_burst_load flags else fg_load flags)"

section \<open>The requests\<close>

text \<open>
  The script reads the statuses as texts. Only an answer with the state decodes to an object with
  replicas; an error text does not decode, and other answers have no replicas.
\<close>

fun status_text :: "ReplicaStatus \<Rightarrow> string" where
  "status_text ReplicaStatusPending = ''pending''"
| "status_text ReplicaStatusRunning = ''running''"
| "status_text ReplicaStatusDraining = ''draining''"
| "status_text ReplicaStatusTerminated = ''terminated''"

definition getRunningReplicaCount :: "string + response \<Rightarrow> AppID \<Rightarrow> int" where
  "getRunningReplicaCount answer appID =
     (case answer of
        Inl e \<Rightarrow> 0
      | Inr r \<Rightarrow> (case hr_Body r of
          JsonState snap \<Rightarrow> int (length (filter (\<lambda>(_, r). rp_AppID r = appID \<and> status_text (rp_Status r) = ''Running'')
            (sn_Replicas snap)))
        | _ \<Rightarrow> 0))"

text \<open>
  What the server decodes of the posted body. \<open>json.Marshal\<close> has no text for infinities and NaN; the
  script drops that error and posts an empty body, which is an error to the server.
\<close>

definition injectMetrics :: "AppID \<Rightarrow> f64 \<Rightarrow> time \<Rightarrow> string + VLLMMetrics" where
  "injectMetrics appID queueDepth now =
     (case queueDepth of
        Fin q \<Rightarrow> Inr \<lparr>vm_AppID = appID, vm_AggregatedFrom = 0, vm_AvgWaitingQueueDepth = queueDepth,
          vm_MaxWaitingQueueDepth = f_zero, vm_AvgRunningQueueDepth = f_zero, vm_AvgBatchUtilization = f_zero,
          vm_AvgKVCacheUtilization = f_zero, vm_MaxKVCacheUtilization = f_zero, vm_TotalTokensPerSecond = f_zero,
          vm_AvgTimeToFirstTokenMs = f_zero, vm_P99TimeToFirstTokenMs = f_zero, vm_MeasuredAt = now\<rparr>
      | _ \<Rightarrow> Inl ''EOF'')"

section \<open>The loop\<close>

definition avgQueueDepth :: "Flags \<Rightarrow> duration \<Rightarrow> int \<Rightarrow> f64" where
  "avgQueueDepth flags elapsed runningCount =
     f_div (currentTotalLoad flags elapsed) (f_of_int (if runningCount = 0 then 1 else runningCount))"

text \<open>A tick: the time since the start, the answer to the first request, and the time of the second.\<close>

datatype sim_input = Tick duration "string + response" time | Interrupt

fun simulate :: "Flags \<Rightarrow> sim_input list \<Rightarrow> (string + VLLMMetrics) list" where
  "simulate flags (Tick elapsed answer now # ins) =
     injectMetrics (fg_app flags) (avgQueueDepth flags elapsed (getRunningReplicaCount answer (fg_app flags))) now
       # simulate flags ins"
| "simulate flags (Interrupt # ins) = []"
| "simulate flags [] = []"

section \<open>The script against the server\<close>

text \<open>The names the server gives the statuses are in lower case: the script never finds a running replica.\<close>

lemma no_replica_is_found [simp]: "getRunningReplicaCount answer appID = 0"
proof -
  have "status_text st \<noteq> ''Running''" for st by (cases st) simp_all
  then show ?thesis by (simp add: getRunningReplicaCount_def split: sum.split body.split)
qed

lemma simulate_ticks:
  "simulate flags (map (\<lambda>(elapsed, answer, now). Tick elapsed answer now) ticks)
     = map (\<lambda>(elapsed, answer, now). injectMetrics (fg_app flags) (avgQueueDepth flags elapsed 0) now) ticks"
  by (induction ticks) auto

lemma avgQueueDepth_whole: "avgQueueDepth flags elapsed 0 = f_div (currentTotalLoad flags elapsed) f_one"
proof -
  have "f_of_int 1 = f_one" by code_simp
  then show ?thesis by (simp add: avgQueueDepth_def)
qed

section \<open>Properties\<close>

text \<open>The simulated load is not shared among the replicas: whatever the server answers, so however many
  replicas of the application run, during the default burst the metrics the server hands to the
  ingester report the whole load of 50 as the average queue, and with the default configuration the
  scaling engine answers each of them by at least doubling the application, up to ten replicas a cycle.\<close>

theorem simulated_burst_ignores_the_replicas:
  assumes "in_burst default_flags elapsed" and "\<not> is_zero_time now" and "0 < current" and "current \<le> 2 ^ 30"
  shows "\<exists>m. map (snd \<circ> handleInjectMetrics server_now) (simulate default_flags [Tick elapsed answer now])
      = [Some ((event EventMetricsUpdate now)\<lparr>ev_AppID := ''llama-70b'', ev_VLLMMetrics := Some m\<rparr>)]
    \<and> vm_AvgWaitingQueueDepth m = Fin 50
    \<and> min (2 * current) (current + 10) \<le> fst (computeTargetReplicas DefaultScalingConfig app m current)"
proof -
  have depth: "avgQueueDepth default_flags elapsed 0 = Fin 50"
  proof -
    have "f_div (Fin 50) f_one = Fin 50" by code_simp
    moreover have "currentTotalLoad default_flags elapsed = Fin 50"
      using assms(1) by (simp add: currentTotalLoad_def default_flags_def)
    ultimately show ?thesis by (simp add: avgQueueDepth_whole)
  qed
  obtain m where m: "injectMetrics ''llama-70b'' (Fin 50) now = Inr m" "vm_AvgWaitingQueueDepth m = Fin 50"
    "vm_MeasuredAt m = now" "vm_AppID m = ''llama-70b''"
    by (simp add: injectMetrics_def)
  have "min (2 * current) (current + 10) \<le> fst (computeTargetReplicas DefaultScalingConfig app m current)"
    by (rule queue_doubles [OF assms(3,4) m(2)]) simp_all
  moreover have "fg_app default_flags = ''llama-70b''" by (simp add: default_flags_def)
  ultimately show ?thesis
    using m assms(2) depth by (intro exI [of _ m]) (simp add: handleInjectMetrics_def)
qed

lemma simulated_burst_ignores_the_replicas_witness:
  "\<exists>m. map (snd \<circ> handleInjectMetrics 9) (simulate default_flags [Tick (seconds 6) (Inr (handleState (\<lambda>_. []) 7 New)) 8])
      = [Some ((event EventMetricsUpdate 8)\<lparr>ev_AppID := ''llama-70b'', ev_VLLMMetrics := Some m\<rparr>)]
    \<and> vm_AvgWaitingQueueDepth m = Fin 50
    \<and> min (2 * 3) (3 + 10) \<le> fst (computeTargetReplicas DefaultScalingConfig sample_app m 3)"
proof (rule simulated_burst_ignores_the_replicas)
  show "in_burst default_flags (seconds 6)" by code_simp
  show "\<not> is_zero_time 8" by code_simp
qed simp_all

end
